(* ===== verification/Prelude.thy ===== *)
theory Prelude
  imports Main "HOL-Library.Word" "HOL-Library.Signed_Division"
begin

text \<open>
  Shared vocabulary of the development: the machine-integer types of the C++ sources, the
  outcome type of an operation that may abort, the iteration loops with an explicit
  divergence outcome, and the model of \<open>std::map\<close> as a key-sorted association list,
  stated as a locale so that the components use its laws only.
\<close>

unbundle bit_operations_syntax

type_synonym u8 = "8 word"
type_synonym u16 = "16 word"
type_synonym u32 = "32 word"
type_synonym u64 = "64 word"

named_theorems res_simps \<open>evaluation of the outcome type\<close>
named_theorems codec_simps \<open>byte-level encoders and decoders\<close>

section \<open>Outcomes\<close>

text \<open>
  The sources stop a simulation in five ways: \<open>NS_ASSERT\<close> (debug builds),
  \<open>NS_ABORT\<close>, \<open>NS_FATAL_ERROR\<close>, a range-checked container access that throws, and
  undefined behaviour (null dereference, access to an empty container).  A loop that does not
  end is an outcome of its own, and so is a 32-bit sum that wraps around where the model counts in
  natural numbers.
\<close>

datatype rt_error =
    NsAssert
  | NsAbort
  | NsFatal
  | OutOfRange
  | UndefinedBehaviour
  | SizeOverflow
  | Diverges

type_synonym 'a res = "rt_error + 'a"

definition rbind :: "'a res \<Rightarrow> ('a \<Rightarrow> 'b res) \<Rightarrow> 'b res" where
  "rbind m f = (case m of Inl e \<Rightarrow> Inl e | Inr x \<Rightarrow> f x)"

definition rguard :: "rt_error \<Rightarrow> bool \<Rightarrow> 'a res \<Rightarrow> 'a res" where
  "rguard e b m = (if b then m else Inl e)"

text \<open>Short-circuit conjunction and disjunction of tests that may themselves stop.\<close>

definition rand :: "bool res \<Rightarrow> bool res \<Rightarrow> bool res" where
  "rand a b = rbind a (\<lambda>x. if x then b else Inr False)"

definition ror :: "bool res \<Rightarrow> bool res \<Rightarrow> bool res" where
  "ror a b = rbind a (\<lambda>x. if x then Inr True else b)"

definition is_ok :: "'a res \<Rightarrow> bool" where
  "is_ok m = (case m of Inl _ \<Rightarrow> False | Inr _ \<Rightarrow> True)"

lemma rbind_Inr [simp, res_simps]: "rbind (Inr x) f = f x"
  by (simp add: rbind_def)

lemma rbind_Inl [simp, res_simps]: "rbind (Inl e) f = Inl e"
  by (simp add: rbind_def)

lemma rbind_eq_Inr: "rbind m f = Inr y \<longleftrightarrow> (\<exists>x. m = Inr x \<and> f x = Inr y)"
  by (cases m) (auto simp: rbind_def)

lemma rbind_eq_Inl: "rbind m f = Inl e \<longleftrightarrow> m = Inl e \<or> (\<exists>x. m = Inr x \<and> f x = Inl e)"
  by (cases m) (auto simp: rbind_def)

lemma rbind_assoc: "rbind (rbind m f) g = rbind m (\<lambda>x. rbind (f x) g)"
  by (cases m) (auto simp: rbind_def)

lemma rguard_True [simp, res_simps]: "rguard e True m = m"
  by (simp add: rguard_def)

lemma rguard_False [simp, res_simps]: "rguard e False m = Inl e"
  by (simp add: rguard_def)

lemma rguard_eq_Inr: "rguard e b m = Inr y \<longleftrightarrow> b \<and> m = Inr y"
  by (simp add: rguard_def)

lemma rand_simps [simp, res_simps]:
  "rand (Inr True) b = b" "rand (Inr False) b = Inr False" "rand (Inl e) b = Inl e"
  by (simp_all add: rand_def)

lemma ror_simps [simp, res_simps]:
  "ror (Inr True) b = Inr True" "ror (Inr False) b = b" "ror (Inl e) b = Inl e"
  by (simp_all add: ror_def)

lemma rand_Inr_Inr [simp, res_simps]: "rand (Inr a) (Inr b) = Inr (a \<and> b)"
  by (cases a) simp_all

lemma ror_Inr_Inr [simp, res_simps]: "ror (Inr a) (Inr b) = Inr (a \<or> b)"
  by (cases a) simp_all

lemma is_ok_simps [simp, res_simps]: "is_ok (Inr x)" "\<not> is_ok (Inl e)"
  by (simp_all add: is_ok_def)

lemma is_ok_iff: "is_ok m \<longleftrightarrow> (\<exists>x. m = Inr x)"
  by (cases m) (auto simp: is_ok_def)

section \<open>Machine integers\<close>

text \<open>The C++ remainder truncates; modulo the divisor it agrees with Isabelle's.\<close>

lemma smod_mod_eq: "(x smod m) mod m = x mod (m :: int)"
proof -
  have "x = x smod m + (x sdiv m) * m"
    by (metis add.commute sdiv_mult_smod_eq)
  then have "x mod m = (x smod m + (x sdiv m) * m) mod m"
    by simp
  then show ?thesis
    by simp
qed

lemma smod_nonneg: "0 \<le> x \<Longrightarrow> 0 < m \<Longrightarrow> x smod m = x mod (m :: int)"
  by (simp add: signed_modulo_int_def) (metis abs_of_pos abs_zero less_le mod_0 mult_1 mult_zero_left sgn_pos)

lemma uint_u16_less: "uint (w :: u16) < 65536"
  using uint_lt2p [of w] by simp

lemma uint_u16_mod1024: "uint ((w :: u16) mod 1024) = uint w mod 1024"
  by (simp add: uint_mod)

lemma unat_u16_mod1024: "unat ((w :: u16) mod 1024) = unat w mod 1024"
  by (simp add: unat_mod)

lemma unat_ucast_u16_u32 [simp]: "unat (ucast (w :: u16) :: u32) = unat w"
proof -
  have "unat w < 65536"
    using unsigned_less [of w, where 'a = nat] by simp
  then show ?thesis
    by (simp add: unsigned_ucast_eq take_bit_nat_eq_self)
qed

lemma unat_of_nat_u16: "n < 65536 \<Longrightarrow> unat (of_nat n :: u16) = n"
  by (simp add: unat_of_nat take_bit_nat_eq_self)

lemma unat_of_nat_u32: "n < 2 ^ 32 \<Longrightarrow> unat (of_nat n :: u32) = n"
  by (simp add: unat_of_nat take_bit_nat_eq_self)

subsection \<open>Bit masks\<close>

text \<open>
  Byte encoders are proved bit by bit.  A mask constant is rewritten to \<^const>\<open>mask\<close> or
  \<^const>\<open>push_bit\<close> of one, a one-bit constant to the position of its bit.
\<close>

lemma bit_single [codec_simps]:
  "bit (128 :: int) n \<longleftrightarrow> n = 7"
  "bit (64 :: int) n \<longleftrightarrow> n = 6"
  "bit (32 :: int) n \<longleftrightarrow> n = 5"
  "bit (16 :: int) n \<longleftrightarrow> n = 4"
  "bit (8 :: int) n \<longleftrightarrow> n = 3"
  "bit (4 :: int) n \<longleftrightarrow> n = 2"
  "bit (2 :: int) n \<longleftrightarrow> n = 1"
  using bit_exp_iff [where 'a = int, of 7 n] bit_exp_iff [where 'a = int, of 6 n]
    bit_exp_iff [where 'a = int, of 5 n] bit_exp_iff [where 'a = int, of 4 n]
    bit_exp_iff [where 'a = int, of 3 n] bit_exp_iff [where 'a = int, of 2 n]
    bit_exp_iff [where 'a = int, of 1 n]
  by simp_all

lemma mask_constants:
  "(0x01 :: u32) = mask 1" "(0x03 :: u32) = mask 2" "(0x07 :: u32) = mask 3"
  "(0x0F :: u32) = mask 4" "(0x1F :: u32) = mask 5" "(0x7F :: u32) = mask 7"
  "(0xFF :: u32) = mask 8" "(0xF0 :: u32) = push_bit 4 (mask 4)"
  "(0x18 :: u32) = push_bit 3 (mask 2)" "(0xE0 :: u32) = push_bit 5 (mask 3)"
  "(0xF00 :: u32) = push_bit 8 (mask 4)" "(0xFF00 :: u32) = push_bit 8 (mask 8)"
  by (simp_all add: mask_eq_exp_minus_1)

lemma bit_u16_bound:
  assumes "unat (x :: u16) < 2 ^ k" "bit x n"
  shows "n < k"
proof (rule ccontr)
  assume "\<not> n < k"
  have "take_bit k (unat x) = unat x"
    using assms(1) by (simp add: take_bit_nat_eq_self)
  then have "bit (unat x) n = bit (take_bit k (unat x)) n"
    by simp
  with assms(2) \<open>\<not> n < k\<close> show False
    by (simp add: bit_take_bit_iff bit_unsigned_iff)
qed

lemma bit_u8_bound:
  assumes "unat (x :: u8) < 2 ^ k" "bit x n"
  shows "n < k"
proof (rule ccontr)
  assume "\<not> n < k"
  have "take_bit k (unat x) = unat x"
    using assms(1) by (simp add: take_bit_nat_eq_self)
  then have "bit (unat x) n = bit (take_bit k (unat x)) n"
    by simp
  with assms(2) \<open>\<not> n < k\<close> show False
    by (simp add: bit_take_bit_iff bit_unsigned_iff)
qed

section \<open>\<open>std::map\<close>\<close>

text \<open>
  A \<open>std::map\<close> is the list of its entries in ascending key order, which is the order its
  iterators follow.  \<open>map_put\<close> is \<open>operator[]\<close> followed by an assignment, \<open>map_erase\<close> is
  \<open>erase\<close> of the entry of a key; \<open>find\<close> is the library's \<^const>\<open>map_of\<close>.
\<close>

type_synonym ('k, 'v) std_map = "('k \<times> 'v) list"

fun map_put :: "'k::linorder \<Rightarrow> 'v \<Rightarrow> ('k, 'v) std_map \<Rightarrow> ('k, 'v) std_map" where
  "map_put k v [] = [(k, v)]"
| "map_put k v ((k', v') # m) =
     (if k < k' then (k, v) # (k', v') # m
      else if k = k' then (k, v) # m
      else (k', v') # map_put k v m)"

fun map_erase :: "'k \<Rightarrow> ('k, 'v) std_map \<Rightarrow> ('k, 'v) std_map" where
  "map_erase k [] = []"
| "map_erase k ((k', v') # m) = (if k = k' then m else (k', v') # map_erase k m)"

definition map_count :: "'k \<Rightarrow> ('k, 'v) std_map \<Rightarrow> bool" where
  "map_count k m = (map_of m k \<noteq> None)"

definition map_wf :: "('k::linorder, 'v) std_map \<Rightarrow> bool" where
  "map_wf m = (sorted_wrt (<) (map fst m))"

lemma map_wf_Nil [simp]: "map_wf []"
  by (simp add: map_wf_def)

lemma map_wf_Cons [simp]:
  "map_wf ((k, v) # m) \<longleftrightarrow> (\<forall>k' \<in> fst ` set m. k < k') \<and> map_wf m"
  by (auto simp: map_wf_def)

lemma map_wf_distinct: "map_wf m \<Longrightarrow> distinct (map fst m)"
  by (induction m) force+

lemma map_of_put: "map_of (map_put k v m) = (map_of m)(k \<mapsto> v)"
  by (induction m) (auto simp: fun_eq_iff)

lemma dom_keys: "dom (map_of m) = fst ` set m"
  by (rule dom_map_of_conv_image_fst)

lemma keys_put: "fst ` set (map_put k v m) = insert k (fst ` set m)"
  using map_of_put [of k v m] by (metis dom_fun_upd dom_keys option.discI)

lemma map_wf_put: "map_wf m \<Longrightarrow> map_wf (map_put k v m)"
proof (induction m)
  case (Cons e m)
  obtain a b where "e = (a, b)" by (cases e)
  with Cons show ?case
    by (cases "k < a"; cases "k = a") (auto simp: keys_put)
qed simp

lemma map_of_erase: "map_wf m \<Longrightarrow> map_of (map_erase k m) = (map_of m)(k := None)"
proof (induction m)
  case (Cons e m)
  obtain a b where e: "e = (a, b)" by (cases e)
  with Cons have "map_of m a = None"
    by (metis map_of_eq_None_iff map_wf_Cons order_less_irrefl)
  with Cons e show ?case
    by (auto simp: fun_eq_iff)
qed auto

lemma keys_erase: "map_wf m \<Longrightarrow> fst ` set (map_erase k m) = fst ` set m - {k}"
  using map_of_erase [of m k] by (metis dom_fun_upd dom_keys)

lemma map_wf_erase: "map_wf m \<Longrightarrow> map_wf (map_erase k m)"
proof (induction m)
  case (Cons e m)
  obtain a b where "e = (a, b)" by (cases e)
  with Cons show ?case by (auto simp: keys_erase)
qed simp

lemma map_erase_hd: "map_erase k ((k, v) # m) = m"
  by simp

text \<open>Entries above all keys are put and erased at the end.\<close>

lemma map_put_last: "\<forall>k' \<in> fst ` set m. k' < k \<Longrightarrow> map_put k v m = m @ [(k, v)]"
  by (induction k v m rule: map_put.induct) auto

lemma map_erase_last: "k \<notin> fst ` set m \<Longrightarrow> map_erase k (m @ [(k, v)]) = m"
  by (induction k m rule: map_erase.induct) auto

lemma map_count_iff: "map_count k m \<longleftrightarrow> k \<in> fst ` set m"
  by (auto simp: map_count_def simp flip: dom_keys)

lemma length_map_wf: "map_wf m \<Longrightarrow> length m = card (fst ` set m)"
  by (metis distinct_card length_map map_wf_distinct set_map)

lemma length_map_put:
  "map_wf m \<Longrightarrow> length (map_put k v m) = (if map_count k m then length m else Suc (length m))"
  by (simp add: length_map_wf map_wf_put keys_put map_count_iff card_insert_if insert_absorb)

text \<open>
  The interface the reception code uses: a finite map with an ordered traversal.  Its laws
  are those of \<open>std::map\<close>; the lemmas below are what the clients need.
\<close>

locale ordered_map =
  fixes empty :: "'m"
    and put :: "'k::linorder \<Rightarrow> 'v \<Rightarrow> 'm \<Rightarrow> 'm"
    and erase :: "'k \<Rightarrow> 'm \<Rightarrow> 'm"
    and find :: "'m \<Rightarrow> 'k \<Rightarrow> 'v option"
    and keys :: "'m \<Rightarrow> 'k list"
    and wf :: "'m \<Rightarrow> bool"
  assumes wf_empty: "wf empty"
    and wf_put: "wf m \<Longrightarrow> wf (put k v m)"
    and wf_erase: "wf m \<Longrightarrow> wf (erase k m)"
    and find_empty: "find empty = Map.empty"
    and find_put: "wf m \<Longrightarrow> find (put k v m) = (find m)(k \<mapsto> v)"
    and find_erase: "wf m \<Longrightarrow> find (erase k m) = (find m)(k := None)"
    and keys_sorted: "wf m \<Longrightarrow> sorted_wrt (<) (keys m)"
    and keys_dom: "wf m \<Longrightarrow> set (keys m) = dom (find m)"
begin

lemma find_put_other: "wf m \<Longrightarrow> k \<noteq> k' \<Longrightarrow> find (put k v m) k' = find m k'"
  by (simp add: find_put)

lemma find_put_same: "wf m \<Longrightarrow> find (put k v m) k = Some v"
  by (simp add: find_put)

lemma find_erase_same: "wf m \<Longrightarrow> find (erase k m) k = None"
  by (simp add: find_erase)

lemma dom_erase: "wf m \<Longrightarrow> dom (find (erase k m)) = dom (find m) - {k}"
  by (simp add: find_erase)

lemma dom_put: "wf m \<Longrightarrow> dom (find (put k v m)) = insert k (dom (find m))"
  by (simp add: find_put)

lemma finite_dom: "wf m \<Longrightarrow> finite (dom (find m))"
  by (metis keys_dom List.finite_set)

lemma card_dom_le: "wf m \<Longrightarrow> card (dom (find m)) \<le> length (keys m)"
  by (metis keys_dom card_length)

text \<open>Erasing what was put restores the lookups of a key that was absent.\<close>

lemma erase_put: "wf m \<Longrightarrow> find m k = None \<Longrightarrow> find (erase k (put k v m)) = find m"
  by (simp add: find_erase find_put wf_put fun_upd_idem)

text \<open>Pigeonhole: a set of candidate keys larger than the map has a free one.\<close>

lemma free_key:
  assumes "wf m" and "length (keys m) < card K" and "finite K"
  shows "\<exists>k \<in> K. find m k = None"
proof (rule ccontr)
  assume "\<not> ?thesis"
  then have "K \<subseteq> dom (find m)" by auto
  with assms have "card K \<le> card (dom (find m))"
    by (intro card_mono finite_dom)
  with assms card_dom_le show False
    by fastforce
qed

end

interpretation smap: ordered_map "[]" map_put map_erase map_of "map fst" map_wf
  by unfold_locales
    (auto simp: map_wf_put map_wf_erase map_of_put map_of_erase dom_keys simp flip: map_wf_def)

end
