(* ===== verification/IpHeaders.thy ===== *)
theory IpHeaders
  imports Packet
begin

text \<open>
  The headers that the classification of packets reads: \<open>Ipv4Header\<close>, \<open>Ipv6Header\<close>, \<open>UdpHeader\<close> and
  the fixed part of \<open>TcpHeader\<close> (\<open>src/src/internet/model\<close>), without checksums, as their
  constructors leave it, and the network-order integers of \<open>Buffer::Iterator\<close>.
\<close>

section \<open>Network order\<close>

definition WriteHtonU16 :: "u16 \<Rightarrow> u8 list" where
  "WriteHtonU16 x = [ucast (drop_bit 8 x), ucast x]"

definition WriteHtonU32 :: "u32 \<Rightarrow> u8 list" where
  "WriteHtonU32 x = [ucast (drop_bit 24 x), ucast (drop_bit 16 x), ucast (drop_bit 8 x), ucast x]"

definition ReadNtohU16 :: "u8 \<Rightarrow> u8 \<Rightarrow> u16" where
  "ReadNtohU16 a b = push_bit 8 (ucast a) OR ucast b"

definition u32_of :: "u8 \<Rightarrow> u8 \<Rightarrow> u8 \<Rightarrow> u8 \<Rightarrow> u32" where
  "u32_of a b c d =
     push_bit 8 (push_bit 8 (push_bit 8 (ucast a) OR ucast b) OR ucast c) OR ucast d"

lemma Ntoh_Hton_U16: "ReadNtohU16 (ucast (drop_bit 8 x)) (ucast x) = x"
  unfolding ReadNtohU16_def
  by (rule bit_word_eqI) (auto simp: bit_simps dest: bit_imp_le_length)

lemma Ntoh_Hton_U32: "u32_of (ucast (drop_bit 24 x)) (ucast (drop_bit 16 x)) (ucast (drop_bit 8 x)) (ucast x) = x"
proof (rule bit_word_eqI)
  fix n assume "n < LENGTH(32)"
  consider "n < 8" | "8 \<le> n" "n < 16" | "16 \<le> n" "n < 24" | "24 \<le> n" by linarith
  then show "bit (u32_of (ucast (drop_bit 24 x)) (ucast (drop_bit 16 x)) (ucast (drop_bit 8 x)) (ucast x)) n = bit x n"
    using \<open>n < LENGTH(32)\<close> by cases (simp_all add: u32_of_def bit_simps, auto)
qed

section \<open>IPv4\<close>

type_synonym ipv4 = u32

record ipv4_header =
  ip_tos :: u8
  ip_payloadSize :: u16
  ip_identification :: u16
  ip_flags :: u8
  ip_fragmentOffset :: u16
  ip_ttl :: u8
  ip_protocol :: u8
  ip_checksum :: u16
  ip_source :: ipv4
  ip_destination :: ipv4
  ip_headerSize :: u16

text \<open>An \<open>Ipv4Address\<close> that was not set is 102.102.102.102.\<close>

definition Ipv4Header :: ipv4_header where
  "Ipv4Header = \<lparr>ip_tos = 0, ip_payloadSize = 0, ip_identification = 0, ip_flags = 0, ip_fragmentOffset = 0,
     ip_ttl = 0, ip_protocol = 0, ip_checksum = 0, ip_source = 0x66666666, ip_destination = 0x66666666,
     ip_headerSize = 20\<rparr>"

definition DONT_FRAGMENT :: u8 where "DONT_FRAGMENT = 1"
definition MORE_FRAGMENTS :: u8 where "MORE_FRAGMENTS = 2"

definition IsLastFragment :: "ipv4_header \<Rightarrow> bool" where
  "IsLastFragment h \<longleftrightarrow> \<not> (ip_flags h AND MORE_FRAGMENTS \<noteq> 0)"

definition enc_flags :: "u8 \<Rightarrow> u16 \<Rightarrow> u8" where
  "enc_flags flags off =
     (let f = ucast (drop_bit 8 (off div 8)) AND 0x1f;
          f = (if flags AND DONT_FRAGMENT \<noteq> 0 then f OR 64 else f) in
      if flags AND MORE_FRAGMENTS \<noteq> 0 then f OR 32 else f)"

definition dec_flags :: "u8 \<Rightarrow> u8" where
  "dec_flags b = (if b AND 64 \<noteq> 0 then DONT_FRAGMENT else 0) OR (if b AND 32 \<noteq> 0 then MORE_FRAGMENTS else 0)"

definition dec_offset :: "u8 \<Rightarrow> u8 \<Rightarrow> u16" where
  "dec_offset a b = push_bit 3 (push_bit 8 (ucast (a AND 0x1f)) OR ucast b)"

definition Ipv4Header_Serialize :: "ipv4_header \<Rightarrow> u8 list" where
  "Ipv4Header_Serialize h =
     [0x45, ip_tos h] @ WriteHtonU16 (ip_payloadSize h + 20) @ WriteHtonU16 (ip_identification h) @
     [enc_flags (ip_flags h) (ip_fragmentOffset h), ucast (ip_fragmentOffset h div 8), ip_ttl h, ip_protocol h, 0, 0] @
     WriteHtonU32 (ip_source h) @ WriteHtonU32 (ip_destination h)"

definition Ipv4Header_Deserialize :: "ipv4_header \<Rightarrow> u8 list \<Rightarrow> (ipv4_header \<times> nat) res" where
  "Ipv4Header_Deserialize h bs =
     (case bs of
        [] \<Rightarrow> Inl NsAssert
      | verIhl # _ \<Rightarrow>
          let headerSize = (ucast (verIhl AND 0x0f) * 4 :: u16) in
          if drop_bit 4 verIhl \<noteq> 4 then Inr (h, 0)
          else if length bs < 20 then Inl NsAssert
          else Inr (\<lparr>ip_tos = bs ! 1, ip_payloadSize = ReadNtohU16 (bs ! 2) (bs ! 3) - headerSize,
                     ip_identification = ReadNtohU16 (bs ! 4) (bs ! 5), ip_flags = dec_flags (bs ! 6),
                     ip_fragmentOffset = dec_offset (bs ! 6) (bs ! 7), ip_ttl = bs ! 8, ip_protocol = bs ! 9,
                     ip_checksum = push_bit 8 (ucast (bs ! 11)) OR ucast (bs ! 10),
                     ip_source = u32_of (bs ! 12) (bs ! 13) (bs ! 14) (bs ! 15),
                     ip_destination = u32_of (bs ! 16) (bs ! 17) (bs ! 18) (bs ! 19),
                     ip_headerSize = headerSize\<rparr>, unat headerSize))"

text \<open>What a header loses: the flags that are not stored, the low bits of the offset, the checksum.\<close>

definition ipv4_wf :: "ipv4_header \<Rightarrow> bool" where
  "ipv4_wf h \<longleftrightarrow> ip_flags h < 4 \<and> unat (ip_fragmentOffset h) mod 8 = 0 \<and> ip_checksum h = 0 \<and> ip_headerSize h = 20"

lemma u8_less4: "x < 4 \<Longrightarrow> x = 0 \<or> x = 1 \<or> x = 2 \<or> x = (3 :: u8)"
proof -
  assume "x < 4"
  then have "unat x < 4" by (simp add: word_less_nat_alt)
  then have "unat x = 0 \<or> unat x = 1 \<or> unat x = 2 \<or> unat x = 3" by linarith
  then show ?thesis by (simp add: word_unat_eq_iff)
qed

lemma enc_flags_bits: "flags < 4 \<Longrightarrow> dec_flags (enc_flags flags off) = flags"
proof -
  have 1: "(ucast (drop_bit 8 (off div 8)) AND 0x1f) AND (64 :: u8) = 0"
    "(ucast (drop_bit 8 (off div 8)) AND 0x1f) AND (32 :: u8) = 0"
    by (simp_all add: and.assoc)
  assume "flags < 4"
  then consider "flags = 0" | "flags = 1" | "flags = 2" | "flags = 3" using u8_less4 by blast
  then show ?thesis
    by cases (simp_all add: enc_flags_def dec_flags_def DONT_FRAGMENT_def MORE_FRAGMENTS_def Let_def 1
        bit.conj_disj_distrib2 bit.conj_disj_distrib)
qed

lemma enc_flags_low: "enc_flags flags off AND 0x1f = ucast (drop_bit 8 (off div 8)) AND 0x1f"
  by (simp add: enc_flags_def Let_def DONT_FRAGMENT_def MORE_FRAGMENTS_def bit.conj_disj_distrib2 and.assoc)

lemma dec_enc_offset:
  assumes "unat off mod 8 = 0"
  shows "dec_offset (enc_flags flags off) (ucast (off div 8)) = off"
proof -
  have "take_bit 3 off = 0"
    using assms by (simp add: take_bit_eq_mod word_unat_eq_iff unat_mod)
  then have low: "\<not> bit off n" if "n < 3" for n
    using that by (metis bit_0_eq bit_take_bit_iff bot_apply bot_bool_def)
  have d: "off div 8 = drop_bit 3 off" by (simp add: drop_bit_eq_div)
  have m: "(0x1f :: u8) = mask 5" by (simp add: mask_eq_exp_minus_1)
  show ?thesis
  proof (rule bit_word_eqI)
    fix n assume "n < LENGTH(16)"
    consider "n < 3" | "3 \<le> n" "n < 11" | "11 \<le> n" by linarith
    then show "bit (dec_offset (enc_flags flags off) (ucast (off div 8))) n = bit off n"
      unfolding dec_offset_def enc_flags_low unfolding d m
      using \<open>n < LENGTH(16)\<close> low by cases (simp_all add: bit_simps, auto)
  qed
qed

theorem ipv4_header_roundtrip:
  "ipv4_wf h \<Longrightarrow> Ipv4Header_Deserialize h0 (Ipv4Header_Serialize h @ rest) = Inr (h, 20)"
  by (simp add: Ipv4Header_Deserialize_def Ipv4Header_Serialize_def WriteHtonU16_def WriteHtonU32_def Let_def
      Ntoh_Hton_U16 Ntoh_Hton_U32 enc_flags_bits dec_enc_offset ipv4_wf_def)

section \<open>IPv6\<close>

type_synonym ipv6 = "u8 list"

record ipv6_header =
  ip6_trafficClass :: u8
  ip6_flowLabel :: u32
  ip6_payloadLength :: u16
  ip6_nextHeader :: u8
  ip6_hopLimit :: u8
  ip6_source :: ipv6
  ip6_destination :: ipv6

definition Ipv6Header :: ipv6_header where
  "Ipv6Header = \<lparr>ip6_trafficClass = 0, ip6_flowLabel = 1, ip6_payloadLength = 0, ip6_nextHeader = 0,
     ip6_hopLimit = 0, ip6_source = replicate 16 0, ip6_destination = replicate 16 0\<rparr>"

definition Ipv6Header_Serialize :: "ipv6_header \<Rightarrow> u8 list" where
  "Ipv6Header_Serialize h =
     WriteHtonU32 (push_bit 28 6 OR push_bit 20 (ucast (ip6_trafficClass h)) OR ip6_flowLabel h) @
     WriteHtonU16 (ip6_payloadLength h) @ [ip6_nextHeader h, ip6_hopLimit h] @ ip6_source h @ ip6_destination h"

definition Ipv6Header_Deserialize :: "ipv6_header \<Rightarrow> u8 list \<Rightarrow> (ipv6_header \<times> nat) res" where
  "Ipv6Header_Deserialize h bs =
     (if length bs < 4 then Inl NsAssert
      else
        let v = u32_of (bs ! 0) (bs ! 1) (bs ! 2) (bs ! 3) in
        if drop_bit 28 v \<noteq> 6 then Inr (h, 0)
        else if length bs < 40 then Inl NsAssert
        else Inr (\<lparr>ip6_trafficClass = ucast (drop_bit 20 v AND 0xff), ip6_flowLabel = v AND 0xfffff,
                   ip6_payloadLength = ReadNtohU16 (bs ! 4) (bs ! 5), ip6_nextHeader = bs ! 6,
                   ip6_hopLimit = bs ! 7, ip6_source = take 16 (drop 8 bs), ip6_destination = take 16 (drop 24 bs)\<rparr>, 40))"

definition ipv6_wf :: "ipv6_header \<Rightarrow> bool" where
  "ipv6_wf h \<longleftrightarrow> ip6_flowLabel h < 2 ^ 20 \<and> length (ip6_source h) = 16 \<and> length (ip6_destination h) = 16"

lemma ipv6_word:
  fixes f :: u32 and t :: u8
  assumes "f < 2 ^ 20"
  defines "v \<equiv> push_bit 28 6 OR push_bit 20 (ucast t) OR f"
  shows "drop_bit 28 v = 6" "ucast (drop_bit 20 v AND 0xff) = t" "v AND 0xfffff = f"
proof -
  have f: "\<not> bit f n" if "20 \<le> n" for n
  proof
    assume "bit f n"
    then have "bit (unat f) n" by (simp add: bit_unsigned_iff)
    moreover have "unat f < 2 ^ 20" using assms(1) by (simp add: word_less_nat_alt)
    then have "take_bit 20 (unat f) = unat f" by (simp add: take_bit_nat_eq_self)
    ultimately show False using that by (metis bit_take_bit_iff not_less)
  qed
  have m: "(0xff :: u32) = mask 8" "(0xfffff :: u32) = mask 20" by (simp_all add: mask_eq_exp_minus_1)
  have t: "\<not> bit t n" if "8 \<le> n" for n using that by (auto dest: bit_imp_le_length)
  have six: "bit (6 :: u32) n \<longleftrightarrow> n = 1 \<or> n = 2" for n
  proof -
    have "(6 :: u32) = push_bit 1 1 OR push_bit 2 1" by simp
    then show ?thesis unfolding \<open>(6 :: u32) = _\<close> bit_or_iff bit_push_bit_iff bit_1_iff by auto
  qed
  show "drop_bit 28 v = 6"
    unfolding v_def by (rule bit_word_eqI) (use f t in \<open>auto simp: bit_simps six\<close>)
  show "ucast (drop_bit 20 v AND 0xff) = t"
    unfolding v_def m
  proof (rule bit_word_eqI)
    fix n assume "n < LENGTH(8)"
    then have "\<not> bit (push_bit 28 6 :: u32) (20 + n)"
      unfolding bit_push_bit_iff by simp
    then show "bit (ucast (drop_bit 20 (push_bit 28 6 OR push_bit 20 (ucast t) OR f) AND mask 8) :: u8) n = bit t n"
      using \<open>n < LENGTH(8)\<close> f [of "20 + n"]
      by (simp only: bit_unsigned_iff bit_and_iff bit_or_iff bit_drop_bit_eq comp_def bit_mask_iff bit_push_bit_iff) auto
  qed
  show "v AND 0xfffff = f"
    unfolding v_def m
  proof (rule bit_word_eqI)
    fix n assume "n < LENGTH(32)"
    have "\<not> bit (push_bit 28 6 :: u32) n" if "n < 20"
      using that unfolding bit_push_bit_iff by simp
    then show "bit ((push_bit 28 6 OR push_bit 20 (ucast t) OR f) AND mask 20) n = bit f n"
      using \<open>n < LENGTH(32)\<close> f [of n]
      by (cases "n < 20") (simp_all add: bit_and_iff bit_or_iff bit_mask_iff bit_push_bit_iff del: push_bit_of_nat)
  qed
qed

theorem ipv6_header_roundtrip:
  assumes "ipv6_wf h"
  shows "Ipv6Header_Deserialize h0 (Ipv6Header_Serialize h @ rest) = Inr (h, 40)"
proof -
  define v where "v = push_bit 28 6 OR push_bit 20 (ucast (ip6_trafficClass h)) OR ip6_flowLabel h"
  have "drop_bit 28 v = 6" "ucast (drop_bit 20 v AND 0xff) = ip6_trafficClass h" "v AND 0xfffff = ip6_flowLabel h"
    using assms unfolding v_def by (intro ipv6_word; simp add: ipv6_wf_def)+
  moreover have "Ipv6Header_Serialize h = WriteHtonU32 v @ WriteHtonU16 (ip6_payloadLength h) @
      [ip6_nextHeader h, ip6_hopLimit h] @ ip6_source h @ ip6_destination h"
    by (simp add: Ipv6Header_Serialize_def v_def)
  ultimately show ?thesis
    using assms by (simp add: Ipv6Header_Deserialize_def WriteHtonU16_def WriteHtonU32_def Let_def
        Ntoh_Hton_U16 Ntoh_Hton_U32 ipv6_wf_def)
qed

section \<open>UDP and TCP\<close>

record udp_header =
  udp_sourcePort :: u16
  udp_destinationPort :: u16
  udp_payloadSize :: u16
  udp_forcedPayloadSize :: u16
  udp_checksum :: u16

definition UdpHeader :: udp_header where
  "UdpHeader = \<lparr>udp_sourcePort = 0xfffd, udp_destinationPort = 0xfffd, udp_payloadSize = 0,
     udp_forcedPayloadSize = 0, udp_checksum = 0\<rparr>"

text \<open>\<open>sz\<close> is the size of the packet with the header.\<close>

definition UdpHeader_Serialize :: "nat \<Rightarrow> udp_header \<Rightarrow> u8 list" where
  "UdpHeader_Serialize sz h =
     WriteHtonU16 (udp_sourcePort h) @ WriteHtonU16 (udp_destinationPort h) @
     WriteHtonU16 (if udp_forcedPayloadSize h = 0 then of_nat sz else udp_forcedPayloadSize h) @
     [ucast (udp_checksum h), ucast (drop_bit 8 (udp_checksum h))]"

definition UdpHeader_Deserialize :: "udp_header \<Rightarrow> u8 list \<Rightarrow> (udp_header \<times> nat) res" where
  "UdpHeader_Deserialize h bs =
     (if length bs < 8 then Inl NsAssert
      else Inr (h\<lparr>udp_sourcePort := ReadNtohU16 (bs ! 0) (bs ! 1), udp_destinationPort := ReadNtohU16 (bs ! 2) (bs ! 3),
                  udp_payloadSize := ReadNtohU16 (bs ! 4) (bs ! 5) - 8,
                  udp_checksum := push_bit 8 (ucast (bs ! 7)) OR ucast (bs ! 6)\<rparr>, 8))"

lemma udp_header_roundtrip:
  "UdpHeader_Deserialize UdpHeader (UdpHeader_Serialize sz h @ rest) =
   Inr (h\<lparr>udp_payloadSize := (if udp_forcedPayloadSize h = 0 then of_nat sz else udp_forcedPayloadSize h) - 8,
          udp_forcedPayloadSize := 0\<rparr>, 8)"
  by (cases h) (simp add: UdpHeader_Deserialize_def UdpHeader_Serialize_def WriteHtonU16_def UdpHeader_def Ntoh_Hton_U16
      Ntoh_Hton_U16 [unfolded ReadNtohU16_def])

text \<open>The ports of a TCP header; its options, which follow the 20 bytes, are not read here.\<close>

record tcp_header =
  tcp_sourcePort :: u16
  tcp_destinationPort :: u16
  tcp_sequenceNumber :: u32
  tcp_ackNumber :: u32
  tcp_length :: u8
  tcp_flags :: u8
  tcp_windowSize :: u16
  tcp_urgentPointer :: u16

definition TcpHeader_Deserialize :: "u8 list \<Rightarrow> tcp_header res" where
  "TcpHeader_Deserialize bs =
     (if length bs < 20 then Inl NsAssert
      else
        let field = ReadNtohU16 (bs ! 12) (bs ! 13) in
        Inr \<lparr>tcp_sourcePort = ReadNtohU16 (bs ! 0) (bs ! 1), tcp_destinationPort = ReadNtohU16 (bs ! 2) (bs ! 3),
             tcp_sequenceNumber = u32_of (bs ! 4) (bs ! 5) (bs ! 6) (bs ! 7),
             tcp_ackNumber = u32_of (bs ! 8) (bs ! 9) (bs ! 10) (bs ! 11),
             tcp_length = ucast (drop_bit 12 field), tcp_flags = ucast (field AND 0xFF),
             tcp_windowSize = ReadNtohU16 (bs ! 14) (bs ! 15), tcp_urgentPointer = ReadNtohU16 (bs ! 18) (bs ! 19)\<rparr>)"

definition UDP_PROT_NUMBER :: u8 where "UDP_PROT_NUMBER = 17"
definition TCP_PROT_NUMBER :: u8 where "TCP_PROT_NUMBER = 6"
definition IPV4_PROT_NUMBER :: u16 where "IPV4_PROT_NUMBER = 0x0800"
definition IPV6_PROT_NUMBER :: u16 where "IPV6_PROT_NUMBER = 0x86DD"

end
