(* ===== verification/LteSlTft.thy ===== *)
theory LteSlTft
  imports IpHeaders
begin

text \<open>
  The traffic flow template of a sidelink bearer (\<open>src/src/lte/model/lte-sl-tft.h\<close>,
  \<open>lte-sl-tft.cc\<close>), with the address and mask comparisons of
  \<open>src/src/network/utils/ipv4-address.cc\<close> and \<open>ipv6-address.cc\<close>.  An IPv6 address or prefix is
  the list of its 16 bytes.
\<close>

section \<open>Addresses\<close>

definition Ipv4Mask_IsMatch :: "u32 \<Rightarrow> ipv4 \<Rightarrow> ipv4 \<Rightarrow> bool" where
  "Ipv4Mask_IsMatch m a b \<longleftrightarrow> (a AND m) = (b AND m)"

fun prefix_match_bytes :: "u8 list \<Rightarrow> u8 list \<Rightarrow> u8 list \<Rightarrow> bool" where
  "prefix_match_bytes (a # as) (b # bs) (m # ms) =
     (if (a AND m) \<noteq> (b AND m) then False else prefix_match_bytes as bs ms)"
| "prefix_match_bytes _ _ _ = True"

definition Ipv6Prefix_IsMatch :: "u8 list \<Rightarrow> ipv6 \<Rightarrow> ipv6 \<Rightarrow> bool" where
  "Ipv6Prefix_IsMatch m a b = prefix_match_bytes a b m"

definition Ipv6_GetZero :: ipv6 where "Ipv6_GetZero = replicate 16 0"
definition Ipv6_GetOnes :: "u8 list" where "Ipv6_GetOnes = replicate 16 0xff"
definition Ipv4Mask_GetOnes :: u32 where "Ipv4Mask_GetOnes = 0xffffffff"

section \<open>State\<close>

datatype Direction = DIR_TRANSMIT | DIR_RECEIVE | DIR_BIDIRECTIONAL | DIR_INVALID

datatype CommType = COMM_Broadcast | COMM_GroupCast | COMM_Unicast | COMM_INVALID

record sltft =
  tft_direction :: Direction
  tft_commType :: CommType
  tft_hasRemoteAddress :: bool
  tft_remoteAddress :: ipv4
  tft_remoteAddress6 :: ipv6
  tft_remoteMask :: u32
  tft_remoteMask6 :: "u8 list"
  tft_dstL2Id :: u32

definition tft_initializers :: sltft where
  "tft_initializers =
     \<lparr>tft_direction = DIR_INVALID, tft_commType = COMM_INVALID, tft_hasRemoteAddress = False,
      tft_remoteAddress = 0, tft_remoteAddress6 = Ipv6_GetZero, tft_remoteMask = 0,
      tft_remoteMask6 = Ipv6_GetZero, tft_dstL2Id = 0\<rparr>"

section \<open>Operations\<close>

definition LteSlTft_v4 :: "Direction \<Rightarrow> CommType \<Rightarrow> ipv4 \<Rightarrow> u32 \<Rightarrow> sltft res" where
  "LteSlTft_v4 d c remoteAddr dst =
     rguard NsAssert (0 < dst) (rguard NsAssert ((dst AND 0xFF000000) = 0)
       (Inr (tft_initializers\<lparr>tft_direction := d, tft_commType := c, tft_hasRemoteAddress := True,
          tft_remoteAddress := remoteAddr, tft_remoteMask := Ipv4Mask_GetOnes, tft_dstL2Id := dst\<rparr>)))"

definition LteSlTft_v6 :: "Direction \<Rightarrow> CommType \<Rightarrow> ipv6 \<Rightarrow> u32 \<Rightarrow> sltft res" where
  "LteSlTft_v6 d c remoteAddr dst =
     rguard NsAssert (0 < dst) (rguard NsAssert ((dst AND 0xFF000000) = 0)
       (Inr (tft_initializers\<lparr>tft_direction := d, tft_commType := c, tft_hasRemoteAddress := True,
          tft_remoteAddress6 := remoteAddr, tft_remoteMask6 := Ipv6_GetOnes, tft_dstL2Id := dst\<rparr>)))"

text \<open>The constructor from another template sets all members but \<open>m_hasRemoteAddress\<close>.\<close>

definition LteSlTft_copy :: "sltft \<Rightarrow> sltft" where
  "LteSlTft_copy t =
     tft_initializers\<lparr>tft_direction := tft_direction t, tft_commType := tft_commType t,
       tft_remoteAddress := tft_remoteAddress t, tft_remoteAddress6 := tft_remoteAddress6 t,
       tft_remoteMask := tft_remoteMask t, tft_remoteMask6 := tft_remoteMask6 t,
       tft_dstL2Id := tft_dstL2Id t\<rparr>"

definition tft_Matches4 :: "ipv4 \<Rightarrow> sltft \<Rightarrow> bool" where
  "tft_Matches4 ra t =
     (if tft_hasRemoteAddress t then Ipv4Mask_IsMatch (tft_remoteMask t) ra (tft_remoteAddress t) else True)"

definition tft_Matches6 :: "ipv6 \<Rightarrow> sltft \<Rightarrow> bool" where
  "tft_Matches6 ra t =
     (if tft_hasRemoteAddress t then Ipv6Prefix_IsMatch (tft_remoteMask6 t) ra (tft_remoteAddress6 t) else True)"

definition tft_Equals :: "sltft \<Rightarrow> sltft \<Rightarrow> bool" where
  "tft_Equals t u =
     (if tft_direction t \<noteq> tft_direction u \<and> tft_remoteAddress t \<noteq> tft_remoteAddress u \<and>
         tft_remoteAddress6 t \<noteq> tft_remoteAddress6 u \<and> tft_remoteMask t \<noteq> tft_remoteMask u \<and>
         tft_remoteMask6 t \<noteq> tft_remoteMask6 u \<and> tft_dstL2Id t \<noteq> tft_dstL2Id u
      then False else True)"

definition GetDstL2Id :: "sltft \<Rightarrow> u32" where
  "GetDstL2Id t = tft_dstL2Id t"

definition isReceive :: "sltft \<Rightarrow> bool res" where
  "isReceive t = rguard NsAssert (tft_direction t \<noteq> DIR_INVALID) (Inr (tft_direction t \<noteq> DIR_TRANSMIT))"

definition isTransmit :: "sltft \<Rightarrow> bool res" where
  "isTransmit t = rguard NsAssert (tft_direction t \<noteq> DIR_INVALID) (Inr (tft_direction t \<noteq> DIR_RECEIVE))"

definition isUnicast :: "sltft \<Rightarrow> bool res" where
  "isUnicast t = rguard NsAssert (tft_commType t \<noteq> COMM_INVALID)
     (Inr (tft_commType t \<noteq> COMM_Broadcast \<and> tft_commType t \<noteq> COMM_GroupCast))"

section \<open>Matching\<close>

lemma ones_mask: "(a :: u32) AND Ipv4Mask_GetOnes = a"
proof -
  have ones: "Ipv4Mask_GetOnes = - 1" by (simp add: Ipv4Mask_GetOnes_def)
  show ?thesis unfolding ones by (rule and.right_neutral)
qed

lemma prefix_match_ones:
  "length a = length b \<Longrightarrow> prefix_match_bytes a b (replicate (length a) 0xff) \<longleftrightarrow> a = b"
proof (induction a b rule: list_induct2)
  case (Cons x xs y ys)
  have "(0xff :: u8) = - 1" by simp
  then have "(z :: u8) AND 0xff = z" for z
    by (simp only: and.right_neutral)
  with Cons show ?case by simp
qed simp

lemma prefix_match_zeros: "set ms \<subseteq> {0} \<Longrightarrow> prefix_match_bytes a b ms"
  by (induction a b ms rule: prefix_match_bytes.induct) auto

text \<open>A template made from an IPv4 address matches that address alone, and every IPv6 address.\<close>

lemma matches_v4:
  assumes "LteSlTft_v4 d c ra dst = Inr t"
  shows "tft_Matches4 a t \<longleftrightarrow> a = ra" "tft_Matches6 b t" "tft_dstL2Id t = dst" "tft_direction t = d"
    "tft_commType t = c"
  using assms prefix_match_zeros [of Ipv6_GetZero]
  by (auto simp: LteSlTft_v4_def rguard_eq_Inr tft_initializers_def tft_Matches4_def tft_Matches6_def
      Ipv4Mask_IsMatch_def Ipv6Prefix_IsMatch_def ones_mask Ipv6_GetZero_def)

lemma matches_v6:
  assumes "LteSlTft_v6 d c ra dst = Inr t" "length ra = 16" "length b = 16"
  shows "tft_Matches6 b t \<longleftrightarrow> b = ra" "tft_Matches4 a t" "tft_dstL2Id t = dst"
  using assms prefix_match_ones [of b ra]
  by (auto simp: LteSlTft_v6_def rguard_eq_Inr tft_initializers_def tft_Matches4_def tft_Matches6_def
      Ipv4Mask_IsMatch_def Ipv6Prefix_IsMatch_def Ipv6_GetOnes_def)

end
