(* ===== verification/EpcTft.thy ===== *)
theory EpcTft
  imports LteSlTft "HOL-Library.Multiset"
begin

text \<open>
  The traffic flow templates of EPS bearers (\<open>src/src/lte/model/epc-tft.h\<close>, \<open>epc-tft.cc\<close>): packet
  filters, kept in the order of their precedence, and the matching of a packet's addresses, ports and
  type of service against them.
\<close>

section \<open>Packet filters\<close>

datatype tft_direction = DOWNLINK | UPLINK | BIDIRECTIONAL

text \<open>The values of the enumeration, which \<open>d & direction\<close> combines.\<close>

fun direction_value :: "tft_direction \<Rightarrow> u32" where
  "direction_value DOWNLINK = 1"
| "direction_value UPLINK = 2"
| "direction_value BIDIRECTIONAL = 3"

record packet_filter =
  pf_precedence :: u8
  pf_direction :: tft_direction
  pf_remoteAddress :: ipv4
  pf_remoteMask :: u32
  pf_localAddress :: ipv4
  pf_localMask :: u32
  pf_remoteIpv6Address :: ipv6
  pf_remoteIpv6Prefix :: "u8 list"
  pf_localIpv6Address :: ipv6
  pf_localIpv6Prefix :: "u8 list"
  pf_remotePortStart :: u16
  pf_remotePortEnd :: u16
  pf_localPortStart :: u16
  pf_localPortEnd :: u16
  pf_typeOfService :: u8
  pf_typeOfServiceMask :: u8

text \<open>The addresses are those of the default constructors: 102.102.102.102 and \<open>::\<close>.\<close>

definition PacketFilter :: packet_filter where
  "PacketFilter = \<lparr>pf_precedence = 255, pf_direction = BIDIRECTIONAL,
     pf_remoteAddress = 0x66666666, pf_remoteMask = 0, pf_localAddress = 0x66666666, pf_localMask = 0,
     pf_remoteIpv6Address = Ipv6_GetZero, pf_remoteIpv6Prefix = Ipv6_GetZero,
     pf_localIpv6Address = Ipv6_GetZero, pf_localIpv6Prefix = Ipv6_GetZero,
     pf_remotePortStart = 0, pf_remotePortEnd = 65535, pf_localPortStart = 0, pf_localPortEnd = 65535,
     pf_typeOfService = 0, pf_typeOfServiceMask = 0\<rparr>"

definition filter_Matches4 :: "tft_direction \<Rightarrow> ipv4 \<Rightarrow> ipv4 \<Rightarrow> u16 \<Rightarrow> u16 \<Rightarrow> u8 \<Rightarrow> packet_filter \<Rightarrow> bool" where
  "filter_Matches4 d ra la rp lp tos f =
     (if direction_value d AND direction_value (pf_direction f) \<noteq> 0 then
        if Ipv4Mask_IsMatch (pf_remoteMask f) (pf_remoteAddress f) ra then
          if Ipv4Mask_IsMatch (pf_localMask f) (pf_localAddress f) la then
            if pf_remotePortStart f \<le> rp \<and> rp \<le> pf_remotePortEnd f then
              if pf_localPortStart f \<le> lp \<and> lp \<le> pf_localPortEnd f then
                (tos AND pf_typeOfServiceMask f) = (pf_typeOfService f AND pf_typeOfServiceMask f)
              else False
            else False
          else False
        else False
      else False)"

definition filter_Matches6 :: "tft_direction \<Rightarrow> ipv6 \<Rightarrow> ipv6 \<Rightarrow> u16 \<Rightarrow> u16 \<Rightarrow> u8 \<Rightarrow> packet_filter \<Rightarrow> bool" where
  "filter_Matches6 d ra la rp lp tos f =
     (if direction_value d AND direction_value (pf_direction f) \<noteq> 0 then
        if Ipv6Prefix_IsMatch (pf_remoteIpv6Prefix f) (pf_remoteIpv6Address f) ra then
          if Ipv6Prefix_IsMatch (pf_localIpv6Prefix f) (pf_localIpv6Address f) la then
            if pf_remotePortStart f \<le> rp \<and> rp \<le> pf_remotePortEnd f then
              if pf_localPortStart f \<le> lp \<and> lp \<le> pf_localPortEnd f then
                (tos AND pf_typeOfServiceMask f) = (pf_typeOfService f AND pf_typeOfServiceMask f)
              else False
            else False
          else False
        else False
      else False)"

section \<open>Templates\<close>

record epc_tft =
  tft_filters :: "packet_filter list"
  tft_numFilters :: u8

definition EpcTft :: epc_tft where
  "EpcTft = \<lparr>tft_filters = [], tft_numFilters = 0\<rparr>"

text \<open>The loop of \<open>Add\<close> stops at the first filter with a greater precedence.\<close>

fun insert_filter :: "packet_filter \<Rightarrow> packet_filter list \<Rightarrow> packet_filter list" where
  "insert_filter f [] = [f]"
| "insert_filter f (g # gs) =
     (if pf_precedence g \<le> pf_precedence f then g # insert_filter f gs else f # g # gs)"

definition EpcTft_Add :: "packet_filter \<Rightarrow> epc_tft \<Rightarrow> (u8 \<times> epc_tft) res" where
  "EpcTft_Add f t =
     rguard NsAbort (\<not> 16 \<le> tft_numFilters t)
       (let t' = t\<lparr>tft_filters := insert_filter f (tft_filters t), tft_numFilters := tft_numFilters t + 1\<rparr> in
        Inr (tft_numFilters t' - 1, t'))"

definition EpcTft_Default :: "epc_tft res" where
  "EpcTft_Default = rbind (EpcTft_Add PacketFilter EpcTft) (\<lambda>(i, t). Inr t)"

fun any_filter :: "(packet_filter \<Rightarrow> bool) \<Rightarrow> packet_filter list \<Rightarrow> bool" where
  "any_filter P [] = False"
| "any_filter P (f # fs) = (if P f then True else any_filter P fs)"

definition EpcTft_Matches4 :: "tft_direction \<Rightarrow> ipv4 \<Rightarrow> ipv4 \<Rightarrow> u16 \<Rightarrow> u16 \<Rightarrow> u8 \<Rightarrow> epc_tft \<Rightarrow> bool" where
  "EpcTft_Matches4 d ra la rp lp tos t = any_filter (filter_Matches4 d ra la rp lp tos) (tft_filters t)"

definition EpcTft_Matches6 :: "tft_direction \<Rightarrow> ipv6 \<Rightarrow> ipv6 \<Rightarrow> u16 \<Rightarrow> u16 \<Rightarrow> u8 \<Rightarrow> epc_tft \<Rightarrow> bool" where
  "EpcTft_Matches6 d ra la rp lp tos t = any_filter (filter_Matches6 d ra la rp lp tos) (tft_filters t)"

definition GetPacketFilters :: "epc_tft \<Rightarrow> packet_filter list" where
  "GetPacketFilters t = tft_filters t"

section \<open>Order, number and meaning of the filters\<close>

fun add_filters :: "packet_filter list \<Rightarrow> epc_tft \<Rightarrow> epc_tft res" where
  "add_filters [] t = Inr t"
| "add_filters (f # fs) t = rbind (EpcTft_Add f t) (\<lambda>(i, t'). add_filters fs t')"

definition tft_inv :: "epc_tft \<Rightarrow> bool" where
  "tft_inv t \<longleftrightarrow> sorted (map pf_precedence (tft_filters t)) \<and> length (tft_filters t) \<le> 16 \<and>
     unat (tft_numFilters t) = length (tft_filters t)"

lemma any_filter_iff: "any_filter P fs \<longleftrightarrow> (\<exists>f \<in> set fs. P f)"
  by (induction fs) auto

lemma mset_insert_filter [simp]: "mset (insert_filter f fs) = add_mset f (mset fs)"
  by (induction fs) auto

lemma set_insert_filter [simp]: "set (insert_filter f fs) = insert f (set fs)"
  by (metis mset_insert_filter set_mset_add_mset_insert set_mset_mset)

lemma length_insert_filter [simp]: "length (insert_filter f fs) = Suc (length fs)"
  by (metis mset_insert_filter size_add_mset size_mset)

lemma sorted_insert_filter:
  "sorted (map pf_precedence fs) \<Longrightarrow> sorted (map pf_precedence (insert_filter f fs))"
proof (induction fs)
  case (Cons g gs)
  then show ?case by (cases "pf_precedence g \<le> pf_precedence f") (auto intro: order.trans)
qed simp

text \<open>Filters of equal precedence stay in the order of their insertion.\<close>

lemma stable_insert_filter:
  "sorted (map pf_precedence fs) \<Longrightarrow>
   filter (\<lambda>g. pf_precedence g = k) (insert_filter f fs) =
   filter (\<lambda>g. pf_precedence g = k) fs @ (if pf_precedence f = k then [f] else [])"
proof (induction fs)
  case (Cons g gs)
  have none: "pf_precedence f < pf_precedence g \<Longrightarrow> filter (\<lambda>h. pf_precedence h = pf_precedence f) (g # gs) = []"
    using Cons.prems by (auto simp: filter_empty_conv)
  show ?case
    using Cons none by (auto simp: not_le)
qed simp

lemma EpcTft_inv [simp]: "tft_inv EpcTft"
  by (simp add: tft_inv_def EpcTft_def)

lemma EpcTft_Add_result:
  assumes "tft_inv t"
  shows "EpcTft_Add f t =
    (if length (tft_filters t) < 16
     then Inr (of_nat (length (tft_filters t)),
               \<lparr>tft_filters = insert_filter f (tft_filters t), tft_numFilters = of_nat (Suc (length (tft_filters t)))\<rparr>)
     else Inl NsAbort)"
proof -
  have n: "tft_numFilters t = of_nat (length (tft_filters t))"
    using assms unfolding tft_inv_def by (metis of_nat_unat ucast_id)
  have "(16 \<le> tft_numFilters t) = (16 \<le> length (tft_filters t))"
    using assms by (simp add: tft_inv_def word_le_nat_alt)
  then show ?thesis
    by (cases t) (use n in \<open>simp add: EpcTft_Add_def Let_def add.commute\<close>)
qed

lemma EpcTft_Add_inv:
  assumes "tft_inv t" "EpcTft_Add f t = Inr (i, t')"
  shows "tft_inv t'" "mset (tft_filters t') = add_mset f (mset (tft_filters t))"
    "unat i = length (tft_filters t)"
proof -
  have *: "length (tft_filters t) < 16" "t' = \<lparr>tft_filters = insert_filter f (tft_filters t),
      tft_numFilters = of_nat (Suc (length (tft_filters t)))\<rparr>" "i = of_nat (length (tft_filters t))"
    using assms by (auto simp: EpcTft_Add_result split: if_splits)
  then show "mset (tft_filters t') = add_mset f (mset (tft_filters t))" by simp
  have u: "unat (of_nat k :: u8) = k" if "k \<le> 16" for k
    using that by (simp add: unat_of_nat)
  show "unat i = length (tft_filters t)" using * u by simp
  show "tft_inv t'"
    using *(1) u [of "Suc (length (tft_filters t))"] assms(1) sorted_insert_filter [of "tft_filters t" f]
    unfolding *(2) tft_inv_def by (simp del: of_nat_Suc)
qed

lemma add_filters_result:
  "tft_inv t \<Longrightarrow> length (tft_filters t) + length fs \<le> 16 \<Longrightarrow>
   \<exists>t'. add_filters fs t = Inr t' \<and> tft_inv t' \<and> mset (tft_filters t') = mset (tft_filters t) + mset fs"
proof (induction fs arbitrary: t)
  case (Cons f fs)
  obtain i t1 where t1: "EpcTft_Add f t = Inr (i, t1)"
    using Cons.prems by (auto simp: EpcTft_Add_result)
  note inv = EpcTft_Add_inv [OF Cons.prems(1) t1]
  have "length (tft_filters t1) = Suc (length (tft_filters t))"
    by (metis inv(2) size_add_mset size_mset)
  then have "length (tft_filters t1) + length fs \<le> 16" using Cons.prems(2) by simp
  then show ?case using Cons.IH [OF inv(1)] t1 inv(2) by auto
qed simp

lemma add_filters_too_many:
  "tft_inv t \<Longrightarrow> 16 < length (tft_filters t) + length fs \<Longrightarrow> add_filters fs t = Inl NsAbort"
proof (induction fs arbitrary: t)
  case Nil
  then show ?case by (simp add: tft_inv_def)
next
  case (Cons f fs)
  show ?case
  proof (cases "EpcTft_Add f t")
    case (Inl e)
    then show ?thesis using Cons.prems(1) by (auto simp: EpcTft_Add_result split: if_splits)
  next
    case (Inr it)
    obtain i t1 where t1: "EpcTft_Add f t = Inr (i, t1)" using Inr by (cases it) simp
    note inv = EpcTft_Add_inv [OF Cons.prems(1) t1]
    have "length (tft_filters t1) = Suc (length (tft_filters t))"
      by (metis inv(2) size_add_mset size_mset)
    then show ?thesis using Cons.IH [OF inv(1)] t1 Cons.prems(2) by simp
  qed
qed

section \<open>The template that matches any traffic\<close>

lemma direction_overlap [simp]: "direction_value d AND 3 \<noteq> 0"
  by (cases d) simp_all

lemma prefix_zeros: "prefix_match_bytes as bs (replicate n 0)"
  by (rule prefix_match_zeros) (auto simp: set_replicate_conv_if)

lemma any_port: "(p :: u16) \<le> 65535"
  using unsigned_less [of p, where 'a = nat] by (simp add: word_le_nat_alt)

definition default_tft :: epc_tft where
  "default_tft = \<lparr>tft_filters = [PacketFilter], tft_numFilters = 1\<rparr>"

lemma EpcTft_Default: "EpcTft_Default = Inr default_tft"
  by (simp add: EpcTft_Default_def EpcTft_Add_def EpcTft_def default_tft_def)

lemma default_Matches [simp]:
  "EpcTft_Matches4 d ra la rp lp tos default_tft"
  "EpcTft_Matches6 d ra6 la6 rp lp tos default_tft"
  using prefix_zeros [of _ _ 16]
  by (simp_all add: EpcTft_Matches4_def EpcTft_Matches6_def filter_Matches4_def filter_Matches6_def default_tft_def
      PacketFilter_def Ipv4Mask_IsMatch_def Ipv6Prefix_IsMatch_def Ipv6_GetZero_def any_port)

end
