(* ===== verification/EpcTftClassifier.thy ===== *)
theory EpcTftClassifier
  imports EpcTft "HOL-Library.Product_Lexorder"
begin

text \<open>
  The classification of packets to bearers (\<open>src/src/lte/model/epc-tft-classifier.h\<close>,
  \<open>epc-tft-classifier.cc\<close>).  The state of a classifier is its table of templates and its table of
  the ports of fragmented datagrams.  The templates are shared objects: the table holds their
  identities, and the argument \<open>tfts\<close> is what each of them is.
\<close>

section \<open>The table of templates\<close>

type_synonym tft_table = "(u32, nat) std_map"

definition classifier_Add :: "nat \<Rightarrow> u32 \<Rightarrow> tft_table \<Rightarrow> tft_table res" where
  "classifier_Add tft bid m = (let m' = map_put bid tft m in rguard NsAssert (length m' \<le> 16) (Inr m'))"

definition classifier_Delete :: "u32 \<Rightarrow> tft_table \<Rightarrow> tft_table" where
  "classifier_Delete bid m = map_erase bid m"

section \<open>Ports\<close>

text \<open>The key and the value of \<open>m_classifiedIpv4Fragments\<close>: the datagram, its local and remote port.\<close>

type_synonym datagram_key = "ipv4 \<times> ipv4 \<times> u8 \<times> u16"
type_synonym fragment_table = "(datagram_key, u16 \<times> u16) std_map"

definition fragment_key :: "ipv4_header \<Rightarrow> datagram_key" where
  "fragment_key h = (ip_source h, ip_destination h, ip_protocol h, ip_identification h)"

text \<open>Local and remote side, from source and destination.\<close>

definition local_remote :: "tft_direction \<Rightarrow> 'a \<Rightarrow> 'a \<Rightarrow> 'a \<times> 'a" where
  "local_remote d src dst = (case d of UPLINK \<Rightarrow> (src, dst) | _ \<Rightarrow> (dst, src))"

definition remember_ports :: "ipv4_header \<Rightarrow> u16 \<times> u16 \<Rightarrow> fragment_table \<Rightarrow> fragment_table" where
  "remember_ports h lr fr = (if \<not> IsLastFragment h then map_put (fragment_key h) lr fr else fr)"

text \<open>What \<open>Classify\<close> does with the transport header \<open>l4\<close> behind an IPv4 header.\<close>

definition ipv4_ports :: "tft_direction \<Rightarrow> ipv4_header \<Rightarrow> u8 list \<Rightarrow> fragment_table
    \<Rightarrow> ((u16 \<times> u16) \<times> fragment_table) res" where
  "ipv4_ports d h l4 fr =
     (if ip_fragmentOffset h = 0 then
        if ip_protocol h = UDP_PROT_NUMBER \<and> 8 \<le> ip_payloadSize h then
          rbind (UdpHeader_Deserialize UdpHeader l4) (\<lambda>(u, n).
            let lr = local_remote d (udp_sourcePort u) (udp_destinationPort u) in
            Inr (lr, remember_ports h lr fr))
        else if ip_protocol h = TCP_PROT_NUMBER \<and> 20 \<le> ip_payloadSize h then
          rbind (TcpHeader_Deserialize l4) (\<lambda>u.
            let lr = local_remote d (tcp_sourcePort u) (tcp_destinationPort u) in
            Inr (lr, remember_ports h lr fr))
        else Inr ((0, 0), fr)
      else
        case map_of fr (fragment_key h) of
          None \<Rightarrow> Inr ((0, 0), fr)
        | Some lr \<Rightarrow> Inr (lr, if IsLastFragment h then map_erase (fragment_key h) fr else fr))"

definition ipv6_ports :: "tft_direction \<Rightarrow> ipv6_header \<Rightarrow> u8 list \<Rightarrow> (u16 \<times> u16) res" where
  "ipv6_ports d h l4 =
     (if ip6_nextHeader h = UDP_PROT_NUMBER then
        rbind (UdpHeader_Deserialize UdpHeader l4) (\<lambda>(u, n).
          Inr (local_remote d (udp_sourcePort u) (udp_destinationPort u)))
      else if ip6_nextHeader h = TCP_PROT_NUMBER then
        rbind (TcpHeader_Deserialize l4) (\<lambda>u.
          Inr (local_remote d (tcp_sourcePort u) (tcp_destinationPort u)))
      else Inr (0, 0))"

section \<open>Classification\<close>

text \<open>The loop over the table with a reverse iterator; 0 is returned when no template matches.\<close>

fun first_match :: "(nat \<Rightarrow> bool) \<Rightarrow> (u32 \<times> nat) list \<Rightarrow> u32" where
  "first_match matches [] = 0"
| "first_match matches ((bid, t) # ts) = (if matches t then bid else first_match matches ts)"

definition Classify :: "(nat \<Rightarrow> epc_tft) \<Rightarrow> packet \<Rightarrow> tft_direction \<Rightarrow> u16 \<Rightarrow> tft_table \<Rightarrow> fragment_table
    \<Rightarrow> (u32 \<times> fragment_table) res" where
  "Classify tfts p d protocolNumber m fr =
     (if protocolNumber = IPV4_PROT_NUMBER then
        rbind (Packet_RemoveHeader (Ipv4Header_Deserialize Ipv4Header) p) (\<lambda>(h, q).
        rguard NsAssert (d = UPLINK \<or> d = DOWNLINK)
          (let (la, ra) = local_remote d (ip_source h) (ip_destination h) in
           rbind (ipv4_ports d h (pk_bytes q) fr) (\<lambda>((lp, rp), fr').
             Inr (first_match (\<lambda>t. EpcTft_Matches4 d ra la rp lp (ip_tos h) (tfts t)) (rev m), fr'))))
      else if protocolNumber = IPV6_PROT_NUMBER then
        rbind (Packet_RemoveHeader (Ipv6Header_Deserialize Ipv6Header) p) (\<lambda>(h, q).
        rguard NsAssert (d = UPLINK \<or> d = DOWNLINK)
          (let (la, ra) = local_remote d (ip6_source h) (ip6_destination h) in
           rbind (ipv6_ports d h (pk_bytes q)) (\<lambda>(lp, rp).
             Inr (first_match (\<lambda>t. EpcTft_Matches6 d ra la rp lp (ip6_trafficClass h) (tfts t)) (rev m), fr))))
      else Inl NsAbort)"

section \<open>The choice among the templates\<close>

lemma first_match_Nil: "(\<forall>(k, t) \<in> set xs. \<not> P t) \<Longrightarrow> first_match P xs = 0"
  by (induction P xs rule: first_match.induct) auto

lemma first_match_split:
  "P t \<Longrightarrow> (\<forall>(k', t') \<in> set xs. \<not> P t') \<Longrightarrow> first_match P (xs @ (k, t) # ys) = k"
  by (induction P xs rule: first_match.induct) auto

text \<open>The bearer chosen is the matching one with the greatest identifier.\<close>

lemma first_match_last:
  assumes "map_wf m" "(k, t) \<in> set m" "P t" "\<And>k' t'. (k', t') \<in> set m \<Longrightarrow> P t' \<Longrightarrow> k' \<le> k"
  shows "first_match P (rev m) = k"
proof -
  obtain xs ys where m: "m = xs @ (k, t) # ys" using assms(2) by (metis split_list)
  have "\<not> P t'" if "(k', t') \<in> set ys" for k' t'
  proof
    assume "P t'"
    then have "k' \<le> k" using assms(4) that m by auto
    moreover have "k < k'"
      using assms(1) that unfolding m map_wf_def by (auto simp: sorted_wrt_append)
    ultimately show False by simp
  qed
  then show ?thesis
    using first_match_split [of P t "rev ys" k "rev xs"] assms(3) by (auto simp: m)
qed

lemma first_match_Max:
  assumes "map_wf m" "(k0, t0) \<in> set m" "P t0"
  obtains k t where "first_match P (rev m) = k" "(k, t) \<in> set m" "P t"
    "\<And>k' t'. (k', t') \<in> set m \<Longrightarrow> P t' \<Longrightarrow> k' \<le> k"
proof -
  define K where "K = {k. \<exists>t. (k, t) \<in> set m \<and> P t}"
  have "K \<subseteq> fst ` set m" by (force simp: K_def)
  then have "finite K" by (rule finite_subset) simp
  moreover have "K \<noteq> {}" using assms(2,3) by (auto simp: K_def)
  ultimately have "Max K \<in> K" "\<And>k'. k' \<in> K \<Longrightarrow> k' \<le> Max K" by simp_all
  then obtain t where "(Max K, t) \<in> set m" "P t" "\<And>k' t'. (k', t') \<in> set m \<Longrightarrow> P t' \<Longrightarrow> k' \<le> Max K"
    unfolding K_def by blast
  then show ?thesis using that first_match_last [OF assms(1)] by blast
qed

section \<open>IPv4 packets\<close>

text \<open>A packet is an IPv4 header and what follows; \<open>readable\<close> if the ports, when read, are there.\<close>

definition is_ipv4 :: "ipv4_header \<Rightarrow> u8 list \<Rightarrow> packet \<Rightarrow> bool" where
  "is_ipv4 h l4 p \<longleftrightarrow> ipv4_wf h \<and> pk_bytes p = Ipv4Header_Serialize h @ l4"

definition has_ports :: "ipv4_header \<Rightarrow> bool" where
  "has_ports h \<longleftrightarrow> ip_fragmentOffset h = 0 \<and>
     (ip_protocol h = UDP_PROT_NUMBER \<and> 8 \<le> ip_payloadSize h \<or>
      ip_protocol h = TCP_PROT_NUMBER \<and> 20 \<le> ip_payloadSize h)"

definition readable :: "ipv4_header \<Rightarrow> u8 list \<Rightarrow> bool" where
  "readable h l4 \<longleftrightarrow> (has_ports h \<longrightarrow> (if ip_protocol h = UDP_PROT_NUMBER then 8 else 20) \<le> length l4)"

text \<open>The local and the remote port that the transport header holds.\<close>

definition header_ports :: "tft_direction \<Rightarrow> u8 list \<Rightarrow> u16 \<times> u16" where
  "header_ports d l4 = local_remote d (ReadNtohU16 (l4 ! 0) (l4 ! 1)) (ReadNtohU16 (l4 ! 2) (l4 ! 3))"

lemma ipv4_ports_first:
  assumes "has_ports h" "readable h l4"
  shows "ipv4_ports d h l4 fr = Inr (header_ports d l4, remember_ports h (header_ports d l4) fr)"
  using assms by (auto simp: ipv4_ports_def has_ports_def readable_def UdpHeader_Deserialize_def
      TcpHeader_Deserialize_def header_ports_def Let_def TCP_PROT_NUMBER_def UDP_PROT_NUMBER_def)

lemma ipv4_ports_none:
  "\<not> has_ports h \<Longrightarrow> ip_fragmentOffset h = 0 \<Longrightarrow> ipv4_ports d h l4 fr = Inr ((0, 0), fr)"
  by (auto simp: ipv4_ports_def has_ports_def)

lemma ipv4_ports_known:
  "ip_fragmentOffset h \<noteq> 0 \<Longrightarrow> map_of fr (fragment_key h) = Some lr \<Longrightarrow>
   ipv4_ports d h l4 fr = Inr (lr, if IsLastFragment h then map_erase (fragment_key h) fr else fr)"
  by (simp add: ipv4_ports_def)

lemma ipv4_ports_total: "readable h l4 \<Longrightarrow> \<exists>lp rp fr'. ipv4_ports d h l4 fr = Inr ((lp, rp), fr')"
proof -
  assume "readable h l4"
  then consider "has_ports h" "readable h l4" | "\<not> has_ports h" "ip_fragmentOffset h = 0" | "ip_fragmentOffset h \<noteq> 0"
    by blast
  then have "\<exists>x. ipv4_ports d h l4 fr = Inr x"
    by cases (auto simp: ipv4_ports_first ipv4_ports_none, simp add: ipv4_ports_def split: option.split)
  then show ?thesis by (metis surj_pair)
qed

definition choose_bearer :: "(nat \<Rightarrow> epc_tft) \<Rightarrow> tft_direction \<Rightarrow> ipv4_header \<Rightarrow> u16 \<times> u16 \<Rightarrow> tft_table \<Rightarrow> u32" where
  "choose_bearer tfts d h lr m =
     (let (la, ra) = local_remote d (ip_source h) (ip_destination h); (lp, rp) = lr in
      first_match (\<lambda>t. EpcTft_Matches4 d ra la rp lp (ip_tos h) (tfts t)) (rev m))"

lemma Classify_ipv4:
  assumes "is_ipv4 h l4 p" "d = UPLINK \<or> d = DOWNLINK"
  shows "Classify tfts p d IPV4_PROT_NUMBER m fr =
    rbind (ipv4_ports d h l4 fr) (\<lambda>(lr, fr'). Inr (choose_bearer tfts d h lr m, fr'))"
proof -
  have "drop 20 (Ipv4Header_Serialize h @ l4) = l4"
    by (simp add: Ipv4Header_Serialize_def WriteHtonU16_def WriteHtonU32_def)
  then have "Packet_RemoveHeader (Ipv4Header_Deserialize Ipv4Header) p
      = Inr (h, p\<lparr>pk_bytes := l4, pk_btags := bt_adjust (- 20) (pk_btags p)\<rparr>)"
    using assms(1) by (simp add: Packet_RemoveHeader_def is_ipv4_def ipv4_header_roundtrip)
  moreover obtain la ra where lr: "local_remote d (ip_source h) (ip_destination h) = (la, ra)" by fastforce
  ultimately have "Classify tfts p d IPV4_PROT_NUMBER m fr = rbind (ipv4_ports d h l4 fr) (\<lambda>((lp, rp), fr').
      Inr (first_match (\<lambda>t. EpcTft_Matches4 d ra la rp lp (ip_tos h) (tfts t)) (rev m), fr'))"
    unfolding Classify_def using assms(2) by (simp add: rguard_def Let_def)
  then show ?thesis
    by (cases "ipv4_ports d h l4 fr") (auto simp: choose_bearer_def lr)
qed

text \<open>Every readable packet gets a bearer, the last matching one, if any template matches everything.\<close>

lemma choose_bearer_best:
  assumes "map_wf m" "(k0, t0) \<in> set m" "tfts t0 = default_tft"
    and lr: "local_remote d (ip_source h) (ip_destination h) = (la, ra)"
  obtains k t where "choose_bearer tfts d h (lp, rp) m = k" "(k, t) \<in> set m"
    "EpcTft_Matches4 d ra la rp lp (ip_tos h) (tfts t)"
    "\<And>k' t'. (k', t') \<in> set m \<Longrightarrow> EpcTft_Matches4 d ra la rp lp (ip_tos h) (tfts t') \<Longrightarrow> k' \<le> k"
proof -
  have "EpcTft_Matches4 d ra la rp lp (ip_tos h) (tfts t0)" using assms(3) by simp
  from first_match_Max [where P = "\<lambda>t. EpcTft_Matches4 d ra la rp lp (ip_tos h) (tfts t)", OF assms(1,2) this]
  show ?thesis using that unfolding choose_bearer_def lr by auto
qed

section \<open>Fragmented datagrams\<close>

fun classify_all :: "(nat \<Rightarrow> epc_tft) \<Rightarrow> tft_direction \<Rightarrow> tft_table \<Rightarrow> packet list \<Rightarrow> fragment_table
    \<Rightarrow> (u32 list \<times> fragment_table) res" where
  "classify_all tfts d m [] fr = Inr ([], fr)"
| "classify_all tfts d m (p # ps) fr =
     rbind (Classify tfts p d IPV4_PROT_NUMBER m fr) (\<lambda>(bid, fr').
     rbind (classify_all tfts d m ps fr') (\<lambda>(bids, fr''). Inr (bid # bids, fr'')))"

text \<open>
  A packet between the first and the last fragment of a datagram \<open>h0\<close>: a later fragment of it, with
  the same type of service and more to come, or a packet of another datagram.
\<close>

definition between :: "ipv4_header \<Rightarrow> ipv4_header \<times> u8 list \<times> packet \<Rightarrow> bool" where
  "between h0 = (\<lambda>(h, l4, p). is_ipv4 h l4 p \<and> readable h l4 \<and>
     (fragment_key h = fragment_key h0 \<longrightarrow>
        ip_fragmentOffset h \<noteq> 0 \<and> \<not> IsLastFragment h \<and> ip_tos h = ip_tos h0))"

definition chosen_for :: "ipv4_header \<Rightarrow> u32 \<Rightarrow> (ipv4_header \<times> u8 list \<times> packet) list \<Rightarrow> u32 list \<Rightarrow> bool" where
  "chosen_for h0 k xs ks \<longleftrightarrow>
     list_all2 (\<lambda>(h, l4, p) k'. fragment_key h = fragment_key h0 \<longrightarrow> k' = k) xs ks"

lemma choose_bearer_cong:
  "fragment_key h = fragment_key h0 \<Longrightarrow> ip_tos h = ip_tos h0 \<Longrightarrow>
   choose_bearer tfts d h lr m = choose_bearer tfts d h0 lr m"
  by (simp add: choose_bearer_def fragment_key_def)

lemma ipv4_ports_keeps:
  assumes "between h0 (h, l4, p)" "map_of fr (fragment_key h0) = Some lr" "map_wf fr"
    and "ipv4_ports d h l4 fr = Inr (lr', fr')"
  shows "map_of fr' (fragment_key h0) = Some lr" "map_wf fr'" "fragment_key h = fragment_key h0 \<Longrightarrow> lr' = lr"
proof -
  have *: "map_of fr' (fragment_key h0) = Some lr \<and> map_wf fr' \<and> (fragment_key h = fragment_key h0 \<longrightarrow> lr' = lr)"
  proof (cases "fragment_key h = fragment_key h0")
    case True
    then show ?thesis
      using assms by (auto simp: between_def ipv4_ports_known)
  next
    case False
    have r: "readable h l4" using assms(1) by (simp add: between_def)
    consider "has_ports h" | "\<not> has_ports h" "ip_fragmentOffset h = 0" | "ip_fragmentOffset h \<noteq> 0" by blast
    then show ?thesis
    proof cases
      case 1
      then show ?thesis
        using assms(2-4) False r by (auto simp: ipv4_ports_first remember_ports_def map_of_put map_wf_put)
    next
      case 2
      then show ?thesis using assms(2-4) False by (auto simp: ipv4_ports_none)
    next
      case 3
      then show ?thesis
        using assms(2-4) False
        by (auto simp: ipv4_ports_def map_of_erase map_wf_erase split: option.splits)
    qed
  qed
  then show "map_of fr' (fragment_key h0) = Some lr" "map_wf fr'" by simp_all
  show "fragment_key h = fragment_key h0 \<Longrightarrow> lr' = lr" using * by simp
qed

lemma classify_between:
  assumes "list_all (between h0) xs" "map_of fr (fragment_key h0) = Some lr" "map_wf fr" "d = UPLINK \<or> d = DOWNLINK"
  shows "\<exists>ks fr'. classify_all tfts d m (map (snd \<circ> snd) xs) fr = Inr (ks, fr') \<and>
    chosen_for h0 (choose_bearer tfts d h0 lr m) xs ks \<and> map_of fr' (fragment_key h0) = Some lr \<and> map_wf fr'"
  using assms(1-3)
proof (induction xs arbitrary: fr)
  case Nil
  then show ?case by (simp add: chosen_for_def)
next
  case (Cons x xs)
  obtain h l4 p where x: "x = (h, l4, p)" by (cases x)
  have b: "between h0 (h, l4, p)" and later: "list_all (between h0) xs" using Cons.prems(1) x by simp_all
  then obtain lr1 fr1 where ports: "ipv4_ports d h l4 fr = Inr (lr1, fr1)"
    using ipv4_ports_total [of h l4 d fr] by (auto simp: between_def)
  note keep = ipv4_ports_keeps [OF b Cons.prems(2,3) ports]
  obtain ks fr2 where rest: "classify_all tfts d m (map (snd \<circ> snd) xs) fr1 = Inr (ks, fr2)"
    "chosen_for h0 (choose_bearer tfts d h0 lr m) xs ks" "map_of fr2 (fragment_key h0) = Some lr" "map_wf fr2"
    using Cons.IH [OF later keep(1,2)] by blast
  have "Classify tfts p d IPV4_PROT_NUMBER m fr = Inr (choose_bearer tfts d h lr1 m, fr1)"
    using b by (subst Classify_ipv4 [OF _ assms(4)]) (auto simp: between_def ports)
  moreover have "fragment_key h = fragment_key h0 \<Longrightarrow> choose_bearer tfts d h lr1 m = choose_bearer tfts d h0 lr m"
    using b keep(3) by (auto simp: between_def intro: choose_bearer_cong)
  ultimately show ?case
    using rest by (intro exI [of _ "choose_bearer tfts d h lr1 m # ks"] exI [of _ fr2]) (simp add: x chosen_for_def comp_def)
qed

lemma classify_all_append:
  "classify_all tfts d m (ps @ qs) fr =
   rbind (classify_all tfts d m ps fr) (\<lambda>(ks, fr').
   rbind (classify_all tfts d m qs fr') (\<lambda>(ks', fr''). Inr (ks @ ks', fr'')))"
proof (induction ps arbitrary: fr)
  case Nil
  show ?case by (cases "classify_all tfts d m qs fr") auto
next
  case (Cons p ps)
  show ?case
  proof (cases "Classify tfts p d IPV4_PROT_NUMBER m fr")
    case (Inr x)
    obtain k fr1 where x: "x = (k, fr1)" by (cases x)
    show ?thesis
    proof (cases "classify_all tfts d m ps fr1")
      case (Inr y)
      obtain ks fr2 where y: "y = (ks, fr2)" by (cases y)
      show ?thesis
        using \<open>Classify tfts p d IPV4_PROT_NUMBER m fr = Inr x\<close> Inr Cons.IH [of fr1]
        by (cases "classify_all tfts d m qs fr2") (auto simp: x y)
    qed (use Inr Cons.IH [of fr1] in \<open>simp add: x\<close>)
  qed simp
qed

text \<open>The first fragment, packets between, the last fragment.\<close>

lemma fragments_agree:
  assumes "is_ipv4 h0 l0 p0" "has_ports h0" "readable h0 l0" "\<not> IsLastFragment h0"
    and "list_all (between h0) xs"
    and "is_ipv4 h1 l1 p1" "fragment_key h1 = fragment_key h0" "ip_tos h1 = ip_tos h0"
    and "ip_fragmentOffset h1 \<noteq> 0" "IsLastFragment h1"
    and "map_wf fr" "d = UPLINK \<or> d = DOWNLINK"
  shows "\<exists>k ks fr'. classify_all tfts d m (p0 # map (snd \<circ> snd) xs @ [p1]) fr = Inr (k # ks @ [k], fr') \<and>
    k = choose_bearer tfts d h0 (header_ports d l0) m \<and>
    chosen_for h0 k xs ks \<and> map_of fr' (fragment_key h0) = None \<and> map_wf fr'"
proof -
  define lr where "lr = header_ports d l0"
  define fr0 where "fr0 = map_put (fragment_key h0) lr fr"
  have first: "Classify tfts p0 d IPV4_PROT_NUMBER m fr = Inr (choose_bearer tfts d h0 lr m, fr0)"
    by (subst Classify_ipv4 [OF assms(1,12)])
      (simp add: ipv4_ports_first [OF assms(2,3)] remember_ports_def assms(4) fr0_def lr_def)
  have "map_of fr0 (fragment_key h0) = Some lr" "map_wf fr0"
    using assms(11) by (simp_all add: fr0_def map_of_put map_wf_put)
  from classify_between [OF assms(5) this assms(12), of tfts m] obtain ks fr1
    where mid: "classify_all tfts d m (map (snd \<circ> snd) xs) fr0 = Inr (ks, fr1)"
      "chosen_for h0 (choose_bearer tfts d h0 lr m) xs ks" "map_of fr1 (fragment_key h0) = Some lr" "map_wf fr1"
    by auto
  have "Classify tfts p1 d IPV4_PROT_NUMBER m fr1
      = Inr (choose_bearer tfts d h0 lr m, map_erase (fragment_key h0) fr1)"
    by (subst Classify_ipv4 [OF assms(6,12)])
      (use assms(7-10) mid(3) choose_bearer_cong [of h1 h0] in \<open>simp add: ipv4_ports_known\<close>)
  then show ?thesis
    using first mid(1,2,4) lr_def
    by (simp add: classify_all_append map_of_erase map_wf_erase)
qed

end
