(* ===== verification/EpcUeNas.thy ===== *)
theory EpcUeNas
  imports EpcTftClassifier
begin

text \<open>
  The NAS of a UE (\<open>src/src/lte/model/epc-ue-nas.h\<close>, \<open>epc-ue-nas.cc\<close>): its state machine, the EPS
  bearers it activates, the sidelink bearers, and the choice of the bearer for a packet.  The two
  tables of its TFT classifier are part of the state.  An \<open>EpcTft\<close> object is its identity; the
  argument \<open>tfts\<close> of \<open>Send\<close> is what the objects are.
  The calls on the access stratum and the callbacks are appended to \<open>nas_out\<close>.
\<close>

section \<open>IP headers\<close>

text \<open>
  The destination address that \<open>Ipv4Header::Deserialize\<close> and \<open>Ipv6Header::Deserialize\<close> leave in the
  header.  A header of another version keeps the address of the default constructor (\<open>::\<close> for IPv6).
\<close>

definition Ipv4Header_Destination :: "u8 list \<Rightarrow> ipv4 res" where
  "Ipv4Header_Destination bs = rbind (Ipv4Header_Deserialize Ipv4Header bs) (\<lambda>(h, n). Inr (ip_destination h))"

definition Ipv6Header_Destination :: "u8 list \<Rightarrow> ipv6 res" where
  "Ipv6Header_Destination bs = rbind (Ipv6Header_Deserialize Ipv6Header bs) (\<lambda>(h, n). Inr (ip6_destination h))"

lemma Ipv4Header_Destination_eq:
  "Ipv4Header_Destination bs =
     (case bs of
        [] \<Rightarrow> Inl NsAssert
      | verIhl # _ \<Rightarrow>
          if drop_bit 4 verIhl \<noteq> 4 then Inr 0x66666666
          else if length bs < 20 then Inl NsAssert
          else Inr (u32_of (bs ! 16) (bs ! 17) (bs ! 18) (bs ! 19)))"
  by (auto simp: Ipv4Header_Destination_def Ipv4Header_Deserialize_def Ipv4Header_def Let_def split: list.split)

section \<open>State\<close>

datatype NasState = NAS_OFF | NAS_ATTACHING | NAS_IDLE_REGISTERED | NAS_CONNECTING_TO_EPC | NAS_ACTIVE

datatype nas_call =
    As_SetCsgWhiteList u32
  | As_StartCellSelection u32
  | As_ForceCampedOnEnb u16 u32
  | As_Connect
  | As_ConnectNow                         \<comment> \<open>scheduled at the current time\<close>
  | As_Disconnect
  | As_SendData packet u8
  | As_SendSidelinkData packet u32
  | As_ActivateNrSlRadioBearer u32 bool bool bool
  | Nas_StateTransition NasState NasState
  | Nas_ForwardUp packet

record nas =
  nas_state :: NasState
  nas_csgId :: u32
  nas_imsi :: u64
  nas_bidCounter :: u8
  nas_tftMap :: tft_table
  nas_fragments :: fragment_table
  nas_toBeActivated :: "nat list"
  nas_forReconnection :: "nat list"
  nas_pendingSl :: "sltft list"
  nas_activatedSl :: "sltft list"
  nas_out :: "nas_call list"

definition EpcUeNas :: nas where
  "EpcUeNas = \<lparr>nas_state = NAS_OFF, nas_csgId = 0, nas_imsi = 0, nas_bidCounter = 0, nas_tftMap = [], nas_fragments = [],
     nas_toBeActivated = [], nas_forReconnection = [], nas_pendingSl = [], nas_activatedSl = [],
     nas_out = []\<rparr>"

definition nas_emit :: "nas_call list \<Rightarrow> nas \<Rightarrow> nas" where
  "nas_emit es n = n\<lparr>nas_out := nas_out n @ es\<rparr>"

section \<open>EPS bearers and states\<close>

definition SetImsi :: "u64 \<Rightarrow> nas \<Rightarrow> nas" where
  "SetImsi v n = n\<lparr>nas_imsi := v\<rparr>"

definition SetCsgId :: "u32 \<Rightarrow> nas \<Rightarrow> nas" where
  "SetCsgId v n = nas_emit [As_SetCsgWhiteList v] (n\<lparr>nas_csgId := v\<rparr>)"

definition GetCsgId :: "nas \<Rightarrow> u32" where
  "GetCsgId n = nas_csgId n"

definition StartCellSelection :: "u32 \<Rightarrow> nas \<Rightarrow> nas" where
  "StartCellSelection dlEarfcn n = nas_emit [As_StartCellSelection dlEarfcn] n"

definition Connect :: "nas \<Rightarrow> nas" where
  "Connect n = nas_emit [As_Connect] n"

definition Connect_to :: "u16 \<Rightarrow> u32 \<Rightarrow> nas \<Rightarrow> nas" where
  "Connect_to cellId dlEarfcn n = nas_emit [As_ForceCampedOnEnb cellId dlEarfcn, As_Connect] n"

definition GetState :: "nas \<Rightarrow> NasState" where
  "GetState n = nas_state n"

definition DoActivateEpsBearer :: "nat \<Rightarrow> nas \<Rightarrow> nas res" where
  "DoActivateEpsBearer tft n =
     rguard NsAssert (nas_bidCounter n < 11)
       (let bid = nas_bidCounter n + 1 in
        rbind (classifier_Add tft (ucast bid) (nas_tftMap n)) (\<lambda>m.
          Inr (n\<lparr>nas_bidCounter := bid, nas_tftMap := m\<rparr>)))"

text \<open>The loop of \<open>SwitchToState\<close> takes the bearers off the list one by one.\<close>

fun activate_all :: "nat list \<Rightarrow> nas \<Rightarrow> nas res" where
  "activate_all [] n = Inr (n\<lparr>nas_toBeActivated := []\<rparr>)"
| "activate_all (t # ts) n = rbind (DoActivateEpsBearer t n) (activate_all ts)"

definition SwitchToState :: "NasState \<Rightarrow> nas \<Rightarrow> nas res" where
  "SwitchToState s n =
     (let n1 = nas_emit [Nas_StateTransition (nas_state n) s] (n\<lparr>nas_state := s\<rparr>) in
      case s of NAS_ACTIVE \<Rightarrow> activate_all (nas_toBeActivated n1) n1 | _ \<Rightarrow> Inr n1)"

definition Disconnect :: "nas \<Rightarrow> nas res" where
  "Disconnect n = rbind (SwitchToState NAS_OFF n) (\<lambda>n'. Inr (nas_emit [As_Disconnect] n'))"

definition ActivateEpsBearer :: "nat \<Rightarrow> nas \<Rightarrow> nas res" where
  "ActivateEpsBearer tft n =
     (case nas_state n of
        NAS_ACTIVE \<Rightarrow> Inl NsFatal
      | _ \<Rightarrow> Inr (n\<lparr>nas_toBeActivated := nas_toBeActivated n @ [tft],
                    nas_forReconnection := nas_forReconnection n @ [tft]\<rparr>))"

definition DoNotifyConnectionSuccessful :: "nas \<Rightarrow> nas res" where
  "DoNotifyConnectionSuccessful n = SwitchToState NAS_ACTIVE n"

definition DoNotifyConnectionFailed :: "nas \<Rightarrow> nas" where
  "DoNotifyConnectionFailed n = nas_emit [As_ConnectNow] n"

definition nas_DoRecvData :: "packet \<Rightarrow> nas \<Rightarrow> nas" where
  "nas_DoRecvData p n = nas_emit [Nas_ForwardUp p] n"

text \<open>The loop that deletes the templates counts the 8-bit counter down to 0.\<close>

function remove_tfts :: "nas \<Rightarrow> nas" where
  "remove_tfts n =
     (if 0 < nas_bidCounter n then
        remove_tfts (n\<lparr>nas_tftMap := classifier_Delete (ucast (nas_bidCounter n)) (nas_tftMap n),
                       nas_bidCounter := nas_bidCounter n - 1\<rparr>)
      else n)"
  by pat_completeness auto

termination remove_tfts
proof (relation "measure (\<lambda>n. unat (nas_bidCounter n))")
  fix n :: nas
  assume "0 < nas_bidCounter n"
  then have "unat (nas_bidCounter n - 1) < unat (nas_bidCounter n)"
    by (metis diff_less unat_gt_0 unat_minus_one word_neq_0_conv zero_less_one)
  then show "(n\<lparr>nas_tftMap := classifier_Delete (ucast (nas_bidCounter n)) (nas_tftMap n),
      nas_bidCounter := nas_bidCounter n - 1\<rparr>, n) \<in> measure (\<lambda>n. unat (nas_bidCounter n))"
    by simp
qed simp

declare remove_tfts.simps [simp del]

definition DoNotifyConnectionReleased :: "nas \<Rightarrow> nas res" where
  "DoNotifyConnectionReleased n =
     (let n1 = remove_tfts n in Disconnect (n1\<lparr>nas_toBeActivated := nas_forReconnection n1\<rparr>))"

section \<open>Sidelink bearers\<close>

definition ActivateNrSlBearer :: "sltft \<Rightarrow> nas \<Rightarrow> nas res" where
  "ActivateNrSlBearer t n =
     rbind (isTransmit t) (\<lambda>tx. rbind (isReceive t) (\<lambda>rx. rbind (isUnicast t) (\<lambda>uni.
       Inr (nas_emit [As_ActivateNrSlRadioBearer (GetDstL2Id t) tx rx uni]
             (n\<lparr>nas_pendingSl := nas_pendingSl n @ [t]\<rparr>)))))"

text \<open>The loop moves the templates of the destination from one list to the end of the other.\<close>

fun move_activated :: "u32 \<Rightarrow> sltft list \<Rightarrow> sltft list \<Rightarrow> sltft list \<times> sltft list" where
  "move_activated dst [] act = ([], act)"
| "move_activated dst (t # ts) act =
     (if GetDstL2Id t = dst then move_activated dst ts (act @ [t])
      else (let (p, a) = move_activated dst ts act in (t # p, a)))"

definition DoNotifyNrSlRadioBearerActivated :: "u32 \<Rightarrow> nas \<Rightarrow> nas" where
  "DoNotifyNrSlRadioBearerActivated dst n =
     (let (p, a) = move_activated dst (nas_pendingSl n) (nas_activatedSl n) in
      n\<lparr>nas_pendingSl := p, nas_activatedSl := a\<rparr>)"

section \<open>Sending\<close>

text \<open>
  What the two blocks for IPv4 and IPv6 do: the result is \<open>Some\<close> when the packet was sent on a
  sidelink bearer, or, if \<open>pend\<close>, discarded because its bearer is still pending.
\<close>

definition try_sidelink :: "bool \<Rightarrow> (sltft \<Rightarrow> bool) \<Rightarrow> packet \<Rightarrow> nas \<Rightarrow> (bool \<times> nas) option" where
  "try_sidelink pend matches p n =
     (case List.find matches (nas_activatedSl n) of
        Some t \<Rightarrow> Some (True, nas_emit [As_SendSidelinkData p (GetDstL2Id t)] n)
      | None \<Rightarrow>
          if pend \<and> List.find matches (nas_pendingSl n) \<noteq> None then Some (False, n) else None)"

definition sidelink_blocks :: "bool \<Rightarrow> packet \<Rightarrow> u16 \<Rightarrow> nas \<Rightarrow> (bool \<times> nas) option res" where
  "sidelink_blocks pend p protocolNumber n =
     (if protocolNumber = IPV4_PROT_NUMBER then
        rbind (Ipv4Header_Destination (pk_bytes p)) (\<lambda>ra. Inr (try_sidelink pend (tft_Matches4 ra) p n))
      else if protocolNumber = IPV6_PROT_NUMBER then
        rbind (Ipv6Header_Destination (pk_bytes p)) (\<lambda>ra. Inr (try_sidelink pend (tft_Matches6 ra) p n))
      else Inr None)"

definition nas_Send :: "(nat \<Rightarrow> epc_tft) \<Rightarrow> packet \<Rightarrow> u16 \<Rightarrow> nas \<Rightarrow> (bool \<times> nas) res" where
  "nas_Send tfts p protocolNumber n =
     (case nas_state n of
        NAS_ACTIVE \<Rightarrow>
          rbind (sidelink_blocks True p protocolNumber n) (\<lambda>r.
            case r of
              Some x \<Rightarrow> Inr x
            | None \<Rightarrow>
                rbind (Classify tfts p UPLINK protocolNumber (nas_tftMap n) (nas_fragments n)) (\<lambda>(bid, fr).
                let n' = n\<lparr>nas_fragments := fr\<rparr> in
                rguard NsAssert ((bid AND 0xFFFFFF00) = 0)
                  (let b = (ucast (bid AND 0x000000FF) :: u8) in
                   if b = 0 then Inr (False, n') else Inr (True, nas_emit [As_SendData p b] n'))))
      | NAS_OFF \<Rightarrow>
          rbind (sidelink_blocks False p protocolNumber n) (\<lambda>r.
            case r of Some x \<Rightarrow> Inr x | None \<Rightarrow> Inr (False, n))
      | _ \<Rightarrow> Inr (False, n))"

section \<open>The EPS bearers\<close>

text \<open>The table that the classifier has after bearers 1, 2, ... are added for templates.\<close>

definition eps_map :: "nat list \<Rightarrow> (u32, nat) std_map" where
  "eps_map ts = zip (map (\<lambda>i. of_nat (Suc i)) [0..<length ts]) ts"

lemma eps_keys: "length ts \<le> 11 \<Longrightarrow> k \<in> fst ` set (eps_map ts) \<Longrightarrow> 1 \<le> unat k \<and> unat k \<le> length ts"
proof -
  assume len: "length ts \<le> 11" and "k \<in> fst ` set (eps_map ts)"
  then have "k \<in> set (map (\<lambda>i. of_nat (Suc i)) [0..<length ts])"
    unfolding eps_map_def by (auto dest: set_zip_leftD simp del: of_nat_Suc)
  then obtain i where i: "i < length ts" "k = of_nat (Suc i)" by auto
  then have "unat k = Suc i" using len unat_of_nat_u32 [of "Suc i"] by simp
  with i show ?thesis by simp
qed

lemma eps_map_snoc: "eps_map (ts @ [t]) = eps_map ts @ [(of_nat (Suc (length ts)), t)]"
  by (simp add: eps_map_def)

lemma length_eps_map [simp]: "length (eps_map ts) = length ts"
  by (simp add: eps_map_def)

lemma eps_map_put:
  assumes "length ts < 11"
  shows "map_put (of_nat (Suc (length ts))) t (eps_map ts) = eps_map (ts @ [t])"
proof -
  have "unat (of_nat (Suc (length ts)) :: u32) = Suc (length ts)"
    using assms by (intro unat_of_nat_u32) simp
  then have "\<forall>k \<in> fst ` set (eps_map ts). k < of_nat (Suc (length ts))"
    using eps_keys [of ts] assms by (fastforce simp: word_less_nat_alt)
  then show ?thesis by (simp add: map_put_last eps_map_snoc)
qed

lemma eps_map_erase:
  assumes "length ts < 11"
  shows "map_erase (of_nat (Suc (length ts))) (eps_map (ts @ [t])) = eps_map ts"
proof -
  have "unat (of_nat (Suc (length ts)) :: u32) = Suc (length ts)"
    using assms by (intro unat_of_nat_u32) simp
  then have "of_nat (Suc (length ts)) \<notin> fst ` set (eps_map ts)"
    using eps_keys [of ts] assms by fastforce
  then show ?thesis unfolding eps_map_snoc by (rule map_erase_last)
qed

text \<open>
  The bearers that have been activated are the first ones asked for; the others are waiting, and
  none waits in state ACTIVE.
\<close>

definition nas_inv :: "nas \<Rightarrow> bool" where
  "nas_inv n \<longleftrightarrow> (let k = unat (nas_bidCounter n); ts = nas_forReconnection n in
     k \<le> 11 \<and> k \<le> length ts \<and> nas_tftMap n = eps_map (take k ts) \<and> nas_toBeActivated n = drop k ts \<and>
     (nas_state n = NAS_ACTIVE \<longrightarrow> k = length ts))"

lemma nas_inv_frame:
  "nas_inv n \<Longrightarrow> nas_bidCounter n' = nas_bidCounter n \<Longrightarrow> nas_forReconnection n' = nas_forReconnection n \<Longrightarrow>
   nas_tftMap n' = nas_tftMap n \<Longrightarrow> nas_toBeActivated n' = nas_toBeActivated n \<Longrightarrow>
   nas_state n' = nas_state n \<or> nas_state n' \<noteq> NAS_ACTIVE \<Longrightarrow> nas_inv n'"
  by (auto simp: nas_inv_def Let_def)

lemma u8_small: "k < 256 \<Longrightarrow> unat (of_nat k :: u8) = k"
  by (simp add: unat_of_nat take_bit_nat_eq_self)

lemma activate_all_eq:
  assumes "nas_bidCounter n = of_nat (length xs)" "nas_tftMap n = eps_map xs" "length xs \<le> 11"
  shows "activate_all ts n =
    (if length xs + length ts \<le> 11
     then Inr (n\<lparr>nas_bidCounter := of_nat (length xs + length ts), nas_tftMap := eps_map (xs @ ts),
                 nas_toBeActivated := []\<rparr>)
     else Inl NsAssert)"
  using assms
proof (induction ts arbitrary: n xs)
  case (Cons t ts)
  show ?case
  proof (cases "length xs < 11")
    case False
    then show ?thesis using Cons.prems by (simp add: DoActivateEpsBearer_def)
  next
    case True
    define n1 where "n1 = n\<lparr>nas_bidCounter := of_nat (length (xs @ [t])), nas_tftMap := eps_map (xs @ [t])\<rparr>"
    have bid: "(ucast (1 + of_nat (length xs) :: u8) :: u32) = 1 + of_nat (length xs)"
    proof -
      have "unat (1 + of_nat (length xs) :: u8) = Suc (length xs)"
        using u8_small [of "Suc (length xs)"] True by simp
      then show ?thesis by (metis of_nat_unat of_nat_Suc)
    qed
    have "(of_nat (length xs) :: u8) < 11"
      using True u8_small [of "length xs"] by (simp add: word_less_nat_alt)
    then have "DoActivateEpsBearer t n = Inr n1"
      using Cons.prems True eps_map_put [OF True, of t]
      by (simp add: DoActivateEpsBearer_def classifier_Add_def bid n1_def Let_def add.commute [of _ "1 :: u8"])
    then have "activate_all (t # ts) n = activate_all ts n1"
      by simp
    also have "\<dots> = (if length (xs @ [t]) + length ts \<le> 11
      then Inr (n1\<lparr>nas_bidCounter := of_nat (length (xs @ [t]) + length ts),
         nas_tftMap := eps_map ((xs @ [t]) @ ts), nas_toBeActivated := []\<rparr>) else Inl NsAssert)"
      using True by (intro Cons.IH) (simp_all add: n1_def)
    finally show ?thesis by (simp add: n1_def)
  qed
qed simp

lemma remove_tfts_eq:
  assumes "nas_bidCounter n = of_nat (length xs)" "nas_tftMap n = eps_map xs" "length xs \<le> 11"
  shows "remove_tfts n = n\<lparr>nas_bidCounter := 0, nas_tftMap := []\<rparr>"
  using assms
proof (induction xs arbitrary: n rule: rev_induct)
  case Nil
  then show ?case by (simp add: remove_tfts.simps [of n] eps_map_def)
next
  case (snoc t xs)
  have pos: "unat (nas_bidCounter n) = Suc (length xs)"
    unfolding snoc.prems(1) using snoc.prems(3) u8_small [of "Suc (length xs)"] by simp
  then have gt: "0 < nas_bidCounter n" by (metis unat_gt_0 word_gt_0 zero_less_Suc less_irrefl unat_0)
  have "(ucast (nas_bidCounter n) :: u32) = of_nat (Suc (length xs))"
    using pos by (metis of_nat_unat)
  then have "remove_tfts n = remove_tfts (n\<lparr>nas_tftMap := eps_map xs, nas_bidCounter := of_nat (length xs)\<rparr>)"
    using gt snoc.prems eps_map_erase [of xs t]
    by (subst remove_tfts.simps) (simp add: classifier_Delete_def)
  also have "\<dots> = n\<lparr>nas_bidCounter := 0, nas_tftMap := []\<rparr>"
    using snoc.prems(3) by (subst snoc.IH) simp_all
  finally show ?case .
qed

lemma nas_inv_parts:
  assumes "nas_inv n"
  obtains xs ys where "nas_forReconnection n = xs @ ys" "nas_toBeActivated n = ys" "nas_tftMap n = eps_map xs"
    "nas_bidCounter n = of_nat (length xs)" "length xs \<le> 11" "nas_state n = NAS_ACTIVE \<longrightarrow> ys = []"
proof
  let ?k = "unat (nas_bidCounter n)" and ?ts = "nas_forReconnection n"
  show "?ts = take ?k ?ts @ drop ?k ?ts" by simp
  show "nas_toBeActivated n = drop ?k ?ts" "nas_tftMap n = eps_map (take ?k ?ts)"
    "length (take ?k ?ts) \<le> 11"
    "nas_state n = NAS_ACTIVE \<longrightarrow> drop ?k ?ts = []"
    using assms by (auto simp: nas_inv_def Let_def min_def)
  have "length (take ?k ?ts) = ?k"
    using assms by (simp add: nas_inv_def Let_def)
  then show "nas_bidCounter n = of_nat (length (take ?k ?ts))" by simp
qed

text \<open>What the two notifications of the access stratum do with the bearers.\<close>

lemma connection_successful:
  assumes "nas_inv n"
  shows "if length (nas_forReconnection n) \<le> 11
    then \<exists>n'. DoNotifyConnectionSuccessful n = Inr n' \<and> nas_state n' = NAS_ACTIVE \<and>
      nas_tftMap n' = eps_map (nas_forReconnection n) \<and> nas_toBeActivated n' = [] \<and>
      nas_bidCounter n' = of_nat (length (nas_forReconnection n)) \<and>
      nas_forReconnection n' = nas_forReconnection n
    else DoNotifyConnectionSuccessful n = Inl NsAssert"
proof (rule nas_inv_parts [OF assms])
  fix xs ys
  assume *: "nas_forReconnection n = xs @ ys" "nas_toBeActivated n = ys" "nas_tftMap n = eps_map xs"
    "nas_bidCounter n = of_nat (length xs)" "length xs \<le> 11"
  have "DoNotifyConnectionSuccessful n = activate_all ys
      (nas_emit [Nas_StateTransition (nas_state n) NAS_ACTIVE] (n\<lparr>nas_state := NAS_ACTIVE\<rparr>))"
    by (simp add: DoNotifyConnectionSuccessful_def SwitchToState_def nas_emit_def *(2))
  then show ?thesis
    using *(1,3-5) activate_all_eq [of "nas_emit [Nas_StateTransition (nas_state n) NAS_ACTIVE]
        (n\<lparr>nas_state := NAS_ACTIVE\<rparr>)" xs ys] by (simp add: nas_emit_def)
qed

lemma connection_released:
  assumes "nas_inv n"
  shows "\<exists>n'. DoNotifyConnectionReleased n = Inr n' \<and> nas_state n' = NAS_OFF \<and> nas_tftMap n' = [] \<and>
    nas_bidCounter n' = 0 \<and> nas_toBeActivated n' = nas_forReconnection n \<and>
    nas_forReconnection n' = nas_forReconnection n"
proof (rule nas_inv_parts [OF assms])
  fix xs ys
  assume "nas_tftMap n = eps_map xs" "nas_bidCounter n = of_nat (length xs)" "length xs \<le> 11"
  then show ?thesis
    using remove_tfts_eq [of n xs]
    by (simp add: DoNotifyConnectionReleased_def Disconnect_def SwitchToState_def nas_emit_def)
qed

section \<open>Reachable states of the NAS\<close>

inductive nas_reachable :: "nas \<Rightarrow> bool" where
  init: "nas_reachable EpcUeNas"
| imsi: "nas_reachable n \<Longrightarrow> nas_reachable (SetImsi i n)"
| csg: "nas_reachable n \<Longrightarrow> nas_reachable (SetCsgId i n)"
| cell: "nas_reachable n \<Longrightarrow> nas_reachable (StartCellSelection f n)"
| connect: "nas_reachable n \<Longrightarrow> nas_reachable (Connect n)"
| connect_to: "nas_reachable n \<Longrightarrow> nas_reachable (Connect_to c f n)"
| disconnect: "nas_reachable n \<Longrightarrow> Disconnect n = Inr n' \<Longrightarrow> nas_reachable n'"
| bearer: "nas_reachable n \<Longrightarrow> ActivateEpsBearer t n = Inr n' \<Longrightarrow> nas_reachable n'"
| success: "nas_reachable n \<Longrightarrow> DoNotifyConnectionSuccessful n = Inr n' \<Longrightarrow> nas_reachable n'"
| failed: "nas_reachable n \<Longrightarrow> nas_reachable (DoNotifyConnectionFailed n)"
| released: "nas_reachable n \<Longrightarrow> DoNotifyConnectionReleased n = Inr n' \<Longrightarrow> nas_reachable n'"
| recv: "nas_reachable n \<Longrightarrow> nas_reachable (nas_DoRecvData p n)"
| sl_bearer: "nas_reachable n \<Longrightarrow> ActivateNrSlBearer tft n = Inr n' \<Longrightarrow> nas_reachable n'"
| sl_notify: "nas_reachable n \<Longrightarrow> nas_reachable (DoNotifyNrSlRadioBearerActivated dst n)"
| send: "nas_reachable n \<Longrightarrow> nas_Send tfts p proto n = Inr (b, n') \<Longrightarrow> nas_reachable n'"

lemma nas_inv_emit [simp]: "nas_inv (nas_emit es n) = nas_inv n"
  by (simp add: nas_inv_def nas_emit_def)

lemma nas_inv_fragments [simp]: "nas_inv (n\<lparr>nas_fragments := fr\<rparr>) = nas_inv n"
  by (simp add: nas_inv_def)

lemma nas_inv_try: "try_sidelink pend f p n = Some (b, n') \<Longrightarrow> nas_inv n \<Longrightarrow> nas_inv n'"
  by (auto simp: try_sidelink_def split: option.splits if_splits)

lemma nas_inv_blocks:
  assumes "sidelink_blocks pend p proto n = Inr (Some (b, n'))" "nas_inv n"
  shows "nas_inv n'"
proof -
  obtain f where "try_sidelink pend f p n = Some (b, n')"
    using assms(1) by (auto simp: sidelink_blocks_def rbind_eq_Inr split: if_split_asm)
  then show ?thesis using assms(2) by (rule nas_inv_try)
qed

lemma nas_inv_Send:
  assumes run: "nas_Send tfts p proto n = Inr (b, n')" and inv: "nas_inv n"
  shows "nas_inv n'"
proof (cases "nas_state n = NAS_ACTIVE \<or> nas_state n = NAS_OFF")
  case False
  with run inv show ?thesis by (cases "nas_state n") (simp_all add: nas_Send_def)
next
  case True
  define pend where "pend = (nas_state n = NAS_ACTIVE)"
  obtain r where r: "sidelink_blocks pend p proto n = Inr r"
    using run True by (auto simp: nas_Send_def rbind_eq_Inr pend_def)
  show ?thesis
  proof (cases r)
    case (Some x)
    then have "sidelink_blocks pend p proto n = Inr (Some (b, n'))"
      using run r True by (auto simp: nas_Send_def pend_def)
    then show ?thesis using inv by (rule nas_inv_blocks)
  next
    case None
    with run r True inv show ?thesis
      by (auto simp: nas_Send_def pend_def rbind_eq_Inr rguard_eq_Inr Let_def split: if_split_asm prod.splits)
  qed
qed

lemma nas_reachable_inv: "nas_reachable n \<Longrightarrow> nas_inv n"
proof (induction rule: nas_reachable.induct)
  case init
  show ?case by (simp add: nas_inv_def EpcUeNas_def eps_map_def)
next
  case (disconnect n n')
  then show ?case
    by (auto simp: Disconnect_def SwitchToState_def nas_emit_def intro: nas_inv_frame)
next
  case (bearer n t n')
  then show ?case
    by (auto simp: ActivateEpsBearer_def nas_inv_def Let_def split: NasState.splits)
next
  case (success n n')
  then show ?case
    using connection_successful [OF success.IH] u8_small [of "length (nas_forReconnection n)"]
    by (auto simp: nas_inv_def Let_def split: if_splits)
next
  case (released n n')
  then show ?case
    using connection_released [OF released.IH] by (auto simp: nas_inv_def Let_def eps_map_def)
next
  case (sl_bearer n tft n')
  then show ?case
    by (auto simp: ActivateNrSlBearer_def nas_emit_def rbind_eq_Inr intro: nas_inv_frame)
next
  case (sl_notify n dst)
  then show ?case
    by (auto simp: DoNotifyNrSlRadioBearerActivated_def split: prod.splits intro: nas_inv_frame)
next
  case (send n tfts p proto b n')
  then show ?case using nas_inv_Send by blast
qed (auto simp: SetImsi_def SetCsgId_def StartCellSelection_def Connect_def Connect_to_def
    DoNotifyConnectionFailed_def nas_DoRecvData_def nas_emit_def intro: nas_inv_frame)

end
