(* ===== verification/LteRrcSap.thy ===== *)
theory LteRrcSap
  imports Prelude
begin

text \<open>
  The enumerations of the sidelink pre-configuration and their conversions to and from
  integers (\<open>src/src/lte/model/lte-rrc-sap.h\<close>, \<open>lte-rrc-sap.cc\<close>).  Every enumeration has the
  default enumerator \<open>INVALID\<close>; the prefix of a constructor names the enumeration.  A value
  outside a \<open>switch\<close> is \<open>NS_FATAL_ERROR\<close>.
\<close>

section \<open>Enumerations\<close>

datatype SubcarrierSpacing =
    SCS_kHZ15 | SCS_kHZ30 | SCS_kHZ60 | SCS_kHZ120 | SCS_kHZ240 | SCS_INVALID

datatype SlLengthSymbols =
    LS_SYM7 | LS_SYM8 | LS_SYM9 | LS_SYM10 | LS_SYM11 | LS_SYM12 | LS_SYM13 | LS_SYM14
  | LS_INVALID

datatype SlStartSymbol =
    SS_SYM0 | SS_SYM1 | SS_SYM2 | SS_SYM3 | SS_SYM4 | SS_SYM5 | SS_SYM6 | SS_SYM7 | SS_INVALID

datatype SlTimeResourcePscch =
    TR_N1 | TR_N2 | TR_N3 | TR_INVALID

datatype SlFreqResourcePscch =
    FR_N10 | FR_N12 | FR_N15 | FR_N20 | FR_N25 | FR_INVALID

datatype SlSubchannelSize =
    SC_N10 | SC_N15 | SC_N20 | SC_N25 | SC_N50 | SC_N75 | SC_N100 | SC_INVALID

datatype SlSensingWindow =
    SW_MS100 | SW_MS1100 | SW_INVALID

datatype SlSelectionWindow =
    SEL_N1 | SEL_N5 | SEL_N10 | SEL_N20 | SEL_INVALID

datatype SlResourceReservePeriod =
    RP_MS0 | RP_MS10 | RP_MS20 | RP_MS30 | RP_MS40 | RP_MS50 | RP_MS60 | RP_MS70 | RP_MS80
  | RP_MS90 | RP_MS100 | RP_MS150 | RP_MS200 | RP_MS250 | RP_MS300 | RP_MS350 | RP_MS400
  | RP_MS450 | RP_MS500 | RP_MS550 | RP_MS600 | RP_MS650 | RP_MS700 | RP_MS750 | RP_MS800
  | RP_MS850 | RP_MS900 | RP_MS950 | RP_MS1000 | RP_INVALID

datatype SlMaxNumPerReserve =
    MR_N1 | MR_N2 | MR_N3 | MR_INVALID

section \<open>Conversions\<close>

definition GetScSpacingValue :: "SubcarrierSpacing \<Rightarrow> u32 res" where
  "GetScSpacingValue e =
     (case e of
        SCS_kHZ15 \<Rightarrow> Inr 15000 | SCS_kHZ30 \<Rightarrow> Inr 30000
      | SCS_kHZ60 \<Rightarrow> Inr 60000 | SCS_kHZ120 \<Rightarrow> Inr 120000
      | SCS_kHZ240 \<Rightarrow> Inr 240000 | _ \<Rightarrow> Inl NsFatal)"

definition GetScSpacingEnum :: "u32 \<Rightarrow> SubcarrierSpacing res" where
  "GetScSpacingEnum n =
     (if n = 15000 then Inr SCS_kHZ15
      else if n = 30000 then Inr SCS_kHZ30
      else if n = 60000 then Inr SCS_kHZ60
      else if n = 120000 then Inr SCS_kHZ120
      else if n = 240000 then Inr SCS_kHZ240
      else Inl NsFatal)"

definition GetSlLengthSymbolsValue :: "SlLengthSymbols \<Rightarrow> u16 res" where
  "GetSlLengthSymbolsValue e =
     (case e of
        LS_SYM7 \<Rightarrow> Inr 7 | LS_SYM8 \<Rightarrow> Inr 8
      | LS_SYM9 \<Rightarrow> Inr 9 | LS_SYM10 \<Rightarrow> Inr 10
      | LS_SYM11 \<Rightarrow> Inr 11 | LS_SYM12 \<Rightarrow> Inr 12
      | LS_SYM13 \<Rightarrow> Inr 13 | LS_SYM14 \<Rightarrow> Inr 14
      | _ \<Rightarrow> Inl NsFatal)"

definition GetSlLengthSymbolsEnum :: "u16 \<Rightarrow> SlLengthSymbols res" where
  "GetSlLengthSymbolsEnum n =
     (if n = 7 then Inr LS_SYM7
      else if n = 8 then Inr LS_SYM8
      else if n = 9 then Inr LS_SYM9
      else if n = 10 then Inr LS_SYM10
      else if n = 11 then Inr LS_SYM11
      else if n = 12 then Inr LS_SYM12
      else if n = 13 then Inr LS_SYM13
      else if n = 14 then Inr LS_SYM14
      else Inl NsFatal)"

definition GetSlStartSymbolValue :: "SlStartSymbol \<Rightarrow> u16 res" where
  "GetSlStartSymbolValue e =
     (case e of
        SS_SYM0 \<Rightarrow> Inr 0 | SS_SYM1 \<Rightarrow> Inr 1
      | SS_SYM2 \<Rightarrow> Inr 2 | SS_SYM3 \<Rightarrow> Inr 3
      | SS_SYM4 \<Rightarrow> Inr 4 | SS_SYM5 \<Rightarrow> Inr 5
      | SS_SYM6 \<Rightarrow> Inr 6 | SS_SYM7 \<Rightarrow> Inr 7
      | _ \<Rightarrow> Inl NsFatal)"

definition GetSlStartSymbolEnum :: "u16 \<Rightarrow> SlStartSymbol res" where
  "GetSlStartSymbolEnum n =
     (if n = 0 then Inr SS_SYM0
      else if n = 1 then Inr SS_SYM1
      else if n = 2 then Inr SS_SYM2
      else if n = 3 then Inr SS_SYM3
      else if n = 4 then Inr SS_SYM4
      else if n = 5 then Inr SS_SYM6
      else if n = 7 then Inr SS_SYM7
      else Inl NsFatal)"

definition GetSlTResoPscchValue :: "SlTimeResourcePscch \<Rightarrow> u16 res" where
  "GetSlTResoPscchValue e =
     (case e of
        TR_N1 \<Rightarrow> Inr 1 | TR_N2 \<Rightarrow> Inr 2 | TR_N3 \<Rightarrow> Inr 3
      | _ \<Rightarrow> Inl NsFatal)"

definition GetSlTResoPscchEnum :: "u16 \<Rightarrow> SlTimeResourcePscch res" where
  "GetSlTResoPscchEnum n =
     (if n = 1 then Inr TR_N1
      else if n = 2 then Inr TR_N2
      else if n = 3 then Inr TR_N3
      else Inl NsFatal)"

definition GetSlFResoPscchValue :: "SlFreqResourcePscch \<Rightarrow> u16 res" where
  "GetSlFResoPscchValue e =
     (case e of
        FR_N10 \<Rightarrow> Inr 10 | FR_N12 \<Rightarrow> Inr 12
      | FR_N15 \<Rightarrow> Inr 15 | FR_N20 \<Rightarrow> Inr 20
      | FR_N25 \<Rightarrow> Inr 25 | _ \<Rightarrow> Inl NsFatal)"

definition GetSlFResoPscchEnum :: "u16 \<Rightarrow> SlFreqResourcePscch res" where
  "GetSlFResoPscchEnum n =
     (if n = 10 then Inr FR_N10
      else if n = 12 then Inr FR_N12
      else if n = 15 then Inr FR_N15
      else if n = 20 then Inr FR_N20
      else if n = 25 then Inr FR_N25
      else Inl NsFatal)"

definition GetNrSlSubChSizeValue :: "SlSubchannelSize \<Rightarrow> u16 res" where
  "GetNrSlSubChSizeValue e =
     (case e of
        SC_N10 \<Rightarrow> Inr 10 | SC_N15 \<Rightarrow> Inr 15
      | SC_N20 \<Rightarrow> Inr 20 | SC_N25 \<Rightarrow> Inr 25
      | SC_N50 \<Rightarrow> Inr 50 | SC_N75 \<Rightarrow> Inr 75
      | SC_N100 \<Rightarrow> Inr 100 | _ \<Rightarrow> Inl NsFatal)"

definition GetNrSlSubChSizeEnum :: "u16 \<Rightarrow> SlSubchannelSize res" where
  "GetNrSlSubChSizeEnum n =
     (if n = 10 then Inr SC_N10
      else if n = 15 then Inr SC_N15
      else if n = 20 then Inr SC_N20
      else if n = 25 then Inr SC_N25
      else if n = 50 then Inr SC_N50
      else if n = 75 then Inr SC_N75
      else if n = 100 then Inr SC_N100
      else Inl NsFatal)"

definition GetSlSensWindowValue :: "SlSensingWindow \<Rightarrow> u16 res" where
  "GetSlSensWindowValue e =
     (case e of
        SW_MS100 \<Rightarrow> Inr 100 | SW_MS1100 \<Rightarrow> Inr 1100
      | _ \<Rightarrow> Inl NsFatal)"

definition GetSlSensWindowEnum :: "u16 \<Rightarrow> SlSensingWindow res" where
  "GetSlSensWindowEnum n =
     (if n = 100 then Inr SW_MS100
      else if n = 1100 then Inr SW_MS1100
      else Inl NsFatal)"

definition GetSlSelWindowValue :: "SlSelectionWindow \<Rightarrow> u16 res" where
  "GetSlSelWindowValue e =
     (case e of
        SEL_N1 \<Rightarrow> Inr 1 | SEL_N5 \<Rightarrow> Inr 5 | SEL_N10 \<Rightarrow> Inr 10
      | SEL_N20 \<Rightarrow> Inr 20 | _ \<Rightarrow> Inl NsFatal)"

definition GetSlSelWindowEnum :: "u16 \<Rightarrow> SlSelectionWindow res" where
  "GetSlSelWindowEnum n =
     (if n = 1 then Inr SEL_N1
      else if n = 5 then Inr SEL_N5
      else if n = 10 then Inr SEL_N10
      else if n = 20 then Inr SEL_N20
      else Inl NsFatal)"

definition GetSlResoResvPrdValue :: "SlResourceReservePeriod \<Rightarrow> u16 res" where
  "GetSlResoResvPrdValue e =
     (case e of
        RP_MS0 \<Rightarrow> Inr 0 | RP_MS10 \<Rightarrow> Inr 10
      | RP_MS20 \<Rightarrow> Inr 20 | RP_MS30 \<Rightarrow> Inr 30
      | RP_MS40 \<Rightarrow> Inr 40 | RP_MS50 \<Rightarrow> Inr 50
      | RP_MS60 \<Rightarrow> Inr 60 | RP_MS70 \<Rightarrow> Inr 70
      | RP_MS80 \<Rightarrow> Inr 80 | RP_MS90 \<Rightarrow> Inr 90
      | RP_MS100 \<Rightarrow> Inr 100 | RP_MS150 \<Rightarrow> Inr 150
      | RP_MS200 \<Rightarrow> Inr 200 | RP_MS300 \<Rightarrow> Inr 300
      | RP_MS350 \<Rightarrow> Inr 350 | RP_MS400 \<Rightarrow> Inr 400
      | RP_MS450 \<Rightarrow> Inr 450 | RP_MS500 \<Rightarrow> Inr 500
      | RP_MS550 \<Rightarrow> Inr 550 | RP_MS600 \<Rightarrow> Inr 600
      | RP_MS650 \<Rightarrow> Inr 650 | RP_MS700 \<Rightarrow> Inr 700
      | RP_MS750 \<Rightarrow> Inr 750 | RP_MS800 \<Rightarrow> Inr 800
      | RP_MS850 \<Rightarrow> Inr 850 | RP_MS900 \<Rightarrow> Inr 900
      | RP_MS950 \<Rightarrow> Inr 950 | RP_MS1000 \<Rightarrow> Inr 1000
      | _ \<Rightarrow> Inl NsFatal)"

definition GetSlResoResvPrdEnum :: "u16 \<Rightarrow> SlResourceReservePeriod res" where
  "GetSlResoResvPrdEnum n =
     (if n = 0 then Inr RP_MS0
      else if n = 10 then Inr RP_MS10
      else if n = 20 then Inr RP_MS20
      else if n = 30 then Inr RP_MS30
      else if n = 40 then Inr RP_MS40
      else if n = 50 then Inr RP_MS50
      else if n = 60 then Inr RP_MS60
      else if n = 70 then Inr RP_MS70
      else if n = 80 then Inr RP_MS80
      else if n = 90 then Inr RP_MS90
      else if n = 100 then Inr RP_MS100
      else if n = 150 then Inr RP_MS150
      else if n = 200 then Inr RP_MS200
      else if n = 250 then Inr RP_MS250
      else if n = 300 then Inr RP_MS300
      else if n = 350 then Inr RP_MS350
      else if n = 400 then Inr RP_MS400
      else if n = 450 then Inr RP_MS450
      else if n = 500 then Inr RP_MS500
      else if n = 550 then Inr RP_MS550
      else if n = 600 then Inr RP_MS600
      else if n = 650 then Inr RP_MS650
      else if n = 700 then Inr RP_MS700
      else if n = 750 then Inr RP_MS750
      else if n = 800 then Inr RP_MS800
      else if n = 850 then Inr RP_MS850
      else if n = 900 then Inr RP_MS900
      else if n = 950 then Inr RP_MS950
      else if n = 1000 then Inr RP_MS1000
      else Inl NsFatal)"

definition GetSlMaxNumPerReserveValue :: "SlMaxNumPerReserve \<Rightarrow> u8 res" where
  "GetSlMaxNumPerReserveValue e =
     (case e of
        MR_N1 \<Rightarrow> Inr 1 | MR_N2 \<Rightarrow> Inr 2 | MR_N3 \<Rightarrow> Inr 3
      | _ \<Rightarrow> Inl NsFatal)"

definition GetSlMaxNumPerReserveEnum :: "u8 \<Rightarrow> SlMaxNumPerReserve res" where
  "GetSlMaxNumPerReserveEnum n =
     (if n = 1 then Inr MR_N1
      else if n = 2 then Inr MR_N2
      else if n = 3 then Inr MR_N3
      else Inl NsFatal)"

section \<open>The contract of a conversion\<close>

text \<open>
  On the enumerators \<open>sound\<close> holds of, the two directions are inverse to each other.  The
  failures of both are \<open>NS_FATAL_ERROR\<close>.
\<close>

locale rrc_enum =
  fixes val_of :: "'e \<Rightarrow> 'n res" and enum_of :: "'n \<Rightarrow> 'e res" and sound :: "'e \<Rightarrow> bool"
  assumes convert: "sound e \<Longrightarrow> val_of e = Inr n \<longleftrightarrow> enum_of n = Inr e"
    and val_error: "val_of e = Inl x \<Longrightarrow> x = NsFatal"
    and enum_error: "enum_of n = Inl x \<Longrightarrow> x = NsFatal"
begin

lemma val_inj: "sound e \<Longrightarrow> sound e' \<Longrightarrow> val_of e = Inr n \<Longrightarrow> val_of e' = Inr n \<Longrightarrow> e = e'"
  using convert by fastforce

lemma enum_val: "sound e \<Longrightarrow> enum_of n = Inr e \<Longrightarrow> rbind (enum_of n) val_of = Inr n"
  using convert by simp

lemma val_enum:
  assumes "sound e" "is_ok (val_of e)"
  shows "rbind (val_of e) enum_of = Inr e"
proof -
  obtain n where "val_of e = Inr n"
    using assms(2) by (auto simp: is_ok_iff)
  with convert [OF assms(1), of n] show ?thesis by simp
qed

lemma unsupported:
  assumes "sound e" "\<not> is_ok (val_of e)"
  shows "val_of e = Inl NsFatal" "enum_of n \<noteq> Inr e"
  using convert [OF assms(1), of n] val_error [of e] assms(2) by (cases "val_of e"; auto)+

end

interpretation subcarrierSpacing: rrc_enum GetScSpacingValue GetScSpacingEnum "\<lambda>_. True"
  by unfold_locales
    (auto simp: GetScSpacingValue_def GetScSpacingEnum_def split: if_splits SubcarrierSpacing.splits)

interpretation slLengthSymbols: rrc_enum GetSlLengthSymbolsValue GetSlLengthSymbolsEnum "\<lambda>_. True"
  by unfold_locales
    (auto simp: GetSlLengthSymbolsValue_def GetSlLengthSymbolsEnum_def split: if_splits SlLengthSymbols.splits)

interpretation slStartSymbol: rrc_enum GetSlStartSymbolValue GetSlStartSymbolEnum "\<lambda>e. e \<noteq> SS_SYM5 \<and> e \<noteq> SS_SYM6"
  by unfold_locales
    (auto simp: GetSlStartSymbolValue_def GetSlStartSymbolEnum_def split: if_splits SlStartSymbol.splits)

interpretation slTimeResourcePscch: rrc_enum GetSlTResoPscchValue GetSlTResoPscchEnum "\<lambda>_. True"
  by unfold_locales
    (auto simp: GetSlTResoPscchValue_def GetSlTResoPscchEnum_def split: if_splits SlTimeResourcePscch.splits)

interpretation slFreqResourcePscch: rrc_enum GetSlFResoPscchValue GetSlFResoPscchEnum "\<lambda>_. True"
  by unfold_locales
    (auto simp: GetSlFResoPscchValue_def GetSlFResoPscchEnum_def split: if_splits SlFreqResourcePscch.splits)

interpretation slSubchannelSize: rrc_enum GetNrSlSubChSizeValue GetNrSlSubChSizeEnum "\<lambda>_. True"
  by unfold_locales
    (auto simp: GetNrSlSubChSizeValue_def GetNrSlSubChSizeEnum_def split: if_splits SlSubchannelSize.splits)

interpretation slSensingWindow: rrc_enum GetSlSensWindowValue GetSlSensWindowEnum "\<lambda>_. True"
  by unfold_locales
    (auto simp: GetSlSensWindowValue_def GetSlSensWindowEnum_def split: if_splits SlSensingWindow.splits)

interpretation slSelectionWindow: rrc_enum GetSlSelWindowValue GetSlSelWindowEnum "\<lambda>_. True"
  by unfold_locales
    (auto simp: GetSlSelWindowValue_def GetSlSelWindowEnum_def split: if_splits SlSelectionWindow.splits)

interpretation slResourceReservePeriod: rrc_enum GetSlResoResvPrdValue GetSlResoResvPrdEnum "\<lambda>e. e \<noteq> RP_MS250"
  by unfold_locales
    (auto simp: GetSlResoResvPrdValue_def GetSlResoResvPrdEnum_def split: if_splits SlResourceReservePeriod.splits)

interpretation slMaxNumPerReserve: rrc_enum GetSlMaxNumPerReserveValue GetSlMaxNumPerReserveEnum "\<lambda>_. True"
  by unfold_locales
    (auto simp: GetSlMaxNumPerReserveValue_def GetSlMaxNumPerReserveEnum_def split: if_splits SlMaxNumPerReserve.splits)

end
