(* ===== verification/NrSlPreconfig.thy ===== *)
theory NrSlPreconfig
  imports LteRrcSap
begin

text \<open>
  The information elements of the NR sidelink pre-configuration
  (\<open>src/src/lte/model/lte-rrc-sap.h\<close>), with the default values of their members, and the two
  standard containers they are kept in: \<open>std::array\<close> with range-checked access and
  \<open>std::unordered_map\<close>.  \<open>SlPsschConfig\<close>, the \<open>double\<close> keep probability and the fields that
  are commented out in the header are left out.
\<close>

section \<open>Containers\<close>

text \<open>\<open>at\<close> of an array or vector throws outside the range; \<open>operator[]\<close> does not check.\<close>

definition vec_at :: "'a list \<Rightarrow> nat \<Rightarrow> 'a res" where
  "vec_at xs n = (if n < length xs then Inr (xs ! n) else Inl OutOfRange)"

definition vec_index :: "'a list \<Rightarrow> nat \<Rightarrow> 'a res" where
  "vec_index xs n = (if n < length xs then Inr (xs ! n) else Inl UndefinedBehaviour)"

lemma vec_at_eq_Inr [simp]: "vec_at xs n = Inr x \<longleftrightarrow> n < length xs \<and> xs ! n = x"
  by (auto simp: vec_at_def)

lemma vec_at_ok: "n < length xs \<Longrightarrow> vec_at xs n = Inr (xs ! n)"
  by simp

lemma vec_index_ok: "n < length xs \<Longrightarrow> vec_index xs n = Inr (xs ! n)"
  by (simp add: vec_index_def)

text \<open>
  A \<open>std::unordered_map\<close> is the list of its entries in its iteration order.  \<open>insert\<close> and
  \<open>emplace\<close> leave an entry that has the key as it is.  Where a new entry goes in the iteration
  order is unspecified; the code modelled here reads \<open>begin()\<close> only, and each use says when
  that is determined.  Equality of two maps ignores the order.
\<close>

type_synonym ('k, 'v) umap = "('k \<times> 'v) list"

definition umap_emplace :: "'k \<Rightarrow> 'v \<Rightarrow> ('k, 'v) umap \<Rightarrow> ('k, 'v) umap" where
  "umap_emplace k v m = (if map_count k m then m else (k, v) # m)"

definition umap_wf :: "('k, 'v) umap \<Rightarrow> bool" where
  "umap_wf m = distinct (map fst m)"

definition umap_eq :: "('v \<Rightarrow> 'v \<Rightarrow> bool) \<Rightarrow> ('k, 'v) umap \<Rightarrow> ('k, 'v) umap \<Rightarrow> bool" where
  "umap_eq eqv m m' =
     (length m = length m' \<and>
      list_all (\<lambda>(k, v). case map_of m' k of None \<Rightarrow> False | Some v' \<Rightarrow> eqv v v') m)"

lemma umap_wf_Nil [simp]: "umap_wf []"
  by (simp add: umap_wf_def)

lemma umap_find_emplace:
  "map_of (umap_emplace k v m) = (if map_of m k = None then (map_of m)(k \<mapsto> v) else map_of m)"
  by (auto simp: umap_emplace_def map_count_def)

lemma umap_wf_emplace: "umap_wf m \<Longrightarrow> umap_wf (umap_emplace k v m)"
  by (auto simp: umap_wf_def umap_emplace_def map_count_iff)

lemma umap_eq_refl: "umap_wf m \<Longrightarrow> (\<And>v. eqv v v) \<Longrightarrow> umap_eq eqv m m"
  by (auto simp: umap_eq_def umap_wf_def list_all_iff)

text \<open>
  The contract of a table whose entries are set once: the clients prove what the table holds
  after a series of insertions from it.
\<close>

locale set_once =
  fixes find :: "'m \<Rightarrow> 'k \<Rightarrow> 'v option" and insert_new :: "'k \<Rightarrow> 'v \<Rightarrow> 'm \<Rightarrow> 'm"
    and empty :: 'm and wf :: "'m \<Rightarrow> bool"
  assumes find_empty: "find empty = Map.empty"
    and wf_empty: "wf empty"
    and wf_insert: "wf m \<Longrightarrow> wf (insert_new k v m)"
    and find_insert: "find (insert_new k v m) = (if find m k = None then (find m)(k \<mapsto> v) else find m)"
begin

lemma kept: "find m k = Some v \<Longrightarrow> find (insert_new k' v' m) k = Some v"
  by (auto simp: find_insert)

lemma inserted: "find m k = None \<Longrightarrow> find (insert_new k v m) k = Some v"
  by (simp add: find_insert)

lemma dom_insert: "dom (find (insert_new k v m)) = insert k (dom (find m))"
  by (auto simp: find_insert)

text \<open>Inserting a list of entries keeps, for every key, its first entry.\<close>

lemma fold_find:
  "find (fold (\<lambda>(k, v). insert_new k v) es m) k
     = (case find m k of Some v \<Rightarrow> Some v | None \<Rightarrow> map_of es k)"
proof (induction es arbitrary: m)
  case Nil
  show ?case by (simp split: option.splits)
next
  case (Cons e es)
  obtain a b where "e = (a, b)" by (cases e)
  then show ?case
    using Cons.IH [of "insert_new a b m"] by (auto simp: find_insert split: option.splits if_splits)
qed

lemma fold_wf: "wf m \<Longrightarrow> wf (fold (\<lambda>(k, v). insert_new k v) es m)"
  by (induction es arbitrary: m) (auto simp: wf_insert)

end

interpretation umap: set_once map_of umap_emplace "[]" umap_wf
  by unfold_locales (simp_all add: umap_find_emplace umap_wf_emplace)

section \<open>Information elements\<close>

record Bwp =
  bwp_numerology :: u16
  bwp_symbolsPerSlots :: u16
  bwp_rbPerRbg :: u32
  bwp_bandwidth :: u16

record SlBwpGeneric =
  gen_bwp :: Bwp
  gen_slLengthSymbols :: SlLengthSymbols
  gen_slStartSymbol :: SlStartSymbol

datatype setupRelease = PSCCH_RELEASE | PSCCH_SETUP | PSCCH_INVALID

record SlPscchConfig =
  pscch_setupRelease :: setupRelease
  pscch_slTimeResourcePscch :: SlTimeResourcePscch
  pscch_slFreqResourcePscch :: SlFreqResourcePscch

record SlUeSelectedConfigRp =
  rp_slSensingWindow :: SlSensingWindow
  rp_slSelectionWindow :: SlSelectionWindow
  rp_slMultiReserveResource :: bool
  rp_slResourceReservePeriodList :: "SlResourceReservePeriod list"
  rp_slMaxNumPerReserve :: SlMaxNumPerReserve

record SlResourcePoolNr =
  pool_slPscchConfig :: SlPscchConfig
  pool_slSubchannelSize :: SlSubchannelSize
  pool_slUeSelectedConfigRp :: SlUeSelectedConfigRp
  pool_slTimeResource :: "bool list"

record SlResourcePoolConfigNr =
  cfg_haveSlResourcePoolConfigNr :: bool
  cfg_slResourcePoolId :: u16
  cfg_slResourcePool :: SlResourcePoolNr

record SlBwpConfigCommonNr =
  bwp_haveSlBwpGeneric :: bool
  bwp_slBwpGeneric :: SlBwpGeneric
  bwp_haveSlBwpPoolConfigCommonNr :: bool
  bwp_slTxPoolSelectedNormal :: "SlResourcePoolConfigNr list"

record SlFreqConfigCommonNr =
  freq_slBwpList :: "SlBwpConfigCommonNr list"

record SidelinkPreconfigNr =
  pre_slPreconfigFreqInfoList :: "SlFreqConfigCommonNr list"
  pre_tddPattern :: string
  pre_slMaxTxTransNumPssch :: u8

subsection \<open>Default values\<close>

definition MAX_NUM_OF_FREQ_SL :: nat where "MAX_NUM_OF_FREQ_SL = 1"
definition MAX_NUM_OF_TX_POOL :: nat where "MAX_NUM_OF_TX_POOL = 8"
definition MAX_NUM_OF_SL_BWPs :: nat where "MAX_NUM_OF_SL_BWPs = 4"
definition RESV_PERIODS :: nat where "RESV_PERIODS = 16"

definition default_Bwp :: Bwp where
  "default_Bwp = \<lparr>bwp_numerology = 99, bwp_symbolsPerSlots = 0, bwp_rbPerRbg = 0, bwp_bandwidth = 0\<rparr>"

definition default_SlBwpGeneric :: SlBwpGeneric where
  "default_SlBwpGeneric =
     \<lparr>gen_bwp = default_Bwp, gen_slLengthSymbols = LS_INVALID, gen_slStartSymbol = SS_INVALID\<rparr>"

definition default_SlPscchConfig :: SlPscchConfig where
  "default_SlPscchConfig =
     \<lparr>pscch_setupRelease = PSCCH_INVALID, pscch_slTimeResourcePscch = TR_INVALID,
      pscch_slFreqResourcePscch = FR_INVALID\<rparr>"

definition default_SlUeSelectedConfigRp :: SlUeSelectedConfigRp where
  "default_SlUeSelectedConfigRp =
     \<lparr>rp_slSensingWindow = SW_INVALID, rp_slSelectionWindow = SEL_INVALID,
      rp_slMultiReserveResource = False,
      rp_slResourceReservePeriodList = replicate RESV_PERIODS RP_INVALID,
      rp_slMaxNumPerReserve = MR_INVALID\<rparr>"

definition default_SlResourcePoolNr :: SlResourcePoolNr where
  "default_SlResourcePoolNr =
     \<lparr>pool_slPscchConfig = default_SlPscchConfig, pool_slSubchannelSize = SC_INVALID,
      pool_slUeSelectedConfigRp = default_SlUeSelectedConfigRp, pool_slTimeResource = []\<rparr>"

definition default_SlResourcePoolConfigNr :: SlResourcePoolConfigNr where
  "default_SlResourcePoolConfigNr =
     \<lparr>cfg_haveSlResourcePoolConfigNr = False, cfg_slResourcePoolId = 333,
      cfg_slResourcePool = default_SlResourcePoolNr\<rparr>"

definition default_SlBwpConfigCommonNr :: SlBwpConfigCommonNr where
  "default_SlBwpConfigCommonNr =
     \<lparr>bwp_haveSlBwpGeneric = False, bwp_slBwpGeneric = default_SlBwpGeneric,
      bwp_haveSlBwpPoolConfigCommonNr = False,
      bwp_slTxPoolSelectedNormal = replicate MAX_NUM_OF_TX_POOL default_SlResourcePoolConfigNr\<rparr>"

definition default_SlFreqConfigCommonNr :: SlFreqConfigCommonNr where
  "default_SlFreqConfigCommonNr =
     \<lparr>freq_slBwpList = replicate MAX_NUM_OF_SL_BWPs default_SlBwpConfigCommonNr\<rparr>"

definition default_SidelinkPreconfigNr :: SidelinkPreconfigNr where
  "default_SidelinkPreconfigNr =
     \<lparr>pre_slPreconfigFreqInfoList = replicate MAX_NUM_OF_FREQ_SL default_SlFreqConfigCommonNr,
      pre_tddPattern = ''F|F|F|F|F|F|F|F|F|F|'', pre_slMaxTxTransNumPssch = 0\<rparr>"

text \<open>The sizes that the \<open>std::array\<close> types fix.\<close>

definition wf_pool_config :: "SlResourcePoolConfigNr \<Rightarrow> bool" where
  "wf_pool_config c =
     (length (rp_slResourceReservePeriodList (pool_slUeSelectedConfigRp (cfg_slResourcePool c))) = RESV_PERIODS)"

definition wf_bwp_config :: "SlBwpConfigCommonNr \<Rightarrow> bool" where
  "wf_bwp_config b =
     (length (bwp_slTxPoolSelectedNormal b) = MAX_NUM_OF_TX_POOL \<and>
      list_all wf_pool_config (bwp_slTxPoolSelectedNormal b))"

definition wf_freq_list :: "SlFreqConfigCommonNr list \<Rightarrow> bool" where
  "wf_freq_list fs =
     (length fs = MAX_NUM_OF_FREQ_SL \<and>
      list_all (\<lambda>f. length (freq_slBwpList f) = MAX_NUM_OF_SL_BWPs \<and>
                    list_all wf_bwp_config (freq_slBwpList f)) fs)"

lemmas max_simps = MAX_NUM_OF_FREQ_SL_def MAX_NUM_OF_TX_POOL_def MAX_NUM_OF_SL_BWPs_def RESV_PERIODS_def

lemmas default_simps = default_SidelinkPreconfigNr_def default_SlFreqConfigCommonNr_def
  default_SlBwpConfigCommonNr_def default_SlResourcePoolConfigNr_def default_SlResourcePoolNr_def
  default_SlUeSelectedConfigRp_def default_SlPscchConfig_def default_SlBwpGeneric_def default_Bwp_def

lemma wf_default: "wf_freq_list (pre_slPreconfigFreqInfoList default_SidelinkPreconfigNr)"
  by (simp add: wf_freq_list_def wf_bwp_config_def wf_pool_config_def default_simps max_simps
      list_all_iff)

end
