(* ===== verification/NrSlUeRrc.thy ===== *)
theory NrSlUeRrc
  imports NrSlPreconfig
begin

text \<open>
  The sidelink part of a UE's RRC: \<open>NrSlUeRrc\<close> (\<open>src/src/lte/model/nr-sl-ue-rrc.h\<close>,
  \<open>nr-sl-ue-rrc.cc\<close>).  It parses the TDD pattern, turns the sidelink bitmap of a resource pool
  into the physical pool, and keeps the table of sidelink data radio bearers.  The calls it
  makes on its SAP provider are recorded in the field \<open>rrc_calls\<close>.
\<close>

section \<open>State\<close>

datatype LteNrTddSlotType = TDD_DL | TDD_S | TDD_F | TDD_UL

text \<open>The declaration says that the ordering is important: the order of the values 0 to 3.\<close>

definition tdd_code :: "LteNrTddSlotType \<Rightarrow> nat" where
  "tdd_code t = (case t of TDD_DL \<Rightarrow> 0 | TDD_S \<Rightarrow> 1 | TDD_F \<Rightarrow> 2 | TDD_UL \<Rightarrow> 3)"

lemma tdd_code_inj: "tdd_code s = tdd_code t \<longleftrightarrow> s = t"
  by (cases s; cases t) (simp_all add: tdd_code_def)

instantiation LteNrTddSlotType :: linorder
begin

definition less_eq_LteNrTddSlotType where "s \<le> t \<longleftrightarrow> tdd_code s \<le> tdd_code t"
definition less_LteNrTddSlotType where "s < t \<longleftrightarrow> tdd_code s < tdd_code t"

instance
  by standard (auto simp: less_eq_LteNrTddSlotType_def less_LteNrTddSlotType_def tdd_code_inj)

end

lemma tdd_ul_max: "t \<le> TDD_UL" "TDD_DL \<le> t"
  by (cases t; simp add: less_eq_LteNrTddSlotType_def tdd_code_def)+

text \<open>
  A sidelink data radio bearer.  \<open>drb_object\<close> is the identity of the object, which its pointers
  share; the RLC and PDCP entities of the object are kept under it by the LTE RRC.
\<close>

record drb =
  drb_object :: nat
  drb_logicalChannelIdentity :: u8
  drb_sourceL2Id :: u32
  drb_destinationL2Id :: u32

datatype sap_call = Sap_SetSourceL2Id u32 | Sap_PopulatePools

record rrc =
  rrc_slEnabled :: bool
  rrc_preconfiguration :: SidelinkPreconfigNr
  rrc_tddPattern :: "LteNrTddSlotType list"
  rrc_srcL2Id :: u32
  rrc_slBwpIds :: "u8 set"
  rrc_slDrbMap :: "(u32, (u8, drb) umap) umap"
  rrc_slRxDrbMap :: "(u32, (u8, drb) umap) umap"
  rrc_calls :: "sap_call list"

definition NrSlUeRrc :: rrc where
  "NrSlUeRrc =
     \<lparr>rrc_slEnabled = False, rrc_preconfiguration = default_SidelinkPreconfigNr,
      rrc_tddPattern = [], rrc_srcL2Id = 0, rrc_slBwpIds = {}, rrc_slDrbMap = [],
      rrc_slRxDrbMap = [], rrc_calls = []\<rparr>"

section \<open>Operations\<close>

definition SetNrSlEnabled :: "bool \<Rightarrow> rrc \<Rightarrow> rrc" where
  "SetNrSlEnabled status r = r\<lparr>rrc_slEnabled := status\<rparr>"

definition IsNrSlEnabled :: "rrc \<Rightarrow> bool" where
  "IsNrSlEnabled r = rrc_slEnabled r"

definition rrc_SetSourceL2Id :: "u32 \<Rightarrow> rrc \<Rightarrow> rrc" where
  "rrc_SetSourceL2Id src r =
     r\<lparr>rrc_srcL2Id := src, rrc_calls := rrc_calls r @ [Sap_SetSourceL2Id src]\<rparr>"

definition DoGetSourceL2Id :: "rrc \<Rightarrow> u32" where
  "DoGetSourceL2Id r = rrc_srcL2Id r"

definition StoreSlBwpId :: "u8 \<Rightarrow> rrc \<Rightarrow> rrc res" where
  "StoreSlBwpId bwp r =
     rguard NsAbort (bwp \<notin> rrc_slBwpIds r) (Inr (r\<lparr>rrc_slBwpIds := insert bwp (rrc_slBwpIds r)\<rparr>))"

definition DoGetBwpIdContainer :: "rrc \<Rightarrow> u8 set" where
  "DoGetBwpIdContainer r = rrc_slBwpIds r"

definition DoGetNrSlPreconfiguration :: "rrc \<Rightarrow> SidelinkPreconfigNr" where
  "DoGetNrSlPreconfiguration r = rrc_preconfiguration r"

subsection \<open>TDD pattern\<close>

text \<open>
  \<open>std::getline\<close> with a separator: the characters up to the next separator or the end; at the
  end of the stream it fails, and the loop ends, only when it has read nothing.
\<close>

fun getlines :: "char \<Rightarrow> string \<Rightarrow> string \<Rightarrow> string list" where
  "getlines sep token [] = (if token = [] then [] else [token])"
| "getlines sep token (c # cs) =
     (if c = sep then token # getlines sep [] cs else getlines sep (token @ [c]) cs)"

definition tdd_lookup :: "string \<Rightarrow> LteNrTddSlotType option" where
  "tdd_lookup =
     map_of [(''DL'', TDD_DL), (''UL'', TDD_UL), (''S'', TDD_S), (''F'', TDD_F)]"

fun tdd_slots :: "string list \<Rightarrow> LteNrTddSlotType list res" where
  "tdd_slots [] = Inr []"
| "tdd_slots (v # vs) =
     (case tdd_lookup v of
        None \<Rightarrow> Inl NsFatal
      | Some t \<Rightarrow> rbind (tdd_slots vs) (\<lambda>ts. Inr (t # ts)))"

definition rrc_SetTddPattern :: "rrc \<Rightarrow> rrc res" where
  "rrc_SetTddPattern r =
     rbind (tdd_slots (getlines CHR ''|'' [] (pre_tddPattern (rrc_preconfiguration r))))
       (\<lambda>v. Inr (r\<lparr>rrc_tddPattern := v\<rparr>))"

definition SetNrSlPreconfiguration :: "SidelinkPreconfigNr \<Rightarrow> rrc \<Rightarrow> rrc res" where
  "SetNrSlPreconfiguration pre r =
     rbind (rrc_SetTddPattern (r\<lparr>rrc_preconfiguration := pre\<rparr>))
       (\<lambda>r'. Inr (r'\<lparr>rrc_calls := rrc_calls r' @ [Sap_PopulatePools]\<rparr>))"

text \<open>The stream output operator of a slot type.\<close>

definition tdd_show :: "LteNrTddSlotType \<Rightarrow> string" where
  "tdd_show t = (case t of TDD_DL \<Rightarrow> ''DL'' | TDD_F \<Rightarrow> ''F'' | TDD_S \<Rightarrow> ''S'' | TDD_UL \<Rightarrow> ''UL'')"

subsection \<open>Physical pool\<close>

text \<open>
  The \<open>do\<close>-\<open>while\<close> loop of \<open>DoGetPhysicalSlPool\<close>: \<open>pi\<close> and \<open>bi\<close> are the two iterators.  Reading
  the bitmap at its end is undefined.  The loop condition always holds where it is tested, as
  the iterator is set back at the last slot of the pattern.
\<close>

fun pool_loop :: "nat \<Rightarrow> LteNrTddSlotType list \<Rightarrow> bool list \<Rightarrow> nat \<Rightarrow> nat \<Rightarrow> bool list \<Rightarrow> bool list res"
where
  "pool_loop 0 pat bm pi bi acc = Inl Diverges"
| "pool_loop (Suc fuel) pat bm pi bi acc =
     rbind (vec_index pat pi) (\<lambda>slot.
     rbind (if slot \<noteq> TDD_UL then Inr (False, bi)
            else rbind (vec_index bm bi) (\<lambda>b. Inr (b, bi + 1))) (\<lambda>(bit, bi').
       let acc' = acc @ [bit] in
       if pi = length pat - 1 then
         if bi' = length bm then Inr acc'
         else pool_loop fuel pat bm 0 bi' acc'
       else if pi + 1 \<noteq> length pat then pool_loop fuel pat bm (pi + 1) bi' acc'
       else Inr acc'))"

definition count_ul :: "LteNrTddSlotType list \<Rightarrow> nat" where
  "count_ul pat = length (filter (\<lambda>t. t = TDD_UL) pat)"

text \<open>Every pass over the pattern takes at least one bit: the fuel is one pass per bit.\<close>

definition DoGetPhysicalSlPool :: "bool list \<Rightarrow> rrc \<Rightarrow> bool list res" where
  "DoGetPhysicalSlPool bm r =
     (let pat = rrc_tddPattern r; ul = (of_nat (count_ul pat) :: u16) in
      rguard NsAssert (0 < ul)
        (rguard NsAbort (length bm mod unat ul = 0)
          (rguard NsAbort (length pat \<le> length bm)
            (pool_loop (length pat * (length bm + 1)) pat bm 0 0 []))))"

subsection \<open>Bearers\<close>

definition new_bearer_table :: "drb \<Rightarrow> (u8, drb) umap" where
  "new_bearer_table d = umap_emplace (drb_logicalChannelIdentity d) d []"

definition DoAddNrSlDataRadioBearer :: "drb \<Rightarrow> rrc \<Rightarrow> rrc res" where
  "DoAddNrSlDataRadioBearer d r =
     rguard NsFatal (map_of (rrc_slDrbMap r) (drb_destinationL2Id d) = None)
       (Inr (r\<lparr>rrc_slDrbMap := umap_emplace (drb_destinationL2Id d) (new_bearer_table d) (rrc_slDrbMap r)\<rparr>))"

text \<open>The reception bearer is looked up in one table and stored in the other.\<close>

definition DoAddNrSlRxDataRadioBearer :: "drb \<Rightarrow> rrc \<Rightarrow> rrc res" where
  "DoAddNrSlRxDataRadioBearer d r =
     rguard NsFatal (map_of (rrc_slRxDrbMap r) (drb_sourceL2Id d) = None)
       (Inr (r\<lparr>rrc_slDrbMap := umap_emplace (drb_sourceL2Id d) (new_bearer_table d) (rrc_slDrbMap r)\<rparr>))"

definition GetSidelinkDataRadioBearer :: "u32 \<Rightarrow> u32 \<Rightarrow> rrc \<Rightarrow> drb res" where
  "GetSidelinkDataRadioBearer src dst r =
     (case map_of (rrc_slDrbMap r) dst of
        None \<Rightarrow> Inl NsAssert
      | Some lcs \<Rightarrow> rguard NsAssert (length lcs = 1) (Inr (snd (hd lcs))))"

definition DoGetSidelinkDataRadioBearer :: "u32 \<Rightarrow> rrc \<Rightarrow> drb res" where
  "DoGetSidelinkDataRadioBearer dst r = GetSidelinkDataRadioBearer (rrc_srcL2Id r) dst r"

text \<open>The values the search for a free logical channel identity runs through.\<close>

definition lcid_candidates :: "u8 list" where
  "lcid_candidates = map of_nat [4..<20]"

definition DoGetNextLcid :: "u32 \<Rightarrow> rrc \<Rightarrow> u8 res" where
  "DoGetNextLcid dst r =
     rbind (case map_of (rrc_slDrbMap r) dst of
              None \<Rightarrow> Inr 4
            | Some lcs \<Rightarrow>
                rguard NsFatal (length lcs \<noteq> 16)
                  (Inr (case List.find (\<lambda>l. \<not> map_count l lcs) lcid_candidates of
                          None \<Rightarrow> 0 | Some l \<Rightarrow> l)))
       (\<lambda>lcid. rguard NsAssert (lcid \<noteq> 0) (Inr lcid))"


section \<open>The TDD parser\<close>

lemma getlines_token:
  "sep \<notin> set w \<Longrightarrow> getlines sep token (w @ sep # cs) = (token @ w) # getlines sep [] cs"
  by (induction w arbitrary: token) auto

lemma getlines_joined:
  "list_all (\<lambda>w. sep \<notin> set w) ws \<Longrightarrow> getlines sep [] (concat (map (\<lambda>w. w @ [sep]) ws)) = ws"
  by (induction ws) (simp_all add: getlines_token)

lemma getlines_last:
  "list_all (\<lambda>w. sep \<notin> set w) ws \<Longrightarrow> sep \<notin> set w \<Longrightarrow> w \<noteq> [] \<Longrightarrow>
   getlines sep [] (concat (map (\<lambda>w. w @ [sep]) ws) @ w) = ws @ [w]"
proof (induction ws)
  case Nil
  have "getlines sep token w = (if token @ w = [] then [] else [token @ w])" if "sep \<notin> set w" for token w
    using that by (induction w arbitrary: token) auto
  with Nil show ?case by fastforce
qed (simp add: getlines_token)

text \<open>The tokens with a separator behind each are the string, or the string with one more separator.\<close>

lemma getlines_concat:
  "concat (map (\<lambda>w. w @ [sep]) (getlines sep token cs)) = token @ cs \<or>
   concat (map (\<lambda>w. w @ [sep]) (getlines sep token cs)) = (token @ cs) @ [sep]"
  by (induction sep token cs rule: getlines.induct) auto

lemma getlines_sep_free: "sep \<notin> set token \<Longrightarrow> w \<in> set (getlines sep token cs) \<Longrightarrow> sep \<notin> set w"
  by (induction sep token cs rule: getlines.induct) (auto split: if_splits)

lemma tdd_lookup_show [simp]: "tdd_lookup (tdd_show t) = Some t"
  by (cases t) (simp_all add: tdd_lookup_def tdd_show_def)

lemma tdd_show_inj [simp]: "tdd_show s = tdd_show t \<longleftrightarrow> s = t"
  by (metis option.inject tdd_lookup_show)

lemma tdd_lookup_iff: "tdd_lookup w = Some t \<longleftrightarrow> w = tdd_show t"
  by (cases t) (auto simp: tdd_lookup_def tdd_show_def split: if_splits)

lemma tdd_show_sep: "CHR ''|'' \<notin> set (tdd_show t)"
  by (cases t) (simp_all add: tdd_show_def)

lemma tdd_slots_ok: "tdd_slots ws = Inr ts \<longleftrightarrow> ws = map tdd_show ts"
proof (induction ws arbitrary: ts)
  case (Cons w ws)
  show ?case
    using Cons.IH by (cases ts) (auto simp: rbind_eq_Inr tdd_lookup_iff split: option.splits)
qed auto

lemma tdd_slots_error: "tdd_slots ws = Inl e \<Longrightarrow> e = NsFatal"
  by (induction ws arbitrary: e) (auto simp: rbind_eq_Inl split: option.splits)

lemma tdd_slots_bad: "w \<in> set ws \<Longrightarrow> tdd_lookup w = None \<Longrightarrow> tdd_slots ws = Inl NsFatal"
  by (induction ws) (auto simp: rbind_def split: option.splits)

section \<open>The physical pool\<close>

text \<open>
  The specification: the bits of the bitmap go, in order, to the uplink slots of a slot
  sequence; the other slots are 0.
\<close>

fun fill :: "LteNrTddSlotType list \<Rightarrow> bool list \<Rightarrow> bool list" where
  "fill [] bm = []"
| "fill (t # ts) bm =
     (if t = TDD_UL then (bm \<noteq> [] \<and> hd bm) # fill ts (tl bm) else False # fill ts bm)"

lemma count_ul_simps [simp]:
  "count_ul [] = 0" "count_ul (t # ts) = (if t = TDD_UL then 1 else 0) + count_ul ts"
  "count_ul (xs @ ys) = count_ul xs + count_ul ys"
  by (simp_all add: count_ul_def)

lemma count_ul_le: "count_ul ts \<le> length ts"
  by (simp add: count_ul_def)

lemma count_ul_concat [simp]: "count_ul (concat (replicate k pat)) = k * count_ul pat"
  by (induction k) simp_all

lemma length_concat_replicate: "length (concat (replicate k xs)) = k * length xs"
  by (induction k) simp_all

lemma nth_concat_replicate: "i < k * length xs \<Longrightarrow> concat (replicate k xs) ! i = xs ! (i mod length xs)"
proof (induction k arbitrary: i)
  case (Suc k)
  show ?case
  proof (cases "i < length xs")
    case False
    then have "concat (replicate k xs) ! (i - length xs) = xs ! ((i - length xs) mod length xs)"
      using Suc by (intro Suc.IH) simp
    with False show ?thesis by (simp add: nth_append le_mod_geq)
  qed (simp add: nth_append)
qed simp

lemma length_fill [simp]: "length (fill ts bm) = length ts"
  by (induction ts bm rule: fill.induct) simp_all

lemma fill_append: "fill (xs @ ys) bm = fill xs bm @ fill ys (drop (count_ul xs) bm)"
  by (induction xs bm rule: fill.induct) (simp_all add: drop_Suc)

text \<open>The slots that are not uplink are 0, and the uplink slots carry the bitmap.\<close>

lemma fill_only_ul: "i < length ts \<Longrightarrow> fill ts bm ! i \<Longrightarrow> ts ! i = TDD_UL"
  by (induction ts bm arbitrary: i rule: fill.induct) (auto simp: nth_Cons split: nat.splits if_splits)

lemma fill_bits:
  "count_ul ts = length bm \<Longrightarrow>
   map snd (filter (\<lambda>(t, b). t = TDD_UL) (zip ts (fill ts bm))) = bm"
proof (induction ts arbitrary: bm)
  case (Cons t ts)
  then show ?case by (cases bm) (auto split: if_splits)
qed simp

lemma fill_count: "count_ul ts = length bm \<Longrightarrow>
   length (filter (\<lambda>b. b) (fill ts bm)) = length (filter (\<lambda>b. b) bm)"
proof (induction ts arbitrary: bm)
  case (Cons t ts)
  then show ?case by (cases bm) (auto split: if_splits)
qed simp

lemma pool_loop_fill:
  assumes "0 < count_ul pat" "pi < length pat"
    and "bi + count_ul (drop pi pat) + k * count_ul pat = length bm"
    and "length pat - pi + k * length pat \<le> fuel"
  shows "pool_loop fuel pat bm pi bi acc
           = Inr (acc @ fill (drop pi pat @ concat (replicate k pat)) (drop bi bm))"
  using assms(2-)
proof (induction fuel arbitrary: pi bi k acc)
  case (Suc fuel)
  define bit where "bit = (pat ! pi = TDD_UL \<and> bm ! bi)"
  define bi' where "bi' = (if pat ! pi = TDD_UL then bi + 1 else bi)"
  have drop_pi: "drop pi pat = pat ! pi # drop (Suc pi) pat"
    using Suc.prems(1) by (simp add: Cons_nth_drop_Suc)
  have ul: "bi < length bm" if "pat ! pi = TDD_UL"
    using Suc.prems(2) that by (simp add: drop_pi)
  have bi': "bi' + count_ul (drop (Suc pi) pat) + k * count_ul pat = length bm"
    using Suc.prems(2) by (simp add: drop_pi bi'_def split: if_splits)
  have fill_step: "fill (drop pi pat @ xs) (drop bi bm)
      = bit # fill (drop (Suc pi) pat @ xs) (drop bi' bm)" for xs
    using ul by (cases "pat ! pi = TDD_UL")
      (simp_all add: drop_pi bit_def bi'_def hd_drop_conv_nth drop_Suc tl_drop)
  have read: "(if pat ! pi \<noteq> TDD_UL then Inr (False, bi)
      else rbind (vec_index bm bi) (\<lambda>b. Inr (b, bi + 1))) = Inr (bit, bi')"
    using ul by (simp add: bit_def bi'_def vec_index_ok)
  have step: "pool_loop (Suc fuel) pat bm pi bi acc =
      (if pi = length pat - 1 then
         if bi' = length bm then Inr (acc @ [bit]) else pool_loop fuel pat bm 0 bi' (acc @ [bit])
       else if pi + 1 \<noteq> length pat then pool_loop fuel pat bm (pi + 1) bi' (acc @ [bit])
       else Inr (acc @ [bit]))"
    by (simp only: pool_loop.simps vec_index_ok [OF Suc.prems(1)] rbind_Inr read prod.case Let_def)
  show ?case
  proof (cases "pi = length pat - 1")
    case True
    then have last: "drop (Suc pi) pat = []" using Suc.prems(1) by simp
    show ?thesis
    proof (cases k)
      case 0
      then show ?thesis
        using True last bi' fill_step [of "[]"] unfolding step by simp
    next
      case (Suc k')
      then have "bi' \<noteq> length bm"
        using bi' assms(1) by auto
      moreover have "pool_loop fuel pat bm 0 bi' (acc @ [bit])
          = Inr ((acc @ [bit]) @ fill (drop 0 pat @ concat (replicate k' pat)) (drop bi' bm))"
        using Suc.prems Suc last bi' True by (intro Suc.IH) auto
      ultimately show ?thesis
        using True Suc last fill_step [of "concat (replicate k pat)"] unfolding step by simp
    qed
  next
    case False
    with Suc.prems have lt: "Suc pi < length pat" by simp
    then have "pool_loop fuel pat bm (Suc pi) bi' (acc @ [bit])
        = Inr ((acc @ [bit]) @ fill (drop (Suc pi) pat @ concat (replicate k pat)) (drop bi' bm))"
      using Suc.prems bi' by (intro Suc.IH) auto
    then show ?thesis
      using False lt fill_step [of "concat (replicate k pat)"] unfolding step by simp
  qed
qed simp

lemma count_ul_u16: "length pat < 65536 \<Longrightarrow> unat (of_nat (count_ul pat) :: u16) = count_ul pat"
  using count_ul_le [of pat] by (intro unat_of_nat_u16) simp

lemma u16_gt0: "length pat < 65536 \<Longrightarrow> (0 < (of_nat (count_ul pat) :: u16)) = (0 < count_ul pat)"
  by (simp add: word_less_nat_alt count_ul_u16)

lemma physical_pool_eq:
  assumes "length (rrc_tddPattern r) < 65536"
  shows "DoGetPhysicalSlPool bm r =
    (let pat = rrc_tddPattern r; u = count_ul pat in
     if u = 0 then Inl NsAssert
     else if length bm mod u \<noteq> 0 \<or> length bm < length pat then Inl NsAbort
     else Inr (fill (concat (replicate (length bm div u) pat)) bm))"
proof -
  define pat u where "pat = rrc_tddPattern r" and "u = count_ul pat"
  have "pool_loop (length pat * (length bm + 1)) pat bm 0 0 [] =
      Inr (fill (concat (replicate (length bm div u) pat)) bm)"
    if u: "0 < u" "length bm mod u = 0" "length pat \<le> length bm"
  proof -
    have "u \<le> length pat" by (simp add: u_def count_ul_le)
    then obtain k where k: "length bm div u = Suc k"
      using u by (metis div_greater_zero_iff gr0_implies_Suc order_trans)
    then have len: "length bm = u + k * u"
      using u(2) by (metis add.right_neutral div_mult_mod_eq mult_Suc)
    have "Suc k \<le> length bm"
      using len u(1) by (cases u) auto
    then have fuel: "length pat + k * length pat \<le> length pat * (length bm + 1)"
      by (metis Suc_eq_plus1 add.commute le_SucI mult.commute mult_Suc_right mult_le_mono2)
    have "0 < length pat" using \<open>u \<le> length pat\<close> u(1) by linarith
    then show ?thesis
      using pool_loop_fill [where bi = 0 and pi = 0 and k = k and acc = "[]"] u len fuel k
      by (simp add: u_def)
  qed
  then show ?thesis
    using assms unfolding DoGetPhysicalSlPool_def Let_def
    by (auto simp: count_ul_u16 u16_gt0 rguard_def u_def pat_def)
qed

section \<open>The bearer table\<close>

text \<open>Each remote identifier has one bearer, stored under its own logical channel.\<close>

definition rrc_inv :: "rrc \<Rightarrow> bool" where
  "rrc_inv r =
     (umap_wf (rrc_slDrbMap r) \<and> rrc_slRxDrbMap r = [] \<and>
      list_all (\<lambda>(l2, lcs). \<exists>d. lcs = [(drb_logicalChannelIdentity d, d)] \<and>
                 (l2 = drb_destinationL2Id d \<or> l2 = drb_sourceL2Id d)) (rrc_slDrbMap r))"

lemma rrc_inv_start: "rrc_inv NrSlUeRrc"
  by (simp add: rrc_inv_def NrSlUeRrc_def)

lemma new_bearer_table_eq: "new_bearer_table d = [(drb_logicalChannelIdentity d, d)]"
  by (simp add: new_bearer_table_def umap_emplace_def map_count_def)

lemma umap_emplace_new: "map_of m k = None \<Longrightarrow> umap_emplace k v m = (k, v) # m"
  by (simp add: umap_emplace_def map_count_def)

lemma rrc_inv_emplace:
  assumes "rrc_inv r" "l2 = drb_destinationL2Id d \<or> l2 = drb_sourceL2Id d"
  shows "rrc_inv (r\<lparr>rrc_slDrbMap := umap_emplace l2 (new_bearer_table d) (rrc_slDrbMap r)\<rparr>)"
  using assms umap_wf_emplace [of "rrc_slDrbMap r" l2]
  by (auto simp: rrc_inv_def new_bearer_table_eq umap_emplace_def split: if_splits)

lemma rrc_inv_add: "rrc_inv r \<Longrightarrow> DoAddNrSlDataRadioBearer d r = Inr r' \<Longrightarrow> rrc_inv r'"
  using rrc_inv_emplace by (auto simp: DoAddNrSlDataRadioBearer_def rguard_eq_Inr)

lemma rrc_inv_add_rx: "rrc_inv r \<Longrightarrow> DoAddNrSlRxDataRadioBearer d r = Inr r' \<Longrightarrow> rrc_inv r'"
  using rrc_inv_emplace by (auto simp: DoAddNrSlRxDataRadioBearer_def rguard_eq_Inr)

lemma find_smallest:
  "(case List.find P xs of None \<Rightarrow> \<forall>x \<in> set xs. \<not> P x | Some x \<Rightarrow> x \<in> set xs \<and> P x)"
  by (induction xs) (auto split: option.splits)

definition lcids :: "u8 set" where
  "lcids = {l. 4 \<le> l \<and> l < 20}"

lemma lcid_unat: "n \<in> {4..<20} \<Longrightarrow> unat (of_nat n :: u8) = n"
  by (simp add: unat_of_nat take_bit_nat_eq_self)

lemma lcid_set: "of_nat ` {4..<20} = lcids"
proof (intro equalityI subsetI)
  fix l assume "l \<in> lcids"
  then have "unat l \<in> {4..<20}"
    by (simp add: lcids_def word_le_nat_alt word_less_nat_alt)
  moreover have "l = of_nat (unat l)" by simp
  ultimately show "l \<in> of_nat ` {4..<20}" by (rule rev_image_eqI)
next
  fix l :: u8
  assume "l \<in> of_nat ` {4..<20}"
  then show "l \<in> lcids"
    using lcid_unat by (auto simp: lcids_def word_le_nat_alt word_less_nat_alt)
qed

lemma card_lcids: "card lcids = 16"
proof -
  have "inj_on (of_nat :: nat \<Rightarrow> u8) {4..<20}"
    by (rule inj_on_inverseI) (rule lcid_unat)
  then have "card lcids = card {4..<20 :: nat}"
    unfolding lcid_set [symmetric] by (rule card_image)
  then show ?thesis by simp
qed

text \<open>
  A free logical channel identity is found as long as fewer than sixteen are taken.
\<close>

lemma DoGetNextLcid_new: "map_of (rrc_slDrbMap r) dst = None \<Longrightarrow> DoGetNextLcid dst r = Inr 4"
  by (simp add: DoGetNextLcid_def)

lemma DoGetNextLcid_free:
  assumes "map_of (rrc_slDrbMap r) dst = Some lcs" "length lcs < 16"
  shows "\<exists>l. DoGetNextLcid dst r = Inr l \<and> l \<in> lcids \<and> \<not> map_count l lcs"
proof -
  have set: "set lcid_candidates = lcids" unfolding lcid_candidates_def set_map set_upt by (rule lcid_set)
  have "\<not> lcids \<subseteq> fst ` set lcs"
  proof
    assume "lcids \<subseteq> fst ` set lcs"
    then have "card lcids \<le> card (fst ` set lcs)" by (intro card_mono) simp_all
    also have "\<dots> \<le> length lcs"
      using card_image_le card_length le_trans by blast
    finally show False using assms(2) by (simp add: card_lcids)
  qed
  then have "\<exists>x \<in> set lcid_candidates. \<not> map_count x lcs"
    unfolding set by (auto simp: map_count_iff)
  then have "List.find (\<lambda>l. \<not> map_count l lcs) lcid_candidates \<noteq> None"
    unfolding find_None_iff by blast
  then obtain l where l: "List.find (\<lambda>l. \<not> map_count l lcs) lcid_candidates = Some l"
    by blast
  then have "l \<in> lcids" "\<not> map_count l lcs"
    using find_smallest [where P = "\<lambda>l. \<not> map_count l lcs" and xs = lcid_candidates] unfolding set l by simp_all
  moreover have "l \<noteq> 0" using \<open>l \<in> lcids\<close> by (auto simp: lcids_def)
  ultimately show ?thesis
    using assms unfolding DoGetNextLcid_def by (auto simp: l)
qed

section \<open>Reachable states\<close>

text \<open>
  The states of an RRC object: it is created, and any of its operations is called in any order;
  an operation that stops has no successor.
\<close>

inductive rrc_reachable :: "rrc \<Rightarrow> bool" where
  start: "rrc_reachable NrSlUeRrc"
| enable: "rrc_reachable r \<Longrightarrow> rrc_reachable (SetNrSlEnabled b r)"
| source: "rrc_reachable r \<Longrightarrow> rrc_reachable (rrc_SetSourceL2Id src r)"
| bwp: "rrc_reachable r \<Longrightarrow> StoreSlBwpId bwp r = Inr r' \<Longrightarrow> rrc_reachable r'"
| preconfig: "rrc_reachable r \<Longrightarrow> SetNrSlPreconfiguration pre r = Inr r' \<Longrightarrow> rrc_reachable r'"
| add: "rrc_reachable r \<Longrightarrow> DoAddNrSlDataRadioBearer d r = Inr r' \<Longrightarrow> rrc_reachable r'"
| add_rx: "rrc_reachable r \<Longrightarrow> DoAddNrSlRxDataRadioBearer d r = Inr r' \<Longrightarrow> rrc_reachable r'"

lemma rrc_inv_frame:
  "rrc_inv r \<Longrightarrow> rrc_slDrbMap r' = rrc_slDrbMap r \<Longrightarrow> rrc_slRxDrbMap r' = rrc_slRxDrbMap r \<Longrightarrow> rrc_inv r'"
  by (simp add: rrc_inv_def)

lemma rrc_reachable_inv: "rrc_reachable r \<Longrightarrow> rrc_inv r"
proof (induction rule: rrc_reachable.induct)
  case start
  show ?case by (rule rrc_inv_start)
next
  case (enable r b)
  then show ?case by (auto simp: SetNrSlEnabled_def intro: rrc_inv_frame)
next
  case (source r src)
  then show ?case by (auto simp: rrc_SetSourceL2Id_def intro: rrc_inv_frame)
next
  case (bwp r bwp r')
  then show ?case by (auto simp: StoreSlBwpId_def rguard_eq_Inr intro: rrc_inv_frame)
next
  case (preconfig r pre r')
  then show ?case
    by (auto simp: SetNrSlPreconfiguration_def rrc_SetTddPattern_def rbind_eq_Inr intro: rrc_inv_frame)
next
  case (add r d r')
  then show ?case by (blast intro: rrc_inv_add)
next
  case (add_rx r d r')
  then show ?case by (blast intro: rrc_inv_add_rx)
qed

lemma rrc_inv_bearer:
  assumes "rrc_inv r" "map_of (rrc_slDrbMap r) l2 = Some lcs"
  obtains d where "lcs = [(drb_logicalChannelIdentity d, d)]"
    "l2 = drb_destinationL2Id d \<or> l2 = drb_sourceL2Id d"
  using assms map_of_SomeD [OF assms(2)] by (auto simp: rrc_inv_def list_all_iff)

lemma rrc_inv_lookup:
  assumes "rrc_inv r"
  shows "GetSidelinkDataRadioBearer src l2 r =
    (case map_of (rrc_slDrbMap r) l2 of None \<Rightarrow> Inl NsAssert | Some lcs \<Rightarrow> Inr (snd (hd lcs)))"
proof (cases "map_of (rrc_slDrbMap r) l2")
  case (Some lcs)
  obtain d where "lcs = [(drb_logicalChannelIdentity d, d)]"
    by (rule rrc_inv_bearer [OF assms Some]) 
  with Some show ?thesis by (simp add: GetSidelinkDataRadioBearer_def)
qed (simp add: GetSidelinkDataRadioBearer_def)

lemma rrc_inv_lcid:
  assumes "rrc_inv r"
  shows "\<exists>l. DoGetNextLcid l2 r = Inr l \<and> l \<in> lcids \<and>
    (\<forall>lcs. map_of (rrc_slDrbMap r) l2 = Some lcs \<longrightarrow> \<not> map_count l lcs)"
proof (cases "map_of (rrc_slDrbMap r) l2")
  case None
  then show ?thesis by (simp add: DoGetNextLcid_new lcids_def)
next
  case (Some lcs)
  have "length lcs < 16"
    by (rule rrc_inv_bearer [OF assms Some]) simp
  from DoGetNextLcid_free [OF Some this] Some show ?thesis by auto
qed

end
