(* ===== verification/NrSlCommResourcePool.thy ===== *)
theory NrSlCommResourcePool
  imports NrSlUeRrc
begin

text \<open>
  \<open>NrSlCommResourcePool\<close> (\<open>src/src/lte/model/nr-sl-comm-resource-pool.h\<close>,
  \<open>nr-sl-comm-resource-pool.cc\<close>): the physical sidelink pools of a carrier and the slots in
  which a UE may transmit.

  A \<open>Time\<close> is its number of nanoseconds.  The conversion of a duration in milliseconds to a
  number of slots is \<open>double\<close> arithmetic in the source; it is the parameter \<open>slots\<close> of the
  operations that use it, a function of the milliseconds and the slot length that may be
  undefined (a value out of the range of \<open>uint16_t\<close>).
\<close>

section \<open>State\<close>

type_synonym Time = int
type_synonym phy_pool_map = "(u8, (u16, bool list) umap) umap"

definition GetMilliSeconds :: "Time \<Rightarrow> int" where
  "GetMilliSeconds t = t sdiv 1000000"

datatype SchedulingType = SCHED_UNKNOWN | SCHED_SCHEDULED | SCHED_UE_SELECTED

record SlotInfo =
  si_numSlPscchRbs :: u16
  si_slPscchSymStart :: u16
  si_slPscchSymLength :: u16
  si_slPsschSymStart :: u16
  si_slPsschSymLength :: u16
  si_slSubchannelSize :: u16
  si_slMaxNumPerReserve :: u16
  si_absSlotIndex :: u64
  si_slotOffset :: u32

record slpool =
  slp_freqInfoList :: "SlFreqConfigCommonNr list"
  slp_phySlPoolMap :: phy_pool_map
  slp_schType :: SchedulingType
  slp_tddPattern :: "LteNrTddSlotType list"

definition NrSlCommResourcePool :: slpool where
  "NrSlCommResourcePool =
     \<lparr>slp_freqInfoList = replicate MAX_NUM_OF_FREQ_SL default_SlFreqConfigCommonNr,
      slp_phySlPoolMap = [], slp_schType = SCHED_UNKNOWN, slp_tddPattern = []\<rparr>"

section \<open>Operations\<close>

definition SetNrSlPreConfigFreqInfoList :: "SlFreqConfigCommonNr list \<Rightarrow> slpool \<Rightarrow> slpool" where
  "SetNrSlPreConfigFreqInfoList fs p = p\<lparr>slp_freqInfoList := fs\<rparr>"

definition SetNrSlPhysicalPoolMap :: "phy_pool_map \<Rightarrow> slpool \<Rightarrow> slpool" where
  "SetNrSlPhysicalPoolMap m p = p\<lparr>slp_phySlPoolMap := m\<rparr>"

definition SetNrSlSchedulingType :: "SchedulingType \<Rightarrow> slpool \<Rightarrow> slpool" where
  "SetNrSlSchedulingType t p = p\<lparr>slp_schType := t\<rparr>"

definition GetNrSlSchedulingType :: "slpool \<Rightarrow> SchedulingType" where
  "GetNrSlSchedulingType p = slp_schType p"

definition slp_SetTddPattern :: "LteNrTddSlotType list \<Rightarrow> slpool \<Rightarrow> slpool" where
  "slp_SetTddPattern t p = p\<lparr>slp_tddPattern := t\<rparr>"

subsection \<open>Lookup\<close>

text \<open>The pair of iterators that \<open>ValidateBwpAndPoolId\<close> returns is used for the pool it points to.\<close>

definition ValidateBwpAndPoolId :: "u8 \<Rightarrow> u16 \<Rightarrow> slpool \<Rightarrow> bool list res" where
  "ValidateBwpAndPoolId bwp pid p =
     (case map_of (slp_phySlPoolMap p) bwp of
        None \<Rightarrow> Inl NsAbort
      | Some pools \<Rightarrow> (case map_of pools pid of None \<Rightarrow> Inl NsAbort | Some v \<Rightarrow> Inr v))"

definition GetNrSlPhyPool :: "u8 \<Rightarrow> u16 \<Rightarrow> slpool \<Rightarrow> bool list res" where
  "GetNrSlPhyPool bwp pid p = ValidateBwpAndPoolId bwp pid p"

definition slp_bwp :: "u8 \<Rightarrow> slpool \<Rightarrow> SlBwpConfigCommonNr res" where
  "slp_bwp bwp p =
     rbind (vec_at (slp_freqInfoList p) 0) (\<lambda>f. vec_at (freq_slBwpList f) (unat bwp))"

definition GetSlResourcePoolNr :: "u8 \<Rightarrow> u16 \<Rightarrow> slpool \<Rightarrow> SlResourcePoolNr res" where
  "GetSlResourcePoolNr bwp pid p =
     rbind (slp_bwp bwp p) (\<lambda>b.
       case List.find (\<lambda>it. cfg_slResourcePoolId it = pid) (bwp_slTxPoolSelectedNormal b) of
         None \<Rightarrow> Inl NsAssert
       | Some it \<Rightarrow> Inr (cfg_slResourcePool it))"

text \<open>The absolute slot index modulo the pool length, truncated to 16 bits.\<close>

definition abs_pool_index :: "u64 \<Rightarrow> bool list \<Rightarrow> nat res" where
  "abs_pool_index i pool =
     rguard UndefinedBehaviour (pool \<noteq> []) (Inr (unat (of_nat (unat i mod length pool) :: u16)))"

definition GetAbsPoolIndex :: "u8 \<Rightarrow> u16 \<Rightarrow> u64 \<Rightarrow> slpool \<Rightarrow> nat res" where
  "GetAbsPoolIndex bwp pid i p = rbind (ValidateBwpAndPoolId bwp pid p) (abs_pool_index i)"

definition IsSidelinkSlot :: "u8 \<Rightarrow> u16 \<Rightarrow> u64 \<Rightarrow> slpool \<Rightarrow> bool res" where
  "IsSidelinkSlot bwp pid i p =
     rbind (GetAbsPoolIndex bwp pid i p) (\<lambda>k.
     rbind (GetNrSlPhyPool bwp pid p) (\<lambda>pool. vec_at pool k))"

text \<open>\<open>GetNrSlSubChSize\<close> uses the pool identifier as an index, \<open>GetSlSubChSize\<close> searches for it.\<close>

definition pool_at :: "u8 \<Rightarrow> u16 \<Rightarrow> slpool \<Rightarrow> SlResourcePoolNr res" where
  "pool_at bwp pid p =
     rbind (ValidateBwpAndPoolId bwp pid p) (\<lambda>_.
     rbind (slp_bwp bwp p) (\<lambda>b.
     rbind (vec_at (bwp_slTxPoolSelectedNormal b) (unat pid)) (\<lambda>c. Inr (cfg_slResourcePool c))))"

definition GetNrSlSubChSize :: "u8 \<Rightarrow> u16 \<Rightarrow> slpool \<Rightarrow> u16 res" where
  "GetNrSlSubChSize bwp pid p =
     rbind (pool_at bwp pid p) (\<lambda>c.
       rguard NsAssert (pool_slSubchannelSize c \<noteq> SC_INVALID)
         (GetNrSlSubChSizeValue (pool_slSubchannelSize c)))"

definition GetSlSubChSize :: "u8 \<Rightarrow> u16 \<Rightarrow> slpool \<Rightarrow> u16 res" where
  "GetSlSubChSize bwp pid p =
     rbind (ValidateBwpAndPoolId bwp pid p) (\<lambda>_.
     rbind (GetSlResourcePoolNr bwp pid p) (\<lambda>c. GetNrSlSubChSizeValue (pool_slSubchannelSize c)))"

subsection \<open>Durations in slots\<close>

definition IsRsvpMultipOfPoolLen :: "u8 \<Rightarrow> u16 \<Rightarrow> u16 \<Rightarrow> slpool \<Rightarrow> unit res" where
  "IsRsvpMultipOfPoolLen bwp pid rsvp p =
     rbind (GetNrSlPhyPool bwp pid p) (\<lambda>pool.
       rguard UndefinedBehaviour (pool \<noteq> [])
         (rguard NsAbort (unat rsvp mod length pool = 0) (Inr ())))"

definition GetNrSlSensWindInSlots ::
  "(u16 \<Rightarrow> Time \<Rightarrow> u16 res) \<Rightarrow> u8 \<Rightarrow> u16 \<Rightarrow> Time \<Rightarrow> slpool \<Rightarrow> u16 res" where
  "GetNrSlSensWindInSlots slots bwp pid slotLength p =
     rbind (pool_at bwp pid p) (\<lambda>c.
       let w = rp_slSensingWindow (pool_slUeSelectedConfigRp c) in
       rguard NsAssert (w \<noteq> SW_INVALID)
         (rbind (GetSlSensWindowValue w) (\<lambda>ms. slots ms slotLength)))"

definition GetResvPeriodInSlots ::
  "(u16 \<Rightarrow> Time \<Rightarrow> u16 res) \<Rightarrow> u8 \<Rightarrow> u16 \<Rightarrow> Time \<Rightarrow> Time \<Rightarrow> slpool \<Rightarrow> u16 res" where
  "GetResvPeriodInSlots slots bwp pid resvPeriod slotLength p =
     rbind (ValidateBwpAndPoolId bwp pid p) (\<lambda>_.
     rbind (slots (word_of_int (GetMilliSeconds resvPeriod)) slotLength) (\<lambda>rsvp.
     rbind (IsRsvpMultipOfPoolLen bwp pid rsvp p) (\<lambda>_. Inr rsvp)))"

text \<open>The loop over the list of periods; \<open>found\<close> may be set more than once.\<close>

fun check_periods :: "(unit res) \<Rightarrow> SlResourceReservePeriod \<Rightarrow> SlResourceReservePeriod list \<Rightarrow> bool \<Rightarrow> bool res"
where
  "check_periods chk e [] found = Inr found"
| "check_periods chk e (it # its) found =
     (if it = e then rbind chk (\<lambda>_. check_periods chk e its True)
      else check_periods chk e its found)"

definition ValidateResvPeriod ::
  "(u16 \<Rightarrow> Time \<Rightarrow> u16 res) \<Rightarrow> u8 \<Rightarrow> u16 \<Rightarrow> Time \<Rightarrow> Time \<Rightarrow> slpool \<Rightarrow> unit res" where
  "ValidateResvPeriod slots bwp pid resvPeriod slotLength p =
     rbind (ValidateBwpAndPoolId bwp pid p) (\<lambda>_.
     rbind (GetSlResourcePoolNr bwp pid p) (\<lambda>pool.
     rbind (GetSlResoResvPrdEnum (word_of_int (GetMilliSeconds resvPeriod))) (\<lambda>e.
     rbind (check_periods
              (rbind (GetResvPeriodInSlots slots bwp pid resvPeriod slotLength p)
                 (\<lambda>rsvp. IsRsvpMultipOfPoolLen bwp pid rsvp p))
              e (rp_slResourceReservePeriodList (pool_slUeSelectedConfigRp pool)) False) (\<lambda>found.
     rguard NsAbort found (Inr ())))))"

subsection \<open>Transmission opportunities\<close>

definition slot_info :: "SlBwpGeneric \<Rightarrow> SlResourcePoolNr \<Rightarrow> u16 \<Rightarrow> u16 \<Rightarrow> u64 \<Rightarrow> u64 \<Rightarrow> SlotInfo res" where
  "slot_info gen pool totalSlSymbols slSymbolStart cur i =
     rbind (GetSlFResoPscchValue (pscch_slFreqResourcePscch (pool_slPscchConfig pool))) (\<lambda>rbs.
     rbind (GetSlTResoPscchValue (pscch_slTimeResourcePscch (pool_slPscchConfig pool))) (\<lambda>len.
     rbind (GetNrSlSubChSizeValue (pool_slSubchannelSize pool)) (\<lambda>sub.
     rbind (GetSlMaxNumPerReserveValue (rp_slMaxNumPerReserve (pool_slUeSelectedConfigRp pool))) (\<lambda>mx.
       Inr \<lparr>si_numSlPscchRbs = rbs, si_slPscchSymStart = slSymbolStart, si_slPscchSymLength = len,
            si_slPsschSymStart = slSymbolStart + len, si_slPsschSymLength = (totalSlSymbols - len) - 1,
            si_slSubchannelSize = sub, si_slMaxNumPerReserve = ucast mx, si_absSlotIndex = i,
            si_slotOffset = ucast (i - cur)\<rparr>))))"

text \<open>
  The loop over the slots of the window, with the running pool index.  The iteration at the
  largest 64-bit slot cannot leave the loop, as the next slot is 0.
\<close>

function slot_loop :: "(u64 \<Rightarrow> SlotInfo res) \<Rightarrow> bool list \<Rightarrow> u64 \<Rightarrow> u64 \<Rightarrow> nat \<Rightarrow> SlotInfo list res" where
  "slot_loop info phy lastSlot i k =
     (if i \<le> lastSlot then
        rbind (vec_index phy k) (\<lambda>b.
        rbind (if b then rbind (info i) (\<lambda>s. Inr [s]) else Inr []) (\<lambda>ss.
          if i = - 1 then Inl Diverges
          else rbind (slot_loop info phy lastSlot (i + 1) (unat (of_nat ((k + 1) mod length phy) :: u16)))
                 (\<lambda>rest. Inr (ss @ rest))))
      else Inr [])"
  by pat_completeness auto

lemma u64_Suc: "(i :: u64) \<noteq> - 1 \<Longrightarrow> unat (i + 1) = Suc (unat i)"
  by (metis add.commute add_eq_0_iff unatSuc)

termination slot_loop
  by (relation "measure (\<lambda>(info, phy, lastSlot, i, k). Suc (unat lastSlot) - unat i)")
    (simp_all add: u64_Suc word_le_nat_alt)

declare slot_loop.simps [simp del]

text \<open>\<open>std::pow(2, numerology)\<close> converted to 16 bits: undefined when it does not fit.\<close>

definition numerology_multiplier :: "u16 \<Rightarrow> u16 res" where
  "numerology_multiplier num =
     rguard UndefinedBehaviour (num < 16) (Inr (push_bit (unat num) 1))"

definition GetNrSlCommOpportunities ::
  "u64 \<Rightarrow> u8 \<Rightarrow> u16 \<Rightarrow> u16 \<Rightarrow> u8 \<Rightarrow> u16 \<Rightarrow> slpool \<Rightarrow> SlotInfo list res" where
  "GetNrSlCommOpportunities cur bwp numerology pid t1 t2 p =
     rbind (GetNrSlPhyPool bwp pid p) (\<lambda>phy.
     rbind (GetSlResourcePoolNr bwp pid p) (\<lambda>pool.
     rbind (slp_bwp bwp p) (\<lambda>b.
     rbind (GetSlLengthSymbolsValue (gen_slLengthSymbols (bwp_slBwpGeneric b))) (\<lambda>total.
     rbind (GetSlStartSymbolValue (gen_slStartSymbol (bwp_slBwpGeneric b))) (\<lambda>start.
     rbind (GetSlSelWindowValue (rp_slSelectionWindow (pool_slUeSelectedConfigRp pool))) (\<lambda>sel.
     rbind (numerology_multiplier numerology) (\<lambda>mult.
     let t2min = sel * mult in
     rguard NsAbort (t2min \<le> t2)
       (let first = cur + ucast t1; lastSlot = cur + ucast t2 in
        rbind (abs_pool_index first phy) (\<lambda>k.
          slot_loop (slot_info (bwp_slBwpGeneric b) pool total start cur) phy lastSlot first k)))))))))"

subsection \<open>Equality\<close>

text \<open>
  \<open>operator==\<close>.  The assertion reads the first entry of both maps; the comparison of the
  reservation periods overwrites its result in each round of the loop.
\<close>

definition resv_lists_equal :: "SlResourceReservePeriod list \<Rightarrow> SlResourceReservePeriod list \<Rightarrow> bool" where
  "resv_lists_equal xs ys = foldl (\<lambda>_ (x, y). x = y) False (zip xs ys)"

definition pool_config_equal :: "SlResourcePoolConfigNr \<Rightarrow> SlResourcePoolConfigNr \<Rightarrow> bool" where
  "pool_config_equal c d =
     (let x = cfg_slResourcePool c; y = cfg_slResourcePool d;
          u = pool_slUeSelectedConfigRp x; v = pool_slUeSelectedConfigRp y in
      cfg_haveSlResourcePoolConfigNr c = cfg_haveSlResourcePoolConfigNr d \<and>
      cfg_slResourcePoolId c = cfg_slResourcePoolId d \<and>
      pscch_setupRelease (pool_slPscchConfig x) = pscch_setupRelease (pool_slPscchConfig y) \<and>
      pscch_slFreqResourcePscch (pool_slPscchConfig x) = pscch_slFreqResourcePscch (pool_slPscchConfig y) \<and>
      pscch_slTimeResourcePscch (pool_slPscchConfig x) = pscch_slTimeResourcePscch (pool_slPscchConfig y) \<and>
      pool_slSubchannelSize x = pool_slSubchannelSize y \<and>
      pool_slTimeResource x = pool_slTimeResource y \<and>
      rp_slSelectionWindow u = rp_slSelectionWindow v \<and>
      rp_slSensingWindow u = rp_slSensingWindow v \<and>
      rp_slMultiReserveResource u = rp_slMultiReserveResource v \<and>
      resv_lists_equal (rp_slResourceReservePeriodList u) (rp_slResourceReservePeriodList v))"

fun pools_equal :: "SlResourcePoolConfigNr list \<Rightarrow> SlResourcePoolConfigNr list \<Rightarrow> bool \<Rightarrow> bool" where
  "pools_equal (c # cs) (d # ds) equal =
     (if pool_config_equal c d then pools_equal cs ds True else False)"
| "pools_equal cs ds equal = equal"

definition slpool_equal :: "slpool \<Rightarrow> slpool \<Rightarrow> bool res" where
  "slpool_equal p q =
     (if \<not> umap_eq (umap_eq (=)) (slp_phySlPoolMap p) (slp_phySlPoolMap q) then Inr False
      else case (slp_phySlPoolMap p, slp_phySlPoolMap q) of
        ((b, _) # _, (b', _) # _) \<Rightarrow>
          rguard NsAssert (b = b')
            (rbind (slp_bwp b p) (\<lambda>x. rbind (slp_bwp b q) (\<lambda>y.
               Inr (pools_equal (bwp_slTxPoolSelectedNormal x) (bwp_slTxPoolSelectedNormal y) True))))
      | _ \<Rightarrow> Inl UndefinedBehaviour)"


section \<open>Sidelink slots\<close>

lemma GetNrSlPhyPool_eq: "GetNrSlPhyPool bwp pid p = ValidateBwpAndPoolId bwp pid p"
  by (simp add: GetNrSlPhyPool_def)

lemma pool_index_small: "n < length phy \<Longrightarrow> length phy \<le> 65536 \<Longrightarrow> unat (of_nat n :: u16) = n"
  by (simp add: unat_of_nat_u16)

lemma abs_pool_index_eq:
  "phy \<noteq> [] \<Longrightarrow> length phy \<le> 65536 \<Longrightarrow> abs_pool_index i phy = Inr (unat i mod length phy)"
  by (simp add: abs_pool_index_def pool_index_small [where phy = phy])

lemma IsSidelinkSlot_eq:
  assumes "ValidateBwpAndPoolId bwp pid p = Inr phy" "phy \<noteq> []" "length phy \<le> 65536"
  shows "IsSidelinkSlot bwp pid i p = Inr (phy ! (unat i mod length phy))"
  using assms
  by (simp add: IsSidelinkSlot_def GetAbsPoolIndex_def GetNrSlPhyPool_def abs_pool_index_eq)

text \<open>
  The loop of the selection window: it returns the slots whose bit of the physical pool is set,
  in order, each with the information computed for it.
\<close>

lemma slot_loop_sound:
  assumes "slot_loop info phy lastSlot i k = Inr ss" "k = unat i mod length phy"
    and "phy \<noteq> []" "length phy \<le> 65536"
  shows "list_all2 (\<lambda>s n. info (of_nat n) = Inr s) ss
           (filter (\<lambda>n. phy ! (n mod length phy)) [unat i..<Suc (unat lastSlot)])"
  using assms
proof (induction info phy lastSlot i k arbitrary: ss rule: slot_loop.induct)
  case (1 info phy lastSlot i k)
  show ?case
  proof (cases "i \<le> lastSlot")
    case True
    have k: "vec_index phy k = Inr (phy ! k)" "k < length phy"
      using 1(3,4) by (simp_all add: vec_index_ok)
    have upt: "[unat i..<Suc (unat lastSlot)] = unat i # [Suc (unat i)..<Suc (unat lastSlot)]"
      using True by (intro upt_conv_Cons) (simp add: word_le_nat_alt)
    obtain now rest where now: "(if phy ! k then rbind (info i) (\<lambda>s. Inr [s]) else Inr []) = Inr now"
      and ne: "i \<noteq> - 1"
      and rest: "slot_loop info phy lastSlot (i + 1) (unat (of_nat ((k + 1) mod length phy) :: u16)) = Inr rest"
      and ss: "ss = now @ rest"
      using 1(2) True k(1) by (subst (asm) slot_loop.simps) (auto simp: rbind_eq_Inr split: if_splits)
    have idx: "unat (of_nat ((k + 1) mod length phy) :: u16) = unat (i + 1) mod length phy"
      using 1(3-5) ne pool_index_small [of "Suc (unat i) mod length phy" phy]
      by (simp add: u64_Suc mod_Suc_eq)
    have IH: "list_all2 (\<lambda>s n. info (of_nat n) = Inr s) rest
        (filter (\<lambda>n. phy ! (n mod length phy)) [Suc (unat i)..<Suc (unat lastSlot)])"
      using "1.IH" [OF True ne rest idx 1(4,5)] by (simp only: u64_Suc [OF ne])
    show ?thesis
      using IH now 1(3) by (auto simp: upt ss rbind_eq_Inr simp del: upt_Suc split: if_splits)
  next
    case False
    then have "ss = []"
      using 1(2) by (simp add: slot_loop.simps [of info phy lastSlot i k])
    moreover from False have "[unat i..<Suc (unat lastSlot)] = []"
      by (simp add: word_le_nat_alt)
    ultimately show ?thesis by simp
  qed
qed

lemma slot_loop_total:
  assumes "\<And>i. is_ok (info i)" "lastSlot \<noteq> - 1" "phy \<noteq> []" "k < length phy"
  shows "\<exists>ss. slot_loop info phy lastSlot i k = Inr ss"
  using assms
proof (induction info phy lastSlot i k rule: slot_loop.induct)
  case (1 info phy lastSlot i k)
  have ne: "i \<noteq> - 1" if "i \<le> lastSlot"
    using 1(3) that word_order.extremum_unique by auto
  define k' where "k' = unat (of_nat ((k + 1) mod length phy) :: u16)"
  have "k' \<le> (k + 1) mod length phy"
    unfolding k'_def by (simp add: unat_of_nat take_bit_nat_less_eq_self)
  also have "\<dots> < length phy"
    using 1(4) by simp
  finally have k': "k' < length phy" .
  show ?case
  proof (cases "i \<le> lastSlot")
    case True
    obtain rest where "slot_loop info phy lastSlot (i + 1) k' = Inr rest"
      using "1.IH" [OF True ne [OF True] 1(2-4)] k' unfolding k'_def by blast
    moreover obtain s where "info i = Inr s"
      using 1(2) [of i] by (auto simp: is_ok_iff)
    ultimately have "slot_loop info phy lastSlot i k = Inr (if phy ! k then s # rest else rest)"
      using True ne [OF True] 1(5) unfolding k'_def
      by (simp add: slot_loop.simps [of info phy lastSlot i k] vec_index_ok)
    then show ?thesis by blast
  next
    case False
    then show ?thesis by (simp add: slot_loop.simps [of info phy lastSlot i k])
  qed
qed

text \<open>The slots of the selection window, as 64-bit numbers that do not wrap.\<close>

definition window :: "u64 \<Rightarrow> u8 \<Rightarrow> u16 \<Rightarrow> u64 list" where
  "window cur t1 t2 = map of_nat [unat cur + unat t1..<Suc (unat cur + unat t2)]"

lemma u64_add: "unat (cur :: u64) + n < 2 ^ 64 \<Longrightarrow> unat (cur + of_nat n) = unat cur + n"
  by (simp add: unat_word_ariths unat_of_nat take_bit_nat_eq_self)

lemma unat_u8_less: "unat (t :: u8) < 256"
  using unsigned_less [of t, where 'a = nat] by simp

lemma unat_u16_less: "unat (t :: u16) < 65536"
  using unsigned_less [of t, where 'a = nat] by simp

lemma ucast_u64: "(ucast (t :: u8) :: u64) = of_nat (unat t)" "(ucast (t' :: u16) :: u64) = of_nat (unat t')"
  by simp_all

lemma window_bounds:
  assumes "unat (cur :: u64) + 65536 < 2 ^ 64"
  shows "unat (cur + ucast (t1 :: u8)) = unat cur + unat t1"
    and "unat (cur + ucast (t2 :: u16)) = unat cur + unat t2"
  using assms unat_u8_less [of t1] unat_u16_less [of t2]
    u64_add [of cur "unat t1"] u64_add [of cur "unat t2"]
  by simp_all

end
