(* ===== verification/LtePdcpHeader.thy ===== *)
theory LtePdcpHeader
  imports Packet
begin

text \<open>
  The two PDCP headers: the LTE header with a D/C bit and a 12-bit sequence number
  (\<open>src/src/lte/model/lte-pdcp-header.cc\<close>), and the sidelink header with the SDU type, the key
  index, the security identity and a 16-bit sequence number (\<open>lte-sl-pdcp-header.cc\<close>).  The bit
  expressions are those of the source, computed in 32 bits after promotion.  Both headers are
  instances of the contract \<^term>\<open>header_codec\<close>.
\<close>

section \<open>The LTE header\<close>

record pdcp_header =
  ph_dcBit :: u8
  ph_sequenceNumber :: u16

definition LtePdcpHeader :: pdcp_header where
  "LtePdcpHeader = \<lparr>ph_dcBit = 0xff, ph_sequenceNumber = 0xfffa\<rparr>"

definition DATA_PDU :: u8 where "DATA_PDU = 1"

definition ph_SetDcBit :: "u8 \<Rightarrow> pdcp_header \<Rightarrow> pdcp_header" where
  "ph_SetDcBit dc h = h\<lparr>ph_dcBit := dc AND 0x01\<rparr>"

definition ph_SetSequenceNumber :: "u16 \<Rightarrow> pdcp_header \<Rightarrow> pdcp_header" where
  "ph_SetSequenceNumber sn h = h\<lparr>ph_sequenceNumber := sn AND 0x0FFF\<rparr>"

definition ph_GetSerializedSize :: "pdcp_header \<Rightarrow> nat" where
  "ph_GetSerializedSize h = 2"

definition ph_enc1 :: "u8 \<Rightarrow> u16 \<Rightarrow> u8" where
  "ph_enc1 dc sn = ucast (push_bit 7 (ucast dc) OR drop_bit 8 (ucast sn AND 0x0F00) :: u32)"

definition ph_enc2 :: "u16 \<Rightarrow> u8" where
  "ph_enc2 sn = ucast (ucast sn AND 0x00FF :: u32)"

definition ph_Serialize :: "pdcp_header \<Rightarrow> u8 list res" where
  "ph_Serialize h = Inr
     [ph_enc1 (ph_dcBit h) (ph_sequenceNumber h), ph_enc2 (ph_sequenceNumber h)]"

text \<open>The D/C bit is read with a comparison, \<open>(byte_1 & 0x80) > 7\<close>.\<close>

definition ph_dec_dc :: "u8 \<Rightarrow> u8" where
  "ph_dec_dc byte1 = (if 7 < (ucast byte1 AND 0x80 :: u32) then 1 else 0)"

definition ph_dec_sn :: "u8 \<Rightarrow> u8 \<Rightarrow> u16" where
  "ph_dec_sn byte1 byte2 = ucast (push_bit 8 (ucast byte1 AND 0x0F) OR ucast byte2 :: u32)"

definition ph_Deserialize :: "u8 list \<Rightarrow> (pdcp_header \<times> nat) res" where
  "ph_Deserialize buf =
     (case buf of
        byte1 # byte2 # rest \<Rightarrow>
          rguard NsAssert (ph_dec_dc byte1 = DATA_PDU)
            (Inr (\<lparr>ph_dcBit = ph_dec_dc byte1, ph_sequenceNumber = ph_dec_sn byte1 byte2\<rparr>, 2))
      | _ \<Rightarrow> Inl NsAssert)"

definition pdcp_header_wf :: "pdcp_header \<Rightarrow> bool" where
  "pdcp_header_wf h \<longleftrightarrow> ph_dcBit h = DATA_PDU \<and> ph_sequenceNumber h < 4096"

text \<open>The D/C bit and the sequence number, bit by bit.\<close>

lemma ph_dec_enc_dc [codec_simps]: "ph_dec_dc (ph_enc1 1 sn) = 1"
proof -
  have "(ucast (ph_enc1 1 sn) AND 0x80 :: u32) = 0x80"
    unfolding ph_enc1_def mask_constants by (rule bit_word_eqI) (auto simp: bit_simps bit_single bit_1_iff)
  then show ?thesis by (simp add: ph_dec_dc_def)
qed

lemma ph_dec_enc_sn [codec_simps]:
  assumes "sn < 4096"
  shows "ph_dec_sn (ph_enc1 1 sn) (ph_enc2 sn) = sn"
proof (rule bit_word_eqI)
  fix n
  have "bit sn n \<longrightarrow> n < 12"
    using bit_u16_bound [of sn 12 n] assms by (simp add: word_less_nat_alt)
  then show "bit (ph_dec_sn (ph_enc1 1 sn) (ph_enc2 sn)) n = bit sn n"
    unfolding ph_enc1_def ph_enc2_def ph_dec_sn_def mask_constants
    by (auto simp: bit_simps bit_single bit_1_iff)
qed

interpretation pdcp_codec: header_codec ph_GetSerializedSize ph_Serialize ph_Deserialize pdcp_header_wf
proof
  fix h assume wf: "pdcp_header_wf h"
  show "\<exists>bs. ph_Serialize h = Inr bs \<and> length bs = ph_GetSerializedSize h"
    by (simp add: ph_Serialize_def ph_GetSerializedSize_def)
  fix bs rest assume "ph_Serialize h = Inr bs"
  with wf show "ph_Deserialize (bs @ rest) = Inr (h, ph_GetSerializedSize h)"
    by (cases h) (auto simp: ph_Serialize_def ph_Deserialize_def ph_GetSerializedSize_def
        pdcp_header_wf_def DATA_PDU_def codec_simps)
qed

section \<open>The sidelink header\<close>

record sl_pdcp_header =
  sh_sduType :: u8
  sh_pgkIndex :: u8
  sh_secIdentity :: u16
  sh_sequenceNumber :: u16

definition LteSlPdcpHeader :: sl_pdcp_header where
  "LteSlPdcpHeader = \<lparr>sh_sduType = 0xff, sh_pgkIndex = 0, sh_secIdentity = 0, sh_sequenceNumber = 0xfffa\<rparr>"

definition SetSduType :: "u8 \<Rightarrow> sl_pdcp_header \<Rightarrow> sl_pdcp_header" where
  "SetSduType t h = h\<lparr>sh_sduType := t AND 0x07\<rparr>"

definition SetPgkIndex :: "u8 \<Rightarrow> sl_pdcp_header \<Rightarrow> sl_pdcp_header" where
  "SetPgkIndex i h = h\<lparr>sh_pgkIndex := i AND 0x1F\<rparr>"

definition SetSecurityIdentity :: "u16 \<Rightarrow> sl_pdcp_header \<Rightarrow> sl_pdcp_header" where
  "SetSecurityIdentity s h = h\<lparr>sh_secIdentity := s\<rparr>"

definition sh_SetSequenceNumber :: "u16 \<Rightarrow> sl_pdcp_header \<Rightarrow> sl_pdcp_header" where
  "sh_SetSequenceNumber sn h = h\<lparr>sh_sequenceNumber := sn\<rparr>"

definition sh_GetSerializedSize :: "sl_pdcp_header \<Rightarrow> nat" where
  "sh_GetSerializedSize h = 5"

definition u16_hi :: "u16 \<Rightarrow> u8" where
  "u16_hi x = ucast (drop_bit 8 (ucast x AND 0xFF00) :: u32)"

definition u16_lo :: "u16 \<Rightarrow> u8" where
  "u16_lo x = ucast (ucast x AND 0x00FF :: u32)"

definition u16_of :: "u8 \<Rightarrow> u8 \<Rightarrow> u16" where
  "u16_of hi lo = ucast (push_bit 8 (ucast hi) OR ucast lo :: u32)"

definition enc_type :: "u8 \<Rightarrow> u8 \<Rightarrow> u8" where
  "enc_type t k = ucast (push_bit 5 (ucast t) OR ucast k :: u32)"

definition sh_Serialize :: "sl_pdcp_header \<Rightarrow> u8 list res" where
  "sh_Serialize h = Inr
     [enc_type (sh_sduType h) (sh_pgkIndex h),
      u16_hi (sh_secIdentity h), u16_lo (sh_secIdentity h),
      u16_hi (sh_sequenceNumber h), u16_lo (sh_sequenceNumber h)]"

definition sh_dec_type :: "u8 \<Rightarrow> u8" where
  "sh_dec_type b0 = ucast (drop_bit 5 (ucast b0 AND 0xE0 :: u32))"

definition sh_dec_pgk :: "u8 \<Rightarrow> u8" where
  "sh_dec_pgk b0 = ucast (ucast b0 AND 0x1F :: u32)"

definition sh_Deserialize :: "u8 list \<Rightarrow> (sl_pdcp_header \<times> nat) res" where
  "sh_Deserialize buf =
     (case buf of
        b0 # b1 # b2 # b3 # b4 # rest \<Rightarrow>
          Inr (\<lparr>sh_sduType = sh_dec_type b0, sh_pgkIndex = sh_dec_pgk b0,
                sh_secIdentity = u16_of b1 b2,
                sh_sequenceNumber = u16_of b3 b4\<rparr>, 5)
      | _ \<Rightarrow> Inl NsAssert)"

definition sl_pdcp_header_wf :: "sl_pdcp_header \<Rightarrow> bool" where
  "sl_pdcp_header_wf h \<longleftrightarrow> sh_sduType h < 8 \<and> sh_pgkIndex h < 32"

lemma u16_split [codec_simps]: "u16_of (u16_hi x) (u16_lo x) = x"
  unfolding u16_of_def u16_hi_def u16_lo_def mask_constants
  by (rule bit_word_eqI) (auto simp: bit_simps dest: bit_imp_le_length)

lemma dec_enc_type [codec_simps]:
  assumes "t < 8" "k < 32"
  shows "sh_dec_type (enc_type t k) = t"
    and "sh_dec_pgk (enc_type t k) = k"
proof -
  have t: "bit t n \<longrightarrow> n < 3" for n
    using bit_u8_bound [of t 3 n] assms(1) by (simp add: word_less_nat_alt)
  have k: "bit k n \<longrightarrow> n < 5" for n
    using bit_u8_bound [of k 5 n] assms(2) by (simp add: word_less_nat_alt)
  show "sh_dec_type (enc_type t k) = t"
    unfolding enc_type_def sh_dec_type_def sh_dec_pgk_def mask_constants
    by (rule bit_word_eqI) (use t k in \<open>auto simp: bit_simps\<close>)
  show "sh_dec_pgk (enc_type t k) = k"
    unfolding enc_type_def sh_dec_type_def sh_dec_pgk_def mask_constants
    by (rule bit_word_eqI) (use t k in \<open>auto simp: bit_simps\<close>)
qed

interpretation sl_pdcp_codec: header_codec sh_GetSerializedSize sh_Serialize sh_Deserialize sl_pdcp_header_wf
proof
  fix h assume wf: "sl_pdcp_header_wf h"
  show "\<exists>bs. sh_Serialize h = Inr bs \<and> length bs = sh_GetSerializedSize h"
    by (simp add: sh_Serialize_def sh_GetSerializedSize_def)
  fix bs rest assume "sh_Serialize h = Inr bs"
  with wf show "sh_Deserialize (bs @ rest) = Inr (h, sh_GetSerializedSize h)"
    by (auto simp: sh_Serialize_def sh_Deserialize_def sh_GetSerializedSize_def
        sl_pdcp_header_wf_def codec_simps)
qed

lemma SetSduType_wf: "sh_sduType (SetSduType t h) < 8"
proof -
  have "t AND 7 \<le> 7" by (rule word_and_le1)
  then have "t AND 7 < 8" by (rule order.strict_trans1) simp
  then show ?thesis by (simp add: SetSduType_def)
qed

end
