(* ===== verification/LtePdcp.thy ===== *)
theory LtePdcp
  imports LtePdcpHeader
begin

text \<open>
  The PDCP entity (\<open>src/src/lte/model/lte-pdcp.h\<close>, \<open>lte-pdcp.cc\<close>): sequence numbers, headers and
  delay trace of LTE and NR sidelink bearers.  The calls on the RLC and on the PDCP user, and the
  trace sources, are appended to \<open>pd_out\<close> in the order they happen.
\<close>

section \<open>State\<close>

datatype pdcp_event =
    PdcpTxPdu u16 u8 u32               \<comment> \<open>trace: rnti, lcid, size\<close>
  | PdcpRxPdu u16 u8 u32 int           \<comment> \<open>trace: rnti, lcid, size, delay\<close>
  | TransmitPdcpPdu packet u16 u8      \<comment> \<open>to the RLC: pdu, rnti, lcid\<close>
  | ReceivePdcpSdu packet u16 u8       \<comment> \<open>to the user: sdu, rnti, lcid\<close>
  | TransmitNrSlPdcpPdu packet u16 u8 u32 u32
    \<comment> \<open>to the RLC: pdu, rnti, lcid, source and destination layer 2 id\<close>
  | ReceiveNrSlPdcpSdu packet u16 u8 u32 u32 u8
    \<comment> \<open>to the user: sdu, rnti, lcid, source and destination layer 2 id, SDU type\<close>

record pdcp =
  pd_rnti :: u16
  pd_lcid :: u8
  pd_txSequenceNumber :: u16
  pd_rxSequenceNumber :: u16
  pd_srcL2Id :: u32
  pd_dstL2Id :: u32
  pd_out :: "pdcp_event list"

definition LtePdcp :: pdcp where
  "LtePdcp = \<lparr>pd_rnti = 0, pd_lcid = 0, pd_txSequenceNumber = 0, pd_rxSequenceNumber = 0,
     pd_srcL2Id = 0, pd_dstL2Id = 0, pd_out = []\<rparr>"

definition m_maxPdcpSn :: u16 where "m_maxPdcpSn = 4095"
definition m_maxPdcpSlSn :: u16 where "m_maxPdcpSlSn = 65535"

section \<open>Operations\<close>

definition pd_SetRnti :: "u16 \<Rightarrow> pdcp \<Rightarrow> pdcp" where
  "pd_SetRnti v d = d\<lparr>pd_rnti := v\<rparr>"

definition pd_SetLcId :: "u8 \<Rightarrow> pdcp \<Rightarrow> pdcp" where
  "pd_SetLcId v d = d\<lparr>pd_lcid := v\<rparr>"

definition pd_SetSourceL2Id :: "u32 \<Rightarrow> pdcp \<Rightarrow> pdcp" where
  "pd_SetSourceL2Id v d = d\<lparr>pd_srcL2Id := v\<rparr>"

definition pd_SetDestinationL2Id :: "u32 \<Rightarrow> pdcp \<Rightarrow> pdcp" where
  "pd_SetDestinationL2Id v d = d\<lparr>pd_dstL2Id := v\<rparr>"

definition IsSlRb :: "pdcp \<Rightarrow> bool" where
  "IsSlRb d \<longleftrightarrow> pd_srcL2Id d \<noteq> 0 \<or> pd_dstL2Id d \<noteq> 0"

definition GetStatus :: "pdcp \<Rightarrow> u16 \<times> u16" where
  "GetStatus d = (pd_txSequenceNumber d, pd_rxSequenceNumber d)"

definition SetStatus :: "u16 \<times> u16 \<Rightarrow> pdcp \<Rightarrow> pdcp" where
  "SetStatus s d = d\<lparr>pd_txSequenceNumber := fst s, pd_rxSequenceNumber := snd s\<rparr>"

definition pd_emit :: "pdcp_event \<Rightarrow> pdcp \<Rightarrow> pdcp" where
  "pd_emit e d = d\<lparr>pd_out := pd_out d @ [e]\<rparr>"

text \<open>Increment in 16 bits, back to 0 above the maximum.\<close>

definition next_sn :: "u16 \<Rightarrow> u16 \<Rightarrow> u16" where
  "next_sn mx sn = (if mx < sn + 1 then 0 else sn + 1)"

text \<open>Without a PDCP tag the time stamp is that of the default constructor, 0.\<close>

definition pd_rx_trace :: "int \<Rightarrow> packet \<Rightarrow> pdcp \<Rightarrow> pdcp" where
  "pd_rx_trace now p d =
     pd_emit (PdcpRxPdu (pd_rnti d) (pd_lcid d) (Packet_GetSize p)
       (now - (case Packet_FindPdcpTag p of None \<Rightarrow> 0 | Some ts \<Rightarrow> ts))) d"

subsection \<open>LTE bearers\<close>

definition DoTransmitPdcpSdu :: "int \<Rightarrow> packet \<Rightarrow> pdcp \<Rightarrow> pdcp res" where
  "DoTransmitPdcpSdu now p d =
     (let h = ph_SetDcBit DATA_PDU (ph_SetSequenceNumber (pd_txSequenceNumber d) LtePdcpHeader);
          d1 = d\<lparr>pd_txSequenceNumber := next_sn m_maxPdcpSn (pd_txSequenceNumber d)\<rparr> in
      rbind (Packet_AddHeader (ph_GetSerializedSize h) (ph_Serialize h) p) (\<lambda>q.
      rbind (Packet_AddByteTag (PdcpTag now) 1 (ph_GetSerializedSize h) q) (\<lambda>q.
        Inr (pd_emit (TransmitPdcpPdu q (pd_rnti d) (pd_lcid d))
              (pd_emit (PdcpTxPdu (pd_rnti d) (pd_lcid d) (Packet_GetSize q)) d1)))))"

definition pd_DoReceivePdu :: "int \<Rightarrow> packet \<Rightarrow> pdcp \<Rightarrow> pdcp res" where
  "pd_DoReceivePdu now p d =
     (let d1 = pd_rx_trace now p d in
      rbind (Packet_RemoveHeader ph_Deserialize p) (\<lambda>(h, q).
        Inr (pd_emit (ReceivePdcpSdu q (pd_rnti d) (pd_lcid d))
              (d1\<lparr>pd_rxSequenceNumber := next_sn m_maxPdcpSn (ph_sequenceNumber h)\<rparr>))))"

subsection \<open>NR sidelink bearers\<close>

definition DoTransmitNrSlPdcpSdu :: "int \<Rightarrow> packet \<Rightarrow> u8 \<Rightarrow> pdcp \<Rightarrow> pdcp res" where
  "DoTransmitNrSlPdcpSdu now p sduType d =
     rguard NsAssert (IsSlRb d)
       (let h = SetSduType sduType (sh_SetSequenceNumber (pd_txSequenceNumber d) LteSlPdcpHeader);
            d1 = d\<lparr>pd_txSequenceNumber := next_sn m_maxPdcpSlSn (pd_txSequenceNumber d)\<rparr> in
        rbind (Packet_AddHeader (sh_GetSerializedSize h) (sh_Serialize h) p) (\<lambda>q.
        rbind (Packet_AddByteTag (PdcpTag now) 1 (sh_GetSerializedSize h) q) (\<lambda>q.
          Inr (pd_emit (TransmitNrSlPdcpPdu q (pd_rnti d) (pd_lcid d) (pd_srcL2Id d) (pd_dstL2Id d))
                (pd_emit (PdcpTxPdu (pd_rnti d) (pd_lcid d) (Packet_GetSize q)) d1)))))"

definition pd_DoReceiveNrSlPdcpPdu :: "int \<Rightarrow> packet \<Rightarrow> pdcp \<Rightarrow> pdcp res" where
  "pd_DoReceiveNrSlPdcpPdu now p d =
     (let d1 = pd_rx_trace now p d in
      rguard NsAssert (IsSlRb d1)
       (rbind (Packet_RemoveHeader sh_Deserialize p) (\<lambda>(h, q).
          Inr (pd_emit (ReceiveNrSlPdcpSdu q (pd_rnti d) (pd_lcid d) (pd_srcL2Id d) (pd_dstL2Id d)
                         (sh_sduType h))
                (d1\<lparr>pd_rxSequenceNumber := next_sn m_maxPdcpSlSn (sh_sequenceNumber h)\<rparr>)))))"

section \<open>Sequence numbers\<close>

lemma next_sn_lte: "sn < 4096 \<Longrightarrow> unat (next_sn m_maxPdcpSn sn) = (unat sn + 1) mod 4096"
proof -
  assume "sn < 4096"
  then have lt: "unat sn < 4096" by (simp add: word_less_nat_alt)
  then have "unat (sn + 1) = unat sn + 1"
    by (simp add: unat_word_ariths)
  then have "next_sn m_maxPdcpSn sn = (if unat sn = 4095 then 0 else sn + 1)"
    using lt by (auto simp: next_sn_def m_maxPdcpSn_def word_less_nat_alt)
  then show ?thesis
    using lt \<open>unat (sn + 1) = unat sn + 1\<close> by auto
qed

lemma next_sn_sl: "next_sn m_maxPdcpSlSn sn = sn + 1"
proof -
  have "\<not> (65535 :: u16) < sn + 1"
    using unsigned_less [of "sn + 1", where 'a = nat] by (simp add: word_less_nat_alt not_less)
  then show ?thesis by (simp add: next_sn_def m_maxPdcpSlSn_def)
qed

text \<open>The sequence numbers of an LTE bearer stay in their 12 bits.\<close>

definition pdcp_lte_inv :: "pdcp \<Rightarrow> bool" where
  "pdcp_lte_inv d \<longleftrightarrow> pd_txSequenceNumber d < 4096"

lemma next_sn_lte_less: "sn < 4096 \<Longrightarrow> next_sn m_maxPdcpSn sn < 4096"
  by (simp add: word_less_nat_alt next_sn_lte)

section \<open>Transmission\<close>

lemma ph_header_of:
  "sn < 4096 \<Longrightarrow> ph_SetDcBit DATA_PDU (ph_SetSequenceNumber sn LtePdcpHeader)
     = \<lparr>ph_dcBit = DATA_PDU, ph_sequenceNumber = sn\<rparr>"
proof -
  assume "sn < 4096"
  then have "unat sn < 2 ^ 12" by (simp add: word_less_nat_alt)
  then have bits: "bit sn n \<longrightarrow> n < 12" for n
    using bit_u16_bound [of sn 12] by blast
  have mask: "(0x0FFF :: u16) = mask 12" by (simp add: mask_eq_exp_minus_1)
  have "sn AND 0x0FFF = sn"
    unfolding mask by (rule bit_word_eqI) (use bits in \<open>auto simp: bit_simps\<close>)
  then show ?thesis
    by (simp add: ph_SetDcBit_def ph_SetSequenceNumber_def LtePdcpHeader_def DATA_PDU_def)
qed

lemma transmit_lte:
  assumes "pdcp_lte_inv d"
  obtains q where
    "DoTransmitPdcpSdu now p d = Inr (d\<lparr>pd_txSequenceNumber := next_sn m_maxPdcpSn (pd_txSequenceNumber d),
       pd_out := pd_out d @ [PdcpTxPdu (pd_rnti d) (pd_lcid d) (Packet_GetSize q),
         TransmitPdcpPdu q (pd_rnti d) (pd_lcid d)]\<rparr>)"
    "\<And>bs. ph_Serialize \<lparr>ph_dcBit = DATA_PDU, ph_sequenceNumber = pd_txSequenceNumber d\<rparr> = Inr bs \<Longrightarrow>
       pk_bytes q = bs @ pk_bytes p"
    "pk_sdu_status q = pk_sdu_status p"
    "pk_btags q = bt_add_at_start 2 (bt_adjust 2 (pk_btags p)) @ [(PdcpTag now, 1, 2)]"
proof -
  have sn: "pd_txSequenceNumber d < 4096" using assms by (simp add: pdcp_lte_inv_def)
  show thesis
    by (rule that [of "p\<lparr>pk_bytes := projr (ph_Serialize \<lparr>ph_dcBit = DATA_PDU, ph_sequenceNumber = pd_txSequenceNumber d\<rparr>)
          @ pk_bytes p, pk_btags := bt_add_at_start 2 (bt_adjust 2 (pk_btags p)) @ [(PdcpTag now, 1, 2)]\<rparr>"])
      (simp_all add: DoTransmitPdcpSdu_def ph_header_of [OF sn] ph_Serialize_def ph_GetSerializedSize_def
        Packet_AddHeader_def Packet_AddByteTag_def bt_add_def pd_emit_def Packet_GetSize_def)
qed

lemma receive_lte:
  assumes "ph_Serialize \<lparr>ph_dcBit = DATA_PDU, ph_sequenceNumber = sn\<rparr> = Inr bs" "sn < 4096"
    and "pk_bytes q = bs @ sdu"
  shows "\<exists>r. pd_DoReceivePdu now q d =
      Inr (d\<lparr>pd_rxSequenceNumber := next_sn m_maxPdcpSn sn,
        pd_out := pd_out d @ [PdcpRxPdu (pd_rnti d) (pd_lcid d) (Packet_GetSize q)
            (now - (case Packet_FindPdcpTag q of None \<Rightarrow> 0 | Some ts \<Rightarrow> ts)),
          ReceivePdcpSdu r (pd_rnti d) (pd_lcid d)]\<rparr>) \<and>
    pk_bytes r = sdu \<and> pk_sdu_status r = pk_sdu_status q"
proof -
  have "pdcp_header_wf \<lparr>ph_dcBit = DATA_PDU, ph_sequenceNumber = sn\<rparr>"
    using assms(2) by (simp add: pdcp_header_wf_def)
  then have "ph_Deserialize (pk_bytes q) = Inr (\<lparr>ph_dcBit = DATA_PDU, ph_sequenceNumber = sn\<rparr>, 2)"
    using pdcp_codec.deserialize_serialize [OF _ assms(1)] assms(3) by (simp add: ph_GetSerializedSize_def)
  moreover have "length bs = 2" using assms(1) by (auto simp: ph_Serialize_def)
  ultimately show ?thesis
    using assms(3)
    by (intro exI [of _ "q\<lparr>pk_bytes := sdu, pk_btags := bt_adjust (- 2) (pk_btags q)\<rparr>"])
      (simp add: pd_DoReceivePdu_def pd_rx_trace_def pd_emit_def Packet_RemoveHeader_def Let_def)
qed

text \<open>The header that the sidelink transmitter builds.\<close>

definition sl_header :: "u16 \<Rightarrow> u8 \<Rightarrow> sl_pdcp_header" where
  "sl_header sn ty = SetSduType ty (sh_SetSequenceNumber sn LteSlPdcpHeader)"

lemma sl_header_wf: "sl_pdcp_header_wf (sl_header sn ty)"
  using SetSduType_wf [of ty "sh_SetSequenceNumber sn LteSlPdcpHeader"]
  by (simp add: sl_pdcp_header_wf_def sl_header_def SetSduType_def sh_SetSequenceNumber_def LteSlPdcpHeader_def)

lemma sl_header_sel [simp]: "sh_sduType (sl_header sn ty) = ty AND 7" "sh_sequenceNumber (sl_header sn ty) = sn"
  by (simp_all add: sl_header_def SetSduType_def sh_SetSequenceNumber_def)

definition sl_header_bytes :: "u16 \<Rightarrow> u8 \<Rightarrow> u8 list" where
  "sl_header_bytes sn ty = projr (sh_Serialize (sl_header sn ty))"

lemma sl_header_bytes:
  "sh_Serialize (sl_header sn ty) = Inr (sl_header_bytes sn ty)" "length (sl_header_bytes sn ty) = 5"
  by (simp_all add: sl_header_bytes_def sh_Serialize_def)

definition sl_pdu :: "int \<Rightarrow> u16 \<Rightarrow> u8 \<Rightarrow> packet \<Rightarrow> packet" where
  "sl_pdu now sn ty p = p\<lparr>pk_bytes := sl_header_bytes sn ty @ pk_bytes p,
     pk_btags := bt_add_at_start 5 (bt_adjust 5 (pk_btags p)) @ [(PdcpTag now, 1, 5)]\<rparr>"

lemma transmit_nrsl:
  "IsSlRb d \<Longrightarrow> DoTransmitNrSlPdcpSdu now p ty d =
     Inr (d\<lparr>pd_txSequenceNumber := pd_txSequenceNumber d + 1,
       pd_out := pd_out d @ [PdcpTxPdu (pd_rnti d) (pd_lcid d) (Packet_GetSize (sl_pdu now (pd_txSequenceNumber d) ty p)),
         TransmitNrSlPdcpPdu (sl_pdu now (pd_txSequenceNumber d) ty p) (pd_rnti d) (pd_lcid d)
           (pd_srcL2Id d) (pd_dstL2Id d)]\<rparr>)"
  by (simp add: DoTransmitNrSlPdcpSdu_def Let_def sl_header_bytes sh_GetSerializedSize_def
      Packet_AddHeader_def Packet_AddByteTag_def bt_add_def pd_emit_def next_sn_sl sl_pdu_def
      Packet_GetSize_def flip: sl_header_def)

text \<open>Reception of any packet that starts with a header a sidelink transmitter builds.\<close>

lemma receive_nrsl:
  assumes "IsSlRb d" "pk_bytes q = sl_header_bytes sn ty @ sdu"
  shows "\<exists>r. pd_DoReceiveNrSlPdcpPdu now q d =
      Inr (d\<lparr>pd_rxSequenceNumber := sn + 1,
        pd_out := pd_out d @ [PdcpRxPdu (pd_rnti d) (pd_lcid d) (Packet_GetSize q)
            (now - (case Packet_FindPdcpTag q of None \<Rightarrow> 0 | Some ts \<Rightarrow> ts)),
          ReceiveNrSlPdcpSdu r (pd_rnti d) (pd_lcid d) (pd_srcL2Id d) (pd_dstL2Id d) (ty AND 7)]\<rparr>) \<and>
    pk_bytes r = sdu \<and> pk_sdu_status r = pk_sdu_status q"
proof -
  have "sh_Deserialize (pk_bytes q) = Inr (sl_header sn ty, 5)"
    using sl_pdcp_codec.deserialize_serialize [OF sl_header_wf sl_header_bytes(1)] assms(2)
    by (simp add: sh_GetSerializedSize_def)
  then show ?thesis
    using assms
    by (intro exI [of _ "q\<lparr>pk_bytes := sdu, pk_btags := bt_adjust (- 5) (pk_btags q)\<rparr>"])
      (simp add: pd_DoReceiveNrSlPdcpPdu_def pd_rx_trace_def pd_emit_def IsSlRb_def
        Packet_RemoveHeader_def next_sn_sl sl_header_bytes(2) Let_def)
qed

section \<open>The delay trace\<close>

definition no_pdcp_tag :: "byte_tag_list \<Rightarrow> bool" where
  "no_pdcp_tag l = list_all (\<lambda>(t, _). case t of PdcpTag _ \<Rightarrow> False | _ \<Rightarrow> True) l"

lemma no_pdcp_tag_ops:
  "no_pdcp_tag l \<Longrightarrow> no_pdcp_tag (bt_iter a b l)"
  "no_pdcp_tag l \<Longrightarrow> no_pdcp_tag (bt_adjust n l)"
  "no_pdcp_tag l \<Longrightarrow> no_pdcp_tag (bt_add_at_start n l)"
  by (auto simp: no_pdcp_tag_def bt_iter_def bt_adjust_def bt_add_at_start_def bt_begin_all_def list_all_iff)

lemma no_pdcp_tag_filter:
  "no_pdcp_tag l \<Longrightarrow> filter (\<lambda>(t, _). case t of PdcpTag _ \<Rightarrow> True | _ \<Rightarrow> False) l = []"
  by (auto simp: no_pdcp_tag_def list_all_iff filter_empty_conv split: byte_tag.splits)

lemma find_pdcp_tag:
  assumes "pk_btags q = l @ [(PdcpTag now, 1, int n)]" "no_pdcp_tag l" "2 \<le> n" "n \<le> length (pk_bytes q)"
  shows "Packet_FindPdcpTag q = Some now"
proof -
  have "bt_iter 0 (int (length (pk_bytes q))) [(PdcpTag now, 1, int n)] = [(PdcpTag now, 1, int n)]"
    using assms(3,4) by (simp add: bt_iter_def)
  then show ?thesis
    using no_pdcp_tag_filter [OF no_pdcp_tag_ops(1) [OF assms(2)]]
    by (simp add: Packet_FindPdcpTag_def assms(1) bt_iter_append)
qed

lemma sl_pdu_tag: "no_pdcp_tag (pk_btags p) \<Longrightarrow> Packet_FindPdcpTag (sl_pdu now sn ty p) = Some now"
  by (rule find_pdcp_tag [where n = 5 and l = "bt_add_at_start 5 (bt_adjust 5 (pk_btags p))"])
    (simp_all add: sl_pdu_def no_pdcp_tag_ops sl_header_bytes(2))

end
