(* ===== verification/SequenceNumber10.thy ===== *)
theory SequenceNumber10
  imports Prelude
begin

text \<open>
  The class \<open>SequenceNumber10\<close> of \<open>src/src/lte/model/lte-rlc-sequence-number.h\<close>: a 10-bit
  sequence number held in a \<open>uint16_t\<close>, with the modulus base its comparisons are
  relative to.  The C++ arithmetic is kept as written: the operands are promoted to
  \<open>int\<close>, \<open>%\<close> truncates (so a difference may be negative) and the result is converted
  back to \<open>uint16_t\<close>.  The lemmas show that this is modular arithmetic and that the
  comparisons are the order of the offsets from the modulus base.
\<close>

section \<open>State and operations\<close>

record sn10 =
  sn_value :: u16
  sn_base :: u16

definition SN10 :: "u16 \<Rightarrow> sn10" where
  "SN10 v = \<lparr>sn_value = v mod 1024, sn_base = 0\<rparr>"

definition sn_assign :: "sn10 \<Rightarrow> u16 \<Rightarrow> sn10" where
  "sn_assign a v = a\<lparr>sn_value := v mod 1024\<rparr>"

definition SetModulusBase :: "sn10 \<Rightarrow> sn10 \<Rightarrow> sn10" where
  "SetModulusBase a b = a\<lparr>sn_base := sn_value b\<rparr>"

text \<open>\<open>operator++(int)\<close>: the new value of the object, computed in \<open>uint32_t\<close>.\<close>

definition sn_inc :: "sn10 \<Rightarrow> sn10" where
  "sn_inc a = a\<lparr>sn_value := ucast ((ucast (sn_value a) + 1 :: u32) mod 1024)\<rparr>"

text \<open>
  \<open>operator+\<close> and \<open>operator-\<close> with a \<open>uint16_t\<close>: an \<open>int\<close> expression passed to the
  constructor.
\<close>

definition sn_add :: "sn10 \<Rightarrow> u16 \<Rightarrow> sn10" where
  "sn_add a d =
     (SN10 (word_of_int ((uint (sn_value a) + uint d) smod 1024)))\<lparr>sn_base := sn_base a\<rparr>"

definition sn_sub :: "sn10 \<Rightarrow> u16 \<Rightarrow> sn10" where
  "sn_sub a d =
     (SN10 (word_of_int ((uint (sn_value a) - uint d) smod 1024)))\<lparr>sn_base := sn_base a\<rparr>"

definition sn_diff :: "sn10 \<Rightarrow> sn10 \<Rightarrow> u16" where
  "sn_diff a b = word_of_int (uint (sn_value a) - uint (sn_value b))"

text \<open>The value \<open>v1\<close> (or \<open>v2\<close>) that \<open>operator>\<close> compares.\<close>

definition sn_key :: "sn10 \<Rightarrow> u16" where
  "sn_key a = word_of_int ((uint (sn_value a) - uint (sn_base a)) smod 1024)"

definition sn_gt :: "sn10 \<Rightarrow> sn10 \<Rightarrow> bool res" where
  "sn_gt a b = rguard NsAssert (sn_base a = sn_base b) (Inr (sn_key a > sn_key b))"

definition sn_eq :: "sn10 \<Rightarrow> sn10 \<Rightarrow> bool" where
  "sn_eq a b = (sn_value a = sn_value b)"

definition sn_le :: "sn10 \<Rightarrow> sn10 \<Rightarrow> bool res" where
  "sn_le a b = rbind (sn_gt a b) (\<lambda>g. Inr (\<not> g))"

definition sn_ge :: "sn10 \<Rightarrow> sn10 \<Rightarrow> bool res" where
  "sn_ge a b = ror (sn_gt a b) (Inr (sn_eq a b))"

definition sn_lt :: "sn10 \<Rightarrow> sn10 \<Rightarrow> bool res" where
  "sn_lt a b = rand (rbind (sn_gt a b) (\<lambda>g. Inr (\<not> g))) (Inr (sn_value a \<noteq> sn_value b))"

section \<open>The type invariant\<close>

definition sn_wf :: "sn10 \<Rightarrow> bool" where
  "sn_wf a \<longleftrightarrow> sn_value a < 1024 \<and> sn_base a < 1024"

text \<open>The number of a sequence number, and its distance from a base, as integers.\<close>

definition sn_num :: "sn10 \<Rightarrow> int" where
  "sn_num a = uint (sn_value a)"

definition sn_off :: "sn10 \<Rightarrow> int" where
  "sn_off a = (uint (sn_value a) - uint (sn_base a)) mod 1024"

lemma u16_less_1024: "(w :: u16) < 1024 \<longleftrightarrow> uint w < 1024"
  by (simp add: word_less_def)

lemma u16_mod_less [simp]: "(w :: u16) mod 1024 < 1024"
  by (simp add: u16_less_1024 uint_u16_mod1024)

lemma uint_eq_iff16: "(a :: u16) = b \<longleftrightarrow> uint a = uint b"
  by (rule word_uint_eq_iff)

lemma uint_of_smod: "uint (word_of_int (x smod 1024) mod 1024 :: u16) = x mod 1024"
proof -
  have "uint (word_of_int (x smod 1024) :: u16) = (x smod 1024) mod 65536"
    by (simp add: uint_word_of_int)
  then have "uint (word_of_int (x smod 1024) mod 1024 :: u16) = ((x smod 1024) mod 65536) mod 1024"
    by (simp add: uint_u16_mod1024)
  also have "\<dots> = (x smod 1024) mod 1024"
    by (simp add: mod_mod_cancel)
  also have "\<dots> = x mod 1024"
    by (rule smod_mod_eq)
  finally show ?thesis .
qed

lemma sn_num_SN10 [simp]: "sn_num (SN10 v) = uint v mod 1024"
  by (simp add: sn_num_def SN10_def uint_u16_mod1024)

lemma sn_num_add [simp]: "sn_num (sn_add a d) = (sn_num a + uint d) mod 1024"
  by (simp add: sn_num_def sn_add_def SN10_def uint_of_smod)

lemma sn_num_sub [simp]: "sn_num (sn_sub a d) = (sn_num a - uint d) mod 1024"
  by (simp add: sn_num_def sn_sub_def SN10_def uint_of_smod)

lemma sn_num_inc [simp]: "sn_num (sn_inc a) = (sn_num a + 1) mod 1024"
proof -
  have "uint (sn_value a) < 65536" by (rule uint_u16_less)
  then have "uint (ucast (sn_value a) + 1 :: u32) = uint (sn_value a) + 1"
    by (simp add: uint_word_ariths unsigned_ucast_eq take_bit_eq_mod)
  then have "uint ((ucast (sn_value a) + 1 :: u32) mod 1024) = (uint (sn_value a) + 1) mod 1024"
    by (simp add: uint_mod)
  then show ?thesis
    by (simp add: sn_num_def sn_inc_def unsigned_ucast_eq take_bit_eq_mod mod_mod_cancel)
qed

lemma sn_num_assign [simp]: "sn_num (sn_assign a v) = uint v mod 1024"
  by (simp add: sn_num_def sn_assign_def uint_u16_mod1024)

lemma sn_num_SetModulusBase [simp]: "sn_num (SetModulusBase a b) = sn_num a"
  by (simp add: sn_num_def SetModulusBase_def)

lemma sn_base_simps [simp]:
  "sn_base (SN10 v) = 0" "sn_base (sn_add a d) = sn_base a" "sn_base (sn_sub a d) = sn_base a"
  "sn_base (sn_inc a) = sn_base a" "sn_base (sn_assign a v) = sn_base a"
  "sn_base (SetModulusBase a b) = sn_value b"
  by (simp_all add: SN10_def sn_add_def sn_sub_def sn_inc_def sn_assign_def SetModulusBase_def)

lemma sn_value_SetModulusBase [simp]: "sn_value (SetModulusBase a b) = sn_value a"
  by (simp add: SetModulusBase_def)

lemma sn_wf_num: "sn_wf a \<Longrightarrow> 0 \<le> sn_num a \<and> sn_num a < 1024"
  by (simp add: sn_wf_def sn_num_def u16_less_1024)

lemma sn_value_lt_iff: "sn_value a < 1024 \<longleftrightarrow> sn_num a < 1024"
  by (simp add: sn_num_def u16_less_1024)

lemma sn_value_eq_iff: "sn_value a = sn_value b \<longleftrightarrow> sn_num a = sn_num b"
  by (simp add: sn_num_def uint_eq_iff16)

lemma sn_wf_ops [simp]:
  "sn_wf (SN10 v)"
  "sn_wf a \<Longrightarrow> sn_wf (sn_add a d)"
  "sn_wf a \<Longrightarrow> sn_wf (sn_sub a d)"
  "sn_wf a \<Longrightarrow> sn_wf (sn_inc a)"
  "sn_wf a \<Longrightarrow> sn_wf (sn_assign a v)"
  "sn_wf a \<Longrightarrow> sn_wf b \<Longrightarrow> sn_wf (SetModulusBase a b)"
  by (simp_all add: sn_wf_def sn_value_lt_iff)

section \<open>The order\<close>

text \<open>
  The truncating remainder of the C++ code maps the values below the base to the top of the
  \<open>uint16_t\<close> range instead of to \<open>1024 - (base - value)\<close>.  The order is the same.
\<close>

lemma sn_wf_uint:
  assumes "sn_wf a"
  shows "0 \<le> uint (sn_value a)" "uint (sn_value a) < 1024"
    "0 \<le> uint (sn_base a)" "uint (sn_base a) < 1024"
  using assms by (simp_all add: sn_wf_def u16_less_1024)

lemma sn_off_cases:
  assumes "sn_wf a"
  shows "sn_off a = (if sn_base a \<le> sn_value a then uint (sn_value a) - uint (sn_base a)
      else uint (sn_value a) - uint (sn_base a) + 1024)"
proof (cases "uint (sn_base a) \<le> uint (sn_value a)")
  case True
  then have "sn_off a = uint (sn_value a) - uint (sn_base a)"
    unfolding sn_off_def using sn_wf_uint [OF assms] by (intro mod_pos_pos_trivial) linarith+
  with True show ?thesis
    by (simp add: word_le_def)
next
  case False
  have "sn_off a = (uint (sn_value a) - uint (sn_base a) + 1024) mod 1024"
    by (simp only: sn_off_def mod_add_self2)
  also have "\<dots> = uint (sn_value a) - uint (sn_base a) + 1024"
    using False sn_wf_uint [OF assms] by (intro mod_pos_pos_trivial) linarith+
  finally show ?thesis
    using False by (simp add: word_le_def)
qed

lemma uint_sn_key:
  assumes "sn_wf a"
  shows "uint (sn_key a) =
    (if sn_base a \<le> sn_value a then sn_off a else 64512 + sn_off a)"
proof -
  let ?d = "uint (sn_value a) - uint (sn_base a)"
  note b = sn_wf_uint [OF assms]
  have key: "uint (sn_key a) = (?d smod 1024) mod 65536"
    by (simp add: sn_key_def uint_word_of_int)
  show ?thesis
  proof (cases "uint (sn_base a) \<le> uint (sn_value a)")
    case True
    with b have "?d smod 1024 = ?d mod 1024"
      by (intro smod_nonneg) auto
    also have "\<dots> = ?d"
      using True b by (intro mod_pos_pos_trivial) linarith+
    finally have "?d smod 1024 = ?d" .
    moreover have "?d mod 65536 = ?d"
      using True b by (intro mod_pos_pos_trivial) linarith+
    ultimately have "uint (sn_key a) = ?d"
      using key by simp
    with True sn_off_cases [OF assms] show ?thesis
      by (simp add: word_le_def)
  next
    case False
    have "(- ?d) mod 1024 = - ?d"
      using False b by (intro mod_pos_pos_trivial) linarith+
    with False have "?d smod 1024 = ?d"
      by (simp add: signed_modulo_int_def)
    moreover have "?d mod 65536 = (?d + 65536) mod 65536"
      by (simp only: mod_add_self2)
    moreover have "(?d + 65536) mod 65536 = ?d + 65536"
      using False b by (intro mod_pos_pos_trivial) linarith+
    ultimately show ?thesis
      using False key sn_off_cases [OF assms] by (simp add: word_le_def)
  qed
qed

lemma sn_off_bounds: "0 \<le> sn_off a" "sn_off a < 1024"
  by (simp_all add: sn_off_def)

lemma sn_key_less_iff:
  assumes "sn_wf a" "sn_wf b" "sn_base a = sn_base b"
  shows "sn_key a < sn_key b \<longleftrightarrow> sn_off a < sn_off b"
proof -
  have "(uint (sn_key a) < uint (sn_key b)) = (sn_off a < sn_off b)"
    using sn_wf_uint [OF assms(1)] sn_wf_uint [OF assms(2)] assms(3)
    unfolding uint_sn_key [OF assms(1)] uint_sn_key [OF assms(2)]
      sn_off_cases [OF assms(1)] sn_off_cases [OF assms(2)] word_le_def
    by (smt (verit))
  then show ?thesis
    by (simp add: word_less_def)
qed

lemma sn_off_eq_iff:
  assumes "sn_wf a" "sn_wf b" "sn_base a = sn_base b"
  shows "sn_off a = sn_off b \<longleftrightarrow> sn_num a = sn_num b"
proof -
  have "sn_num a = (sn_off a + uint (sn_base a)) mod 1024" if "sn_wf a" for a
    using that by (simp add: sn_off_def mod_simps sn_num_def sn_wf_def u16_less_1024)
  then show ?thesis
    using assms by (metis sn_num_def sn_off_def)
qed

lemma sn_gt_off:
  "sn_wf a \<Longrightarrow> sn_wf b \<Longrightarrow> sn_base a = sn_base b \<Longrightarrow> sn_gt a b = Inr (sn_off b < sn_off a)"
  by (simp add: sn_gt_def sn_key_less_iff)

lemma sn_le_off:
  "sn_wf a \<Longrightarrow> sn_wf b \<Longrightarrow> sn_base a = sn_base b \<Longrightarrow> sn_le a b = Inr (sn_off a \<le> sn_off b)"
  by (auto simp: sn_le_def sn_gt_off)

lemma sn_lt_off:
  "sn_wf a \<Longrightarrow> sn_wf b \<Longrightarrow> sn_base a = sn_base b \<Longrightarrow> sn_lt a b = Inr (sn_off a < sn_off b)"
  using sn_off_eq_iff [of a b] by (auto simp: sn_lt_def sn_gt_off sn_value_eq_iff)

lemma sn_ge_off:
  "sn_wf a \<Longrightarrow> sn_wf b \<Longrightarrow> sn_base a = sn_base b \<Longrightarrow> sn_ge a b = Inr (sn_off b \<le> sn_off a)"
  using sn_off_eq_iff [of a b] by (auto simp: sn_ge_def sn_gt_off sn_eq_def sn_value_eq_iff)

lemmas sn_cmp_off = sn_gt_off sn_le_off sn_lt_off sn_ge_off

end
