(* ===== verification/LteRlcHeader.thy ===== *)
theory LteRlcHeader
  imports SequenceNumber10 Packet
begin

text \<open>
  The RLC UM header (\<open>src/src/lte/model/lte-rlc-header.cc\<close>): the fixed part with the
  framing info, the first extension bit and the sequence number, then pairs of 12-bit
  fields, each an extension bit and an 11-bit length indicator.  The bit expressions are
  those of the source, computed in 32 bits (\<open>int\<close> after promotion) and truncated to a byte
  by \<open>WriteU8\<close>.  The header is an instance of the contract \<^term>\<open>header_codec\<close>.
\<close>

section \<open>State and operations\<close>

record rlc_header =
  rh_headerLength :: u16
  rh_framingInfo :: u8
  rh_sequenceNumber :: sn10
  rh_extensionBits :: "u8 list"
  rh_lengthIndicators :: "u16 list"

definition LteRlcHeader :: rlc_header where
  "LteRlcHeader = \<lparr>rh_headerLength = 0, rh_framingInfo = 0xff, rh_sequenceNumber = SN10 0xfffa,
     rh_extensionBits = [], rh_lengthIndicators = []\<rparr>"

text \<open>The enumerations \<open>ExtensionBit_t\<close>, \<open>FramingInfoFirstByte_t\<close>, \<open>FramingInfoLastByte_t\<close>.\<close>

definition DATA_FIELD_FOLLOWS :: u8 where "DATA_FIELD_FOLLOWS = 0"
definition E_LI_FIELDS_FOLLOWS :: u8 where "E_LI_FIELDS_FOLLOWS = 1"
definition FIRST_BYTE :: u8 where "FIRST_BYTE = 0x00"
definition NO_FIRST_BYTE :: u8 where "NO_FIRST_BYTE = 0x02"
definition LAST_BYTE :: u8 where "LAST_BYTE = 0x00"
definition NO_LAST_BYTE :: u8 where "NO_LAST_BYTE = 0x01"

lemmas rlc_header_consts = DATA_FIELD_FOLLOWS_def E_LI_FIELDS_FOLLOWS_def FIRST_BYTE_def
  NO_FIRST_BYTE_def LAST_BYTE_def NO_LAST_BYTE_def

definition SetFramingInfo :: "u8 \<Rightarrow> rlc_header \<Rightarrow> rlc_header" where
  "SetFramingInfo fi h = h\<lparr>rh_framingInfo := fi AND 0x03\<rparr>"

definition SetSequenceNumber :: "sn10 \<Rightarrow> rlc_header \<Rightarrow> rlc_header" where
  "SetSequenceNumber sn h = h\<lparr>rh_sequenceNumber := sn\<rparr>"

definition PushExtensionBit :: "u8 \<Rightarrow> rlc_header \<Rightarrow> rlc_header" where
  "PushExtensionBit e h =
     (let bits = rh_extensionBits h @ [e] in
      h\<lparr>rh_extensionBits := bits,
        rh_headerLength :=
          (if length bits = 1 then 2
           else if length bits mod 2 \<noteq> 0 then rh_headerLength h + 1
           else rh_headerLength h + 2)\<rparr>)"

definition PushLengthIndicator :: "u16 \<Rightarrow> rlc_header \<Rightarrow> rlc_header" where
  "PushLengthIndicator li h = h\<lparr>rh_lengthIndicators := rh_lengthIndicators h @ [li]\<rparr>"

text \<open>\<open>front\<close> and \<open>pop_front\<close> of an empty list are undefined.\<close>

definition PopExtensionBit :: "rlc_header \<Rightarrow> (u8 \<times> rlc_header) res" where
  "PopExtensionBit h =
     (case rh_extensionBits h of
        [] \<Rightarrow> Inl UndefinedBehaviour
      | e # es \<Rightarrow> Inr (e, h\<lparr>rh_extensionBits := es\<rparr>))"

definition PopLengthIndicator :: "rlc_header \<Rightarrow> (u16 \<times> rlc_header) res" where
  "PopLengthIndicator h =
     (case rh_lengthIndicators h of
        [] \<Rightarrow> Inl UndefinedBehaviour
      | l # ls \<Rightarrow> Inr (l, h\<lparr>rh_lengthIndicators := ls\<rparr>))"

definition rlc_GetSerializedSize :: "rlc_header \<Rightarrow> u32" where
  "rlc_GetSerializedSize h = ucast (rh_headerLength h)"

text \<open>
  The bytes of the extension part.  A pair of 12-bit fields takes three bytes; an odd last
  field takes two, with four bits of padding.
\<close>

definition enc_byte1 :: "u8 \<Rightarrow> u16 \<Rightarrow> u8" where
  "enc_byte1 oddE oddLi =
     ucast ((push_bit 7 (ucast oddE) AND 0x80) OR (drop_bit 4 (ucast oddLi) AND 0x7F) :: u32)"

definition enc_byte2 :: "u16 \<Rightarrow> u8 \<Rightarrow> u16 \<Rightarrow> u8" where
  "enc_byte2 oddLi evenE evenLi =
     ucast ((push_bit 4 (ucast oddLi) AND 0xF0) OR (push_bit 3 (ucast evenE) AND 0x08)
            OR (drop_bit 8 (ucast evenLi) AND 0x07) :: u32)"

definition enc_byte2_pad :: "u16 \<Rightarrow> u8" where
  "enc_byte2_pad oddLi = ucast (push_bit 4 (ucast oddLi) AND 0xF0 :: u32)"

definition enc_byte3 :: "u16 \<Rightarrow> u8" where
  "enc_byte3 evenLi = ucast (ucast evenLi AND 0xFF :: u32)"

definition dec_oddE :: "u8 \<Rightarrow> u8" where
  "dec_oddE byte1 = ucast (drop_bit 7 (ucast byte1 AND 0x80 :: u32))"

definition dec_oddLi :: "u8 \<Rightarrow> u8 \<Rightarrow> u16" where
  "dec_oddLi byte1 byte2 =
     ucast (push_bit 4 (ucast byte1 AND 0x7F) OR drop_bit 4 (ucast byte2 AND 0xF0) :: u32)"

definition dec_evenE :: "u8 \<Rightarrow> u8" where
  "dec_evenE byte2 = ucast (drop_bit 3 (ucast byte2 AND 0x08 :: u32))"

definition dec_evenLi :: "u8 \<Rightarrow> u8 \<Rightarrow> u16" where
  "dec_evenLi byte2 byte3 =
     ucast (push_bit 8 (ucast byte2 AND 0x07) OR (ucast byte3 AND 0xFF) :: u32)"

text \<open>The two bytes of the fixed part.\<close>

definition enc_fix1 :: "u8 \<Rightarrow> u8 \<Rightarrow> u16 \<Rightarrow> u8" where
  "enc_fix1 fi e sn =
     ucast ((push_bit 3 (ucast fi) AND 0x18) OR (push_bit 2 (ucast e) AND 0x04)
            OR (drop_bit 8 (ucast sn) AND 0x03) :: u32)"

definition enc_fix2 :: "u16 \<Rightarrow> u8" where
  "enc_fix2 sn = ucast (ucast sn AND 0xFF :: u32)"

definition dec_fi :: "u8 \<Rightarrow> u8" where
  "dec_fi byte1 = ucast (drop_bit 3 (ucast byte1 AND 0x18 :: u32))"

definition dec_fixE :: "u8 \<Rightarrow> u8" where
  "dec_fixE byte1 = ucast (drop_bit 2 (ucast byte1 AND 0x04 :: u32))"

definition dec_sn :: "u8 \<Rightarrow> u8 \<Rightarrow> u16" where
  "dec_sn byte1 byte2 = ucast (push_bit 8 (ucast byte1 AND 0x03) OR ucast byte2 :: u32)"

text \<open>The loop of \<open>Serialize\<close> over the remaining extension bits and length indicators.\<close>

fun ser_li :: "u8 list \<Rightarrow> u16 list \<Rightarrow> u8 list" where
  "ser_li (oddE # es) (oddLi # ls) =
     (case (es, ls) of
        (evenE # es', evenLi # ls') \<Rightarrow>
          enc_byte1 oddE oddLi # enc_byte2 oddLi evenE evenLi # enc_byte3 evenLi # ser_li es' ls'
      | _ \<Rightarrow> [enc_byte1 oddE oddLi, enc_byte2_pad oddLi])"
| "ser_li _ _ = []"

definition rlc_Serialize :: "rlc_header \<Rightarrow> u8 list res" where
  "rlc_Serialize h =
     (case rh_extensionBits h of
        [] \<Rightarrow> Inl UndefinedBehaviour
      | e # es \<Rightarrow> Inr (
          enc_fix1 (rh_framingInfo h) e (sn_value (rh_sequenceNumber h))
          # enc_fix2 (sn_value (rh_sequenceNumber h))
          # ser_li es (rh_lengthIndicators h)))"

text \<open>The loop of \<open>Deserialize\<close>; reading past the end of the buffer is an assertion failure.\<close>

definition push_fields :: "u8 \<Rightarrow> u16 \<Rightarrow> u16 \<Rightarrow> rlc_header \<Rightarrow> rlc_header" where
  "push_fields e li n h =
     h\<lparr>rh_extensionBits := rh_extensionBits h @ [e],
       rh_lengthIndicators := rh_lengthIndicators h @ [li],
       rh_headerLength := rh_headerLength h + n\<rparr>"

fun deser_li :: "u8 list \<Rightarrow> rlc_header \<Rightarrow> rlc_header res" where
  "deser_li (byte1 # byte2 # rest) h =
     (if dec_oddE byte1 = E_LI_FIELDS_FOLLOWS then
        (case rest of
           [] \<Rightarrow> Inl NsAssert
         | byte3 # rest' \<Rightarrow>
             (if dec_evenE byte2 = E_LI_FIELDS_FOLLOWS
              then deser_li rest' (push_fields (dec_evenE byte2) (dec_evenLi byte2 byte3) 1
                     (push_fields (dec_oddE byte1) (dec_oddLi byte1 byte2) 2 h))
              else Inr (push_fields (dec_evenE byte2) (dec_evenLi byte2 byte3) 1
                     (push_fields (dec_oddE byte1) (dec_oddLi byte1 byte2) 2 h))))
      else Inr (push_fields (dec_oddE byte1) (dec_oddLi byte1 byte2) 2 h))"
| "deser_li _ h = Inl NsAssert"

definition rlc_Deserialize :: "rlc_header \<Rightarrow> u8 list \<Rightarrow> (rlc_header \<times> nat) res" where
  "rlc_Deserialize h0 buf =
     (case buf of
        byte1 # byte2 # rest \<Rightarrow>
          (let h = h0\<lparr>rh_headerLength := 2,
                      rh_framingInfo := dec_fi byte1,
                      rh_sequenceNumber := sn_assign (rh_sequenceNumber h0) (dec_sn byte1 byte2),
                      rh_extensionBits := rh_extensionBits h0 @ [dec_fixE byte1]\<rparr>
           in rbind (if dec_fixE byte1 = DATA_FIELD_FOLLOWS then Inr h
                     else if dec_fixE byte1 = E_LI_FIELDS_FOLLOWS then deser_li rest h
                     else Inr h)
                (\<lambda>h'. Inr (h', unat (rlc_GetSerializedSize h'))))
      | _ \<Rightarrow> Inl NsAssert)"

section \<open>Bit-level facts\<close>

lemmas byte_defs = enc_byte1_def enc_byte2_def enc_byte2_pad_def enc_byte3_def enc_fix1_def
  enc_fix2_def dec_oddE_def dec_oddLi_def dec_evenE_def dec_evenLi_def dec_fi_def dec_fixE_def
  dec_sn_def

lemma li_bit_bound: "(x :: u16) < 2048 \<Longrightarrow> bit x n \<Longrightarrow> n < 11"
  by (rule bit_u16_bound [of x 11]) (simp_all add: word_less_nat_alt)

lemma li_eqI:
  assumes "(y :: u16) < 2048" and "\<And>n. n < 16 \<Longrightarrow> (bit y n \<longrightarrow> n < 11) \<Longrightarrow> bit x n \<longleftrightarrow> bit y n"
  shows "x = y"
  using assms(2) li_bit_bound [OF assms(1)] by (auto intro: bit_word_eqI)

lemma dec_enc_oddLi [codec_simps]:
  assumes "oddLi < 2048"
  shows "dec_oddLi (enc_byte1 oddE oddLi) (enc_byte2 oddLi evenE evenLi) = oddLi"
  unfolding byte_defs mask_constants
  by (rule li_eqI [OF assms]) (auto simp: bit_simps bit_single)

lemma dec_enc_oddLi_pad [codec_simps]:
  assumes "oddLi < 2048"
  shows "dec_oddLi (enc_byte1 oddE oddLi) (enc_byte2_pad oddLi) = oddLi"
  unfolding byte_defs mask_constants
  by (rule li_eqI [OF assms]) (auto simp: bit_simps bit_single)

lemma dec_enc_evenLi [codec_simps]:
  assumes "evenLi < 2048"
  shows "dec_evenLi (enc_byte2 oddLi evenE evenLi) (enc_byte3 evenLi) = evenLi"
  unfolding byte_defs mask_constants
  by (rule li_eqI [OF assms]) (auto simp: bit_simps bit_single)

lemma dec_enc_oddE [codec_simps]:
  "dec_oddE (enc_byte1 0 oddLi) = 0" "dec_oddE (enc_byte1 1 oddLi) = 1"
  unfolding byte_defs mask_constants
  by (rule bit_word_eqI; auto simp: bit_simps bit_single bit_1_iff)+

lemma dec_enc_evenE [codec_simps]:
  "dec_evenE (enc_byte2 oddLi 0 evenLi) = 0" "dec_evenE (enc_byte2 oddLi 1 evenLi) = 1"
  unfolding byte_defs mask_constants
  by (rule bit_word_eqI; auto simp: bit_simps bit_single bit_1_iff)+

lemma dec_enc_fi [codec_simps]:
  assumes "fi < 4"
  shows "dec_fi (enc_fix1 fi e sn) = fi"
proof (rule bit_word_eqI)
  fix n
  have "bit fi n \<longrightarrow> n < 2"
    using bit_u8_bound [of fi 2 n] assms by (simp add: word_less_nat_alt)
  then show "bit (dec_fi (enc_fix1 fi e sn)) n = bit fi n"
    unfolding byte_defs mask_constants by (auto simp: bit_simps bit_single)
qed

lemma dec_enc_fixE [codec_simps]:
  "dec_fixE (enc_fix1 fi 0 sn) = 0" "dec_fixE (enc_fix1 fi 1 sn) = 1"
  unfolding byte_defs mask_constants
  by (rule bit_word_eqI; auto simp: bit_simps bit_single bit_1_iff)+

lemma enc_fix1_low: "bit (enc_fix1 fi e sn) n \<longleftrightarrow> bit sn (8 + n)" if "n < 2"
  using that unfolding byte_defs mask_constants by (auto simp: bit_simps bit_single)

lemma enc_fix2_bits: "bit (enc_fix2 sn) n \<longleftrightarrow> n < 8 \<and> bit sn n"
  unfolding byte_defs mask_constants by (auto simp: bit_simps)

lemma dec_sn_bits: "bit (dec_sn a b) n \<longleftrightarrow> (if n < 8 then bit b n else n < 10 \<and> bit a (n - 8))"
  unfolding byte_defs mask_constants by (auto simp: bit_simps dest: bit_imp_le_length)

lemma dec_enc_sn [codec_simps]:
  assumes "sn < 1024"
  shows "dec_sn (enc_fix1 fi e sn) (enc_fix2 sn) = sn"
proof (rule bit_word_eqI)
  fix n
  have "bit sn n \<longrightarrow> n < 10"
    using bit_u16_bound [of sn 10 n] assms by (simp add: word_less_nat_alt)
  then show "bit (dec_sn (enc_fix1 fi e sn) (enc_fix2 sn)) n = bit sn n"
    by (auto simp: dec_sn_bits enc_fix1_low enc_fix2_bits)
qed

section \<open>Well-formed headers and the round trip\<close>

text \<open>
  A header a transmitter builds for \<open>k + 1\<close> data fields: \<open>k\<close> extension bits 1, a last one 0,
  and \<open>k\<close> length indicators of 11 bits.  \<open>li_bytes k\<close> is the length of the extension part.
\<close>

definition li_bytes :: "nat \<Rightarrow> nat" where
  "li_bytes k = 3 * (k div 2) + 2 * (k mod 2)"

definition rlc_header_of :: "u8 \<Rightarrow> sn10 \<Rightarrow> u16 list \<Rightarrow> rlc_header" where
  "rlc_header_of fi sn lis = \<lparr>rh_headerLength = of_nat (2 + li_bytes (length lis)),
     rh_framingInfo = fi, rh_sequenceNumber = sn,
     rh_extensionBits = replicate (length lis) 1 @ [0], rh_lengthIndicators = lis\<rparr>"

definition rlc_header_wf :: "rlc_header \<Rightarrow> bool" where
  "rlc_header_wf h \<longleftrightarrow>
     h = rlc_header_of (rh_framingInfo h) (rh_sequenceNumber h) (rh_lengthIndicators h) \<and>
     rh_framingInfo h < 4 \<and> sn_value (rh_sequenceNumber h) < 1024 \<and>
     sn_base (rh_sequenceNumber h) = 0 \<and>
     (\<forall>li \<in> set (rh_lengthIndicators h). li < 2048) \<and>
     2 + li_bytes (length (rh_lengthIndicators h)) < 65536"

lemma li_bytes_simps [simp]:
  "li_bytes 0 = 0" "li_bytes (Suc 0) = 2" "li_bytes (Suc (Suc k)) = 3 + li_bytes k"
  by (simp_all add: li_bytes_def)

lemma rlc_header_of_sel [simp]:
  "rh_framingInfo (rlc_header_of fi sn lis) = fi"
  "rh_sequenceNumber (rlc_header_of fi sn lis) = sn"
  "rh_lengthIndicators (rlc_header_of fi sn lis) = lis"
  "rh_extensionBits (rlc_header_of fi sn lis) = replicate (length lis) 1 @ [0]"
  "rh_headerLength (rlc_header_of fi sn lis) = of_nat (2 + li_bytes (length lis))"
  by (simp_all add: rlc_header_of_def)

lemma rlc_header_wfI:
  "fi < 4 \<Longrightarrow> sn_value sn < 1024 \<Longrightarrow> sn_base sn = 0 \<Longrightarrow> \<forall>li \<in> set lis. li < 2048 \<Longrightarrow>
   2 + li_bytes (length lis) < 65536 \<Longrightarrow> rlc_header_wf (rlc_header_of fi sn lis)"
  by (simp add: rlc_header_wf_def)

lemma length_ser_li:
  "lis \<noteq> [] \<Longrightarrow> length (ser_li (replicate (length lis - Suc 0) 1 @ [0]) lis) = li_bytes (length lis)"
proof (induction lis rule: induct_list012)
  case (3 a b lis)
  then show ?case by (cases lis) simp_all
qed simp_all

lemma deser_ser_li:
  "lis \<noteq> [] \<Longrightarrow> \<forall>li \<in> set lis. li < 2048 \<Longrightarrow>
   deser_li (ser_li (replicate (length lis - Suc 0) 1 @ [0]) lis @ rest) h =
     Inr (h\<lparr>rh_extensionBits := rh_extensionBits h @ replicate (length lis - Suc 0) 1 @ [0],
           rh_lengthIndicators := rh_lengthIndicators h @ lis,
           rh_headerLength := rh_headerLength h + of_nat (li_bytes (length lis))\<rparr>)"
proof (induction lis arbitrary: h rule: induct_list012)
  case 1
  then show ?case by simp
next
  case (2 a)
  then show ?case
    by (simp add: codec_simps E_LI_FIELDS_FOLLOWS_def push_fields_def)
next
  case (3 a b lis)
  show ?case
  proof (cases lis)
    case Nil
    with 3 show ?thesis
      by (simp add: codec_simps E_LI_FIELDS_FOLLOWS_def push_fields_def)
  next
    case (Cons c lis')
    with 3 show ?thesis
      by (simp add: codec_simps E_LI_FIELDS_FOLLOWS_def push_fields_def)
  qed
qed


text \<open>The header is a codec: it takes \<open>GetSerializedSize\<close> bytes and reads itself back.\<close>

lemma rlc_header_size:
  "rlc_header_wf h \<Longrightarrow> unat (rlc_GetSerializedSize h) = 2 + li_bytes (length (rh_lengthIndicators h))"
proof -
  assume wf: "rlc_header_wf h"
  define m where "m = 2 + li_bytes (length (rh_lengthIndicators h))"
  have "rh_headerLength h = rh_headerLength
      (rlc_header_of (rh_framingInfo h) (rh_sequenceNumber h) (rh_lengthIndicators h))"
    using wf by (simp only: rlc_header_wf_def)
  then have "rh_headerLength h = of_nat m"
    by (simp only: rlc_header_of_sel m_def)
  moreover have "m < 65536"
    using wf by (simp add: rlc_header_wf_def m_def)
  ultimately have "unat (rlc_GetSerializedSize h) = m"
    by (simp add: rlc_GetSerializedSize_def unat_of_nat_u16)
  then show ?thesis
    by (simp only: m_def)
qed

lemma rlc_Serialize_of:
  "rlc_Serialize (rlc_header_of fi sn lis) = Inr (
     enc_fix1 fi (if lis = [] then 0 else 1) (sn_value sn) # enc_fix2 (sn_value sn) #
     (if lis = [] then [] else ser_li (replicate (length lis - 1) 1 @ [0]) lis))"
  by (cases lis) (simp_all add: rlc_Serialize_def)

lemma rlc_Deserialize_Serialize:
  assumes "rlc_header_wf h" and "rlc_Serialize h = Inr bs"
  shows "rlc_Deserialize LteRlcHeader (bs @ rest) = Inr (h, unat (rlc_GetSerializedSize h))"
proof -
  define fi sn lis where "fi = rh_framingInfo h" and "sn = rh_sequenceNumber h"
    and "lis = rh_lengthIndicators h"
  have h: "h = rlc_header_of fi sn lis" and wf: "fi < 4" "sn_value sn < 1024" "sn_base sn = 0"
    "\<forall>li \<in> set lis. li < 2048"
    using assms(1) by (simp_all add: rlc_header_wf_def fi_def sn_def lis_def)
  have sn: "sn_assign (SN10 0xfffa) (sn_value sn) = sn"
    using wf(2,3) by (simp add: sn_assign_def SN10_def word_less_nat_alt unat_mod
        word_unat_eq_iff sn10.equality)
  show ?thesis
  proof (cases "lis = []")
    case True
    with assms(2) h have "bs = [enc_fix1 fi 0 (sn_value sn), enc_fix2 (sn_value sn)]"
      by (simp add: rlc_Serialize_of)
    with True h wf sn show ?thesis
      by (simp add: rlc_Deserialize_def LteRlcHeader_def codec_simps DATA_FIELD_FOLLOWS_def
          rlc_header_of_def Let_def rlc_GetSerializedSize_def)
  next
    case False
    with assms(2) h have "bs = enc_fix1 fi 1 (sn_value sn) # enc_fix2 (sn_value sn) #
        ser_li (replicate (length lis - 1) 1 @ [0]) lis"
      by (simp add: rlc_Serialize_of)
    moreover have "[1] @ replicate (length lis - 1) 1 = replicate (length lis) (1 :: u8)"
      using False by (cases lis) simp_all
    ultimately show ?thesis
      using False h wf sn
      by (simp add: rlc_Deserialize_def LteRlcHeader_def codec_simps rlc_header_consts
          deser_ser_li rlc_header_of_def Let_def rlc_GetSerializedSize_def)
  qed
qed

lemma rlc_Serialize_ok:
  assumes "rlc_header_wf h"
  shows "\<exists>bs. rlc_Serialize h = Inr bs \<and> length bs = unat (rlc_GetSerializedSize h)"
proof -
  have h: "h = rlc_header_of (rh_framingInfo h) (rh_sequenceNumber h) (rh_lengthIndicators h)"
    using assms by (simp add: rlc_header_wf_def)
  show ?thesis
    unfolding rlc_header_size [OF assms]
    by (subst h, simp add: rlc_Serialize_of length_ser_li)
qed

interpretation rlc_codec: header_codec
  "\<lambda>h. unat (rlc_GetSerializedSize h)" rlc_Serialize "rlc_Deserialize LteRlcHeader" rlc_header_wf
  by unfold_locales (simp_all add: rlc_Serialize_ok rlc_Deserialize_Serialize)

section \<open>Building a header\<close>

text \<open>
  What a transmitter does: for every data field but the last it pushes the extension bit 1
  and the length of the field, for the last one it pushes 0.
\<close>

definition push_field :: "u16 \<Rightarrow> rlc_header \<Rightarrow> rlc_header" where
  "push_field li h = PushLengthIndicator li (PushExtensionBit E_LI_FIELDS_FOLLOWS h)"

definition rlc_header_open :: "u16 list \<Rightarrow> rlc_header" where
  "rlc_header_open lis =
     \<lparr>rh_headerLength = (if lis = [] then 0 else of_nat (2 + li_bytes (length lis - 1))),
      rh_framingInfo = 0xff, rh_sequenceNumber = SN10 0xfffa,
      rh_extensionBits = replicate (length lis) 1, rh_lengthIndicators = lis\<rparr>"

lemma rlc_header_open_Nil: "rlc_header_open [] = LteRlcHeader"
  by (simp add: rlc_header_open_def LteRlcHeader_def)

lemma li_bytes_Suc: "li_bytes (Suc k) = li_bytes k + (if even k then 2 else 1)"
  unfolding li_bytes_def by (cases "even k") (auto elim!: evenE oddE)

lemma push_bit_length:
  "rh_headerLength (PushExtensionBit e (rlc_header_open lis)) = of_nat (2 + li_bytes (length lis))"
proof (cases lis)
  case Nil
  then show ?thesis
    by (simp add: rlc_header_open_def PushExtensionBit_def)
next
  case (Cons a as)
  then show ?thesis
    by (simp add: rlc_header_open_def PushExtensionBit_def Let_def li_bytes_Suc even_iff_mod_2_eq_zero)
qed

lemma push_field_open: "push_field li (rlc_header_open lis) = rlc_header_open (lis @ [li])"
proof -
  have "rh_headerLength (push_field li (rlc_header_open lis)) = of_nat (2 + li_bytes (length lis))"
    using push_bit_length by (simp add: push_field_def PushLengthIndicator_def)
  then show ?thesis
    by (simp add: push_field_def PushLengthIndicator_def PushExtensionBit_def rlc_header_open_def
        rlc_header_consts Let_def replicate_append_same rlc_header.equality)
qed

lemma close_header:
  "SetFramingInfo fi (SetSequenceNumber sn (PushExtensionBit DATA_FIELD_FOLLOWS (rlc_header_open lis)))
     = rlc_header_of (fi AND 0x03) sn lis"
  using push_bit_length [of DATA_FIELD_FOLLOWS lis]
  by (simp add: SetFramingInfo_def SetSequenceNumber_def PushExtensionBit_def rlc_header_open_def
      rlc_header_of_def rlc_header_consts Let_def rlc_header.equality)

end
