(* ===== verification/LteRlcUm.thy ===== *)
theory LteRlcUm
  imports LteRlcHeader
begin

text \<open>
  The RLC UM entity (\<open>src/src/lte/model/lte-rlc-um.cc\<close>, \<open>lte-rlc.h\<close>): its state and its
  transmitting side, for LTE and for the NR sidelink.  The calls the entity makes on the
  SAP interfaces of the layers above and below, and its trace sources, are appended to
  \<open>um_out\<close> in the order they happen.  Times are \<open>Time\<close> values in nanoseconds; a timer is
  \<open>Some\<close> of its expiry time while it is running.  The packets of the transmission buffer
  carry the time they were stored.
\<close>

section \<open>State\<close>

datatype ChannelType = DEFAULT_CH | STCH

datatype ReassemblingState_t = RS_NONE | WAITING_S0_FULL | WAITING_SI_SF

datatype um_event =
    TransmitPdu packet u16 u8 u8 u8 u8
    \<comment> \<open>pdu, rnti, lcid, layer, harqProcessId, componentCarrierId\<close>
  | ReportBufferStatus u16 u8 u32 u16
    \<comment> \<open>rnti, lcid, txQueueSize, txQueueHolDelay (the other fields are 0)\<close>
  | TransmitNrSlRlcPdu packet u16 u8 u8 u8 u8 u32 u32
    \<comment> \<open>pdu, rnti, lcid, layer, harqProcessId, bwpId, srcL2Id, dstL2Id\<close>
  | ReportNrSlBufferStatus u16 u8 u32 u16 u32 u32
  | ReceivePdcpPdu packet
  | ReceiveNrSlPdcpPdu packet
  | TxDropTrace packet
  | TxPduTrace u16 u8 u32
  | RxPduTrace u16 u8 u32 int

record um =
  um_rnti :: u16
  um_lcid :: u8
  um_packetDelayBudgetMs :: u16
  um_srcL2Id :: u32
  um_dstL2Id :: u32
  um_channelType :: ChannelType
  um_maxTxBufferSize :: u32
  um_txBufferSize :: u32
  um_txBuffer :: "(packet \<times> int) list"
  um_rxBuffer :: "(u16, packet) std_map"
  um_sdusBuffer :: "packet list"
  um_sequenceNumber :: sn10
  um_vrUr :: sn10
  um_vrUx :: sn10
  um_vrUh :: sn10
  um_windowSize :: u16
  um_reorderingTimerValue :: int
  um_reorderingTimer :: "int option"
  um_rbsTimer :: "int option"
  um_enablePdcpDiscarding :: bool
  um_discardTimerMs :: u32
  um_reassemblingState :: ReassemblingState_t
  um_keepS0 :: "packet option"
  um_expectedSeqNumber :: sn10
  um_firstPduRxed :: bool
  um_out :: "um_event list"

text \<open>The constructor, followed by the attribute defaults of \<open>GetTypeId\<close>.\<close>

definition LteRlcUm :: um where
  "LteRlcUm = \<lparr>um_rnti = 0, um_lcid = 0, um_packetDelayBudgetMs = 0xffff,
     um_srcL2Id = 0, um_dstL2Id = 0, um_channelType = DEFAULT_CH,
     um_maxTxBufferSize = 10 * 1024, um_txBufferSize = 0, um_txBuffer = [], um_rxBuffer = [],
     um_sdusBuffer = [], um_sequenceNumber = SN10 0, um_vrUr = SN10 0, um_vrUx = SN10 0,
     um_vrUh = SN10 0, um_windowSize = 512, um_reorderingTimerValue = 100 * 1000000,
     um_reorderingTimer = None, um_rbsTimer = None, um_enablePdcpDiscarding = True,
     um_discardTimerMs = 0, um_reassemblingState = WAITING_S0_FULL, um_keepS0 = None,
     um_expectedSeqNumber = SN10 0, um_firstPduRxed = False, um_out = []\<rparr>"

definition um_DoDispose :: "um \<Rightarrow> um" where
  "um_DoDispose u = u\<lparr>um_reorderingTimer := None, um_rbsTimer := None, um_txBuffer := [],
     um_rxBuffer := []\<rparr>"

text \<open>The setters of \<open>LteRlc\<close> (\<open>lte-rlc.cc\<close>).\<close>

definition SetRnti :: "u16 \<Rightarrow> um \<Rightarrow> um" where
  "SetRnti v u = u\<lparr>um_rnti := v\<rparr>"

definition SetLcId :: "u8 \<Rightarrow> um \<Rightarrow> um" where
  "SetLcId v u = u\<lparr>um_lcid := v\<rparr>"

definition SetPacketDelayBudgetMs :: "u16 \<Rightarrow> um \<Rightarrow> um" where
  "SetPacketDelayBudgetMs v u = u\<lparr>um_packetDelayBudgetMs := v\<rparr>"

definition SetSourceL2Id :: "u32 \<Rightarrow> um \<Rightarrow> um" where
  "SetSourceL2Id v u = u\<lparr>um_srcL2Id := v\<rparr>"

definition SetDestinationL2Id :: "u32 \<Rightarrow> um \<Rightarrow> um" where
  "SetDestinationL2Id v u = u\<lparr>um_dstL2Id := v\<rparr>"

definition SetRlcChannelType :: "ChannelType \<Rightarrow> um \<Rightarrow> um" where
  "SetRlcChannelType c u = u\<lparr>um_channelType := (case c of STCH \<Rightarrow> STCH | _ \<Rightarrow> DEFAULT_CH)\<rparr>"

definition um_emit :: "um_event \<Rightarrow> um \<Rightarrow> um" where
  "um_emit e u = u\<lparr>um_out := um_out u @ [e]\<rparr>"

text \<open>\<open>Time::GetMilliSeconds\<close> truncates towards zero.\<close>

definition ms_of :: "int \<Rightarrow> int" where
  "ms_of t = t sdiv 1000000"

section \<open>Buffer status reports\<close>

definition um_queueSize :: "um \<Rightarrow> u32" where
  "um_queueSize u =
     (if um_txBuffer u = [] then 0
      else um_txBufferSize u + 2 * of_nat (length (um_txBuffer u)))"

definition um_holDelay :: "int \<Rightarrow> um \<Rightarrow> u16" where
  "um_holDelay now u =
     (case um_txBuffer u of [] \<Rightarrow> 0 | (_, since) # _ \<Rightarrow> word_of_int (ms_of (now - since)))"

definition DoReportBufferStatus :: "int \<Rightarrow> um \<Rightarrow> um" where
  "DoReportBufferStatus now u =
     um_emit (ReportBufferStatus (um_rnti u) (um_lcid u) (um_queueSize u) (um_holDelay now u)) u"

definition DoReportNrSlBufferStatus :: "int \<Rightarrow> um \<Rightarrow> um" where
  "DoReportNrSlBufferStatus now u =
     um_emit (ReportNrSlBufferStatus (um_rnti u) (um_lcid u) (um_queueSize u) (um_holDelay now u)
       (um_srcL2Id u) (um_dstL2Id u)) u"

text \<open>Expiry handlers: the timer that fired is no longer running when they are called.\<close>

definition ExpireRbsTimer :: "int \<Rightarrow> um \<Rightarrow> um" where
  "ExpireRbsTimer now u0 =
     (let u = u0\<lparr>um_rbsTimer := None\<rparr> in
      if um_txBuffer u \<noteq> []
      then (DoReportBufferStatus now u)\<lparr>um_rbsTimer := Some (now + 10 * 1000000)\<rparr>
      else u)"

definition ExpireNrSlRbsTimer :: "int \<Rightarrow> um \<Rightarrow> um" where
  "ExpireNrSlRbsTimer now u0 =
     (let u = u0\<lparr>um_rbsTimer := None\<rparr> in
      if um_txBuffer u \<noteq> []
      then (DoReportNrSlBufferStatus now u)\<lparr>um_rbsTimer := Some (now + 10 * 1000000)\<rparr>
      else u)"

section \<open>A PDU from the PDCP layer\<close>

text \<open>The status values of \<open>LteRlcSduStatusTag\<close>.\<close>

definition FULL_SDU :: u8 where "FULL_SDU = 1"
definition FIRST_SEGMENT :: u8 where "FIRST_SEGMENT = 2"
definition MIDDLE_SEGMENT :: u8 where "MIDDLE_SEGMENT = 3"
definition LAST_SEGMENT :: u8 where "LAST_SEGMENT = 4"

lemmas sdu_status_consts = FULL_SDU_def FIRST_SEGMENT_def MIDDLE_SEGMENT_def LAST_SEGMENT_def

definition um_store :: "int \<Rightarrow> packet \<Rightarrow> um \<Rightarrow> um res" where
  "um_store now p u =
     rbind (Packet_AddPacketTag FULL_SDU p) (\<lambda>p'.
       Inr (u\<lparr>um_txBuffer := um_txBuffer u @ [(p', now)],
              um_txBufferSize := um_txBufferSize u + Packet_GetSize p'\<rparr>))"

definition pdcp_discard_due :: "int \<Rightarrow> um \<Rightarrow> bool" where
  "pdcp_discard_due now u =
     (let discardTimerMs = (if um_discardTimerMs u > 0 then um_discardTimerMs u
                            else ucast (um_packetDelayBudgetMs u));
          headOfLineDelayInMs = (case um_txBuffer u of
             [] \<Rightarrow> 0 | (_, since) # _ \<Rightarrow> word_of_int (ms_of (now - since)))
      in headOfLineDelayInMs > discardTimerMs)"

definition DoTransmitPdcpPdu :: "int \<Rightarrow> packet \<Rightarrow> um \<Rightarrow> um res" where
  "DoTransmitPdcpPdu now p u =
     rbind
       (if um_txBufferSize u + Packet_GetSize p \<le> um_maxTxBufferSize u
        then um_store now p
               (if um_enablePdcpDiscarding u \<and> pdcp_discard_due now u
                then um_emit (TxDropTrace p) u else u)
        else Inr (um_emit (TxDropTrace p) u))
       (\<lambda>u'. Inr ((DoReportBufferStatus now u')\<lparr>um_rbsTimer := None\<rparr>))"

definition DoTransmitNrSlPdcpPdu :: "int \<Rightarrow> packet \<Rightarrow> um \<Rightarrow> um res" where
  "DoTransmitNrSlPdcpPdu now p u =
     rbind
       (if um_txBufferSize u + Packet_GetSize p \<le> um_maxTxBufferSize u
        then um_store now p u
        else Inr u)
       (\<lambda>u'. Inr ((DoReportNrSlBufferStatus now u')\<lparr>um_rbsTimer := None\<rparr>))"

section \<open>A transmission opportunity\<close>

text \<open>
  \<open>CreateFragment\<close> and \<open>RemoveAtStart\<close> split the first packet, and the status tags of the
  two halves are set.  The result is the segment for the data field and the remainder, if
  any, with its tag.  A status that is read without having been set is undefined.
\<close>

definition tx_split_status :: "u8 \<Rightarrow> u8 \<Rightarrow> u8 \<times> u8" where
  "tx_split_status oldTag newTag =
     (if oldTag = FULL_SDU then (LAST_SEGMENT, FIRST_SEGMENT)
      else if oldTag = LAST_SEGMENT then (oldTag, MIDDLE_SEGMENT)
      else (oldTag, newTag))"

definition tx_whole_status :: "u8 \<Rightarrow> u8" where
  "tx_whole_status newTag =
     (if newTag = FIRST_SEGMENT then FULL_SDU
      else if newTag = MIDDLE_SEGMENT then LAST_SEGMENT
      else newTag)"

definition tx_cut :: "packet \<Rightarrow> u32 \<Rightarrow> (packet \<times> packet option) res" where
  "tx_cut firstSegment currSegmentSize =
     rbind (Packet_CreateFragment 0 (unat currSegmentSize) firstSegment) (\<lambda>newSegment.
     case Packet_RemovePacketTag firstSegment of (oldStatus, firstSegment) \<Rightarrow>
     case Packet_RemovePacketTag newSegment of (newStatus, newSegment) \<Rightarrow>
     case (oldStatus, newStatus) of
       (Some old, Some new) \<Rightarrow>
         (case tx_split_status old new of (oldTag, newTag) \<Rightarrow>
          let rest = Packet_RemoveAtStart (unat currSegmentSize) firstSegment in
          if Packet_GetSize rest > 0
          then rbind (Packet_AddPacketTag oldTag rest) (\<lambda>rest'.
               rbind (Packet_AddPacketTag newTag newSegment) (\<lambda>newSegment'.
                 Inr (newSegment', Some rest')))
          else rbind (Packet_AddPacketTag (tx_whole_status newTag) newSegment) (\<lambda>newSegment'.
                 Inr (newSegment', None)))
     | _ \<Rightarrow> Inl UndefinedBehaviour)"

text \<open>What the loop leaves: the transmission buffer, its size, the header and the data field.\<close>

type_synonym tx_result = "(packet \<times> int) list \<times> u32 \<times> rlc_header \<times> packet list"

text \<open>The first branch: the segment that ends the data field is cut off the packet.\<close>

definition tx_last_segment ::
  "packet \<Rightarrow> int \<Rightarrow> (packet \<times> int) list \<Rightarrow> u32 \<Rightarrow> u32 \<Rightarrow> rlc_header \<Rightarrow> packet list \<Rightarrow> tx_result res" where
  "tx_last_segment firstSegment firstSegmentTime txBuffer txBufferSize nextSegmentSize h dataField =
     rbind (tx_cut firstSegment (min (Packet_GetSize firstSegment) nextSegmentSize))
       (\<lambda>(newSegment, remaining).
         case remaining of
           Some r \<Rightarrow> Inr ((r, firstSegmentTime) # txBuffer, txBufferSize + Packet_GetSize r,
             PushExtensionBit DATA_FIELD_FOLLOWS h, dataField @ [newSegment])
         | None \<Rightarrow> Inr (txBuffer, txBufferSize,
             PushExtensionBit DATA_FIELD_FOLLOWS h, dataField @ [newSegment]))"

text \<open>
  The loop.  The first two branches set \<open>firstSegment\<close> to null, which ends it; the third
  one takes the next packet out of the transmission buffer.
\<close>

fun tx_loop ::
  "packet \<Rightarrow> int \<Rightarrow> (packet \<times> int) list \<Rightarrow> u32 \<Rightarrow> u32 \<Rightarrow> u32 \<Rightarrow> rlc_header \<Rightarrow> packet list
   \<Rightarrow> tx_result res" where
  "tx_loop firstSegment firstSegmentTime txBuffer txBufferSize nextSegmentSize nextSegmentId h
       dataField =
     (if Packet_GetSize firstSegment > 0 \<and> nextSegmentSize > 0 then
        if Packet_GetSize firstSegment > nextSegmentSize \<or> Packet_GetSize firstSegment > 2047 then
          tx_last_segment firstSegment firstSegmentTime txBuffer txBufferSize nextSegmentSize h
            dataField
        else if nextSegmentSize - Packet_GetSize firstSegment \<le> 2 \<or> txBuffer = [] then
          Inr (txBuffer, txBufferSize, PushExtensionBit DATA_FIELD_FOLLOWS h,
               dataField @ [firstSegment])
        else
          (case txBuffer of
             [] \<Rightarrow> Inl UndefinedBehaviour
           | (next, nextTime) # txBuffer' \<Rightarrow>
               tx_loop next nextTime txBuffer' (txBufferSize - Packet_GetSize next)
                 (nextSegmentSize
                  - ((if nextSegmentId mod 2 \<noteq> 0 then 2 else 1) + Packet_GetSize firstSegment))
                 (nextSegmentId + 1)
                 (PushLengthIndicator (ucast (Packet_GetSize firstSegment))
                   (PushExtensionBit E_LI_FIELDS_FOLLOWS h))
                 (dataField @ [firstSegment]))
      else Inr (txBuffer, txBufferSize, h, dataField))"

declare tx_loop.simps [simp del]

text \<open>
  The data field becomes one packet, and the status of its first and of its last segment
  give the framing info.  \<open>tx_concat\<close> returns the packet and the last status read.
\<close>

fun tx_concat :: "packet list \<Rightarrow> packet \<Rightarrow> u8 \<Rightarrow> (packet \<times> u8) res" where
  "tx_concat [] packet tag = Inr (packet, tag)"
| "tx_concat (it # dataField) packet tag =
     (case Packet_RemovePacketTag it of
        (None, _) \<Rightarrow> Inl NsAssert
      | (Some tag', it') \<Rightarrow>
          tx_concat dataField
            (if Packet_GetSize packet > 0 then Packet_AddAtEnd packet it' else it') tag')"

definition tx_framing_info :: "u8 \<Rightarrow> u8 \<Rightarrow> u8" where
  "tx_framing_info firstTag lastTag =
     (if firstTag = FULL_SDU \<or> firstTag = FIRST_SEGMENT then FIRST_BYTE else NO_FIRST_BYTE) OR
     (if lastTag = FULL_SDU \<or> lastTag = LAST_SEGMENT then LAST_BYTE else NO_LAST_BYTE)"

definition tx_build_pdu ::
  "sn10 \<Rightarrow> rlc_header \<Rightarrow> packet list \<Rightarrow> int \<Rightarrow> u16 \<Rightarrow> packet res" where
  "tx_build_pdu sn h dataField now txRnti =
     (case dataField of
        [] \<Rightarrow> Inl UndefinedBehaviour
      | first # _ \<Rightarrow>
          (case Packet_PeekPacketTag first of
             None \<Rightarrow> Inl NsAssert
           | Some firstTag \<Rightarrow>
               rbind (tx_concat dataField Packet_Create firstTag) (\<lambda>(packet, lastTag).
               let h' = SetFramingInfo (tx_framing_info firstTag lastTag) (SetSequenceNumber sn h) in
               rbind (Packet_AddHeader (unat (rlc_GetSerializedSize h')) (rlc_Serialize h') packet)
                 (\<lambda>packet'.
                   Packet_AddByteTag (RlcTag now txRnti) 1 (unat (rlc_GetSerializedSize h'))
                     packet'))))"

text \<open>The value \<open>m_sequenceNumber++\<close> returns.\<close>

definition sn_post :: "sn10 \<Rightarrow> sn10" where
  "sn_post a = (SN10 (sn_value a))\<lparr>sn_base := sn_base a\<rparr>"

text \<open>
  \<open>DoNotifyTxOpportunity\<close>, split where the loop starts and ends: \<open>tx_take\<close> builds the
  data field and the PDU, the handlers send it.
\<close>

definition tx_take :: "int \<Rightarrow> u32 \<Rightarrow> u16 \<Rightarrow> um \<Rightarrow> (packet \<times> um) option res" where
  "tx_take now bytes txRnti u =
     (if bytes \<le> 2 then Inr None
      else case um_txBuffer u of
        [] \<Rightarrow> Inr None
      | (firstSegment, firstSegmentTime) # txBuffer \<Rightarrow>
          rbind (tx_loop firstSegment firstSegmentTime txBuffer
                   (um_txBufferSize u - Packet_GetSize firstSegment) (bytes - 2) 1 LteRlcHeader [])
            (\<lambda>(txBuffer', txBufferSize', h, dataField).
          rbind (tx_build_pdu (sn_post (um_sequenceNumber u)) h dataField now txRnti)
            (\<lambda>packet.
          Inr (Some (packet, u\<lparr>um_txBuffer := txBuffer', um_txBufferSize := txBufferSize',
                               um_sequenceNumber := sn_inc (um_sequenceNumber u)\<rparr>)))))"

definition um_start_rbs :: "int \<Rightarrow> um \<Rightarrow> um" where
  "um_start_rbs now u =
     (if um_txBuffer u \<noteq> [] then u\<lparr>um_rbsTimer := Some (now + 10 * 1000000)\<rparr> else u)"

definition DoNotifyTxOpportunity :: "int \<Rightarrow> u32 \<Rightarrow> u8 \<Rightarrow> u8 \<Rightarrow> u8 \<Rightarrow> um \<Rightarrow> um res" where
  "DoNotifyTxOpportunity now bytes layer harqId componentCarrierId u =
     rbind (tx_take now bytes 0 u) (\<lambda>r. case r of
       None \<Rightarrow> Inr u
     | Some (packet, u') \<Rightarrow>
         Inr (um_start_rbs now
           (um_emit (TransmitPdu packet (um_rnti u') (um_lcid u') layer harqId componentCarrierId)
             (um_emit (TxPduTrace (um_rnti u') (um_lcid u') (Packet_GetSize packet)) u'))))"

text \<open>
  The NR sidelink copies of the loop and of the PDU construction are, log output aside, the
  same code; the \<open>RlcTag\<close> also carries the RNTI of the transmitter.
\<close>

definition nrsl_tx_loop ::
  "packet \<Rightarrow> int \<Rightarrow> (packet \<times> int) list \<Rightarrow> u32 \<Rightarrow> u32 \<Rightarrow> u32 \<Rightarrow> rlc_header \<Rightarrow> packet list
   \<Rightarrow> tx_result res" where
  "nrsl_tx_loop = tx_loop"

definition nrsl_tx_build_pdu ::
  "sn10 \<Rightarrow> rlc_header \<Rightarrow> packet list \<Rightarrow> int \<Rightarrow> u16 \<Rightarrow> packet res" where
  "nrsl_tx_build_pdu = tx_build_pdu"

definition nrsl_tx_take :: "int \<Rightarrow> u32 \<Rightarrow> um \<Rightarrow> (packet \<times> um) option res" where
  "nrsl_tx_take now bytes u =
     (if bytes \<le> 2 then Inr None
      else case um_txBuffer u of
        [] \<Rightarrow> Inr None
      | (firstSegment, firstSegmentTime) # txBuffer \<Rightarrow>
          rbind (nrsl_tx_loop firstSegment firstSegmentTime txBuffer
                   (um_txBufferSize u - Packet_GetSize firstSegment) (bytes - 2) 1 LteRlcHeader [])
            (\<lambda>(txBuffer', txBufferSize', h, dataField).
          rbind (nrsl_tx_build_pdu (sn_post (um_sequenceNumber u)) h dataField now (um_rnti u))
            (\<lambda>packet.
          Inr (Some (packet, u\<lparr>um_txBuffer := txBuffer', um_txBufferSize := txBufferSize',
                               um_sequenceNumber := sn_inc (um_sequenceNumber u)\<rparr>)))))"

lemma nrsl_tx_take_eq: "nrsl_tx_take now bytes u = tx_take now bytes (um_rnti u) u"
  unfolding nrsl_tx_take_def tx_take_def nrsl_tx_loop_def nrsl_tx_build_pdu_def ..

definition DoNotifyNrSlTxOpportunity :: "int \<Rightarrow> u32 \<Rightarrow> u8 \<Rightarrow> u8 \<Rightarrow> u8 \<Rightarrow> um \<Rightarrow> um res" where
  "DoNotifyNrSlTxOpportunity now bytes layer harqId bwpId u =
     rguard NsAbort (\<not> (um_srcL2Id u \<noteq> 0 \<and> um_channelType u \<noteq> STCH))
       (rbind (nrsl_tx_take now bytes u) (\<lambda>r. case r of
          None \<Rightarrow> Inr u
        | Some (packet, u') \<Rightarrow>
            Inr (um_start_rbs now
              (um_emit (TransmitNrSlRlcPdu packet (um_rnti u') (um_lcid u') layer harqId bwpId
                  (um_srcL2Id u') (um_dstL2Id u'))
                (um_emit (TxPduTrace (um_rnti u') (um_lcid u') (Packet_GetSize packet)) u')))))"

end
