(* ===== verification/LteRlcUmTx.thy ===== *)
theory LteRlcUmTx
  imports LteRlcUm
begin

text \<open>
  What the transmitting side of RLC UM does, stated on \<^emph>\<open>items\<close>: a packet of the
  transmission buffer or of a data field is its SDU status and its bytes.  The abstract
  segmentation \<open>cut_items\<close> works on natural numbers and lists; \<open>tx_loop\<close> refines it, and the
  header it builds describes the segments.
\<close>

section \<open>Segmentation of items\<close>

type_synonym item = "u8 option \<times> u8 list"

definition item_of :: "packet \<Rightarrow> item" where
  "item_of p = (pk_sdu_status p, pk_bytes p)"

definition split_status :: "u8 option \<Rightarrow> u8 option" where
  "split_status s = (if s = Some FULL_SDU then Some FIRST_SEGMENT else Some MIDDLE_SEGMENT)"

fun cut_items :: "nat \<Rightarrow> nat \<Rightarrow> item list \<Rightarrow> item list \<times> item list" where
  "cut_items n k [] = ([], [])"
| "cut_items n k ((s, b) # C) =
     (if length b > n then ([(split_status s, take n b)], (Some LAST_SEGMENT, drop n b) # C)
      else if length b > 2047 \<or> n - length b \<le> 2 \<or> C = [] then ([(s, b)], C)
      else (let (segs, rest) = cut_items (n - length b - (if even k then 2 else 1)) (Suc k) C
            in ((s, b) # segs, rest)))"

text \<open>
  The shape of a transmission buffer: only its first packet may be the rest of an SDU, and no
  packet is empty.
\<close>

definition tx_items_ok :: "item list \<Rightarrow> bool" where
  "tx_items_ok C \<longleftrightarrow>
     (\<forall>(s, b) \<in> set C. b \<noteq> []) \<and>
     (C \<noteq> [] \<longrightarrow> fst (hd C) \<in> {Some FULL_SDU, Some LAST_SEGMENT} \<and>
        (\<forall>(s, b) \<in> set (tl C). s = Some FULL_SDU))"

definition items_bytes :: "item list \<Rightarrow> nat" where
  "items_bytes C = sum_list (map (length \<circ> snd) C)"

lemma items_bytes_simps [simp]:
  "items_bytes [] = 0" "items_bytes (x # C) = length (snd x) + items_bytes C"
  "items_bytes (C @ D) = items_bytes C + items_bytes D"
  by (simp_all add: items_bytes_def)

lemma tx_items_ok_Cons:
  "tx_items_ok ((s, b) # C) \<longleftrightarrow> b \<noteq> [] \<and> (s = Some FULL_SDU \<or> s = Some LAST_SEGMENT) \<and>
     (\<forall>x \<in> set C. fst x = Some FULL_SDU \<and> snd x \<noteq> [])"
  by (auto simp: tx_items_ok_def)

lemma tx_items_ok_tl: "tx_items_ok (x # C) \<Longrightarrow> tx_items_ok C"
  by (cases C) (auto simp: tx_items_ok_def)

lemma tx_items_ok_snoc:
  "tx_items_ok C \<Longrightarrow> b \<noteq> [] \<Longrightarrow> tx_items_ok (C @ [(Some FULL_SDU, b)])"
  by (cases C) (auto simp: tx_items_ok_def)

text \<open>The segments and the remaining items have the bytes of the items, in order.\<close>

lemma cut_items_bytes:
  "cut_items n k C = (segs, rest) \<Longrightarrow> concat (map snd segs) @ concat (map snd rest) = concat (map snd C)"
  by (induction n k C arbitrary: segs rest rule: cut_items.induct)
    (auto split: if_splits prod.splits)

lemma cut_items_Nil_iff: "cut_items n k C = (segs, rest) \<Longrightarrow> segs = [] \<longleftrightarrow> C = []"
  by (cases C) (auto split: if_splits prod.splits)

lemma cut_items_more:
  assumes "cut_items n k ((s, b) # C) = (segs, rest)"
    and "\<not> (length b > n \<or> length b > 2047 \<or> n - length b \<le> 2 \<or> C = [])"
  obtains m segs' where "m = n - length b - (if even k then 2 else 1)" "0 < m"
    "cut_items m (Suc k) C = (segs', rest)" "segs = (s, b) # segs'"
proof -
  obtain segs' where "cut_items (n - length b - (if even k then 2 else 1)) (Suc k) C = (segs', rest)"
    "segs = (s, b) # segs'"
    using assms by (auto split: prod.splits)
  moreover have "0 < n - length b - (if even k then 2 else 1)"
    using assms(2) by auto
  ultimately show ?thesis
    using that by blast
qed

lemma cut_items_ok:
  "cut_items n k C = (segs, rest) \<Longrightarrow> tx_items_ok C \<Longrightarrow> tx_items_ok rest"
proof (induction n k C arbitrary: segs rest rule: cut_items.induct)
  case (2 n k s b C)
  show ?case
  proof (cases "length b > n")
    case True
    with 2 show ?thesis by (auto simp: tx_items_ok_Cons)
  next
    case False
    with 2 show ?thesis
      by (auto split: if_splits prod.splits dest: tx_items_ok_tl)
  qed
qed simp

text \<open>The fields fit: length indicators of 11 bits, and no more bytes than the budget.\<close>

lemma cut_items_fit:
  "cut_items n k C = (segs, rest) \<Longrightarrow>
     (\<forall>x \<in> set (butlast segs). length (snd x) \<le> 2047) \<and>
     li_bytes (k + (length segs - 1)) + items_bytes segs \<le> li_bytes k + n"
proof (induction n k C arbitrary: segs rest rule: cut_items.induct)
  case (2 n k s b C)
  show ?case
  proof (cases "length b > n \<or> length b > 2047 \<or> n - length b \<le> 2 \<or> C = []")
    case True
    with 2 show ?thesis by (auto split: if_splits)
  next
    case False
    obtain segs' where segs': "cut_items (n - length b - (if even k then 2 else 1)) (Suc k) C
        = (segs', rest)" "segs = (s, b) # segs'"
      using 2(2) False by (auto split: prod.splits)
    note IH = 2(1) [OF _ _ segs'(1)]
    have "segs' \<noteq> []"
      using cut_items_Nil_iff [OF segs'(1)] False by simp
    then obtain m where m: "length segs' = Suc m"
      by (cases segs') simp_all
    from IH False m have "li_bytes (Suc k + m) + items_bytes segs'
        \<le> li_bytes (Suc k) + (n - length b - (if even k then 2 else 1))"
      by simp
    with False segs'(2) m \<open>segs' \<noteq> []\<close> IH show ?thesis
      by (auto simp: li_bytes_Suc not_less)
  qed
qed simp

lemma cut_items_bound: "cut_items n k C = (segs, rest) \<Longrightarrow> items_bytes segs \<le> n"
proof (induction n k C arbitrary: segs rest rule: cut_items.induct)
  case (2 n k s b C)
  then show ?case
    by (fastforce split: if_splits prod.splits)
qed simp

section \<open>The code refines it\<close>

definition buf_items :: "(packet \<times> int) list \<Rightarrow> item list" where
  "buf_items buf = map (item_of \<circ> fst) buf"

lemma buf_items_simps [simp]:
  "buf_items [] = []" "buf_items (e # buf) = item_of (fst e) # buf_items buf"
  "buf_items (buf @ buf') = buf_items buf @ buf_items buf'"
  "buf_items buf = [] \<longleftrightarrow> buf = []"
  by (simp_all add: buf_items_def)

text \<open>The length indicators of a data field: one for every segment but the last.\<close>

definition seg_lis :: "item list \<Rightarrow> u16 list" where
  "seg_lis segs = map (\<lambda>x. of_nat (length (snd x))) (butlast segs)"

lemma item_of_sel [simp]: "fst (item_of p) = pk_sdu_status p" "snd (item_of p) = pk_bytes p"
  by (simp_all add: item_of_def)

lemma item_of_eq_iff: "item_of p = (s, b) \<longleftrightarrow> pk_sdu_status p = s \<and> pk_bytes p = b"
  by (auto simp: item_of_def)

lemma GetSize_less_iff:
  "length (pk_bytes p) < 2 ^ 32 \<Longrightarrow> w < Packet_GetSize p \<longleftrightarrow> unat w < length (pk_bytes p)"
  by (simp add: word_less_nat_alt unat_GetSize)

lemma tx_cut_part:
  assumes "pk_sdu_status p = Some s" "s = FULL_SDU \<or> s = LAST_SEGMENT"
    and "unat cur < length (pk_bytes p)" "length (pk_bytes p) < 2 ^ 32"
  obtains q r where "tx_cut p cur = Inr (q, Some r)"
    "item_of q = (split_status (Some s), take (unat cur) (pk_bytes p))"
    "item_of r = (Some LAST_SEGMENT, drop (unat cur) (pk_bytes p))"
proof -
  have "Packet_GetSize (Packet_RemoveAtStart (unat cur) p) > 0"
    if "unat cur < length (pk_bytes p)" "length (pk_bytes p) < 2 ^ 32" for p :: packet
    using that by (subst GetSize_less_iff) simp_all
  from this [of "p\<lparr>pk_sdu_status := None\<rparr>"] show ?thesis
    using assms that
    by (auto simp: tx_cut_def Packet_CreateFragment_def Packet_RemovePacketTag_def
        Packet_AddPacketTag_def tx_split_status_def split_status_def item_of_def sdu_status_consts
        Let_def)
qed

lemma tx_cut_whole:
  assumes "pk_sdu_status p = Some s" "s = FULL_SDU \<or> s = LAST_SEGMENT"
    and "unat cur = length (pk_bytes p)"
  obtains q where "tx_cut p cur = Inr (q, None)" "item_of q = item_of p"
  using assms that
  by (auto simp: tx_cut_def Packet_CreateFragment_def Packet_RemovePacketTag_def Packet_GetSize_def
      Packet_AddPacketTag_def tx_split_status_def tx_whole_status_def item_of_def sdu_status_consts
      Let_def)

lemma tx_last_segment_part:
  assumes "item_of p = (Some s, b)" "s = FULL_SDU \<or> s = LAST_SEGMENT"
    and "unat next < length b" "length b < 2 ^ 32"
  obtains q r where "tx_last_segment p t buf sz next h df = Inr ((r, t) # buf,
      sz + Packet_GetSize r, PushExtensionBit DATA_FIELD_FOLLOWS h, df @ [q])"
    "item_of q = (split_status (Some s), take (unat next) b)"
    "item_of r = (Some LAST_SEGMENT, drop (unat next) b)"
proof -
  have p: "pk_sdu_status p = Some s" "pk_bytes p = b"
    using assms(1) by (simp_all add: item_of_def)
  have "min (Packet_GetSize p) next = next"
    using assms p by (simp add: min_def word_le_nat_alt unat_GetSize)
  then show ?thesis
    using tx_cut_part [of p s "next" thesis] p assms that
    by (auto simp: tx_last_segment_def)
qed

lemma tx_last_segment_whole:
  assumes "item_of p = (Some s, b)" "s = FULL_SDU \<or> s = LAST_SEGMENT"
    and "length b \<le> unat next" "length b < 2 ^ 32"
  obtains q where "tx_last_segment p t buf sz next h df = Inr (buf, sz,
      PushExtensionBit DATA_FIELD_FOLLOWS h, df @ [q])" "item_of q = item_of p"
proof -
  have p: "pk_sdu_status p = Some s" "pk_bytes p = b"
    using assms(1) by (simp_all add: item_of_def)
  have "min (Packet_GetSize p) next = Packet_GetSize p"
    using assms p by (simp add: min_def word_le_nat_alt unat_GetSize)
  moreover have "unat (Packet_GetSize p) = length (pk_bytes p)"
    using assms p by (simp add: unat_GetSize)
  ultimately show ?thesis
    using tx_cut_whole [of p s "Packet_GetSize p" thesis] p assms that
    by (auto simp: tx_last_segment_def)
qed

lemma unat_u32_diff:
  fixes x y :: u32
  shows "unat y \<le> unat x \<Longrightarrow> unat (x - y) = unat x - unat y"
  by (simp add: unat_sub word_le_nat_alt)

text \<open>What the loop returns, for items that are cut into \<open>segs\<close> and \<open>rest\<close>.\<close>

definition tx_result_ok ::
  "u16 list \<Rightarrow> packet list \<Rightarrow> item list \<times> item list \<Rightarrow> tx_result res \<Rightarrow> bool" where
  "tx_result_ok lis df segmented r \<longleftrightarrow> (case segmented of (segs, rest) \<Rightarrow>
     (\<exists>buf' df'. r = Inr (buf', of_nat (items_bytes rest),
         PushExtensionBit DATA_FIELD_FOLLOWS (rlc_header_open (lis @ seg_lis segs)), df') \<and>
       buf_items buf' = rest \<and> map item_of df' = map item_of df @ segs))"

lemma tx_loop_ends:
  assumes items: "tx_items_ok ((s, b) # buf_items buf)"
    "items_bytes ((s, b) # buf_items buf) < 2 ^ 32" "item_of p = (s, b)" "0 < unat next"
    and sz: "sz = of_nat (items_bytes (buf_items buf))"
    and ends: "length b > unat next \<or> length b > 2047 \<or> unat next - length b \<le> 2 \<or> buf = []"
  shows "tx_result_ok lis df (cut_items (unat next) k ((s, b) # buf_items buf))
    (tx_loop p t buf sz next sid (rlc_header_open lis) df)"
proof -
  have p: "pk_sdu_status p = s" "pk_bytes p = b" "b \<noteq> []"
    using items by (auto simp: item_of_def tx_items_ok_Cons)
  obtain st where s: "s = Some st" "st = FULL_SDU \<or> st = LAST_SEGMENT"
    using items by (auto simp: tx_items_ok_Cons)
  have b: "length b < 2 ^ 32"
    using items by simp
  have size: "unat (Packet_GetSize p) = length b" "Packet_GetSize p > 0" "next > 0"
    using items p b by (simp_all add: unat_GetSize word_less_nat_alt)
  show ?thesis
  proof (cases "length b > unat next")
    case True
    obtain q r where "tx_last_segment p t buf sz next (rlc_header_open lis) df
        = Inr ((r, t) # buf, sz + Packet_GetSize r,
          PushExtensionBit DATA_FIELD_FOLLOWS (rlc_header_open lis), df @ [q])"
      "item_of q = (split_status (Some st), take (unat next) b)"
      "item_of r = (Some LAST_SEGMENT, drop (unat next) b)"
      using tx_last_segment_part [of p st b "next" t buf sz "rlc_header_open lis" df thesis]
        items s True b by auto
    with True sz size s show ?thesis
      by (auto simp: tx_loop.simps [of p] word_less_nat_alt seg_lis_def item_of_eq_iff
          Packet_GetSize_def tx_result_ok_def)
  next
    case False
    have single: "cut_items (unat next) k ((s, b) # buf_items buf) = ([(s, b)], buf_items buf)"
      using False ends by auto
    show ?thesis
    proof (cases "length b > 2047")
      case True
      obtain q where "tx_last_segment p t buf sz next (rlc_header_open lis) df
          = Inr (buf, sz, PushExtensionBit DATA_FIELD_FOLLOWS (rlc_header_open lis), df @ [q])"
        "item_of q = item_of p"
        using tx_last_segment_whole [of p st b "next" t buf sz "rlc_header_open lis" df thesis]
          items s False b by auto
      with True False items sz size single show ?thesis
        by (simp add: tx_loop.simps [of p] word_less_nat_alt seg_lis_def tx_result_ok_def)
    next
      case small: False
      have "unat (next - Packet_GetSize p) = unat next - length b"
        using False size by (simp add: unat_u32_diff)
      with ends False small items sz size single show ?thesis
        by (auto simp: tx_loop.simps [of p] word_less_nat_alt word_le_nat_alt seg_lis_def
            tx_result_ok_def)
    qed
  qed
qed

lemma u32_parity: "((x + 1 :: u32) mod 2 \<noteq> 0) = (x mod 2 = 0)"
  by (simp flip: even_iff_mod_2_eq_zero)

lemma ucast_GetSize: "ucast (Packet_GetSize p) = (of_nat (length (pk_bytes p)) :: u16)"
  unfolding Packet_GetSize_def by transfer (simp add: take_bit_of_nat)

lemma tx_loop_refines:
  "tx_items_ok ((s, b) # buf_items buf) \<Longrightarrow> items_bytes ((s, b) # buf_items buf) < 2 ^ 32 \<Longrightarrow>
   item_of p = (s, b) \<Longrightarrow> 0 < unat next \<Longrightarrow> (sid mod 2 \<noteq> 0) = even (length lis) \<Longrightarrow>
   sz = of_nat (items_bytes (buf_items buf)) \<Longrightarrow>
   tx_result_ok lis df (cut_items (unat next) (length lis) ((s, b) # buf_items buf))
     (tx_loop p t buf sz next sid (rlc_header_open lis) df)"
proof (induction buf arbitrary: s b p t sz "next" sid lis df)
  case Nil
  then show ?case
    by (intro tx_loop_ends) simp_all
next
  case (Cons e buf)
  show ?case
  proof (cases "length b > unat next \<or> length b > 2047 \<or> unat next - length b \<le> 2")
    case True
    with Cons.prems show ?thesis
      by (intro tx_loop_ends) auto
  next
    case False
    obtain p' t' where e: "e = (p', t')" by (cases e)
    obtain s' b' where p': "item_of p' = (s', b')" by (cases "item_of p'")
    define cost where "cost = (if even (length lis) then 2 else 1 :: nat)"
    define w where "w = (if sid mod 2 \<noteq> 0 then 2 else 1) + Packet_GetSize p"
    define next' where "next' = next - w"
    have p: "pk_bytes p = b" "b \<noteq> []" "length b < 2 ^ 32"
      using Cons.prems by (auto simp: item_of_def tx_items_ok_Cons)
    have size: "unat (Packet_GetSize p) = length b"
      using p by (simp add: unat_GetSize)
    have "unat w = cost + length b"
      using False size Cons.prems(5) unsigned_less [of "next", where 'a = nat]
      by (simp add: w_def cost_def unat_word_ariths)
    moreover have "cost \<le> 2"
      by (simp add: cost_def)
    moreover have "unat w \<le> unat next"
      using False calculation by linarith
    ultimately have next': "unat next' = unat next - length b - cost"
      by (simp add: next'_def unat_u32_diff)
    have loop: "tx_loop p t (e # buf) sz next sid (rlc_header_open lis) df =
        tx_loop p' t' buf (sz - Packet_GetSize p') next' (sid + 1)
          (rlc_header_open (lis @ [of_nat (length b)])) (df @ [p])"
    proof -
      have "unat (next - Packet_GetSize p) = unat next - length b"
        using False size by (simp add: unat_u32_diff)
      then show ?thesis
        using False size p e Cons.prems(4)
        by (simp add: tx_loop.simps [of p] word_less_nat_alt word_le_nat_alt next'_def w_def
            ucast_GetSize flip: push_field_open push_field_def)
    qed
    obtain segs rest where inner:
      "cut_items (unat next') (Suc (length lis)) ((s', b') # buf_items buf) = (segs, rest)"
      by (rule prod.exhaust)
    then have outer: "cut_items (unat next) (length lis) ((s, b) # buf_items (e # buf))
        = ((s, b) # segs, rest)"
      using False e p' by (simp add: next' cost_def del: cut_items.simps(2))
        (simp add: cut_items.simps(2) [of "unat next"])
    have "segs \<noteq> []"
      using cut_items_Nil_iff [OF inner] by simp
    have "tx_result_ok (lis @ [of_nat (length b)]) (df @ [p])
        (cut_items (unat next') (length (lis @ [of_nat (length b) :: u16])) ((s', b') # buf_items buf))
        (tx_loop p' t' buf (sz - Packet_GetSize p') next' (sid + 1)
          (rlc_header_open (lis @ [of_nat (length b)])) (df @ [p]))"
    proof (rule Cons.IH)
      show "tx_items_ok ((s', b') # buf_items buf)"
        using tx_items_ok_tl [OF Cons.prems(1)] e p' by simp
      show "items_bytes ((s', b') # buf_items buf) < 2 ^ 32"
        using Cons.prems(2) e p' by (simp add: item_of_eq_iff)
      show "0 < unat next'"
        using False \<open>cost \<le> 2\<close> unfolding next' by linarith
      show "((sid + 1) mod 2 \<noteq> 0) = even (length (lis @ [of_nat (length b) :: u16]))"
        using Cons.prems(5) unfolding u32_parity length_append_singleton even_Suc by argo
      show "sz - Packet_GetSize p' = of_nat (items_bytes (buf_items buf))"
        using Cons.prems(6) e by (simp add: Packet_GetSize_def)
    qed (fact p')
    then show ?thesis
      unfolding loop outer using inner Cons.prems(3) \<open>segs \<noteq> []\<close>
      by (simp add: tx_result_ok_def seg_lis_def)
  qed
qed

section \<open>The PDU\<close>

lemma tx_concat_spec:
  assumes "\<forall>p \<in> set df. pk_sdu_status p \<noteq> None" and "pk_sdu_status packet = None"
    and "length (pk_bytes packet) + items_bytes (map item_of df) < 2 ^ 32"
  shows "\<exists>q. tx_concat df packet tag =
      Inr (q, if df = [] then tag else the (pk_sdu_status (last df))) \<and>
    pk_bytes q = pk_bytes packet @ concat (map pk_bytes df) \<and> pk_sdu_status q = None"
  using assms
proof (induction df arbitrary: packet tag)
  case (Cons it df)
  then obtain tag' where tag': "pk_sdu_status it = Some tag'"
    by auto
  define packet' where "packet' = (if Packet_GetSize packet > 0
    then Packet_AddAtEnd packet (it\<lparr>pk_sdu_status := None\<rparr>) else it\<lparr>pk_sdu_status := None\<rparr>)"
  have "Packet_GetSize packet > 0 \<longleftrightarrow> pk_bytes packet \<noteq> []"
    using Cons.prems by (simp add: GetSize_less_iff)
  then have "pk_bytes packet' = pk_bytes packet @ pk_bytes it" "pk_sdu_status packet' = None"
    using Cons.prems by (auto simp: packet'_def)
  with Cons.IH [of packet' tag'] Cons.prems tag' show ?case
    by (auto simp: Packet_RemovePacketTag_def packet'_def [symmetric])
qed simp

definition starts_sdu :: "u8 option \<Rightarrow> bool" where
  "starts_sdu s \<longleftrightarrow> s = Some FULL_SDU \<or> s = Some FIRST_SEGMENT"

definition ends_sdu :: "u8 option \<Rightarrow> bool" where
  "ends_sdu s \<longleftrightarrow> s = Some FULL_SDU \<or> s = Some LAST_SEGMENT"

definition framing_of :: "item list \<Rightarrow> u8" where
  "framing_of segs = (if starts_sdu (fst (hd segs)) then FIRST_BYTE else NO_FIRST_BYTE) OR
     (if ends_sdu (fst (last segs)) then LAST_BYTE else NO_LAST_BYTE)"

lemma framing_of_mask: "framing_of segs AND 0x03 = framing_of segs"
  by (simp add: framing_of_def rlc_header_consts)

lemma framing_of_less: "framing_of segs < 4"
  by (simp add: framing_of_def rlc_header_consts)

lemma cut_items_status:
  "cut_items n k C = (segs, rest) \<Longrightarrow> tx_items_ok C \<Longrightarrow> 0 < n \<Longrightarrow>
    \<forall>x \<in> set segs. fst x \<noteq> None \<and> snd x \<noteq> []"
proof (induction n k C arbitrary: segs rest rule: cut_items.induct)
  case (2 n k s b C)
  show ?case
  proof (cases "length b > n \<or> length b > 2047 \<or> n - length b \<le> 2 \<or> C = []")
    case True
    with 2 show ?thesis by (auto simp: tx_items_ok_Cons split_status_def split: if_splits)
  next
    case False
    obtain m segs' where m: "m = n - length b - (if even k then 2 else 1)" "0 < m"
      "cut_items m (Suc k) C = (segs', rest)" "segs = (s, b) # segs'"
      using cut_items_more [OF 2(2) False] .
    have "\<forall>x \<in> set segs'. fst x \<noteq> None \<and> snd x \<noteq> []"
      using 2(1) [OF _ _ m(3) [unfolded m(1)] tx_items_ok_tl [OF 2(3)]] False m(1,2) by simp
    then show ?thesis
      using 2(3) m(4) by (auto simp: tx_items_ok_Cons)
  qed
qed simp

lemma seg_lis_wf:
  assumes "cut_items n 0 C = (segs, rest)" "n + 2 < 65536"
  shows "(\<forall>li \<in> set (seg_lis segs). li < 2048) \<and> 2 + li_bytes (length (seg_lis segs)) < 65536"
proof -
  note fit = cut_items_fit [OF assms(1)]
  have "(of_nat (length (snd x)) :: u16) < 2048" if "x \<in> set (butlast segs)" for x
    using fit that by (auto simp: word_less_nat_alt unat_of_nat_u16)
  moreover have "li_bytes (length (seg_lis segs)) \<le> n"
    using fit by (simp add: seg_lis_def)
  ultimately show ?thesis
    using assms(2) by (auto simp: seg_lis_def)
qed

lemma sn_post_eq: "sn_wf a \<Longrightarrow> sn_post a = a"
  by (auto simp: sn_post_def SN10_def sn_wf_def word_less_nat_alt unat_mod word_unat_eq_iff
      intro!: sn10.equality)

text \<open>The header of the PDU that carries \<open>segs\<close>.\<close>

definition pdu_header :: "sn10 \<Rightarrow> item list \<Rightarrow> rlc_header" where
  "pdu_header sn segs = rlc_header_of (framing_of segs) sn (seg_lis segs)"

lemma pdu_header_wf:
  assumes "cut_items n 0 C = (segs, rest)" "n + 2 < 65536" "sn_wf sn" "sn_base sn = 0"
  shows "rlc_header_wf (pdu_header sn segs)"
  unfolding pdu_header_def using seg_lis_wf [OF assms(1,2)] assms(3,4)
  by (intro rlc_header_wfI framing_of_less) (simp_all add: sn_wf_def)

text \<open>A PDU: the header, the bytes of the segments, and an \<open>RlcTag\<close> on the header.\<close>

definition pdu_carries :: "packet \<Rightarrow> sn10 \<Rightarrow> item list \<Rightarrow> bool" where
  "pdu_carries p sn segs \<longleftrightarrow> rlc_header_wf (pdu_header sn segs) \<and>
     (\<exists>bs. rlc_Serialize (pdu_header sn segs) = Inr bs \<and>
           pk_bytes p = bs @ concat (map snd segs)) \<and>
     pk_sdu_status p = None \<and> Packet_FindRlcTag p \<noteq> None"

lemma FindRlcTag_added:
  assumes "Packet_AddByteTag (RlcTag ts rnti) 1 n p = Inr q" "1 < n" "n \<le> length (pk_bytes p)"
  shows "Packet_FindRlcTag q \<noteq> None"
proof -
  let ?P = "\<lambda>(t, _ :: int \<times> int). case t of RlcTag _ _ \<Rightarrow> True | _ \<Rightarrow> False"
  let ?l = "filter ?P (bt_iter 0 (int (length (pk_bytes p))) (pk_btags q))"
  have "(RlcTag ts rnti, 1, int n) \<in> set ?l"
    using assms
    by (auto simp: Packet_AddByteTag_def bt_add_def bt_iter_def
        intro!: image_eqI [where x = "(RlcTag ts rnti, 1, int n)"])
  then obtain x l where "?l = x # l"
    by (cases ?l) auto
  moreover from this have "?P x"
    by (metis filter_eq_ConsD)
  moreover have "pk_bytes q = pk_bytes p"
    using assms by (auto simp: Packet_AddByteTag_def)
  ultimately show ?thesis
    by (cases x) (auto simp: Packet_FindRlcTag_def split: byte_tag.splits)
qed

lemma tx_build_pdu_spec:
  assumes items: "map item_of df = segs" "segs \<noteq> []"
    "\<forall>x \<in> set segs. fst x \<noteq> None \<and> snd x \<noteq> []" "items_bytes segs < 2 ^ 32"
    and wf: "rlc_header_wf (pdu_header sn segs)"
  shows "\<exists>p. tx_build_pdu sn
      (PushExtensionBit DATA_FIELD_FOLLOWS (rlc_header_open (seg_lis segs))) df now rnti = Inr p \<and>
    pdu_carries p sn segs"
proof -
  have df: "df \<noteq> []" "\<forall>p \<in> set df. pk_sdu_status p \<noteq> None"
    using items(1-3) by (auto simp flip: items(1))
  obtain st where st: "pk_sdu_status (hd df) = Some st"
    using df hd_in_set [of df] by blast
  obtain sl where sl: "pk_sdu_status (last df) = Some sl"
    using df last_in_set [of df] by blast
  obtain q where q: "tx_concat df Packet_Create st = Inr (q, sl)"
    "pk_bytes q = concat (map pk_bytes df)" "pk_sdu_status q = None"
    using tx_concat_spec [OF df(2), of Packet_Create st] items df sl by auto
  have hdl: "fst (hd segs) = Some st" "fst (last segs) = Some sl"
    using df st sl by (simp_all add: hd_map last_map flip: items(1))
  have h: "SetFramingInfo (tx_framing_info st sl) (SetSequenceNumber sn
        (PushExtensionBit DATA_FIELD_FOLLOWS (rlc_header_open (seg_lis segs)))) = pdu_header sn segs"
    using hdl framing_of_mask [of segs]
    by (simp add: close_header pdu_header_def framing_of_def tx_framing_info_def starts_sdu_def
        ends_sdu_def)
  obtain bs q' where q': "rlc_Serialize (pdu_header sn segs) = Inr bs"
    "length bs = unat (rlc_GetSerializedSize (pdu_header sn segs))"
    "Packet_AddHeader (unat (rlc_GetSerializedSize (pdu_header sn segs)))
       (rlc_Serialize (pdu_header sn segs)) q = Inr q'"
    "pk_bytes q' = bs @ pk_bytes q" "pk_sdu_status q' = pk_sdu_status q"
    by (rule rlc_codec.add_header_bytes [OF wf])
  have n: "1 < unat (rlc_GetSerializedSize (pdu_header sn segs))"
    unfolding rlc_header_size [OF wf] by simp
  then obtain p where p: "Packet_AddByteTag (RlcTag now rnti) 1
      (unat (rlc_GetSerializedSize (pdu_header sn segs))) q' = Inr p"
    "pk_bytes p = pk_bytes q'" "pk_sdu_status p = pk_sdu_status q'"
    by (simp add: Packet_AddByteTag_def)
  have "Packet_FindRlcTag p \<noteq> None"
    using FindRlcTag_added [OF p(1) n] q' by simp
  moreover have "tx_build_pdu sn
      (PushExtensionBit DATA_FIELD_FOLLOWS (rlc_header_open (seg_lis segs))) df now rnti = Inr p"
    using df(1) st q(1) q'(3) p(1)
    by (cases df) (simp_all add: tx_build_pdu_def Packet_PeekPacketTag_def Let_def h)
  ultimately show ?thesis
    using wf q' p q items(1) by (auto simp: pdu_carries_def comp_def)
qed

section \<open>The transmission side as a whole\<close>

definition um_tx_inv :: "um \<Rightarrow> bool" where
  "um_tx_inv u \<longleftrightarrow> tx_items_ok (buf_items (um_txBuffer u)) \<and>
     items_bytes (buf_items (um_txBuffer u)) < 2 ^ 32 \<and>
     um_txBufferSize u = of_nat (items_bytes (buf_items (um_txBuffer u))) \<and>
     sn_wf (um_sequenceNumber u) \<and> sn_base (um_sequenceNumber u) = 0"

lemma tx_take_spec:
  assumes inv: "um_tx_inv u" and opp: "2 < bytes" "unat bytes < 65536" "um_txBuffer u \<noteq> []"
    and segs: "cut_items (unat bytes - 2) 0 (buf_items (um_txBuffer u)) = (segs, rest)"
  shows "\<exists>packet buf'. tx_take now bytes rnti u = Inr (Some (packet,
      u\<lparr>um_txBuffer := buf', um_txBufferSize := of_nat (items_bytes rest),
        um_sequenceNumber := sn_inc (um_sequenceNumber u)\<rparr>)) \<and>
    buf_items buf' = rest \<and> pdu_carries packet (um_sequenceNumber u) segs"
proof -
  obtain p t buf where buf: "um_txBuffer u = (p, t) # buf"
    using opp(3) by (cases "um_txBuffer u") auto
  obtain s b where p: "item_of p = (s, b)" by (cases "item_of p")
  have bytes: "unat (bytes - 2) = unat bytes - 2" "0 < unat (bytes - 2)"
    using opp(1) by (simp_all add: unat_u32_diff word_less_nat_alt)
  have "tx_result_ok [] [] (cut_items (unat (bytes - 2)) (length ([] :: u16 list)) ((s, b) # buf_items buf))
      (tx_loop p t buf (um_txBufferSize u - Packet_GetSize p) (bytes - 2) 1 (rlc_header_open []) [])"
    using inv buf p bytes
    by (intro tx_loop_refines) (auto simp: um_tx_inv_def Packet_GetSize_def item_of_eq_iff)
  then obtain buf' df where loop: "tx_loop p t buf (um_txBufferSize u - Packet_GetSize p) (bytes - 2) 1
        (rlc_header_open []) [] = Inr (buf', of_nat (items_bytes rest),
        PushExtensionBit DATA_FIELD_FOLLOWS (rlc_header_open (seg_lis segs)), df)"
    "buf_items buf' = rest" "map item_of df = segs"
    using segs buf p bytes by (auto simp: tx_result_ok_def)
  have sn: "sn_wf (um_sequenceNumber u)" "sn_base (um_sequenceNumber u) = 0"
    using inv by (simp_all add: um_tx_inv_def)
  have wf: "rlc_header_wf (pdu_header (um_sequenceNumber u) segs)"
    using opp(1,2) by (intro pdu_header_wf [OF segs _ sn]) (simp add: word_less_nat_alt)
  have "\<forall>x \<in> set segs. fst x \<noteq> None \<and> snd x \<noteq> []"
    using cut_items_status [OF segs] inv bytes by (simp add: um_tx_inv_def)
  moreover have "segs \<noteq> []"
    using cut_items_Nil_iff [OF segs] buf by simp
  moreover have "items_bytes segs < 2 ^ 32"
    using cut_items_bound [OF segs] opp(2) by simp
  ultimately obtain packet where "tx_build_pdu (um_sequenceNumber u)
      (PushExtensionBit DATA_FIELD_FOLLOWS (rlc_header_open (seg_lis segs))) df now rnti = Inr packet"
    "pdu_carries packet (um_sequenceNumber u) segs"
    using tx_build_pdu_spec [OF loop(3) _ _ _ wf] by blast
  with loop opp(1) buf show ?thesis
    by (auto simp: tx_take_def sn_post_eq [OF sn(1)] rlc_header_open_Nil simp flip: not_less)
qed

text \<open>The PDU is not longer than the opportunity.\<close>

lemma pdu_carries_length:
  assumes "pdu_carries p sn segs" "cut_items n 0 C = (segs, rest)"
  shows "length (pk_bytes p) \<le> n + 2"
proof -
  obtain bs where bs: "rlc_Serialize (pdu_header sn segs) = Inr bs"
    "pk_bytes p = bs @ concat (map snd segs)" and wf: "rlc_header_wf (pdu_header sn segs)"
    using assms(1) by (auto simp: pdu_carries_def)
  have "length bs = 2 + li_bytes (length (seg_lis segs))"
    using rlc_Serialize_ok [OF wf] bs(1) rlc_header_size [OF wf] by (simp add: pdu_header_def)
  moreover have "length (concat (map snd segs)) = items_bytes segs"
    by (simp add: length_concat items_bytes_def comp_def)
  ultimately show ?thesis
    using cut_items_fit [OF assms(2)] bs(2) by (simp add: seg_lis_def)
qed

lemma um_tx_inv_take:
  assumes "um_tx_inv u" "cut_items n k (buf_items (um_txBuffer u)) = (segs, rest)"
    and "buf_items buf' = rest"
  shows "um_tx_inv (u\<lparr>um_txBuffer := buf', um_txBufferSize := of_nat (items_bytes rest),
    um_sequenceNumber := sn_inc (um_sequenceNumber u)\<rparr>)"
proof -
  have "length (concat (map snd segs)) + length (concat (map snd rest))
      = items_bytes (buf_items (um_txBuffer u))"
    using arg_cong [OF cut_items_bytes [OF assms(2)], of length]
    by (simp add: items_bytes_def length_concat comp_def)
  then have "items_bytes rest \<le> items_bytes (buf_items (um_txBuffer u))"
    by (simp add: items_bytes_def length_concat comp_def)
  with assms cut_items_ok [OF assms(2)] show ?thesis
    by (simp add: um_tx_inv_def)
qed

end
