(* ===== verification/LteRlcUmRx.thy ===== *)
theory LteRlcUmRx
  imports LteRlcUm
begin

text \<open>
  The receiving side of RLC UM (\<open>src/src/lte/model/lte-rlc-um.cc\<close>): the reordering window,
  the reception buffer, the reassembly of SDUs and the t-Reordering timer.  The source
  holds every function twice, for LTE and for the NR sidelink; the copies differ in the
  call that delivers an SDU, so the reassembly is stated once over \<open>deliver\<close> and
  instantiated twice, while the two handlers that differ are written out.
\<close>

section \<open>Delivery\<close>

type_synonym deliver = "packet \<Rightarrow> um \<Rightarrow> um"

definition lte_deliver :: deliver where
  "lte_deliver p u = um_emit (ReceivePdcpPdu p) u"

definition nrsl_deliver :: deliver where
  "nrsl_deliver p u = um_emit (ReceiveNrSlPdcpPdu p) u"

text \<open>
  The loops and list operations on \<open>m_sdusBuffer\<close>.  \<open>front\<close> and \<open>pop_front\<close> of an empty list
  are undefined, as is a null \<open>m_keepS0\<close>.
\<close>

fun deliver_all :: "deliver \<Rightarrow> packet list \<Rightarrow> um \<Rightarrow> um" where
  "deliver_all dlv [] u = u\<lparr>um_sdusBuffer := []\<rparr>"
| "deliver_all dlv (s # ss) u = deliver_all dlv ss (dlv s u)"

text \<open>\<open>while (m_sdusBuffer.size() > 1)\<close>: what is left is at most one SDU.\<close>

fun deliver_but_last :: "deliver \<Rightarrow> packet list \<Rightarrow> um \<Rightarrow> um" where
  "deliver_but_last dlv [] u = u\<lparr>um_sdusBuffer := []\<rparr>"
| "deliver_but_last dlv [s] u = u\<lparr>um_sdusBuffer := [s]\<rparr>"
| "deliver_but_last dlv (s # s' # ss) u = deliver_but_last dlv (s' # ss) (dlv s u)"

definition rs_all :: "deliver \<Rightarrow> um \<Rightarrow> um res" where
  "rs_all dlv u = Inr (deliver_all dlv (um_sdusBuffer u) u)"

definition rs_but_last :: "deliver \<Rightarrow> um \<Rightarrow> um res" where
  "rs_but_last dlv u = Inr (deliver_but_last dlv (um_sdusBuffer u) u)"

definition rs_pop :: "um \<Rightarrow> um res" where
  "rs_pop u = (case um_sdusBuffer u of
     [] \<Rightarrow> Inl UndefinedBehaviour | s # ss \<Rightarrow> Inr (u\<lparr>um_sdusBuffer := ss\<rparr>))"

definition rs_keep :: "um \<Rightarrow> um res" where
  "rs_keep u = (case um_sdusBuffer u of
     [] \<Rightarrow> Inl UndefinedBehaviour
   | s # ss \<Rightarrow> Inr (u\<lparr>um_keepS0 := Some s, um_sdusBuffer := ss\<rparr>))"

definition rs_append :: "um \<Rightarrow> um res" where
  "rs_append u = (case (um_keepS0 u, um_sdusBuffer u) of
     (Some k, s # ss) \<Rightarrow>
        Inr (u\<lparr>um_keepS0 := Some (Packet_AddAtEnd k s), um_sdusBuffer := ss\<rparr>)
   | _ \<Rightarrow> Inl UndefinedBehaviour)"

definition rs_deliver_kept :: "deliver \<Rightarrow> um \<Rightarrow> um res" where
  "rs_deliver_kept dlv u = (case um_keepS0 u of
     None \<Rightarrow> Inl UndefinedBehaviour | Some k \<Rightarrow> Inr (dlv k u))"

definition rs_goto :: "ReassemblingState_t \<Rightarrow> um \<Rightarrow> um res" where
  "rs_goto s u = Inr (u\<lparr>um_reassemblingState := s\<rparr>)"

definition rs_drop_kept :: "um \<Rightarrow> um res" where
  "rs_drop_kept u = Inr (u\<lparr>um_keepS0 := None\<rparr>)"

text \<open>A block of statements.\<close>

fun rs_seq :: "(um \<Rightarrow> um res) list \<Rightarrow> um \<Rightarrow> um res" where
  "rs_seq [] u = Inr u"
| "rs_seq (f # fs) u = rbind (f u) (rs_seq fs)"

section \<open>The four reassembly tables\<close>

definition rs_tail_keep :: "deliver \<Rightarrow> um \<Rightarrow> um res" where
  "rs_tail_keep dlv u =
     (if um_sdusBuffer u \<noteq> [] then rs_seq [rs_but_last dlv, rs_keep] u else Inr u)"

text \<open>No loss, waiting for the start of an SDU.\<close>

definition noloss_WAITING_S0_FULL :: "deliver \<Rightarrow> u8 \<Rightarrow> um \<Rightarrow> um res" where
  "noloss_WAITING_S0_FULL dlv framingInfo u =
     (if framingInfo = FIRST_BYTE OR LAST_BYTE then
        rs_seq [rs_goto WAITING_S0_FULL, rs_all dlv] u
      else if framingInfo = FIRST_BYTE OR NO_LAST_BYTE then
        rs_seq [rs_goto WAITING_SI_SF, rs_but_last dlv, rs_keep] u
      else if framingInfo = NO_FIRST_BYTE OR LAST_BYTE then
        rs_seq [rs_goto WAITING_S0_FULL, rs_pop, rs_all dlv] u
      else if framingInfo = NO_FIRST_BYTE OR NO_LAST_BYTE then
        rs_seq [rs_goto (if length (um_sdusBuffer u) = 1 then WAITING_S0_FULL else WAITING_SI_SF),
                rs_pop, rs_tail_keep dlv] u
      else Inr u)"

text \<open>No loss, in the middle of an SDU.\<close>

definition noloss_WAITING_SI_SF :: "deliver \<Rightarrow> u8 \<Rightarrow> um \<Rightarrow> um res" where
  "noloss_WAITING_SI_SF dlv framingInfo u =
     (if framingInfo = NO_FIRST_BYTE OR LAST_BYTE then
        rs_seq [rs_goto WAITING_S0_FULL, rs_append, rs_deliver_kept dlv, rs_all dlv] u
      else if framingInfo = NO_FIRST_BYTE OR NO_LAST_BYTE then
        rbind (rs_goto WAITING_SI_SF u) (\<lambda>u.
          if length (um_sdusBuffer u) = 1 then rs_append u
          else rs_seq [rs_append, rs_deliver_kept dlv, rs_but_last dlv, rs_keep] u)
      else Inr u)"

text \<open>Losses, waiting for the start of an SDU.\<close>

definition loss_WAITING_S0_FULL :: "deliver \<Rightarrow> u8 \<Rightarrow> um \<Rightarrow> um res" where
  "loss_WAITING_S0_FULL dlv framingInfo u =
     (if framingInfo = FIRST_BYTE OR LAST_BYTE then
        rs_seq [rs_goto WAITING_S0_FULL, rs_all dlv] u
      else if framingInfo = FIRST_BYTE OR NO_LAST_BYTE then
        rs_seq [rs_goto WAITING_SI_SF, rs_but_last dlv, rs_keep] u
      else if framingInfo = NO_FIRST_BYTE OR LAST_BYTE then
        rs_seq [rs_goto WAITING_S0_FULL, rs_pop, rs_all dlv] u
      else if framingInfo = NO_FIRST_BYTE OR NO_LAST_BYTE then
        rs_seq [rs_goto (if length (um_sdusBuffer u) = 1 then WAITING_S0_FULL else WAITING_SI_SF),
                rs_pop, rs_tail_keep dlv] u
      else Inr u)"

text \<open>Losses, in the middle of an SDU: the kept part is dropped.\<close>

definition loss_WAITING_SI_SF :: "deliver \<Rightarrow> u8 \<Rightarrow> um \<Rightarrow> um res" where
  "loss_WAITING_SI_SF dlv framingInfo u =
     (if framingInfo = FIRST_BYTE OR LAST_BYTE then
        rs_seq [rs_goto WAITING_S0_FULL, rs_drop_kept, rs_all dlv] u
      else if framingInfo = FIRST_BYTE OR NO_LAST_BYTE then
        rs_seq [rs_goto WAITING_SI_SF, rs_drop_kept, rs_but_last dlv, rs_keep] u
      else if framingInfo = NO_FIRST_BYTE OR LAST_BYTE then
        rs_seq [rs_goto WAITING_S0_FULL, rs_drop_kept, rs_pop, rs_all dlv] u
      else if framingInfo = NO_FIRST_BYTE OR NO_LAST_BYTE then
        rs_seq [rs_goto (if length (um_sdusBuffer u) = 1 then WAITING_S0_FULL else WAITING_SI_SF),
                rs_drop_kept, rs_pop, rs_tail_keep dlv] u
      else Inr u)"

section \<open>Reassembly of one PDU\<close>

text \<open>The expected sequence number: whether PDUs were lost before this one.\<close>

definition rs_expected :: "sn10 \<Rightarrow> um \<Rightarrow> bool \<times> um" where
  "rs_expected currSeqNumber u =
     (if \<not> sn_eq currSeqNumber (um_expectedSeqNumber u)
      then (True, u\<lparr>um_expectedSeqNumber := sn_add currSeqNumber 1\<rparr>)
      else (False, u\<lparr>um_expectedSeqNumber := sn_inc (um_expectedSeqNumber u)\<rparr>))"

text \<open>
  The \<open>do ... while\<close> loop that splits the packet into SDUs.  It pops one extension bit per
  turn, so it ends; any value of the bit other than 0 and 1 would end it without an SDU.
\<close>

fun rs_split :: "u8 list \<Rightarrow> u16 list \<Rightarrow> packet \<Rightarrow> packet list \<Rightarrow> packet list res" where
  "rs_split [] lis packet sdus = Inl UndefinedBehaviour"
| "rs_split (e # es) lis packet sdus =
     (if e = 0 then Inr (sdus @ [packet])
      else (case lis of
         [] \<Rightarrow> Inl UndefinedBehaviour
       | li # lis' \<Rightarrow>
           rbind (Packet_CreateFragment 0 (unat li) packet) (\<lambda>data_field.
             if e = 1
             then rs_split es lis' (Packet_RemoveAtStart (unat li) packet) (sdus @ [data_field])
             else Inr (sdus @ [data_field]))))"

definition ReassembleWith :: "deliver \<Rightarrow> packet \<Rightarrow> um \<Rightarrow> um res" where
  "ReassembleWith dlv pkt u0 =
     rbind (Packet_RemoveHeader (rlc_Deserialize LteRlcHeader) pkt) (\<lambda>(rlcHeader, packet).
     case rs_expected (rh_sequenceNumber rlcHeader) u0 of (expectedSnLost, u1) \<Rightarrow>
     rbind (rs_split (rh_extensionBits rlcHeader) (rh_lengthIndicators rlcHeader) packet
              (um_sdusBuffer u1)) (\<lambda>sdus.
     let u = u1\<lparr>um_sdusBuffer := sdus\<rparr>; framingInfo = rh_framingInfo rlcHeader in
     if \<not> expectedSnLost then
       (case um_reassemblingState u of
          WAITING_S0_FULL \<Rightarrow> noloss_WAITING_S0_FULL dlv framingInfo u
        | WAITING_SI_SF \<Rightarrow> noloss_WAITING_SI_SF dlv framingInfo u
        | RS_NONE \<Rightarrow> Inr u)
     else
       (case um_reassemblingState u of
          WAITING_S0_FULL \<Rightarrow> loss_WAITING_S0_FULL dlv framingInfo u
        | WAITING_SI_SF \<Rightarrow> loss_WAITING_SI_SF dlv framingInfo u
        | RS_NONE \<Rightarrow> Inr u)))"

definition ReassembleAndDeliver :: "packet \<Rightarrow> um \<Rightarrow> um res" where
  "ReassembleAndDeliver = ReassembleWith lte_deliver"

text \<open>The NR sidelink copies of the tables and of the function.\<close>

definition nrsl_noloss_WAITING_S0_FULL :: "u8 \<Rightarrow> um \<Rightarrow> um res" where
  "nrsl_noloss_WAITING_S0_FULL = noloss_WAITING_S0_FULL nrsl_deliver"

definition nrsl_noloss_WAITING_SI_SF :: "u8 \<Rightarrow> um \<Rightarrow> um res" where
  "nrsl_noloss_WAITING_SI_SF = noloss_WAITING_SI_SF nrsl_deliver"

definition nrsl_loss_WAITING_S0_FULL :: "u8 \<Rightarrow> um \<Rightarrow> um res" where
  "nrsl_loss_WAITING_S0_FULL = loss_WAITING_S0_FULL nrsl_deliver"

definition nrsl_loss_WAITING_SI_SF :: "u8 \<Rightarrow> um \<Rightarrow> um res" where
  "nrsl_loss_WAITING_SI_SF = loss_WAITING_SI_SF nrsl_deliver"

definition NrSlReassembleAndDeliver :: "packet \<Rightarrow> um \<Rightarrow> um res" where
  "NrSlReassembleAndDeliver pkt u0 =
     rbind (Packet_RemoveHeader (rlc_Deserialize LteRlcHeader) pkt) (\<lambda>(rlcHeader, packet).
     case rs_expected (rh_sequenceNumber rlcHeader) u0 of (expectedSnLost, u1) \<Rightarrow>
     rbind (rs_split (rh_extensionBits rlcHeader) (rh_lengthIndicators rlcHeader) packet
              (um_sdusBuffer u1)) (\<lambda>sdus.
     let u = u1\<lparr>um_sdusBuffer := sdus\<rparr>; framingInfo = rh_framingInfo rlcHeader in
     if \<not> expectedSnLost then
       (case um_reassemblingState u of
          WAITING_S0_FULL \<Rightarrow> nrsl_noloss_WAITING_S0_FULL framingInfo u
        | WAITING_SI_SF \<Rightarrow> nrsl_noloss_WAITING_SI_SF framingInfo u
        | RS_NONE \<Rightarrow> Inr u)
     else
       (case um_reassemblingState u of
          WAITING_S0_FULL \<Rightarrow> nrsl_loss_WAITING_S0_FULL framingInfo u
        | WAITING_SI_SF \<Rightarrow> nrsl_loss_WAITING_SI_SF framingInfo u
        | RS_NONE \<Rightarrow> Inr u)))"

lemma NrSlReassembleAndDeliver_eq: "NrSlReassembleAndDeliver = ReassembleWith nrsl_deliver"
  unfolding NrSlReassembleAndDeliver_def ReassembleWith_def nrsl_noloss_WAITING_S0_FULL_def
    nrsl_noloss_WAITING_SI_SF_def nrsl_loss_WAITING_S0_FULL_def nrsl_loss_WAITING_SI_SF_def
  by (rule ext)+ rule

section \<open>The reordering window\<close>

text \<open>
  The C++ function changes the modulus base of \<open>m_vrUh\<close>; it returns the new state with the
  answer.
\<close>

definition um_window_low :: "um \<Rightarrow> sn10" where
  "um_window_low u = sn_sub (um_vrUh u) (um_windowSize u)"

definition IsInsideReorderingWindow :: "sn10 \<Rightarrow> um \<Rightarrow> (bool \<times> um) res" where
  "IsInsideReorderingWindow seqNumber0 u0 =
     (let u = u0\<lparr>um_vrUh := SetModulusBase (um_vrUh u0) (um_window_low u0)\<rparr>;
          seqNumber = SetModulusBase seqNumber0 (um_window_low u)
      in rbind (rand (sn_le (um_window_low u) seqNumber) (sn_lt seqNumber (um_vrUh u)))
           (\<lambda>inside. Inr (inside, u)))"

text \<open>The loop follows the map's iterator and erases behind it.\<close>

fun outside_loop :: "(packet \<Rightarrow> um \<Rightarrow> um res) \<Rightarrow> (u16, packet) std_map \<Rightarrow> um \<Rightarrow> um res" where
  "outside_loop reassemble [] u = Inr u"
| "outside_loop reassemble ((sn, p) # it) u0 =
     rbind (IsInsideReorderingWindow (SN10 sn) u0) (\<lambda>(inside, u).
       if inside then Inr u
       else rbind (reassemble p u) (\<lambda>u'.
         outside_loop reassemble it (u'\<lparr>um_rxBuffer := map_erase sn (um_rxBuffer u')\<rparr>)))"

definition ReassembleOutsideWindow :: "um \<Rightarrow> um res" where
  "ReassembleOutsideWindow u = outside_loop ReassembleAndDeliver (um_rxBuffer u) u"

definition NrSlReassembleOutsideWindow :: "um \<Rightarrow> um res" where
  "NrSlReassembleOutsideWindow u = outside_loop NrSlReassembleAndDeliver (um_rxBuffer u) u"

text \<open>
  The loop over an interval of sequence numbers.  The number is incremented modulo 1024, so
  it meets every value within 1024 turns; running out of fuel is the outcome \<^term>\<open>Diverges\<close>.
\<close>

fun interval_loop ::
  "nat \<Rightarrow> (packet \<Rightarrow> um \<Rightarrow> um res) \<Rightarrow> sn10 \<Rightarrow> sn10 \<Rightarrow> um \<Rightarrow> um res" where
  "interval_loop fuel reassemble reassembleSn highSeqNumber u =
     rbind (sn_lt reassembleSn highSeqNumber) (\<lambda>lt.
       if \<not> lt then Inr u
       else (case fuel of
          0 \<Rightarrow> Inl Diverges
        | Suc fuel' \<Rightarrow>
            rbind (case map_of (um_rxBuffer u) (sn_value reassembleSn) of
                     None \<Rightarrow> Inr u
                   | Some p \<Rightarrow> rbind (reassemble p u) (\<lambda>u'.
                       Inr (u'\<lparr>um_rxBuffer := map_erase (sn_value reassembleSn) (um_rxBuffer u')\<rparr>)))
              (interval_loop fuel' reassemble (sn_inc reassembleSn) highSeqNumber)))"

declare interval_loop.simps [simp del]

definition sn_fuel :: nat where "sn_fuel = 1024"

definition ReassembleSnInterval :: "sn10 \<Rightarrow> sn10 \<Rightarrow> um \<Rightarrow> um res" where
  "ReassembleSnInterval low high u = interval_loop sn_fuel ReassembleAndDeliver low high u"

definition NrSlReassembleSnInterval :: "sn10 \<Rightarrow> sn10 \<Rightarrow> um \<Rightarrow> um res" where
  "NrSlReassembleSnInterval low high u = interval_loop sn_fuel NrSlReassembleAndDeliver low high u"

section \<open>t-Reordering\<close>

text \<open>
  \<open>while (find(newVrUr) != end) newVrUr++\<close>, modulo 1024.  It ends unless all 1024 keys are in
  the buffer.
\<close>

fun scan_sn :: "nat \<Rightarrow> (u16, packet) std_map \<Rightarrow> sn10 \<Rightarrow> sn10 res" where
  "scan_sn fuel m newVrUr =
     (if map_of m (sn_value newVrUr) = None then Inr newVrUr
      else (case fuel of 0 \<Rightarrow> Inl Diverges | Suc fuel' \<Rightarrow> scan_sn fuel' m (sn_inc newVrUr)))"

declare scan_sn.simps [simp del]

definition um_restart_reordering :: "int \<Rightarrow> um \<Rightarrow> um res" where
  "um_restart_reordering now u =
     rbind (sn_gt (um_vrUh u) (um_vrUr u)) (\<lambda>gt.
       if gt then Inr (u\<lparr>um_reorderingTimer := Some (now + um_reorderingTimerValue u),
                         um_vrUx := um_vrUh u\<rparr>)
       else Inr u)"

definition ExpireReorderingTimer :: "int \<Rightarrow> um \<Rightarrow> um res" where
  "ExpireReorderingTimer now u0 =
     (let u = u0\<lparr>um_reorderingTimer := None\<rparr> in
      rbind (scan_sn sn_fuel (um_rxBuffer u) (um_vrUx u)) (\<lambda>newVrUr.
      let oldVrUr = um_vrUr u in
      rbind (ReassembleSnInterval oldVrUr newVrUr (u\<lparr>um_vrUr := newVrUr\<rparr>))
        (um_restart_reordering now)))"

definition ExpireNrSlReorderingTimer :: "int \<Rightarrow> um \<Rightarrow> um res" where
  "ExpireNrSlReorderingTimer now u0 =
     (let u = u0\<lparr>um_reorderingTimer := None\<rparr> in
      rbind (scan_sn sn_fuel (um_rxBuffer u) (um_vrUx u)) (\<lambda>newVrUr.
      let oldVrUr = um_vrUr u in
      rbind (NrSlReassembleSnInterval oldVrUr newVrUr (u\<lparr>um_vrUr := newVrUr\<rparr>))
        (um_restart_reordering now)))"

section \<open>Reception of a PDU\<close>

text \<open>
  Clause 5.1.2.2.2: discard the PDU or place it in the buffer.  The result \<open>None\<close> is a
  discarded PDU.
\<close>

definition rx_set_bases :: "um \<Rightarrow> um" where
  "rx_set_bases u =
     (let u1 = u\<lparr>um_vrUr := SetModulusBase (um_vrUr u) (um_window_low u)\<rparr>
      in u1\<lparr>um_vrUh := SetModulusBase (um_vrUh u1) (um_window_low u1)\<rparr>)"

definition rx_discard :: "sn10 \<Rightarrow> um \<Rightarrow> bool res" where
  "rx_discard seqNumber u =
     ror (rand (rand (sn_lt (um_vrUr u) seqNumber) (sn_lt seqNumber (um_vrUh u)))
            (Inr (map_count (sn_value seqNumber) (um_rxBuffer u))))
         (rand (sn_le (um_window_low u) seqNumber) (sn_lt seqNumber (um_vrUr u)))"

text \<open>
  Clause 5.1.2.2.3, first part: a PDU outside the window moves it.
\<close>

definition rx_move_window :: "(um \<Rightarrow> um res) \<Rightarrow> sn10 \<Rightarrow> um \<Rightarrow> um res" where
  "rx_move_window outside seqNumber u0 =
     rbind (IsInsideReorderingWindow seqNumber u0) (\<lambda>(inside, u).
       if inside then Inr u
       else rbind (outside (u\<lparr>um_vrUh := sn_add seqNumber 1\<rparr>)) (\<lambda>u1.
            rbind (IsInsideReorderingWindow (um_vrUr u1) u1) (\<lambda>(urInside, u2).
              Inr (if urInside then u2 else u2\<lparr>um_vrUr := um_window_low u2\<rparr>))))"

text \<open>
  Second part: the scan for the first missing PDU uses a plain \<open>uint16_t\<close>, not a sequence
  number, so it does not go on from 1023 to 0.
\<close>

fun scan_u16 :: "nat \<Rightarrow> (u16, packet) std_map \<Rightarrow> u16 \<Rightarrow> u16 res" where
  "scan_u16 fuel m newVrUr =
     (if \<not> map_count newVrUr m then Inr newVrUr
      else (case fuel of 0 \<Rightarrow> Inl Diverges | Suc fuel' \<Rightarrow> scan_u16 fuel' m (newVrUr + 1)))"

declare scan_u16.simps [simp del]

definition rx_advance :: "(sn10 \<Rightarrow> sn10 \<Rightarrow> um \<Rightarrow> um res) \<Rightarrow> um \<Rightarrow> um res" where
  "rx_advance interval u =
     (if map_count (sn_value (um_vrUr u)) (um_rxBuffer u) then
        (let oldVrUr = um_vrUr u in
         rbind (scan_u16 (length (um_rxBuffer u)) (um_rxBuffer u) (sn_value (um_vrUr u) + 1))
           (\<lambda>newVrUr.
             let u' = u\<lparr>um_vrUr := sn_assign (um_vrUr u) newVrUr\<rparr>
             in interval oldVrUr (um_vrUr u') u'))
      else Inr u)"

text \<open>Third part: the t-Reordering timer is stopped or started.\<close>

definition rx_set_all_bases :: "um \<Rightarrow> um" where
  "rx_set_all_bases u =
     (let u1 = u\<lparr>um_vrUr := SetModulusBase (um_vrUr u) (um_window_low u)\<rparr>;
          u2 = u1\<lparr>um_vrUx := SetModulusBase (um_vrUx u1) (um_window_low u1)\<rparr>
      in u2\<lparr>um_vrUh := SetModulusBase (um_vrUh u2) (um_window_low u2)\<rparr>)"

definition rx_stop_reordering :: "um \<Rightarrow> um res" where
  "rx_stop_reordering u =
     (if um_reorderingTimer u \<noteq> None then
        rbind (sn_le (um_vrUx u) (um_vrUr u)) (\<lambda>le.
        if le then Inr (u\<lparr>um_reorderingTimer := None\<rparr>)
        else rbind (IsInsideReorderingWindow (um_vrUx u) u) (\<lambda>(inside, u').
          if \<not> inside \<and> \<not> sn_eq (um_vrUx u') (um_vrUh u')
          then Inr (u'\<lparr>um_reorderingTimer := None\<rparr>) else Inr u'))
      else Inr u)"

definition rx_timer :: "int \<Rightarrow> um \<Rightarrow> um res" where
  "rx_timer now u0 =
     rbind (rx_stop_reordering (rx_set_all_bases u0)) (\<lambda>u.
       if um_reorderingTimer u = None then um_restart_reordering now u else Inr u)"

definition rx_place ::
  "(um \<Rightarrow> um res) \<Rightarrow> (sn10 \<Rightarrow> sn10 \<Rightarrow> um \<Rightarrow> um res) \<Rightarrow> int \<Rightarrow> sn10 \<Rightarrow> packet \<Rightarrow> um \<Rightarrow> um res" where
  "rx_place outside interval now seqNumber p u =
     rbind (rx_move_window outside seqNumber
              (u\<lparr>um_rxBuffer := map_put (sn_value seqNumber) p (um_rxBuffer u)\<rparr>)) (\<lambda>u1.
     rbind (rx_advance interval u1) (rx_timer now))"

definition rx_trace :: "int \<Rightarrow> int \<Rightarrow> packet \<Rightarrow> um \<Rightarrow> um" where
  "rx_trace now senderTimestamp p u =
     um_emit (RxPduTrace (um_rnti u) (um_lcid u) (Packet_GetSize p) (now - senderTimestamp)) u"

definition DoReceivePdu :: "int \<Rightarrow> packet \<Rightarrow> um \<Rightarrow> um res" where
  "DoReceivePdu now p u0 =
     (case Packet_FindRlcTag p of
        None \<Rightarrow> Inl NsAssert
      | Some ts \<Rightarrow>
          let u1 = rx_trace now ts p u0 in
          rbind (Packet_PeekHeader (rlc_Deserialize LteRlcHeader) p) (\<lambda>rlcHeader.
          let u = rx_set_bases u1;
              seqNumber = SetModulusBase (rh_sequenceNumber rlcHeader) (um_window_low u) in
          rbind (rx_discard seqNumber u) (\<lambda>discard.
            if discard then Inr u
            else rx_place ReassembleOutsideWindow ReassembleSnInterval now seqNumber p u)))"

text \<open>The NR sidelink handler checks the channel type and starts at the first PDU received.\<close>

definition rx_first_pdu :: "sn10 \<Rightarrow> um \<Rightarrow> um" where
  "rx_first_pdu seqNumber u =
     (if um_channelType u = STCH \<and> \<not> um_firstPduRxed u
      then u\<lparr>um_vrUr := seqNumber, um_vrUh := seqNumber, um_expectedSeqNumber := seqNumber,
             um_firstPduRxed := True\<rparr>
      else u)"

definition DoReceiveNrSlRlcPdu :: "int \<Rightarrow> packet \<Rightarrow> u32 \<Rightarrow> um \<Rightarrow> um res" where
  "DoReceiveNrSlRlcPdu now p dstL2Id u0 =
     (case Packet_FindRlcTag p of
        None \<Rightarrow> Inl NsAssert
      | Some ts \<Rightarrow>
          let u1 = rx_trace now ts p u0 in
          rbind (Packet_PeekHeader (rlc_Deserialize LteRlcHeader) p) (\<lambda>rlcHeader.
          rguard NsAbort (\<not> (dstL2Id \<noteq> 0 \<and> um_channelType u1 \<noteq> STCH))
          (let u = rx_set_bases (rx_first_pdu (rh_sequenceNumber rlcHeader) u1);
               seqNumber = SetModulusBase (rh_sequenceNumber rlcHeader) (um_window_low u) in
          rbind (rx_discard seqNumber u) (\<lambda>discard.
            if discard then Inr u
            else rx_place NrSlReassembleOutsideWindow NrSlReassembleSnInterval now seqNumber p u))))"

end
