(* ===== verification/LteRlcUmReasm.thy ===== *)
theory LteRlcUmReasm
  imports LteRlcUmRx
begin

text \<open>
  What reassembly does, as a function on byte strings: \<open>reasm\<close> takes whether PDUs were lost,
  the framing of the PDU, its data fields and the part of an SDU kept so far, and gives the
  SDUs delivered and the part kept.  The four tables of \<open>ReassembleAndDeliver\<close> refine it.
\<close>

section \<open>The abstract reassembly\<close>

definition reasm_finish :: "bool \<Rightarrow> u8 list list \<Rightarrow> u8 list list \<times> u8 list option" where
  "reasm_finish ends ds =
     (if ends then (ds, None) else if ds = [] then ([], None) else (butlast ds, Some (last ds)))"

definition reasm ::
  "bool \<Rightarrow> bool \<Rightarrow> bool \<Rightarrow> u8 list list \<Rightarrow> u8 list option \<Rightarrow> u8 list list \<times> u8 list option" where
  "reasm loss starts ends ds kept = reasm_finish ends
     (case (if loss then None else kept) of
        None \<Rightarrow> if starts then ds else tl ds
      | Some k \<Rightarrow> (k @ hd ds) # tl ds)"

text \<open>A PDU that starts an SDU while one is open, with no loss, is a protocol error.\<close>

definition reasm_possible :: "bool \<Rightarrow> bool \<Rightarrow> u8 list option \<Rightarrow> bool" where
  "reasm_possible loss starts kept \<longleftrightarrow> loss \<or> kept = None \<or> \<not> starts"

text \<open>
  With the fragments that an earlier protocol error left behind: they are put in front of the
  fields of the next PDU, and in an error the fields are added to them and nothing else happens.
  The result is what is delivered, what is kept and what is left behind.
\<close>

definition reasm_complete ::
  "bool \<Rightarrow> bool \<Rightarrow> bool \<Rightarrow> u8 list list \<Rightarrow> u8 list option \<Rightarrow> u8 list list
   \<Rightarrow> u8 list list \<times> u8 list option \<times> u8 list list" where
  "reasm_complete loss starts ends ds kept left =
     (if reasm_possible loss starts kept
      then (case reasm loss starts ends (left @ ds) kept of (out, kept') \<Rightarrow> (out, kept', []))
      else ([], kept, left @ ds))"

section \<open>The state it abstracts\<close>

definition kept_of :: "um \<Rightarrow> u8 list option" where
  "kept_of u = (if um_reassemblingState u = WAITING_SI_SF
                then map_option pk_bytes (um_keepS0 u) else None)"

definition rs_inv :: "um \<Rightarrow> bool" where
  "rs_inv u \<longleftrightarrow> um_reassemblingState u \<noteq> RS_NONE \<and>
     (um_reassemblingState u = WAITING_SI_SF \<longrightarrow> um_keepS0 u \<noteq> None)"

text \<open>Reassembly only changes five components of the state.\<close>

definition rs_frame :: "um \<Rightarrow> um \<Rightarrow> bool" where
  "rs_frame u u' \<longleftrightarrow> (\<exists>e s r k x. u' = u\<lparr>um_sdusBuffer := s, um_reassemblingState := r,
     um_keepS0 := k, um_expectedSeqNumber := e, um_out := x\<rparr>)"

lemma rs_frame_refl [simp]: "rs_frame u u"
  by (auto simp: rs_frame_def intro!: exI um.equality)

lemma rs_frameI:
  "u' = u\<lparr>um_sdusBuffer := s, um_reassemblingState := r, um_keepS0 := k,
     um_expectedSeqNumber := e, um_out := x\<rparr> \<Longrightarrow> rs_frame u u'"
  unfolding rs_frame_def by blast

lemma rs_frame_trans:
  assumes "rs_frame u v" "rs_frame v w"
  shows "rs_frame u w"
proof -
  obtain e s r k x where "w = v\<lparr>um_sdusBuffer := s, um_reassemblingState := r,
      um_keepS0 := k, um_expectedSeqNumber := e, um_out := x\<rparr>"
    using assms(2) by (auto simp: rs_frame_def)
  moreover obtain e' s' r' k' x' where "v = u\<lparr>um_sdusBuffer := s', um_reassemblingState := r',
      um_keepS0 := k', um_expectedSeqNumber := e', um_out := x'\<rparr>"
    using assms(1) by (auto simp: rs_frame_def)
  ultimately have "w = u\<lparr>um_sdusBuffer := s, um_reassemblingState := r,
      um_keepS0 := k, um_expectedSeqNumber := e, um_out := x\<rparr>"
    by simp
  then show ?thesis by (rule rs_frameI)
qed

lemma rs_frame_simps:
  assumes "rs_frame u u'"
  shows "um_rxBuffer u' = um_rxBuffer u" "um_vrUr u' = um_vrUr u" "um_vrUx u' = um_vrUx u"
    "um_vrUh u' = um_vrUh u" "um_windowSize u' = um_windowSize u"
    "um_reorderingTimer u' = um_reorderingTimer u"
    "um_reorderingTimerValue u' = um_reorderingTimerValue u"
    "um_channelType u' = um_channelType u" "um_firstPduRxed u' = um_firstPduRxed u"
  using assms by (auto simp: rs_frame_def)

section \<open>The fields of a PDU\<close>

text \<open>
  A PDU the entity can take apart: its header is complete, the extension bits announce the
  length indicators, and these do not exceed the data.
\<close>

definition pdu_ok :: "packet \<Rightarrow> bool" where
  "pdu_ok p = (case rlc_Deserialize LteRlcHeader (pk_bytes p) of
     Inl _ \<Rightarrow> False
   | Inr (h, n) \<Rightarrow>
       rh_extensionBits h = replicate (length (rh_lengthIndicators h)) 1 @ [0] \<and>
       sum_list (map unat (rh_lengthIndicators h)) \<le> length (pk_bytes p) - n)"

fun split_bytes :: "u16 list \<Rightarrow> u8 list \<Rightarrow> u8 list list" where
  "split_bytes [] b = [b]"
| "split_bytes (l # ls) b = take (unat l) b # split_bytes ls (drop (unat l) b)"

definition pdu_header_of :: "packet \<Rightarrow> rlc_header" where
  "pdu_header_of p = (case rlc_Deserialize LteRlcHeader (pk_bytes p) of
     Inl _ \<Rightarrow> LteRlcHeader | Inr (h, n) \<Rightarrow> h)"

definition pdu_fields :: "packet \<Rightarrow> u8 list list" where
  "pdu_fields p = (case rlc_Deserialize LteRlcHeader (pk_bytes p) of
     Inl _ \<Rightarrow> [] | Inr (h, n) \<Rightarrow> split_bytes (rh_lengthIndicators h) (drop n (pk_bytes p)))"

definition pdu_sn :: "packet \<Rightarrow> sn10" where
  "pdu_sn p = rh_sequenceNumber (pdu_header_of p)"

lemma rs_split_ok:
  "sum_list (map unat lis) \<le> length (pk_bytes p) \<Longrightarrow>
   \<exists>ds. rs_split (replicate (length lis) 1 @ [0]) lis p sdus = Inr (sdus @ ds) \<and>
     map pk_bytes ds = split_bytes lis (pk_bytes p)"
proof (induction lis arbitrary: p sdus)
  case (Cons li lis)
  obtain q where q: "Packet_CreateFragment 0 (unat li) p = Inr q" "pk_bytes q = take (unat li) (pk_bytes p)"
    using CreateFragment_prefix [of "unat li" p] Cons.prems by auto
  have "sum_list (map unat lis) \<le> length (pk_bytes (Packet_RemoveAtStart (unat li) p))"
    using Cons.prems by simp
  then obtain ds where "rs_split (replicate (length lis) 1 @ [0]) lis (Packet_RemoveAtStart (unat li) p)
      (sdus @ [q]) = Inr ((sdus @ [q]) @ ds)"
    "map pk_bytes ds = split_bytes lis (pk_bytes (Packet_RemoveAtStart (unat li) p))"
    using Cons.IH [of "Packet_RemoveAtStart (unat li) p" "sdus @ [q]"] by blast
  with q show ?case
    by (auto intro!: exI [of _ "q # ds"])
qed simp

lemma split_bytes_not_Nil [simp]: "split_bytes lis b \<noteq> []"
  by (cases lis) simp_all

lemma u8_less_4: "(w :: u8) < 4 \<Longrightarrow> w \<in> {0, 1, 2, 3}"
  by (auto simp: word_less_nat_alt word_unat_eq_iff)

lemma dec_fi_cases: "dec_fi b \<in> {0, 1, 2, 3}"
proof (rule u8_less_4)
  have "take_bit 2 (dec_fi b) = dec_fi b"
    unfolding byte_defs mask_constants by (rule bit_word_eqI) (auto simp: bit_simps)
  moreover have "unat (take_bit 2 (dec_fi b)) < 4"
    using take_bit_nat_less_exp [of 2 "unat (dec_fi b)"] by (simp add: unsigned_take_bit_eq)
  ultimately show "dec_fi b < 4"
    by (simp add: word_less_nat_alt)
qed

lemma deser_li_frame:
  "deser_li bs h = Inr h' \<Longrightarrow> rh_framingInfo h' = rh_framingInfo h \<and>
     rh_sequenceNumber h' = rh_sequenceNumber h"
  by (induction bs h arbitrary: h' rule: deser_li.induct)
    (auto simp: push_fields_def split: if_splits list.splits)

lemma rlc_Deserialize_sel:
  assumes "rlc_Deserialize LteRlcHeader bs = Inr (h, n)"
  shows "rh_framingInfo h \<in> {0, 1, 2, 3}" "sn_wf (rh_sequenceNumber h)"
    "sn_base (rh_sequenceNumber h) = 0"
proof -
  obtain a b rest where "bs = a # b # rest"
    using assms by (auto simp: rlc_Deserialize_def split: list.splits)
  then have "rh_framingInfo h = dec_fi a \<and>
      rh_sequenceNumber h = sn_assign (rh_sequenceNumber LteRlcHeader) (dec_sn a b)"
    using assms by (auto simp: rlc_Deserialize_def Let_def rbind_eq_Inr dest: deser_li_frame split: if_splits)
  then show "rh_framingInfo h \<in> {0, 1, 2, 3}" "sn_wf (rh_sequenceNumber h)"
    "sn_base (rh_sequenceNumber h) = 0"
    using dec_fi_cases [of a] by (auto simp: LteRlcHeader_def)
qed

definition pdu_lost :: "packet \<Rightarrow> um \<Rightarrow> bool" where
  "pdu_lost p u \<longleftrightarrow> \<not> sn_eq (pdu_sn p) (um_expectedSeqNumber u)"

definition pdu_starts :: "packet \<Rightarrow> bool" where
  "pdu_starts p \<longleftrightarrow> rh_framingInfo (pdu_header_of p) = 0 \<or> rh_framingInfo (pdu_header_of p) = 1"

definition pdu_ends :: "packet \<Rightarrow> bool" where
  "pdu_ends p \<longleftrightarrow> rh_framingInfo (pdu_header_of p) = 0 \<or> rh_framingInfo (pdu_header_of p) = 2"

section \<open>The user of the RLC service\<close>

text \<open>
  The interface to the layer above: delivering an SDU is one call with that SDU, and changes
  nothing else of the entity.
\<close>

locale rlc_sap_user =
  fixes dlv :: deliver and ev :: "packet \<Rightarrow> um_event"
  assumes dlv_emit: "dlv p u = um_emit (ev p) u"
begin

lemma deliver_all_eq:
  "deliver_all dlv ss u = u\<lparr>um_sdusBuffer := [], um_out := um_out u @ map ev ss\<rparr>"
  by (induction ss arbitrary: u) (simp_all add: dlv_emit um_emit_def)

lemma deliver_but_last_eq:
  "deliver_but_last dlv ss u =
    u\<lparr>um_sdusBuffer := (if ss = [] then [] else [last ss]), um_out := um_out u @ map ev (butlast ss)\<rparr>"
  by (induction ss arbitrary: u rule: induct_list012) (simp_all add: dlv_emit um_emit_def)

text \<open>What the tables do to the output, the kept packet and the state.\<close>

definition table_ok :: "bool \<Rightarrow> bool \<Rightarrow> bool \<Rightarrow> packet list \<Rightarrow> um \<Rightarrow> um res \<Rightarrow> bool" where
  "table_ok loss starts ends sdus u r \<longleftrightarrow> (\<exists>u' ps. r = Inr u' \<and>
     um_out u' = um_out u @ map ev ps \<and>
     (map pk_bytes ps, kept_of u') = reasm loss starts ends (map pk_bytes sdus) (kept_of u) \<and>
     rs_inv u' \<and> rs_frame u u' \<and> um_sdusBuffer u' = [] \<and>
     um_expectedSeqNumber u' = um_expectedSeqNumber u)"

lemmas table_defs = rs_all_def rs_but_last_def rs_pop_def rs_keep_def rs_append_def
  rs_deliver_kept_def rs_goto_def rs_drop_kept_def rs_tail_keep_def deliver_all_eq
  deliver_but_last_eq dlv_emit um_emit_def

lemma table_okI:
  assumes "r = Inr u'" "um_out u' = um_out u @ map ev ps" "rs_frame u u'" "um_sdusBuffer u' = []"
    "um_expectedSeqNumber u' = um_expectedSeqNumber u" "rs_inv u'"
    "map pk_bytes ps = ds" "kept_of u' = k"
    "reasm loss starts ends (map pk_bytes sdus) (kept_of u) = (ds, k)"
  shows "table_ok loss starts ends sdus u r"
  unfolding table_ok_def using assms by auto

text \<open>
  The state after a table entry: the SDUs \<open>ps\<close> delivered, in state \<open>st\<close> with \<open>k\<close> kept.
\<close>

definition entry :: "ReassemblingState_t \<Rightarrow> packet option \<Rightarrow> packet list \<Rightarrow> um \<Rightarrow> um" where
  "entry st k ps u = u\<lparr>um_sdusBuffer := [], um_reassemblingState := st, um_keepS0 := k,
     um_out := um_out u @ map ev ps\<rparr>"

lemma entry_ok:
  assumes "r = Inr (entry st k ps u)" "st = WAITING_S0_FULL \<or> st = WAITING_SI_SF \<and> k \<noteq> None"
    and "reasm loss starts ends (map pk_bytes sdus) (kept_of u)
      = (map pk_bytes ps, if st = WAITING_SI_SF then map_option pk_bytes k else None)"
  shows "table_ok loss starts ends sdus u r"
proof (rule table_okI [OF assms(1) _ _ _ _ _ refl refl])
  show "rs_frame u (entry st k ps u)"
    unfolding entry_def
    by (rule rs_frameI [where e = "um_expectedSeqNumber u"]) simp
  show "reasm loss starts ends (map pk_bytes sdus) (kept_of u)
      = (map pk_bytes ps, kept_of (entry st k ps u))"
    using assms(3) by (simp add: kept_of_def entry_def)
qed (use assms(2) in \<open>auto simp: entry_def rs_inv_def\<close>)

lemma entry_fold:
  "u\<lparr>um_reassemblingState := st, um_sdusBuffer := [], um_out := um_out u @ map ev ps\<rparr>
     = entry st (um_keepS0 u) ps u"
  "u\<lparr>um_reassemblingState := st, um_sdusBuffer := [], um_keepS0 := k\<rparr> = entry st k [] u"
  by (simp_all add: entry_def)

lemma fresh_entries:
  assumes "um_sdusBuffer u = s # ss"
  shows "rs_seq [rs_goto WAITING_S0_FULL, rs_all dlv] u
      = Inr (entry WAITING_S0_FULL (um_keepS0 u) (s # ss) u)"
    "rs_seq [rs_goto WAITING_SI_SF, rs_but_last dlv, rs_keep] u
      = Inr (entry WAITING_SI_SF (Some (last (s # ss))) (butlast (s # ss)) u)"
    "rs_seq [rs_goto WAITING_S0_FULL, rs_pop, rs_all dlv] u
      = Inr (entry WAITING_S0_FULL (um_keepS0 u) ss u)"
    "rs_seq [rs_goto (if length (um_sdusBuffer u) = 1 then WAITING_S0_FULL else WAITING_SI_SF),
        rs_pop, rs_tail_keep dlv] u
      = Inr (if ss = [] then entry WAITING_S0_FULL (um_keepS0 u) [] u
             else entry WAITING_SI_SF (Some (last ss)) (butlast ss) u)"
  using assms by (simp_all add: table_defs entry_def)

lemma dropped_entries:
  assumes "um_sdusBuffer u = s # ss"
  shows "rs_seq [rs_goto WAITING_S0_FULL, rs_drop_kept, rs_all dlv] u
      = Inr (entry WAITING_S0_FULL None (s # ss) u)"
    "rs_seq [rs_goto WAITING_SI_SF, rs_drop_kept, rs_but_last dlv, rs_keep] u
      = Inr (entry WAITING_SI_SF (Some (last (s # ss))) (butlast (s # ss)) u)"
    "rs_seq [rs_goto WAITING_S0_FULL, rs_drop_kept, rs_pop, rs_all dlv] u
      = Inr (entry WAITING_S0_FULL None ss u)"
    "rs_seq [rs_goto (if length (um_sdusBuffer u) = 1 then WAITING_S0_FULL else WAITING_SI_SF),
        rs_drop_kept, rs_pop, rs_tail_keep dlv] u
      = Inr (if ss = [] then entry WAITING_S0_FULL None [] u
             else entry WAITING_SI_SF (Some (last ss)) (butlast ss) u)"
  using assms by (simp_all add: table_defs entry_def)

lemma append_entries:
  assumes "um_sdusBuffer u = s # ss" "um_keepS0 u = Some k"
  shows "rs_seq [rs_goto WAITING_S0_FULL, rs_append, rs_deliver_kept dlv, rs_all dlv] u
      = Inr (entry WAITING_S0_FULL (Some (Packet_AddAtEnd k s)) (Packet_AddAtEnd k s # ss) u)"
    "rbind (rs_goto WAITING_SI_SF u) (\<lambda>u. if length (um_sdusBuffer u) = 1 then rs_append u
        else rs_seq [rs_append, rs_deliver_kept dlv, rs_but_last dlv, rs_keep] u)
      = Inr (if ss = [] then entry WAITING_SI_SF (Some (Packet_AddAtEnd k s)) [] u
             else entry WAITING_SI_SF (Some (last ss)) (Packet_AddAtEnd k s # butlast ss) u)"
  using assms by (simp_all add: table_defs entry_def)

text \<open>Each entry, against \<^const>\<open>reasm\<close>.\<close>

lemma fresh_ok:
  assumes "loss \<or> kept_of u = None"
  shows "table_ok loss True True (s # ss) u (Inr (entry WAITING_S0_FULL k (s # ss) u))"
    "table_ok loss True False (s # ss) u
       (Inr (entry WAITING_SI_SF (Some (last (s # ss))) (butlast (s # ss)) u))"
    "table_ok loss False True (s # ss) u (Inr (entry WAITING_S0_FULL k ss u))"
    "table_ok loss False False (s # ss) u
       (Inr (if ss = [] then entry WAITING_S0_FULL k [] u
             else entry WAITING_SI_SF (Some (last ss)) (butlast ss) u))"
proof -
  have k: "(if loss then None else kept_of u) = None"
    using assms by auto
  note r = reasm_def reasm_finish_def k map_butlast last_map
  show "table_ok loss True True (s # ss) u (Inr (entry WAITING_S0_FULL k (s # ss) u))"
    by (rule entry_ok [OF refl]) (simp_all add: r)
  show "table_ok loss True False (s # ss) u
       (Inr (entry WAITING_SI_SF (Some (last (s # ss))) (butlast (s # ss)) u))"
    by (rule entry_ok [OF refl]) (simp_all add: r)
  show "table_ok loss False True (s # ss) u (Inr (entry WAITING_S0_FULL k ss u))"
    by (rule entry_ok [OF refl]) (simp_all add: r)
  show "table_ok loss False False (s # ss) u
       (Inr (if ss = [] then entry WAITING_S0_FULL k [] u
             else entry WAITING_SI_SF (Some (last ss)) (butlast ss) u))"
    by (cases "ss = []"; simp only: if_True if_False simp_thms; rule entry_ok [OF refl])
      (simp_all add: r)
qed

lemma append_ok:
  assumes "kept_of u = Some (pk_bytes k)"
  shows "table_ok False False True (s # ss) u
      (Inr (entry WAITING_S0_FULL (Some (Packet_AddAtEnd k s)) (Packet_AddAtEnd k s # ss) u))"
    "table_ok False False False (s # ss) u
      (Inr (if ss = [] then entry WAITING_SI_SF (Some (Packet_AddAtEnd k s)) [] u
            else entry WAITING_SI_SF (Some (last ss)) (Packet_AddAtEnd k s # butlast ss) u))"
proof -
  note r = reasm_def reasm_finish_def assms map_butlast last_map
  show "table_ok False False True (s # ss) u
      (Inr (entry WAITING_S0_FULL (Some (Packet_AddAtEnd k s)) (Packet_AddAtEnd k s # ss) u))"
    by (rule entry_ok [OF refl]) (simp_all add: r)
  show "table_ok False False False (s # ss) u
      (Inr (if ss = [] then entry WAITING_SI_SF (Some (Packet_AddAtEnd k s)) [] u
            else entry WAITING_SI_SF (Some (last ss)) (Packet_AddAtEnd k s # butlast ss) u))"
    by (cases "ss = []"; simp only: if_True if_False simp_thms; rule entry_ok [OF refl])
      (simp_all add: r)
qed

text \<open>Whether a framing info says that the PDU starts with, and ends with, an SDU boundary.\<close>

lemma table_S0:
  assumes "um_sdusBuffer u = s # ss" "um_reassemblingState u = WAITING_S0_FULL"
    and that: "fi \<in> {0, 1, 2, 3}"
  shows "table_ok loss (fi = 0 \<or> fi = 1) (fi = 0 \<or> fi = 2) (s # ss) u
      (noloss_WAITING_S0_FULL dlv fi u)"
    "table_ok loss (fi = 0 \<or> fi = 1) (fi = 0 \<or> fi = 2) (s # ss) u
      (loss_WAITING_S0_FULL dlv fi u)"
proof -
  have "loss \<or> kept_of u = None"
    using assms by (simp add: kept_of_def)
  note ok = fresh_ok [OF this]
  show "table_ok loss (fi = 0 \<or> fi = 1) (fi = 0 \<or> fi = 2) (s # ss) u
      (noloss_WAITING_S0_FULL dlv fi u)"
    using that unfolding noloss_WAITING_S0_FULL_def fresh_entries [OF assms(1)]
    by (elim insertE; simp only: rlc_header_consts) (use ok in simp_all)
  show "table_ok loss (fi = 0 \<or> fi = 1) (fi = 0 \<or> fi = 2) (s # ss) u
      (loss_WAITING_S0_FULL dlv fi u)"
    using that unfolding loss_WAITING_S0_FULL_def fresh_entries [OF assms(1)]
    by (elim insertE; simp only: rlc_header_consts) (use ok in simp_all)
qed

lemma table_loss_SI:
  assumes "um_sdusBuffer u = s # ss" "fi \<in> {0, 1, 2, 3}"
  shows "table_ok True (fi = 0 \<or> fi = 1) (fi = 0 \<or> fi = 2) (s # ss) u
    (loss_WAITING_SI_SF dlv fi u)"
proof -
  have "True \<or> kept_of u = None" by simp
  note ok = fresh_ok [OF this]
  show ?thesis
    using assms(2) unfolding loss_WAITING_SI_SF_def dropped_entries [OF assms(1)]
    by (elim insertE; simp only: rlc_header_consts) (use ok in simp_all)
qed

lemma table_noloss_SI:
  assumes "um_sdusBuffer u = s # ss" "um_reassemblingState u = WAITING_SI_SF"
    "um_keepS0 u = Some k" "fi \<in> {2, 3}"
  shows "table_ok False False (fi = 2) (s # ss) u (noloss_WAITING_SI_SF dlv fi u)"
proof -
  have "kept_of u = Some (pk_bytes k)"
    using assms by (simp add: kept_of_def)
  note ok = append_ok [OF this, of s ss]
  show ?thesis
    using assms(4) unfolding noloss_WAITING_SI_SF_def append_entries [OF assms(1,3)]
    by (elim insertE; simp only: rlc_header_consts) (use ok in simp_all)
qed

lemma table_total:
  assumes "um_sdusBuffer u \<noteq> []" "rs_inv u" "fi \<in> {0, 1, 2, 3}"
  shows "\<exists>u'. (if \<not> loss then
       (case um_reassemblingState u of
          WAITING_S0_FULL \<Rightarrow> noloss_WAITING_S0_FULL dlv fi u
        | WAITING_SI_SF \<Rightarrow> noloss_WAITING_SI_SF dlv fi u
        | RS_NONE \<Rightarrow> Inr u)
     else
       (case um_reassemblingState u of
          WAITING_S0_FULL \<Rightarrow> loss_WAITING_S0_FULL dlv fi u
        | WAITING_SI_SF \<Rightarrow> loss_WAITING_SI_SF dlv fi u
        | RS_NONE \<Rightarrow> Inr u)) = Inr u' \<and> rs_inv u' \<and> rs_frame u u' \<and>
     um_expectedSeqNumber u' = um_expectedSeqNumber u \<and>
     (reasm_possible loss (fi = 0 \<or> fi = 1) (kept_of u) \<longrightarrow>
        table_ok loss (fi = 0 \<or> fi = 1) (fi = 0 \<or> fi = 2) (um_sdusBuffer u) u (Inr u')) \<and>
     (\<not> reasm_possible loss (fi = 0 \<or> fi = 1) (kept_of u) \<longrightarrow> u' = u)"
    (is "\<exists>u'. ?r = Inr u' \<and> ?P u'")
proof -
  obtain s ss where ss: "um_sdusBuffer u = s # ss"
    using assms(1) by (cases "um_sdusBuffer u") auto
  show ?thesis
  proof (cases "reasm_possible loss (fi = 0 \<or> fi = 1) (kept_of u)")
    case True
    have "table_ok loss (fi = 0 \<or> fi = 1) (fi = 0 \<or> fi = 2) (s # ss) u ?r"
    proof (cases "um_reassemblingState u")
      case WAITING_S0_FULL
      then show ?thesis
        using table_S0 [OF ss _ assms(3)] by (cases loss) simp_all
    next
      case WAITING_SI_SF
      then obtain k where k: "um_keepS0 u = Some k"
        using assms(2) by (auto simp: rs_inv_def)
      show ?thesis
      proof (cases loss)
        case True
        with WAITING_SI_SF table_loss_SI [OF ss assms(3)] show ?thesis by simp
      next
        case False
        with True WAITING_SI_SF k have fi: "fi \<noteq> 0" "fi \<noteq> 1"
          by (auto simp: reasm_possible_def kept_of_def)
        then have "fi \<in> {2, 3}"
          using assms(3) by auto
        from table_noloss_SI [OF ss WAITING_SI_SF k this] False WAITING_SI_SF fi show ?thesis
          by simp
      qed
    qed (use assms(2) in \<open>simp add: rs_inv_def\<close>)
    with True show ?thesis
      unfolding table_ok_def ss by auto
  next
    case False
    then have "\<not> loss" "um_reassemblingState u = WAITING_SI_SF" "fi = 0 \<or> fi = 1"
      by (auto simp: reasm_possible_def kept_of_def split: if_splits)
    then have "?r = Inr u"
      by (auto simp: noloss_WAITING_SI_SF_def rlc_header_consts)
    with False assms(2) show ?thesis
      by auto
  qed
qed

text \<open>
  Reassembly of a PDU that can be taken apart always succeeds; if no SDU fragments were left
  behind it delivers what \<^const>\<open>reasm\<close> says.
\<close>

definition reasm_delivers :: "packet \<Rightarrow> um \<Rightarrow> um \<Rightarrow> bool" where
  "reasm_delivers p u u' \<longleftrightarrow> (\<exists>ps. um_out u' = um_out u @ map ev ps \<and> um_sdusBuffer u' = [] \<and>
     (map pk_bytes ps, kept_of u')
       = reasm (pdu_lost p u) (pdu_starts p) (pdu_ends p) (pdu_fields p) (kept_of u))"

definition reasm_does :: "packet \<Rightarrow> um \<Rightarrow> um \<Rightarrow> bool" where
  "reasm_does p u u' \<longleftrightarrow> (\<exists>ps. um_out u' = um_out u @ map ev ps \<and>
     (map pk_bytes ps, kept_of u', map pk_bytes (um_sdusBuffer u')) =
       reasm_complete (pdu_lost p u) (pdu_starts p) (pdu_ends p) (pdu_fields p) (kept_of u)
         (map pk_bytes (um_sdusBuffer u)))"

lemma reasm_does_delivers:
  assumes "reasm_does p u u'" "um_sdusBuffer u = []" "reasm_possible (pdu_lost p u) (pdu_starts p) (kept_of u)"
  shows "reasm_delivers p u u'"
  using assms by (auto simp: reasm_does_def reasm_delivers_def reasm_complete_def split: prod.splits)

lemma rs_expected_spec:
  assumes "sn_wf sn" "sn_wf (um_expectedSeqNumber u)" "rs_expected sn u = (l, u1)"
  shows "l = (\<not> sn_eq sn (um_expectedSeqNumber u))"
    "\<exists>e. u1 = u\<lparr>um_expectedSeqNumber := e\<rparr> \<and> sn_wf e \<and> sn_num e = (sn_num sn + 1) mod 1024"
  using assms
  by (auto simp: rs_expected_def sn_eq_def sn_value_eq_iff split: if_splits)

lemma reassemble_does:
  assumes ok: "pdu_ok p" and inv: "rs_inv u" "sn_wf (um_expectedSeqNumber u)"
  shows "\<exists>u'. ReassembleWith dlv p u = Inr u' \<and> rs_inv u' \<and> rs_frame u u' \<and>
    sn_wf (um_expectedSeqNumber u') \<and>
    sn_num (um_expectedSeqNumber u') = (sn_num (pdu_sn p) + 1) mod 1024 \<and> reasm_does p u u'"
proof -
  obtain h n where h: "rlc_Deserialize LteRlcHeader (pk_bytes p) = Inr (h, n)"
    "rh_extensionBits h = replicate (length (rh_lengthIndicators h)) 1 @ [0]"
    "sum_list (map unat (rh_lengthIndicators h)) \<le> length (pk_bytes p) - n"
    using ok by (auto simp: pdu_ok_def split: sum.splits)
  have p: "pdu_header_of p = h" "pdu_sn p = rh_sequenceNumber h"
    "pdu_fields p = split_bytes (rh_lengthIndicators h) (drop n (pk_bytes p))"
    using h(1) by (simp_all add: pdu_header_of_def pdu_sn_def pdu_fields_def)
  note sel = rlc_Deserialize_sel [OF h(1)]
  define q where "q = p\<lparr>pk_bytes := drop n (pk_bytes p), pk_btags := bt_adjust (- int n) (pk_btags p)\<rparr>"
  obtain l u1 where u1: "rs_expected (rh_sequenceNumber h) u = (l, u1)"
    by (rule prod.exhaust)
  obtain e where e: "u1 = u\<lparr>um_expectedSeqNumber := e\<rparr>" "sn_wf e"
    "sn_num e = (sn_num (pdu_sn p) + 1) mod 1024" and l: "l = pdu_lost p u"
    using rs_expected_spec [OF sel(2) inv(2) u1] by (auto simp: p pdu_lost_def)
  obtain ds where ds: "rs_split (rh_extensionBits h) (rh_lengthIndicators h) q (um_sdusBuffer u1)
      = Inr (um_sdusBuffer u @ ds)" "map pk_bytes ds = pdu_fields p"
    using rs_split_ok [of "rh_lengthIndicators h" q "um_sdusBuffer u1"] h(2,3) e(1)
    by (auto simp: q_def p)
  define v where "v = u\<lparr>um_expectedSeqNumber := e, um_sdusBuffer := um_sdusBuffer u @ ds\<rparr>"
  have "ds \<noteq> []"
    using ds(2) split_bytes_not_Nil by (metis p(3) list.map_disc_iff)
  then have v: "um_sdusBuffer v \<noteq> []" "rs_inv v" "kept_of v = kept_of u"
    using inv(1) by (simp_all add: v_def rs_inv_def kept_of_def)
  let ?fi = "rh_framingInfo h"
  have eq: "ReassembleWith dlv p u = (if \<not> l then
       (case um_reassemblingState v of
          WAITING_S0_FULL \<Rightarrow> noloss_WAITING_S0_FULL dlv ?fi v
        | WAITING_SI_SF \<Rightarrow> noloss_WAITING_SI_SF dlv ?fi v
        | RS_NONE \<Rightarrow> Inr v)
     else
       (case um_reassemblingState v of
          WAITING_S0_FULL \<Rightarrow> loss_WAITING_S0_FULL dlv ?fi v
        | WAITING_SI_SF \<Rightarrow> loss_WAITING_SI_SF dlv ?fi v
        | RS_NONE \<Rightarrow> Inr v))"
    using h(1) u1 ds(1) e(1)
    unfolding q_def
    by (simp add: ReassembleWith_def Packet_RemoveHeader_def Let_def v_def cong: ReassemblingState_t.case_cong)
  obtain u' where u': "ReassembleWith dlv p u = Inr u'" "rs_inv u'" "rs_frame v u'"
    "um_expectedSeqNumber u' = e"
    "reasm_possible l (?fi = 0 \<or> ?fi = 1) (kept_of v) \<Longrightarrow>
       table_ok l (?fi = 0 \<or> ?fi = 1) (?fi = 0 \<or> ?fi = 2) (um_sdusBuffer v) v (Inr u')"
    "\<not> reasm_possible l (?fi = 0 \<or> ?fi = 1) (kept_of v) \<Longrightarrow> u' = v"
    using table_total [OF v(1,2) sel(1), of l] unfolding eq by (auto simp: v_def)
  have "rs_frame u v"
    unfolding v_def
    by (rule rs_frameI [where r = "um_reassemblingState u" and k = "um_keepS0 u"
        and x = "um_out u" and s = "um_sdusBuffer u @ ds" and e = e]) simp
  then have frame: "rs_frame u u'"
    using u'(3) by (rule rs_frame_trans)
  have fields: "map pk_bytes (um_sdusBuffer v) = map pk_bytes (um_sdusBuffer u) @ pdu_fields p" "um_out v = um_out u"
    by (simp_all add: v_def ds(2))
  have "reasm_does p u u'"
  proof (cases "reasm_possible (pdu_lost p u) (pdu_starts p) (kept_of u)")
    case True
    then have "table_ok l (?fi = 0 \<or> ?fi = 1) (?fi = 0 \<or> ?fi = 2) (um_sdusBuffer v) v (Inr u')"
      using u'(5) by (simp add: pdu_starts_def p(1) l v(3))
    then obtain ps where "um_out u' = um_out u @ map ev ps" "um_sdusBuffer u' = []"
      "(map pk_bytes ps, kept_of u') = reasm l (pdu_starts p) (pdu_ends p)
         (map pk_bytes (um_sdusBuffer u) @ pdu_fields p) (kept_of u)"
      by (auto simp: table_ok_def pdu_starts_def pdu_ends_def p(1) v(3) fields)
    then show ?thesis
      using True by (auto simp: reasm_does_def reasm_complete_def l split: prod.splits intro!: exI [of _ ps])
  next
    case False
    then have "u' = v" using u'(6) by (simp add: pdu_starts_def p(1) l v(3))
    with False show ?thesis
      by (simp add: reasm_does_def reasm_complete_def fields v(3))
  qed
  with u' frame e show ?thesis
    by auto
qed

lemma reassemble_ok:
  assumes "pdu_ok p" "rs_inv u" "sn_wf (um_expectedSeqNumber u)"
  shows "\<exists>u'. ReassembleWith dlv p u = Inr u' \<and> rs_inv u' \<and> rs_frame u u' \<and>
    sn_wf (um_expectedSeqNumber u') \<and>
    sn_num (um_expectedSeqNumber u') = (sn_num (pdu_sn p) + 1) mod 1024 \<and>
    (um_sdusBuffer u = [] \<and> reasm_possible (pdu_lost p u) (pdu_starts p) (kept_of u) \<longrightarrow>
       reasm_delivers p u u')"
  using reassemble_does [OF assms] reasm_does_delivers by blast

end

interpretation lte_user: rlc_sap_user lte_deliver ReceivePdcpPdu
  by unfold_locales (simp add: lte_deliver_def)

interpretation nrsl_user: rlc_sap_user nrsl_deliver ReceiveNrSlPdcpPdu
  by unfold_locales (simp add: nrsl_deliver_def)

end
