(* ===== verification/LteRlcUmSafety.thy ===== *)
theory LteRlcUmSafety
  imports LteRlcUmReasm
begin

text \<open>
  The reception handlers never stop: no assertion of the sequence-number comparisons fails,
  no null or empty access happens, and every loop ends.  The handlers are proved once, over
  the contract of the reassembly function, for LTE and for the NR sidelink.
\<close>

section \<open>Invariants of the receiving side\<close>

definition rx_buf_inv :: "um \<Rightarrow> bool" where
  "rx_buf_inv u \<longleftrightarrow> map_wf (um_rxBuffer u) \<and>
     (\<forall>(k, p) \<in> set (um_rxBuffer u). k < 1024 \<and> pdu_ok p) \<and>
     rs_inv u \<and> sn_wf (um_expectedSeqNumber u)"

definition rx_sn_inv :: "um \<Rightarrow> bool" where
  "rx_sn_inv u \<longleftrightarrow> sn_wf (um_vrUr u) \<and> sn_wf (um_vrUx u) \<and> sn_wf (um_vrUh u)"

definition rx_bases :: "um \<Rightarrow> bool" where
  "rx_bases u \<longleftrightarrow> sn_base (um_vrUr u) = sn_value (um_window_low u) \<and>
     sn_base (um_vrUx u) = sn_value (um_window_low u) \<and>
     sn_base (um_vrUh u) = sn_value (um_window_low u)"

text \<open>While t-Reordering runs, the three variables are compared relative to one base.\<close>

definition rx_inv :: "um \<Rightarrow> bool" where
  "rx_inv u \<longleftrightarrow> rx_buf_inv u \<and> rx_sn_inv u \<and> (um_reorderingTimer u \<noteq> None \<longrightarrow> rx_bases u)"

lemma rx_inv_initial: "rx_inv LteRlcUm"
  by (simp add: rx_inv_def rx_buf_inv_def rx_sn_inv_def LteRlcUm_def rs_inv_def)

text \<open>What the loops leave alone.\<close>

definition rx_cfg :: "um \<Rightarrow> ChannelType \<times> bool" where
  "rx_cfg u = (um_channelType u, um_firstPduRxed u)"

definition loop_frame :: "um \<Rightarrow> um \<Rightarrow> bool" where
  "loop_frame u u' \<longleftrightarrow> um_vrUr u' = um_vrUr u \<and> um_vrUx u' = um_vrUx u \<and>
     sn_value (um_vrUh u') = sn_value (um_vrUh u) \<and> um_windowSize u' = um_windowSize u \<and>
     um_reorderingTimer u' = um_reorderingTimer u \<and>
     um_reorderingTimerValue u' = um_reorderingTimerValue u \<and> rx_cfg u' = rx_cfg u"

lemma loop_frame_refl [simp]: "loop_frame u u"
  by (simp add: loop_frame_def)

lemma loop_frame_trans: "loop_frame u v \<Longrightarrow> loop_frame v w \<Longrightarrow> loop_frame u w"
  by (simp add: loop_frame_def)

lemma rs_frame_loop_frame: "rs_frame u v \<Longrightarrow> loop_frame u v"
  by (auto simp: loop_frame_def rs_frame_def rx_cfg_def)

lemma window_low_value:
  "sn_num (um_window_low u) = (sn_num (um_vrUh u) - uint (um_windowSize u)) mod 1024"
  by (simp add: um_window_low_def)

lemma window_low_cong:
  assumes "sn_value (um_vrUh u') = sn_value (um_vrUh u)" "um_windowSize u' = um_windowSize u"
  shows "sn_value (um_window_low u') = sn_value (um_window_low u)"
proof -
  have "sn_num (um_vrUh u') = sn_num (um_vrUh u)"
    using assms(1) by (simp add: sn_value_eq_iff)
  with assms(2) show ?thesis
    by (simp add: sn_value_eq_iff window_low_value)
qed

lemma window_low_wf [simp]: "sn_wf (um_vrUh u) \<Longrightarrow> sn_wf (um_window_low u)"
  by (simp add: um_window_low_def)

lemma window_low_base [simp]: "sn_base (um_window_low u) = sn_base (um_vrUh u)"
  by (simp add: um_window_low_def)

lemma sn_off_Set: "sn_off (SetModulusBase a b) = (sn_num a - sn_num b) mod 1024"
  by (simp add: sn_off_def sn_num_def)

section \<open>The reordering window\<close>

definition um_set_vrUh_base :: "um \<Rightarrow> um" where
  "um_set_vrUh_base u = u\<lparr>um_vrUh := SetModulusBase (um_vrUh u) (um_window_low u)\<rparr>"

definition in_window :: "sn10 \<Rightarrow> um \<Rightarrow> bool" where
  "in_window sn u \<longleftrightarrow>
     (sn_num sn - (sn_num (um_vrUh u) - uint (um_windowSize u))) mod 1024
       < uint (um_windowSize u) mod 1024"

lemma um_set_vrUh_base_sel [simp]:
  "um_vrUh (um_set_vrUh_base u) = SetModulusBase (um_vrUh u) (um_window_low u)"
  "um_windowSize (um_set_vrUh_base u) = um_windowSize u"
  "um_rxBuffer (um_set_vrUh_base u) = um_rxBuffer u"
  "um_vrUr (um_set_vrUh_base u) = um_vrUr u"
  "um_vrUx (um_set_vrUh_base u) = um_vrUx u"
  "um_reorderingTimer (um_set_vrUh_base u) = um_reorderingTimer u"
  "um_expectedSeqNumber (um_set_vrUh_base u) = um_expectedSeqNumber u"
  "um_out (um_set_vrUh_base u) = um_out u"
  "rs_inv (um_set_vrUh_base u) = rs_inv u"
  "rx_buf_inv (um_set_vrUh_base u) = rx_buf_inv u"
  "loop_frame u (um_set_vrUh_base u)"
  by (simp_all add: um_set_vrUh_base_def rs_inv_def rx_buf_inv_def loop_frame_def rx_cfg_def)

lemma set_base_low:
  "sn_value (um_window_low (um_set_vrUh_base u)) = sn_value (um_window_low u)"
  by (rule window_low_cong) simp_all

lemma IsInside_spec:
  assumes "sn_wf sn" "sn_wf (um_vrUh u)"
  shows "IsInsideReorderingWindow sn u = Inr (in_window sn u, um_set_vrUh_base u)"
proof -
  let ?u = "um_set_vrUh_base u"
  let ?low = "um_window_low ?u"
  let ?s = "SetModulusBase sn ?low"
  have num: "sn_num ?low = sn_num (um_window_low u)"
    using set_base_low by (simp add: sn_num_def)
  have base: "sn_base ?low = sn_base ?s" "sn_base ?s = sn_base (um_vrUh ?u)"
    "sn_wf ?low" "sn_wf ?s" "sn_wf (um_vrUh ?u)"
    using assms set_base_low [of u] by simp_all
  have b: "uint (sn_base ?s) = (sn_num (um_vrUh u) - uint (um_windowSize u)) mod 1024"
    using trans [OF num window_low_value] by (simp only: sn_num_def sn_base_simps)
  have o: "sn_off x = (sn_num x - (sn_num (um_vrUh u) - uint (um_windowSize u))) mod 1024"
    if "sn_base x = sn_base ?s" for x
    using b that by (simp add: sn_off_def sn_num_def mod_diff_right_eq)
  have off: "sn_off ?low = 0" "sn_off (um_vrUh ?u) = uint (um_windowSize u) mod 1024"
    "sn_off ?s = (sn_num sn - (sn_num (um_vrUh u) - uint (um_windowSize u))) mod 1024"
    using num o [of ?low] o [of "um_vrUh ?u"] o [of ?s] base(1,2)
    by (simp_all add: window_low_value mod_diff_left_eq)
  have le: "sn_le ?low ?s = Inr True"
    using base off sn_off_bounds [of ?s] by (simp add: sn_le_off)
  moreover have "sn_lt ?s (um_vrUh ?u) = Inr (in_window sn u)"
    using base off by (simp add: sn_lt_off in_window_def)
  ultimately show ?thesis
    by (simp add: IsInsideReorderingWindow_def Let_def flip: um_set_vrUh_base_def)
qed

lemma in_window_cong:
  "loop_frame u u' \<Longrightarrow> in_window sn u' = in_window sn u"
  by (simp add: in_window_def loop_frame_def sn_num_def)

section \<open>The loops\<close>

lemma rx_buf_inv_erase:
  assumes "rx_buf_inv u"
  shows "rx_buf_inv (u\<lparr>um_rxBuffer := map_erase k (um_rxBuffer u)\<rparr>)"
proof -
  have "set (map_erase k m) \<subseteq> set m" for m :: "(u16, packet) std_map"
    by (induction m) (auto split: if_splits)
  then show ?thesis
    using assms by (fastforce simp: rx_buf_inv_def map_wf_erase rs_inv_def)
qed

lemma rx_buf_inv_put:
  assumes "rx_buf_inv u" "k < 1024" "pdu_ok p"
  shows "rx_buf_inv (u\<lparr>um_rxBuffer := map_put k p (um_rxBuffer u)\<rparr>)"
proof -
  have "set (map_put k p m) \<subseteq> insert (k, p) (set m)" for m :: "(u16, packet) std_map"
    by (induction m) (auto split: if_splits)
  then show ?thesis
    using assms by (fastforce simp: rx_buf_inv_def map_wf_put rs_inv_def)
qed

lemma rx_buf_inv_lookup:
  "rx_buf_inv u \<Longrightarrow> map_of (um_rxBuffer u) k = Some p \<Longrightarrow> pdu_ok p \<and> k < 1024"
  by (auto simp: rx_buf_inv_def dest: map_of_SomeD)

lemma rs_frame_buf_inv:
  "rs_frame u u' \<Longrightarrow> rx_buf_inv u \<Longrightarrow> rs_inv u' \<Longrightarrow> sn_wf (um_expectedSeqNumber u') \<Longrightarrow> rx_buf_inv u'"
  by (auto simp: rx_buf_inv_def rs_frame_simps)

text \<open>The keys an interval loop visits, as offsets from the common modulus base.\<close>

definition key_off :: "u16 \<Rightarrow> u16 \<Rightarrow> int" where
  "key_off base k = (uint k - uint base) mod 1024"

definition drop_keys :: "(u16 \<Rightarrow> bool) \<Rightarrow> (u16 \<rightharpoonup> packet) \<Rightarrow> (u16 \<rightharpoonup> packet)" where
  "drop_keys P m = (\<lambda>k. if P k then None else m k)"

lemma key_off_value: "key_off (sn_base a) (sn_value a) = sn_off a"
  by (simp add: key_off_def sn_off_def)

lemma key_off_inj:
  assumes "k < 1024" "k' < 1024" "key_off b k = key_off b k'"
  shows "k = k'"
proof -
  have "uint k mod 1024 = uint k' mod 1024"
    using assms(3) unfolding key_off_def by (metis diff_add_cancel mod_add_cong)
  then show ?thesis
    using assms(1,2) by (simp add: u16_less_1024 uint_eq_iff16)
qed

lemma sn_off_inc:
  assumes "sn_wf a" "sn_off a < 1023"
  shows "sn_off (sn_inc a) = sn_off a + 1"
proof -
  have "sn_off (sn_inc a) = ((sn_num a + 1) mod 1024 - uint (sn_base a)) mod 1024"
    unfolding sn_off_def using sn_num_inc [of a] by (simp add: sn_num_def)
  also have "\<dots> = ((sn_num a - uint (sn_base a)) mod 1024 + 1) mod 1024"
    by (simp add: mod_simps algebra_simps)
  also have "\<dots> = (sn_off a + 1) mod 1024"
    by (simp add: sn_off_def sn_num_def)
  finally show ?thesis
    using assms sn_off_bounds [of a] by simp
qed

text \<open>
  The contract of the reassembly function: it takes any PDU that can be taken apart, keeps
  the reassembly invariant and touches nothing of the window.
\<close>

locale reassembler =
  fixes reas :: "packet \<Rightarrow> um \<Rightarrow> um res"
  assumes reas_ok: "pdu_ok p \<Longrightarrow> rs_inv u \<Longrightarrow> sn_wf (um_expectedSeqNumber u) \<Longrightarrow>
    \<exists>u'. reas p u = Inr u' \<and> rs_inv u' \<and> rs_frame u u' \<and> sn_wf (um_expectedSeqNumber u')"
begin

lemma reas_buf:
  assumes "pdu_ok p" "rx_buf_inv u"
  obtains u' where "reas p u = Inr u'" "rx_buf_inv u'" "rs_frame u u'"
proof -
  have "rs_inv u" "sn_wf (um_expectedSeqNumber u)"
    using assms(2) by (simp_all add: rx_buf_inv_def)
  then obtain u' where "reas p u = Inr u'" "rs_inv u'" "rs_frame u u'" "sn_wf (um_expectedSeqNumber u')"
    using reas_ok [OF assms(1)] by blast
  then show ?thesis
    using that rs_frame_buf_inv [OF _ assms(2)] by blast
qed

lemma outside_loop_ok:
  "rx_buf_inv u \<Longrightarrow> um_rxBuffer u = m \<Longrightarrow> sn_wf (um_vrUh u) \<Longrightarrow>
   \<exists>u'. outside_loop reas m u = Inr u' \<and> rx_buf_inv u' \<and> loop_frame u u' \<and>
     sn_wf (um_vrUh u') \<and>
     um_rxBuffer u' = dropWhile (\<lambda>(k, _). \<not> in_window (SN10 k) u) m"
proof (induction m arbitrary: u)
  case (Cons e m)
  obtain k p where e: "e = (k, p)" by (cases e)
  have inside: "IsInsideReorderingWindow (SN10 k) u = Inr (in_window (SN10 k) u, um_set_vrUh_base u)"
    using Cons.prems by (intro IsInside_spec) simp_all
  have low: "sn_wf (um_vrUh (um_set_vrUh_base u))"
    using Cons.prems(3) by simp
  show ?case
  proof (cases "in_window (SN10 k) u")
    case True
    with inside Cons.prems low e show ?thesis by simp
  next
    case False
    have "pdu_ok p"
      using Cons.prems e by (auto simp: rx_buf_inv_def)
    then obtain v where v: "reas p (um_set_vrUh_base u) = Inr v" "rx_buf_inv v"
      "rs_frame (um_set_vrUh_base u) v"
      using Cons.prems(1) reas_buf [of p "um_set_vrUh_base u"] by auto
    define w where "w = v\<lparr>um_rxBuffer := map_erase k (um_rxBuffer v)\<rparr>"
    have rx: "um_rxBuffer w = m"
      using rs_frame_simps(1) [OF v(3)] Cons.prems(2) e by (simp add: w_def)
    have w: "rx_buf_inv w" "sn_wf (um_vrUh w)"
      using rx_buf_inv_erase [OF v(2), of k] low rs_frame_simps(4) [OF v(3)]
      by (simp_all add: w_def)
    have "loop_frame v w"
      by (simp add: w_def loop_frame_def rx_cfg_def)
    then have frame: "loop_frame u w"
      using rs_frame_loop_frame [OF v(3)] um_set_vrUh_base_sel(11) loop_frame_trans by blast
    obtain u' where "outside_loop reas m w = Inr u'" "rx_buf_inv u'" "loop_frame w u'"
      "sn_wf (um_vrUh u')" "um_rxBuffer u' = dropWhile (\<lambda>(k, _). \<not> in_window (SN10 k) w) m"
      using Cons.IH [OF w(1) rx w(2)] by blast
    then show ?thesis
      using inside False v(1) e loop_frame_trans [OF frame] in_window_cong [OF frame]
      by (simp add: w_def)
  qed
qed simp

lemma interval_loop_ok:
  assumes "rx_buf_inv u" "sn_wf cur" "sn_wf high" "sn_base cur = sn_base high"
    and "sn_off high - sn_off cur \<le> int fuel"
  shows "\<exists>u'. interval_loop fuel reas cur high u = Inr u' \<and> rx_buf_inv u' \<and> loop_frame u u' \<and>
    um_vrUh u' = um_vrUh u \<and>
    map_of (um_rxBuffer u') = drop_keys (\<lambda>k. k < 1024 \<and>
      sn_off cur \<le> key_off (sn_base cur) k \<and> key_off (sn_base cur) k < sn_off high) (map_of (um_rxBuffer u))"
  using assms
proof (induction fuel arbitrary: cur u)
  case 0
  then have "sn_lt cur high = Inr False"
    by (simp add: sn_lt_off)
  with 0 show ?case
    by (auto simp: interval_loop.simps [of 0] drop_keys_def fun_eq_iff)
next
  case (Suc fuel)
  have lt: "sn_lt cur high = Inr (sn_off cur < sn_off high)"
    using Suc.prems by (simp add: sn_lt_off)
  show ?case
  proof (cases "sn_off cur < sn_off high")
    case False
    with lt Suc.prems show ?thesis
      by (auto simp: interval_loop.simps [of "Suc fuel"] drop_keys_def fun_eq_iff)
  next
    case True
    let ?k = "sn_value cur"
    have k: "?k < 1024"
      using Suc.prems(2) by (simp add: sn_wf_def)
    have inc: "sn_off (sn_inc cur) = sn_off cur + 1"
      using True sn_off_bounds [of high] Suc.prems(2) by (intro sn_off_inc) simp_all
    have "\<exists>v. (case map_of (um_rxBuffer u) ?k of None \<Rightarrow> Inr u
        | Some p \<Rightarrow> rbind (reas p u) (\<lambda>u'. Inr (u'\<lparr>um_rxBuffer := map_erase ?k (um_rxBuffer u')\<rparr>)))
        = Inr v \<and> rx_buf_inv v \<and> loop_frame u v \<and> um_vrUh v = um_vrUh u \<and>
        map_of (um_rxBuffer v) = (map_of (um_rxBuffer u))(?k := None)"
    proof (cases "map_of (um_rxBuffer u) ?k")
      case None
      with Suc.prems(1) show ?thesis
        by (auto simp: fun_eq_iff)
    next
      case (Some p)
      obtain v where v: "reas p u = Inr v" "rx_buf_inv v" "rs_frame u v"
        using rx_buf_inv_lookup [OF Suc.prems(1) Some] Suc.prems(1) by (auto elim: reas_buf)
      have "map_wf (um_rxBuffer v)"
        using v(2) by (simp add: rx_buf_inv_def)
      then show ?thesis
        using Some v rx_buf_inv_erase [OF v(2), of ?k] rs_frame_simps [OF v(3)]
        by (auto simp: loop_frame_def map_of_erase rx_cfg_def)
    qed
    then obtain v where v: "(case map_of (um_rxBuffer u) ?k of None \<Rightarrow> Inr u
        | Some p \<Rightarrow> rbind (reas p u) (\<lambda>u'. Inr (u'\<lparr>um_rxBuffer := map_erase ?k (um_rxBuffer u')\<rparr>)))
        = Inr v" "rx_buf_inv v" "loop_frame u v" "um_vrUh v = um_vrUh u"
        "map_of (um_rxBuffer v) = (map_of (um_rxBuffer u))(?k := None)"
      by blast
    obtain u' where u': "interval_loop fuel reas (sn_inc cur) high v = Inr u'" "rx_buf_inv u'"
      "loop_frame v u'" "um_vrUh u' = um_vrUh v"
      "map_of (um_rxBuffer u') = drop_keys (\<lambda>k. k < 1024 \<and> sn_off cur + 1 \<le> key_off (sn_base cur) k \<and>
        key_off (sn_base cur) k < sn_off high) (map_of (um_rxBuffer v))"
      using Suc.IH [OF v(2), of "sn_inc cur"] Suc.prems inc by auto
    have split: "k < 1024 \<and> sn_off cur \<le> key_off (sn_base cur) k \<and> key_off (sn_base cur) k < sn_off high
        \<longleftrightarrow> k = ?k \<or> k < 1024 \<and> sn_off cur + 1 \<le> key_off (sn_base cur) k \<and>
          key_off (sn_base cur) k < sn_off high" for k
    proof -
      have "key_off (sn_base cur) k = sn_off cur \<longleftrightarrow> k = ?k" if "k < 1024"
        using key_off_inj [OF that k, of "sn_base cur"] key_off_value [of cur] by auto
      then show ?thesis
        using True k key_off_value [of cur] by force
    qed
    have "map_of (um_rxBuffer u') = drop_keys (\<lambda>k. k < 1024 \<and> sn_off cur \<le> key_off (sn_base cur) k \<and>
        key_off (sn_base cur) k < sn_off high) (map_of (um_rxBuffer u))"
      unfolding u'(5) v(5) split by (auto simp: drop_keys_def fun_eq_iff)
    moreover have "interval_loop (Suc fuel) reas cur high u = Inr u'"
      using lt True v(1) u'(1) by (simp add: interval_loop.simps [of "Suc fuel"])
    ultimately show ?thesis
      using u' v(4) loop_frame_trans [OF v(3) u'(3)] by simp
  qed
qed

end

text \<open>The scans for a missing sequence number end as long as one is missing.\<close>

lemma scan_sn_ok:
  "sn_wf a \<Longrightarrow> \<exists>j \<le> fuel. map_of m (sn_value ((sn_inc ^^ j) a)) = None \<Longrightarrow>
   \<exists>j b. scan_sn fuel m a = Inr b \<and> b = (sn_inc ^^ j) a \<and> map_of m (sn_value b) = None \<and>
     (\<forall>i < j. map_of m (sn_value ((sn_inc ^^ i) a)) \<noteq> None)"
proof (induction fuel arbitrary: a)
  case 0
  then show ?case
    by (auto simp: scan_sn.simps [of 0] intro!: exI [of _ 0])
next
  case (Suc fuel)
  show ?case
  proof (cases "map_of m (sn_value a)")
    case None
    then show ?thesis
      by (auto simp: scan_sn.simps [of "Suc fuel"] intro!: exI [of _ 0])
  next
    case (Some p)
    obtain j where j: "j \<le> Suc fuel" "map_of m (sn_value ((sn_inc ^^ j) a)) = None"
      using Suc.prems(2) by blast
    then obtain i where "j = Suc i"
      using Some by (cases j) auto
    then have "i \<le> fuel" "map_of m (sn_value ((sn_inc ^^ i) (sn_inc a))) = None"
      using j by (simp_all add: funpow_swap1)
    then obtain i' b where b: "scan_sn fuel m (sn_inc a) = Inr b" "b = (sn_inc ^^ i') (sn_inc a)"
      "map_of m (sn_value b) = None" "\<forall>l < i'. map_of m (sn_value ((sn_inc ^^ l) (sn_inc a))) \<noteq> None"
      using Suc.IH [of "sn_inc a"] Suc.prems(1) by auto
    have "scan_sn (Suc fuel) m a = Inr b"
      using Some b(1) by (simp add: scan_sn.simps [of "Suc fuel"])
    moreover have "\<forall>l < Suc i'. map_of m (sn_value ((sn_inc ^^ l) a)) \<noteq> None"
      using Some b(4) by (auto simp: less_Suc_eq_0_disj funpow_swap1)
    ultimately show ?thesis
      using b(2,3) by (auto intro!: exI [of _ "Suc i'"] simp: funpow_swap1)
  qed
qed

lemma sn_num_funpow: "sn_wf a \<Longrightarrow> sn_num ((sn_inc ^^ j) a) = (sn_num a + int j) mod 1024"
  by (induction j) (auto simp: mod_simps algebra_simps dest: sn_wf_num)

lemma sn_funpow_wf: "sn_wf a \<Longrightarrow> sn_wf ((sn_inc ^^ j) a)"
  by (induction j) simp_all

lemma sn_funpow_base: "sn_base ((sn_inc ^^ j) a) = sn_base a"
  by (induction j) simp_all

lemma of_nat_u16_inj:
  assumes "(of_nat i :: u16) = of_nat j" "i < 65536" "j < 65536"
  shows "i = j"
  using arg_cong [OF assms(1), of unat] unat_of_nat_u16 [OF assms(2)] unat_of_nat_u16 [OF assms(3)]
  by simp

lemma free_sn:
  assumes "map_wf m" "length m < 1024" "sn_wf a"
  shows "\<exists>j \<le> sn_fuel. map_of m (sn_value ((sn_inc ^^ j) a)) = None"
proof -
  define K where "K = (\<lambda>n. of_nat n :: u16) ` {0..<1024}"
  have "inj_on (\<lambda>n. of_nat n :: u16) {0..<1024}"
    by (rule inj_onI, erule of_nat_u16_inj) simp_all
  then have "card K = 1024"
    by (simp add: K_def card_image)
  then obtain k where k: "k \<in> K" "map_of m k = None"
    using smap.free_key [OF assms(1), of K] assms(2) by (auto simp: K_def)
  then obtain n where n: "n < 1024" "k = of_nat n"
    by (auto simp: K_def)
  have uk: "uint k = int n"
    using n by (simp add: uint_nat unat_of_nat_u16)
  define j where "j = nat ((int n - sn_num a) mod 1024)"
  have "j \<le> sn_fuel"
    by (simp add: j_def sn_fuel_def nat_le_iff less_imp_le)
  moreover have "sn_num ((sn_inc ^^ j) a) = int n"
    using n by (simp add: sn_num_funpow [OF assms(3)] j_def mod_simps)
  then have "sn_value ((sn_inc ^^ j) a) = k"
    using uk by (simp add: sn_num_def uint_eq_iff16)
  ultimately show ?thesis
    using k(2) by auto
qed

lemma scan_u16_ok:
  "\<exists>j \<le> fuel. \<not> map_count (x + of_nat j) m \<Longrightarrow>
   \<exists>j \<le> fuel. scan_u16 fuel m x = Inr (x + of_nat j) \<and> \<not> map_count (x + of_nat j) m \<and>
     (\<forall>i < j. map_count (x + of_nat i) m)"
proof (induction fuel arbitrary: x)
  case 0
  then show ?case
    by (simp add: scan_u16.simps [of 0])
next
  case (Suc fuel)
  show ?case
  proof (cases "map_count x m")
    case False
    then show ?thesis
      by (auto simp: scan_u16.simps [of "Suc fuel"] intro!: exI [of _ 0])
  next
    case True
    obtain j where j: "j \<le> Suc fuel" "\<not> map_count (x + of_nat j) m"
      using Suc.prems by blast
    then obtain i where "j = Suc i"
      using True by (cases j) auto
    then have "i \<le> fuel" "\<not> map_count (x + 1 + of_nat i) m"
      using j by (simp_all add: algebra_simps)
    then obtain i' where i': "i' \<le> fuel" "scan_u16 fuel m (x + 1) = Inr (x + 1 + of_nat i')"
      "\<not> map_count (x + 1 + of_nat i') m" "\<forall>l < i'. map_count (x + 1 + of_nat l) m"
      using Suc.IH [of "x + 1"] by blast
    then show ?thesis
      using True
      by (auto simp: scan_u16.simps [of "Suc fuel"] less_Suc_eq_0_disj algebra_simps
          intro!: exI [of _ "Suc i'"])
  qed
qed

lemma free_u16:
  assumes "map_wf m" "length m < 65535"
  shows "\<exists>j \<le> length m. \<not> map_count (x + of_nat j :: u16) m"
proof -
  define K where "K = (\<lambda>j. x + of_nat j :: u16) ` {0..length m}"
  have "inj_on (\<lambda>j. x + of_nat j :: u16) {0..length m}"
    using assms(2) by (intro inj_onI, elim add_left_imp_eq [THEN of_nat_u16_inj]) simp_all
  then have "card K = Suc (length m)"
    by (simp add: K_def card_image)
  then obtain k where "k \<in> K" "map_of m k = None"
    using smap.free_key [OF assms(1), of K] by (auto simp: K_def)
  then show ?thesis
    by (auto simp: K_def map_count_def)
qed

lemma rx_buf_length:
  assumes "rx_buf_inv u"
  shows "length (um_rxBuffer u) \<le> 1024"
proof -
  have "fst ` set (um_rxBuffer u) \<subseteq> {k. k < 1024}"
    using assms by (auto simp: rx_buf_inv_def)
  moreover have "{k :: u16. k < 1024} \<subseteq> (\<lambda>n. of_nat n) ` {0..<1024}"
  proof
    fix k :: u16 assume "k \<in> {k. k < 1024}"
    then show "k \<in> (\<lambda>n. of_nat n) ` {0..<1024}"
      by (intro image_eqI [of _ _ "unat k"]) (simp_all add: word_less_nat_alt)
  qed
  ultimately have "card (fst ` set (um_rxBuffer u)) \<le> card ((\<lambda>n. of_nat n :: u16) ` {0..<1024})"
    by (intro card_mono) auto
  also have "\<dots> \<le> 1024"
    using card_image_le [of "{0..<1024}" "\<lambda>n. of_nat n :: u16"] by simp
  finally show ?thesis
    using assms by (simp add: rx_buf_inv_def length_map_wf)
qed

section \<open>The handlers\<close>

lemma rx_set_all_bases_ok:
  assumes "rx_buf_inv u" "rx_sn_inv u"
  shows "rx_buf_inv (rx_set_all_bases u)" "rx_sn_inv (rx_set_all_bases u)"
    "rx_bases (rx_set_all_bases u)"
proof -
  let ?u1 = "u\<lparr>um_vrUr := SetModulusBase (um_vrUr u) (um_window_low u)\<rparr>"
  let ?u2 = "?u1\<lparr>um_vrUx := SetModulusBase (um_vrUx u) (um_window_low u)\<rparr>"
  have low: "um_window_low ?u1 = um_window_low u" "um_window_low ?u2 = um_window_low u"
    by (simp_all add: um_window_low_def)
  then have eq: "rx_set_all_bases u
      = ?u2\<lparr>um_vrUh := SetModulusBase (um_vrUh u) (um_window_low u)\<rparr>"
    by (simp add: rx_set_all_bases_def)
  have "sn_value (um_window_low (rx_set_all_bases u)) = sn_value (um_window_low u)"
    by (rule window_low_cong) (simp_all add: eq)
  then show "rx_bases (rx_set_all_bases u)"
    by (simp add: rx_bases_def) (simp add: eq)
  show "rx_buf_inv (rx_set_all_bases u)" "rx_sn_inv (rx_set_all_bases u)"
    using assms by (simp_all add: eq rx_buf_inv_def rx_sn_inv_def rs_inv_def)
qed

lemma rx_bases_set_vrUh:
  assumes "rx_bases u"
  shows "um_set_vrUh_base u = u"
  using assms by (simp add: um_set_vrUh_base_def rx_bases_def SetModulusBase_def)

lemma um_timer_update_inv:
  "rx_buf_inv (u\<lparr>um_reorderingTimer := t\<rparr>) = rx_buf_inv u"
  "rx_sn_inv (u\<lparr>um_reorderingTimer := t\<rparr>) = rx_sn_inv u"
  "rx_bases (u\<lparr>um_reorderingTimer := t\<rparr>) = rx_bases u"
  by (simp_all add: rx_buf_inv_def rx_sn_inv_def rx_bases_def rs_inv_def um_window_low_def)

lemma rx_stop_ok:
  assumes "rx_buf_inv u" "rx_sn_inv u" "rx_bases u"
  shows "\<exists>t. rx_stop_reordering u = Inr (u\<lparr>um_reorderingTimer := t\<rparr>)"
proof -
  have self: "\<exists>t. Inr u = (Inr (u\<lparr>um_reorderingTimer := t\<rparr>) :: um res)"
    by (rule exI [of _ "um_reorderingTimer u"]) simp
  have stopped: "\<exists>t. u\<lparr>um_reorderingTimer := None\<rparr> = u\<lparr>um_reorderingTimer := t\<rparr>"
    by blast
  have inside: "IsInsideReorderingWindow (um_vrUx u) u = Inr (in_window (um_vrUx u) u, u)"
    using IsInside_spec [of "um_vrUx u" u] rx_bases_set_vrUh [OF assms(3)] assms(2)
    by (simp add: rx_sn_inv_def)
  obtain b where le: "sn_le (um_vrUx u) (um_vrUr u) = Inr b"
    using assms(2,3) by (simp add: sn_le_off rx_sn_inv_def rx_bases_def)
  show ?thesis
    unfolding rx_stop_reordering_def le inside using self stopped by simp
qed

lemma rx_restart_ok:
  assumes "rx_buf_inv u" "rx_sn_inv u" "rx_bases u"
  shows "\<exists>u'. um_restart_reordering now u = Inr u' \<and> rx_buf_inv u' \<and> rx_sn_inv u' \<and> rx_bases u' \<and>
    (um_reorderingTimer u = None \<longrightarrow> um_reorderingTimer u' = None \<longrightarrow>
      sn_gt (um_vrUh u') (um_vrUr u') = Inr False) \<and>
    um_rxBuffer u' = um_rxBuffer u \<and> um_out u' = um_out u \<and> rx_cfg u' = rx_cfg u"
proof -
  have gt: "sn_gt (um_vrUh u) (um_vrUr u) = Inr (sn_off (um_vrUr u) < sn_off (um_vrUh u))"
    using assms(2,3) by (simp add: sn_gt_off rx_sn_inv_def rx_bases_def)
  show ?thesis
    using assms unfolding um_restart_reordering_def gt
    by (auto simp: gt rx_cfg_def rx_buf_inv_def rx_sn_inv_def rx_bases_def rs_inv_def um_window_low_def)
qed

lemma rx_timer_ok:
  assumes "rx_buf_inv u" "rx_sn_inv u"
  shows "\<exists>u'. rx_timer now u = Inr u' \<and> rx_inv u' \<and> rx_cfg u' = rx_cfg u \<and>
    (um_reorderingTimer u' = None \<longrightarrow> sn_gt (um_vrUh u') (um_vrUr u') = Inr False)"
proof -
  note b = rx_set_all_bases_ok [OF assms]
  obtain t where t: "rx_stop_reordering (rx_set_all_bases u)
      = Inr ((rx_set_all_bases u)\<lparr>um_reorderingTimer := t\<rparr>)"
    using rx_stop_ok [OF b] by blast
  let ?v = "(rx_set_all_bases u)\<lparr>um_reorderingTimer := t\<rparr>"
  have v: "rx_buf_inv ?v" "rx_sn_inv ?v" "rx_bases ?v"
    using b by (simp_all only: um_timer_update_inv)
  have cfg: "rx_cfg ?v = rx_cfg u"
    by (simp add: rx_cfg_def rx_set_all_bases_def Let_def)
  show ?thesis
  proof (cases t)
    case None
    with rx_restart_ok [OF v, of now] t cfg show ?thesis
      by (auto simp: rx_timer_def rx_inv_def)
  next
    case (Some x)
    with t v cfg show ?thesis
      by (auto simp: rx_timer_def rx_inv_def)
  qed
qed

context reassembler
begin

lemma move_window_ok:
  assumes "rx_buf_inv u" "rx_sn_inv u" "sn_wf s"
  shows "\<exists>u'. rx_move_window (\<lambda>u. outside_loop reas (um_rxBuffer u) u) s u = Inr u' \<and>
    rx_buf_inv u' \<and> rx_sn_inv u' \<and> rx_cfg u' = rx_cfg u"
proof -
  let ?v = "um_set_vrUh_base u"
  have i: "IsInsideReorderingWindow s u = Inr (in_window s u, ?v)"
    using assms by (intro IsInside_spec) (simp_all add: rx_sn_inv_def)
  have v: "rx_buf_inv ?v" "rx_sn_inv ?v"
    using assms by (simp_all add: rx_sn_inv_def)
  have cfg: "rx_cfg (um_set_vrUh_base x) = rx_cfg x" for x
    by (simp add: rx_cfg_def um_set_vrUh_base_def)
  show ?thesis
  proof (cases "in_window s u")
    case True
    with i v cfg show ?thesis by (simp add: rx_move_window_def)
  next
    case False
    let ?w = "?v\<lparr>um_vrUh := sn_add s 1\<rparr>"
    have w: "rx_buf_inv ?w" "rx_sn_inv ?w"
      using v assms(3) by (simp_all add: rx_buf_inv_def rx_sn_inv_def rs_inv_def)
    then obtain u1 where u1: "outside_loop reas (um_rxBuffer ?w) ?w = Inr u1" "rx_buf_inv u1"
      "loop_frame ?w u1" "sn_wf (um_vrUh u1)"
      using outside_loop_ok [OF w(1) refl] by (auto simp: rx_sn_inv_def)
    then have sn1: "rx_sn_inv u1"
      using w(2) by (auto simp: rx_sn_inv_def loop_frame_def)
    have "IsInsideReorderingWindow (um_vrUr u1) u1
        = Inr (in_window (um_vrUr u1) u1, um_set_vrUh_base u1)"
      using sn1 by (intro IsInside_spec) (simp_all add: rx_sn_inv_def)
    with i False u1(1) have "rx_move_window (\<lambda>u. outside_loop reas (um_rxBuffer u) u) s u
        = Inr (if in_window (um_vrUr u1) u1 then um_set_vrUh_base u1
               else (um_set_vrUh_base u1)\<lparr>um_vrUr := um_window_low (um_set_vrUh_base u1)\<rparr>)"
      by (simp add: rx_move_window_def)
    moreover have "rx_buf_inv (um_set_vrUh_base u1)" "rx_sn_inv (um_set_vrUh_base u1)"
      using u1(2) sn1 by (simp_all add: rx_sn_inv_def)
    moreover have "rx_cfg (um_set_vrUh_base u1) = rx_cfg u"
      using u1(3) cfg [of u] cfg [of u1] by (simp add: loop_frame_def) (simp add: rx_cfg_def)
    ultimately show ?thesis
      by (auto simp: rx_buf_inv_def rx_sn_inv_def rs_inv_def rx_cfg_def)
  qed
qed

lemma advance_ok:
  assumes "rx_buf_inv u" "rx_sn_inv u"
  shows "\<exists>u'. rx_advance (interval_loop sn_fuel reas) u = Inr u' \<and> rx_buf_inv u' \<and> rx_sn_inv u' \<and>
    rx_cfg u' = rx_cfg u"
proof (cases "map_count (sn_value (um_vrUr u)) (um_rxBuffer u)")
  case False
  with assms show ?thesis by (simp add: rx_advance_def)
next
  case True
  have "length (um_rxBuffer u) < 65535" "map_wf (um_rxBuffer u)"
    using rx_buf_length [OF assms(1)] assms(1) by (simp_all add: rx_buf_inv_def)
  then obtain x where x: "scan_u16 (length (um_rxBuffer u)) (um_rxBuffer u) (sn_value (um_vrUr u) + 1)
      = Inr x"
    using scan_u16_ok [OF free_u16] by blast
  let ?high = "sn_assign (um_vrUr u) x"
  let ?v = "u\<lparr>um_vrUr := ?high\<rparr>"
  have v: "rx_buf_inv ?v" "rx_sn_inv ?v"
    using assms by (simp_all add: rx_buf_inv_def rx_sn_inv_def rs_inv_def)
  have wf: "sn_wf (um_vrUr u)"
    using assms(2) by (simp add: rx_sn_inv_def)
  have "sn_off ?high - sn_off (um_vrUr u) \<le> int sn_fuel"
    using sn_off_bounds [of ?high] sn_off_bounds [of "um_vrUr u"] by (simp add: sn_fuel_def)
  then obtain u' where "interval_loop sn_fuel reas (um_vrUr u) ?high ?v = Inr u'" "rx_buf_inv u'"
    "loop_frame ?v u'" "um_vrUh u' = um_vrUh ?v"
    using interval_loop_ok [OF v(1) wf, of ?high] wf by auto
  with True x v(2) show ?thesis
    by (auto simp: rx_advance_def Let_def rx_sn_inv_def loop_frame_def rx_cfg_def)
qed

lemma place_ok:
  assumes "rx_buf_inv u" "rx_sn_inv u" "sn_wf s" "pdu_ok p"
  shows "\<exists>u'. rx_place (\<lambda>u. outside_loop reas (um_rxBuffer u) u) (interval_loop sn_fuel reas) now s p u
      = Inr u' \<and> rx_inv u' \<and> rx_cfg u' = rx_cfg u \<and>
    (um_reorderingTimer u' = None \<longrightarrow> sn_gt (um_vrUh u') (um_vrUr u') = Inr False)"
proof -
  let ?u = "u\<lparr>um_rxBuffer := map_put (sn_value s) p (um_rxBuffer u)\<rparr>"
  have "rx_buf_inv ?u" "rx_sn_inv ?u"
    using assms rx_buf_inv_put [OF assms(1), of "sn_value s" p]
    by (simp_all add: sn_wf_def rx_sn_inv_def)
  then obtain u1 where u1: "rx_move_window (\<lambda>u. outside_loop reas (um_rxBuffer u) u) s ?u = Inr u1"
    "rx_buf_inv u1" "rx_sn_inv u1" "rx_cfg u1 = rx_cfg ?u"
    using move_window_ok assms(3) by blast
  then obtain u2 where u2: "rx_advance (interval_loop sn_fuel reas) u1 = Inr u2" "rx_buf_inv u2" "rx_sn_inv u2"
    "rx_cfg u2 = rx_cfg u1"
    using advance_ok by blast
  with rx_timer_ok [OF u2(2,3), of now] u1 show ?thesis
    by (auto simp: rx_place_def) (simp_all add: rx_cfg_def)
qed

lemma expire_ok:
  assumes inv: "rx_inv u" and running: "um_reorderingTimer u \<noteq> None"
    and free: "length (um_rxBuffer u) < 1024"
  shows "\<exists>v u'. scan_sn sn_fuel (um_rxBuffer u) (um_vrUx u) = Inr v \<and>
    rbind (interval_loop sn_fuel reas (um_vrUr u) v (u\<lparr>um_reorderingTimer := None, um_vrUr := v\<rparr>))
      (um_restart_reordering now) = Inr u' \<and> rx_inv u' \<and> rx_cfg u' = rx_cfg u \<and>
    (um_reorderingTimer u' = None \<longrightarrow> sn_gt (um_vrUh u') (um_vrUr u') = Inr False)"
proof -
  have u: "rx_buf_inv u" "rx_sn_inv u" "rx_bases u"
    using inv running by (simp_all add: rx_inv_def)
  have wf: "sn_wf (um_vrUr u)" "sn_wf (um_vrUx u)" "map_wf (um_rxBuffer u)"
    using u by (simp_all add: rx_sn_inv_def rx_buf_inv_def)
  obtain j v where v: "scan_sn sn_fuel (um_rxBuffer u) (um_vrUx u) = Inr v" "v = (sn_inc ^^ j) (um_vrUx u)"
    using scan_sn_ok [OF wf(2) free_sn [OF wf(3) free wf(2)]] by blast
  have wfv: "sn_wf v" "sn_base v = sn_base (um_vrUx u)"
    using wf(2) by (simp_all add: v(2) sn_funpow_wf sn_funpow_base)
  let ?w = "u\<lparr>um_reorderingTimer := None, um_vrUr := v\<rparr>"
  have w: "rx_buf_inv ?w" "rx_sn_inv ?w" "rx_bases ?w"
    using u wfv by (simp_all add: rx_buf_inv_def rx_sn_inv_def rs_inv_def rx_bases_def um_window_low_def)
  have "sn_base (um_vrUr u) = sn_base v"
    using u(3) wfv by (simp add: rx_bases_def)
  moreover have "sn_off v - sn_off (um_vrUr u) \<le> int sn_fuel"
    using sn_off_bounds [of v] sn_off_bounds [of "um_vrUr u"] by (simp add: sn_fuel_def)
  ultimately obtain u1 where u1: "interval_loop sn_fuel reas (um_vrUr u) v ?w = Inr u1" "rx_buf_inv u1"
    "loop_frame ?w u1" "um_vrUh u1 = um_vrUh ?w"
    using interval_loop_ok [OF w(1) wf(1) wfv(1)] by blast
  have "rx_sn_inv u1" "rx_bases u1" "um_reorderingTimer u1 = None" "rx_cfg u1 = rx_cfg u"
    using w u1(3,4) by (auto simp: rx_sn_inv_def rx_bases_def loop_frame_def um_window_low_def rx_cfg_def)
  with rx_restart_ok [OF u1(2), of now] u1(1) v(1) show ?thesis
    by (auto simp: rx_inv_def)
qed

text \<open>Reception as a whole, after the header has been read.\<close>

lemma receive_ok:
  assumes inv: "rx_inv u" and sn: "sn_wf sn" and ok: "pdu_ok p"
  shows "\<exists>d u'. rx_discard (SetModulusBase sn (um_window_low (rx_set_bases u))) (rx_set_bases u) = Inr d \<and>
    (if d then Inr (rx_set_bases u)
     else rx_place (\<lambda>u. outside_loop reas (um_rxBuffer u) u) (interval_loop sn_fuel reas) now
       (SetModulusBase sn (um_window_low (rx_set_bases u))) p (rx_set_bases u)) = Inr u' \<and>
    rx_inv u' \<and> rx_cfg u' = rx_cfg u \<and>
    (\<not> d \<longrightarrow> um_reorderingTimer u' = None \<longrightarrow> sn_gt (um_vrUh u') (um_vrUr u') = Inr False)"
proof -
  let ?v = "rx_set_bases u"
  let ?s = "SetModulusBase sn (um_window_low ?v)"
  have eq: "um_vrUr ?v = SetModulusBase (um_vrUr u) (um_window_low u)"
    "um_vrUh ?v = SetModulusBase (um_vrUh u) (um_window_low u)" "um_vrUx ?v = um_vrUx u"
    "um_windowSize ?v = um_windowSize u" "um_reorderingTimer ?v = um_reorderingTimer u"
    by (simp_all add: rx_set_bases_def Let_def um_window_low_def)
  have low: "sn_value (um_window_low ?v) = sn_value (um_window_low u)"
    by (rule window_low_cong) (simp_all add: eq)
  have v: "rx_buf_inv ?v" "rx_sn_inv ?v"
    using inv by (simp_all add: rx_inv_def rx_sn_inv_def eq)
      (simp add: rx_buf_inv_def rs_inv_def rx_set_bases_def Let_def)
  have bases: "um_reorderingTimer ?v \<noteq> None \<longrightarrow> rx_bases ?v"
    using inv by (simp add: rx_inv_def rx_bases_def low eq)
  have cfg: "rx_cfg ?v = rx_cfg u"
    by (simp add: rx_cfg_def rx_set_bases_def Let_def)
  have wf: "sn_wf ?s" "sn_wf (um_vrUr ?v)" "sn_wf (um_vrUh ?v)" "sn_wf (um_window_low ?v)"
    using v sn by (simp_all add: rx_sn_inv_def)
  have base: "sn_base ?s = sn_base (um_vrUr ?v)" "sn_base ?s = sn_base (um_vrUh ?v)"
    "sn_base ?s = sn_base (um_window_low ?v)"
    using low by (simp_all add: eq)
  obtain d where d: "rx_discard ?s ?v = Inr d"
    using wf base by (simp add: rx_discard_def sn_lt_off sn_le_off)
  show ?thesis
  proof (cases d)
    case True
    with d v bases cfg show ?thesis
      by (auto simp: rx_inv_def)
  next
    case False
    with d place_ok [OF v wf(1) ok, of now] cfg show ?thesis
      by auto
  qed
qed

end

interpretation lte_reas: reassembler ReassembleAndDeliver
  by unfold_locales (use lte_user.reassemble_ok in \<open>unfold ReassembleAndDeliver_def, blast\<close>)

interpretation nrsl_reas: reassembler NrSlReassembleAndDeliver
  by unfold_locales (use nrsl_user.reassemble_ok in \<open>unfold NrSlReassembleAndDeliver_eq, blast\<close>)

lemmas lte_loops = ReassembleOutsideWindow_def [abs_def] ReassembleSnInterval_def [abs_def]
lemmas nrsl_loops = NrSlReassembleOutsideWindow_def [abs_def] NrSlReassembleSnInterval_def [abs_def]

lemma rx_inv_trace: "rx_inv (rx_trace now ts p u) = rx_inv u" "rx_cfg (rx_trace now ts p u) = rx_cfg u"
  by (simp_all add: rx_trace_def um_emit_def rx_inv_def rx_buf_inv_def rx_sn_inv_def rs_inv_def
      rx_bases_def um_window_low_def rx_cfg_def)

lemma pdu_ok_peek:
  assumes "pdu_ok p"
  obtains h where "Packet_PeekHeader (rlc_Deserialize LteRlcHeader) p = Inr h"
    "sn_wf (rh_sequenceNumber h)" "sn_base (rh_sequenceNumber h) = 0" "pdu_sn p = rh_sequenceNumber h"
  using assms rlc_Deserialize_sel
  by (auto simp: pdu_ok_def Packet_PeekHeader_def pdu_sn_def pdu_header_of_def split: sum.splits)

text \<open>
  The invariant of a receiving entity.  Before the first sidelink PDU the timer is not running.
\<close>

definition um_rx_inv :: "um \<Rightarrow> bool" where
  "um_rx_inv u \<longleftrightarrow> rx_inv u \<and>
     (um_channelType u = STCH \<and> \<not> um_firstPduRxed u \<longrightarrow> um_reorderingTimer u = None)"

lemma rx_first_pdu_inv:
  assumes "um_rx_inv u" "sn_wf s"
  shows "rx_inv (rx_first_pdu s u)"
    "um_channelType (rx_first_pdu s u) = STCH \<longrightarrow> um_firstPduRxed (rx_first_pdu s u)"
  using assms
  by (auto simp: rx_first_pdu_def um_rx_inv_def rx_inv_def rx_buf_inv_def rx_sn_inv_def rs_inv_def)

end
