(* ===== verification/LteRlcUmLink.thy ===== *)
theory LteRlcUmLink
  imports LteRlcUmTx LteRlcUmSafety
begin

text \<open>
  A transmitter and a receiver joined: the PDUs of a sidelink logical channel reach the
  receiver in order.  The receiver delivers the SDUs the transmitter accepted, in order and
  without loss, duplication or change, up to what is still in the transmission buffer.
\<close>

section \<open>What the receiver reads in a PDU\<close>

lemma split_bytes_concat:
  "segs \<noteq> [] \<Longrightarrow> \<forall>x \<in> set (butlast segs). length (snd x) \<le> 2047 \<Longrightarrow>
   split_bytes (seg_lis segs) (concat (map snd segs)) = map snd segs"
proof (induction segs)
  case (Cons x segs)
  show ?case
  proof (cases "segs = []")
    case True
    then show ?thesis by (simp add: seg_lis_def)
  next
    case False
    then have "length (snd x) \<le> 2047"
      using Cons.prems by simp
    then have "unat (of_nat (length (snd x)) :: u16) = length (snd x)"
      by (simp add: unat_of_nat_u16)
    with False Cons show ?thesis
      by (simp add: seg_lis_def)
  qed
qed simp

lemma sum_seg_lis:
  assumes "\<forall>x \<in> set (butlast segs). length (snd x) \<le> 2047"
  shows "sum_list (map unat (seg_lis segs)) \<le> length (concat (map snd segs))"
proof -
  have "sum_list (map unat (seg_lis segs)) = items_bytes (butlast segs)"
    unfolding seg_lis_def items_bytes_def map_map
    by (rule arg_cong [where f = sum_list], rule map_cong [OF refl])
      (use assms in \<open>auto intro!: unat_of_nat_u16 dest!: bspec\<close>)
  also have "\<dots> \<le> items_bytes segs"
    by (cases segs rule: rev_cases) simp_all
  finally show ?thesis
    by (simp add: items_bytes_def length_concat comp_def)
qed

lemma pdu_carries_parse:
  assumes c: "pdu_carries p sn segs" and segs: "cut_items n 0 C = (segs, rest)" "C \<noteq> []"
  shows "pdu_ok p" "pdu_header_of p = pdu_header sn segs" "pdu_fields p = map snd segs"
    "Packet_PeekHeader (rlc_Deserialize LteRlcHeader) p = Inr (pdu_header sn segs)"
proof -
  obtain bs where bs: "rlc_Serialize (pdu_header sn segs) = Inr bs"
    "pk_bytes p = bs @ concat (map snd segs)" and wf: "rlc_header_wf (pdu_header sn segs)"
    using c by (auto simp: pdu_carries_def)
  note d = rlc_codec.deserialize_serialize [OF wf bs(1), of "concat (map snd segs)", folded bs(2)]
  have len: "length bs = unat (rlc_GetSerializedSize (pdu_header sn segs))"
    using rlc_Serialize_ok [OF wf] bs(1) by simp
  have fit: "\<forall>x \<in> set (butlast segs). length (snd x) \<le> 2047"
    using cut_items_fit [OF segs(1)] by simp
  have "segs \<noteq> []"
    using cut_items_Nil_iff [OF segs(1)] segs(2) by simp
  then show "pdu_fields p = map snd segs"
    using d len split_bytes_concat [OF _ fit] bs(2) by (simp add: pdu_fields_def pdu_header_def)
  show "pdu_header_of p = pdu_header sn segs"
    using d by (simp add: pdu_header_of_def)
  show "Packet_PeekHeader (rlc_Deserialize LteRlcHeader) p = Inr (pdu_header sn segs)"
    using d by (simp add: Packet_PeekHeader_def)
  show "pdu_ok p"
    using d len sum_seg_lis [OF fit] bs(2) by (simp add: pdu_ok_def pdu_header_def)
qed

lemma framing_of_starts:
  "framing_of segs = 0 \<or> framing_of segs = 1 \<longleftrightarrow> starts_sdu (fst (hd segs))"
  "framing_of segs = 0 \<or> framing_of segs = 2 \<longleftrightarrow> ends_sdu (fst (last segs))"
  by (simp_all add: framing_of_def rlc_header_consts)

section \<open>Segments and reassembly\<close>

lemma cut_items_shape:
  assumes "cut_items n k C = (segs, rest)"
  shows "segs @ rest = C \<or>
    (\<exists>pre s b post m. C = pre @ (s, b) # post \<and> segs = pre @ [(split_status s, take m b)] \<and>
       rest = (Some LAST_SEGMENT, drop m b) # post \<and> m < length b)"
  using assms
proof (induction n k C arbitrary: segs rest rule: cut_items.induct)
  case (2 n k s b C)
  show ?case
  proof (cases "length b > n \<or> length b > 2047 \<or> n - length b \<le> 2 \<or> C = []")
    case True
    with 2 show ?thesis
      by (cases "length b > n") (auto intro!: exI [of _ "[]"] split: if_splits)
  next
    case False
    obtain m segs' where m: "m = n - length b - (if even k then 2 else 1)" "0 < m"
      "cut_items m (Suc k) C = (segs', rest)" "segs = (s, b) # segs'"
      using cut_items_more [OF 2(2) False] .
    consider "segs' @ rest = C" | pre s' b' post m' where "C = pre @ (s', b') # post"
      "segs' = pre @ [(split_status s', take m' b')]" "rest = (Some LAST_SEGMENT, drop m' b') # post"
      "m' < length b'"
      using 2(1) [OF _ _ m(3) [unfolded m(1)]] False m(1,2) by (simp, blast)
    then show ?thesis
    proof cases
      case 2
      then have "(s, b) # C = ((s, b) # pre) @ (s', b') # post"
        "segs = ((s, b) # pre) @ [(split_status s', take m' b')]"
        using m(4) by simp_all
      with 2(3,4) show ?thesis by blast
    qed (use m(4) in simp)
  qed
qed simp

text \<open>The SDUs that are still to come, given the part the receiver keeps.\<close>

definition pending :: "u8 list option \<Rightarrow> item list \<Rightarrow> u8 list list" where
  "pending kept C = (case kept of None \<Rightarrow> map snd C
     | Some k \<Rightarrow> (k @ snd (hd C)) # map snd (tl C))"

definition in_phase :: "u8 list option \<Rightarrow> item list \<Rightarrow> bool" where
  "in_phase kept C = (case kept of None \<Rightarrow> C = [] \<or> fst (hd C) = Some FULL_SDU
     | Some k \<Rightarrow> C \<noteq> [] \<and> fst (hd C) = Some LAST_SEGMENT)"

lemma in_phase_starts:
  assumes "in_phase kept C" "cut_items n k C = (segs, rest)" "C \<noteq> []"
  shows "starts_sdu (fst (hd segs)) \<longleftrightarrow> kept = None"
proof -
  obtain s b C' where C: "C = (s, b) # C'"
    using assms(3) by (cases C) auto
  then have "fst (hd segs) = s \<or> fst (hd segs) = split_status s"
    using assms(2) by (auto split: if_splits prod.splits)
  with assms(1) C show ?thesis
    by (auto simp: in_phase_def starts_sdu_def split_status_def sdu_status_consts split: option.splits)
qed

lemma reasm_pending:
  assumes phase: "in_phase kept C" and ok: "tx_items_ok C" "C \<noteq> []"
    and segs: "cut_items n k C = (segs, rest)"
    and r: "reasm False (starts_sdu (fst (hd segs))) (ends_sdu (fst (last segs))) (map snd segs) kept
      = (del, kept')"
  shows "pending kept C = del @ pending kept' rest" "in_phase kept' rest"
proof -
  note st = in_phase_starts [OF phase segs ok(2)]
  have "segs \<noteq> []"
    using cut_items_Nil_iff [OF segs] ok(2) by simp
  then obtain x xs where x: "segs = x # xs" by (cases segs) auto
  have "(pending kept C = del @ pending kept' rest) \<and> in_phase kept' rest"
    using cut_items_shape [OF segs]
  proof (elim disjE exE conjE)
    assume eq: "segs @ rest = C"
    have full: "\<forall>y \<in> set (xs @ rest). fst y = Some FULL_SDU"
      using ok(1) eq x by (auto simp: tx_items_ok_def)
    have "fst x = Some FULL_SDU \<or> fst x = Some LAST_SEGMENT"
      using ok eq x by (auto simp: tx_items_ok_def)
    then have ends: "ends_sdu (fst (last segs))"
      using full x by (cases xs rule: rev_cases) (auto simp: ends_sdu_def)
    have ph: "in_phase None rest"
      using full by (cases rest) (auto simp: in_phase_def)
    show ?thesis
      using r st ends x ph eq [symmetric]
      by (cases kept) (auto simp: reasm_def reasm_finish_def pending_def)
  next
    fix pre s b post m
    assume eq: "C = pre @ (s, b) # post" "segs = pre @ [(split_status s, take m b)]"
      "rest = (Some LAST_SEGMENT, drop m b) # post" "m < length b"
    have ends: "\<not> ends_sdu (fst (last segs))"
      using eq(2) by (simp add: ends_sdu_def split_status_def sdu_status_consts)
    show ?thesis
      using r st ends eq
      by (cases kept; cases pre)
        (auto simp: reasm_def reasm_finish_def pending_def in_phase_def butlast_append)
  qed
  then show "pending kept C = del @ pending kept' rest" "in_phase kept' rest"
    by simp_all
qed

section \<open>Reception in order\<close>

text \<open>The components of the state that reassembly works on.\<close>

definition rs_view where
  "rs_view u = (um_out u, um_sdusBuffer u, um_reassemblingState u, um_keepS0 u, um_expectedSeqNumber u)"

lemma rs_view_eqD:
  assumes "rs_view u = rs_view v"
  shows "um_out u = um_out v" "um_sdusBuffer u = um_sdusBuffer v" "kept_of u = kept_of v"
    "rs_inv u = rs_inv v" "um_expectedSeqNumber u = um_expectedSeqNumber v"
  using assms by (simp_all add: rs_view_def kept_of_def rs_inv_def)

lemma rs_view_set_base [simp]: "rs_view (um_set_vrUh_base u) = rs_view u"
  by (simp add: rs_view_def um_set_vrUh_base_def)

text \<open>Nothing is missing: the next PDU expected is the highest seen plus one.\<close>

definition rx_sync :: "int \<Rightarrow> um \<Rightarrow> bool" where
  "rx_sync n u \<longleftrightarrow> rx_buf_inv u \<and> rx_sn_inv u \<and> um_rxBuffer u = [] \<and>
     um_reorderingTimer u = None \<and> sn_num (um_vrUr u) = n \<and> sn_num (um_vrUh u) = n \<and>
     0 < uint (um_windowSize u) \<and> uint (um_windowSize u) \<le> 512"

lemma in_window_num:
  assumes "uint (um_windowSize u) \<le> 512" "sn_num s = n" "sn_num (um_vrUh u) = (n + d) mod 1024"
    "0 \<le> d" "d \<le> uint (um_windowSize u)"
  shows "in_window s u \<longleftrightarrow> 0 < d"
proof -
  have "(sn_num s - (sn_num (um_vrUh u) - uint (um_windowSize u))) mod 1024
      = (uint (um_windowSize u) - d) mod 1024"
    using assms(2,3) by (simp add: mod_simps algebra_simps)
  also have "\<dots> = uint (um_windowSize u) - d"
    using assms by simp
  finally show ?thesis
    using assms by (simp add: in_window_def)
qed

context reassembler
begin

lemma move_window_in_order:
  assumes sync: "rx_sync n u0" and u: "u = u0\<lparr>um_rxBuffer := [(k, p)]\<rparr>"
    and s: "sn_wf s" "sn_num s = n" "uint k = n"
  shows "\<exists>u'. rx_move_window (\<lambda>u. outside_loop reas (um_rxBuffer u) u) s u = Inr u' \<and>
    um_rxBuffer u' = [(k, p)] \<and> um_vrUr u' = um_vrUr u \<and> um_vrUx u' = um_vrUx u \<and>
    sn_num (um_vrUh u') = (n + 1) mod 1024 \<and> sn_wf (um_vrUh u') \<and>
    um_windowSize u' = um_windowSize u \<and> um_reorderingTimer u' = None \<and> rs_view u' = rs_view u0 \<and>
    um_channelType u' = um_channelType u \<and> um_firstPduRxed u' = um_firstPduRxed u"
proof -
  let ?w = "(um_set_vrUh_base u)\<lparr>um_vrUh := sn_add s 1\<rparr>"
  have wf: "sn_wf (um_vrUh u)" "sn_wf (um_vrUr u)"
    using sync u by (simp_all add: rx_sync_def rx_sn_inv_def)
  have n: "0 \<le> n" "n < 1024"
    using sn_wf_num [OF s(1)] s(2) by simp_all
  have win: "uint (um_windowSize u) \<le> 512" "0 < uint (um_windowSize u)"
    using sync u by (simp_all add: rx_sync_def)
  have "\<not> in_window s u"
    using in_window_num [of u s n 0] sync u s n win by (simp add: rx_sync_def)
  then have i1: "IsInsideReorderingWindow s u = Inr (False, um_set_vrUh_base u)"
    using IsInside_spec [OF s(1) wf(1)] by simp
  have "in_window (SN10 k) ?w"
    using in_window_num [of ?w "SN10 k" n 1] s n win by simp
  then have i2: "IsInsideReorderingWindow (SN10 k) ?w = Inr (True, um_set_vrUh_base ?w)"
    using IsInside_spec [of "SN10 k" ?w] s(1) by simp
  have "in_window (um_vrUr u) (um_set_vrUh_base ?w)"
    using in_window_num [of "um_set_vrUh_base ?w" "um_vrUr u" n 1] sync u s n win
    by (simp add: rx_sync_def)
  then have i3: "IsInsideReorderingWindow (um_vrUr u) (um_set_vrUh_base ?w)
      = Inr (True, um_set_vrUh_base (um_set_vrUh_base ?w))"
    using IsInside_spec [of "um_vrUr u" "um_set_vrUh_base ?w"] s(1) wf(2) by simp
  have "rx_move_window (\<lambda>u. outside_loop reas (um_rxBuffer u) u) s u
      = Inr (um_set_vrUh_base (um_set_vrUh_base ?w))"
    using i1 i2 i3 u by (simp add: rx_move_window_def)
  then show ?thesis
    using sync u s by (simp add: rx_sync_def rs_view_def um_set_vrUh_base_def)
qed

lemma advance_in_order:
  assumes rx: "um_rxBuffer u = [(k, p)]" and vrUr: "sn_wf (um_vrUr u)" "sn_value (um_vrUr u) = k"
    "sn_off (um_vrUr u) < 1023" and ok: "pdu_ok p" "rs_inv u" "sn_wf (um_expectedSeqNumber u)"
  shows "\<exists>v v'. reas p v = Inr v' \<and> rs_view v = rs_view u \<and> rs_frame v v' \<and>
    rx_advance (interval_loop sn_fuel reas) u = Inr (v'\<lparr>um_rxBuffer := []\<rparr>) \<and>
    v = u\<lparr>um_vrUr := sn_inc (um_vrUr u)\<rparr>"
proof -
  have wf: "sn_wf (sn_assign (um_vrUr u) (k + 1))" "sn_wf (sn_inc (um_vrUr u))"
    using vrUr(1) by simp_all
  have k: "uint k < 1024" "uint (k + 1) = uint k + 1"
    using vrUr(1,2) sn_wf_uint [of "um_vrUr u"] by (auto simp: uint_word_ariths)
  have "sn_num (um_vrUr u) = uint k"
    using vrUr(2) by (simp add: sn_num_def)
  then have "sn_num (sn_assign (um_vrUr u) (k + 1)) = sn_num (sn_inc (um_vrUr u))"
    using k(2) by simp
  then have "sn_value (sn_assign (um_vrUr u) (k + 1)) = sn_value (sn_inc (um_vrUr u))"
    unfolding sn_value_eq_iff .
  then have inc: "sn_assign (um_vrUr u) (k + 1) = sn_inc (um_vrUr u)"
    by (intro sn10.equality) simp_all
  define v where "v = u\<lparr>um_vrUr := sn_inc (um_vrUr u)\<rparr>"
  have v: "rs_inv v" "sn_wf (um_expectedSeqNumber v)" "rs_view v = rs_view u"
    using ok by (simp_all add: v_def rs_inv_def rs_view_def)
  obtain v' where v': "reas p v = Inr v'" "rs_frame v v'"
    using reas_ok [OF ok(1) v(1,2)] by blast
  have off: "sn_off (sn_inc (um_vrUr u)) = sn_off (um_vrUr u) + 1"
    using vrUr by (intro sn_off_inc)
  have lt: "sn_lt (um_vrUr u) (sn_inc (um_vrUr u)) = Inr True"
    "sn_lt (sn_inc (um_vrUr u)) (sn_inc (um_vrUr u)) = Inr False"
    using vrUr(1) off by (simp_all add: sn_lt_off)
  have rx': "um_rxBuffer v = [(k, p)]" "um_rxBuffer v' = [(k, p)]"
    using rx rs_frame_simps(1) [OF v'(2)] by (simp_all add: v_def)
  have "interval_loop sn_fuel reas (um_vrUr u) (sn_inc (um_vrUr u)) v = Inr (v'\<lparr>um_rxBuffer := []\<rparr>)"
    using rx' vrUr(2) v'(1) lt
    by (simp add: sn_fuel_def interval_loop.simps [of 1024] interval_loop.simps [of 1023])
  moreover have "scan_u16 (length (um_rxBuffer u)) (um_rxBuffer u) (sn_value (um_vrUr u) + 1) = Inr (k + 1)"
    using rx vrUr(2) by (simp add: scan_u16.simps [of "Suc 0"] map_count_def)
  ultimately have "rx_advance (interval_loop sn_fuel reas) u = Inr (v'\<lparr>um_rxBuffer := []\<rparr>)"
    using rx vrUr(2) inc by (simp add: rx_advance_def Let_def map_count_def v_def)
  then show ?thesis
    using v' v(3) v_def by blast
qed

lemma timer_in_order:
  assumes "rx_buf_inv u" "rx_sn_inv u" "um_reorderingTimer u = None"
    and "sn_num (um_vrUr u) = n" "sn_num (um_vrUh u) = n"
  shows "rx_timer now u = Inr (rx_set_all_bases u)"
proof -
  note b = rx_set_all_bases_ok [OF assms(1,2)]
  have t: "um_reorderingTimer (rx_set_all_bases u) = None"
    "sn_num (um_vrUr (rx_set_all_bases u)) = n" "sn_num (um_vrUh (rx_set_all_bases u)) = n"
    using assms(3-5) by (simp_all add: rx_set_all_bases_def Let_def)
  then have "sn_gt (um_vrUh (rx_set_all_bases u)) (um_vrUr (rx_set_all_bases u)) = Inr False"
    using b(2,3) sn_off_eq_iff [of "um_vrUh (rx_set_all_bases u)" "um_vrUr (rx_set_all_bases u)"]
    by (simp add: sn_gt_off rx_sn_inv_def rx_bases_def)
  then show ?thesis
    using t by (simp add: rx_timer_def rx_stop_reordering_def um_restart_reordering_def)
qed

lemma set_all_bases_sel:
  "sn_num (um_vrUr (rx_set_all_bases u)) = sn_num (um_vrUr u)"
  "sn_num (um_vrUh (rx_set_all_bases u)) = sn_num (um_vrUh u)"
  "um_rxBuffer (rx_set_all_bases u) = um_rxBuffer u"
  "um_reorderingTimer (rx_set_all_bases u) = um_reorderingTimer u"
  "um_windowSize (rx_set_all_bases u) = um_windowSize u"
  "rs_view (rx_set_all_bases u) = rs_view u"
  "um_channelType (rx_set_all_bases u) = um_channelType u"
  "um_firstPduRxed (rx_set_all_bases u) = um_firstPduRxed u"
  by (simp_all add: rx_set_all_bases_def Let_def rs_view_def)

text \<open>The PDU with the next sequence number is reassembled at once and the buffer is empty again.\<close>

lemma place_in_order:
  assumes sync: "rx_sync n u" and s: "sn_wf s" "sn_num s = n" and ok: "pdu_ok p"
    and base: "sn_off (um_vrUr u) < 1023"
  shows "\<exists>v v' u'. reas p v = Inr v' \<and> rs_view v = rs_view u \<and> rs_view u' = rs_view v' \<and>
    rx_place (\<lambda>u. outside_loop reas (um_rxBuffer u) u) (interval_loop sn_fuel reas) now s p u = Inr u' \<and>
    rx_sync ((n + 1) mod 1024) u' \<and>
    um_channelType u' = um_channelType u \<and> um_firstPduRxed u' = um_firstPduRxed u"
proof -
  let ?u = "u\<lparr>um_rxBuffer := [(sn_value s, p)]\<rparr>"
  have put: "map_put (sn_value s) p (um_rxBuffer u) = [(sn_value s, p)]"
    using sync by (simp add: rx_sync_def)
  have uk: "uint (sn_value s) = n"
    using s(2) by (simp add: sn_num_def)
  obtain u1 where u1: "rx_move_window (\<lambda>u. outside_loop reas (um_rxBuffer u) u) s ?u = Inr u1"
    "um_rxBuffer u1 = [(sn_value s, p)]" "um_vrUr u1 = um_vrUr u" "um_vrUx u1 = um_vrUx u"
    "sn_num (um_vrUh u1) = (n + 1) mod 1024" "sn_wf (um_vrUh u1)"
    "um_windowSize u1 = um_windowSize u" "um_reorderingTimer u1 = None" "rs_view u1 = rs_view u"
    "um_channelType u1 = um_channelType u" "um_firstPduRxed u1 = um_firstPduRxed u"
    using move_window_in_order [OF sync refl s uk, of p] by auto
  have wf: "sn_wf (um_vrUr u)" "sn_wf (um_vrUx u)"
    using sync by (simp_all add: rx_sync_def rx_sn_inv_def)
  have "sn_num (um_vrUr u) = sn_num s"
    using sync s(2) by (simp add: rx_sync_def)
  then have ur: "sn_value (um_vrUr u1) = sn_value s"
    using u1(3) by (simp add: sn_value_eq_iff)
  have rs: "rs_inv u1" "sn_wf (um_expectedSeqNumber u1)"
    using rs_view_eqD [OF u1(9)] sync by (simp_all add: rx_sync_def rx_buf_inv_def)
  obtain v v' where v: "reas p v = Inr v'" "rs_view v = rs_view u1" "rs_frame v v'"
    "rx_advance (interval_loop sn_fuel reas) u1 = Inr (v'\<lparr>um_rxBuffer := []\<rparr>)"
    "v = u1\<lparr>um_vrUr := sn_inc (um_vrUr u1)\<rparr>"
    using advance_in_order [OF u1(2) _ ur _ ok rs] wf base u1(3) by auto
  obtain v'' where v'': "reas p v = Inr v''" "rs_inv v''" "sn_wf (um_expectedSeqNumber v'')"
    using reas_ok [OF ok, of v] rs rs_view_eqD [OF v(2)] by auto
  let ?w = "v'\<lparr>um_rxBuffer := []\<rparr>"
  note fr = rs_frame_simps [OF v(3)]
  have w: "rx_buf_inv ?w" "rx_sn_inv ?w"
    using v'' v(1) fr v(5) wf u1(3,4,6) by (simp_all add: rx_buf_inv_def rx_sn_inv_def rs_inv_def)
  have nums: "um_reorderingTimer ?w = None" "sn_num (um_vrUr ?w) = (n + 1) mod 1024"
    "sn_num (um_vrUh ?w) = (n + 1) mod 1024" "um_windowSize ?w = um_windowSize u"
    using fr v(5) u1(3,5,7,8) sync by (simp_all add: rx_sync_def)
  let ?u' = "rx_set_all_bases ?w"
  have t: "rx_timer now ?w = Inr ?u'"
    using timer_in_order [OF w nums(1-3)] .
  have "rx_sync ((n + 1) mod 1024) ?u'"
    using rx_set_all_bases_ok [OF w] nums sync by (simp add: rx_sync_def set_all_bases_sel)
  moreover have "rx_place (\<lambda>u. outside_loop reas (um_rxBuffer u) u) (interval_loop sn_fuel reas) now s p u
      = Inr ?u'"
    using u1(1) v(4) t by (simp add: rx_place_def put)
  moreover have "um_channelType ?u' = um_channelType u" "um_firstPduRxed ?u' = um_firstPduRxed u"
    using fr v(5) u1(10,11) by (simp_all add: set_all_bases_sel)
  moreover have "rs_view ?u' = rs_view v'"
    by (simp add: set_all_bases_sel) (simp add: rs_view_def)
  moreover have "rs_view v = rs_view u"
    using v(2) u1(9) by simp
  ultimately show ?thesis
    using v(1) by blast
qed

end

lemma set_bases_sel:
  "um_vrUh (rx_set_bases u) = SetModulusBase (um_vrUh u) (um_window_low u)"
  "um_vrUr (rx_set_bases u) = SetModulusBase (um_vrUr u) (um_window_low u)"
  "um_vrUx (rx_set_bases u) = um_vrUx u"
  "um_rxBuffer (rx_set_bases u) = um_rxBuffer u"
  "um_reorderingTimer (rx_set_bases u) = um_reorderingTimer u"
  "um_windowSize (rx_set_bases u) = um_windowSize u"
  "rs_view (rx_set_bases u) = rs_view u"
  "um_channelType (rx_set_bases u) = um_channelType u"
  "um_firstPduRxed (rx_set_bases u) = um_firstPduRxed u"
  "sn_value (um_window_low (rx_set_bases u)) = sn_value (um_window_low u)"
  by (simp_all add: rx_set_bases_def Let_def rs_view_def um_window_low_def sn_sub_def SN10_def)

lemma rx_sync_set_bases:
  assumes "rx_sync n u"
  shows "rx_sync n (rx_set_bases u)"
proof -
  have "rs_inv u" "sn_wf (um_expectedSeqNumber u)"
    using assms by (simp_all add: rx_sync_def rx_buf_inv_def)
  then have "rs_inv (rx_set_bases u)" "sn_wf (um_expectedSeqNumber (rx_set_bases u))"
    using rs_view_eqD [OF set_bases_sel(7) [of u]] by simp_all
  with assms show ?thesis
    by (simp add: rx_sync_def rx_buf_inv_def rx_sn_inv_def set_bases_sel)
qed

text \<open>Relative to the base, VR(UR), VR(UH) and the next sequence number are at the window size.\<close>

lemma sync_offsets:
  assumes "rx_sync n u" "sn_wf s" "sn_num s = n" "sn_base s = sn_value (um_window_low u)"
  shows "sn_off s = uint (um_windowSize u)"
proof -
  have "sn_off s = (n - (n - uint (um_windowSize u))) mod 1024"
    using assms window_low_value [of u]
    by (simp add: sn_off_def sn_num_def rx_sync_def mod_diff_right_eq)
  also have "\<dots> = uint (um_windowSize u)"
    using assms(1) by (simp add: rx_sync_def)
  finally show ?thesis .
qed

lemma rx_discard_in_order:
  assumes sync: "rx_sync n u" and s: "sn_wf s" "sn_num s = n" "sn_base s = sn_value (um_window_low u)"
  shows "rx_discard s (rx_set_bases u) = Inr False" "sn_off (um_vrUr (rx_set_bases u)) < 1023"
proof -
  let ?v = "rx_set_bases u"
  have wf: "sn_wf (um_vrUr ?v)" "sn_wf (um_vrUh ?v)" "sn_wf (um_window_low ?v)"
    using rx_sync_set_bases [OF sync] by (simp_all add: rx_sync_def rx_sn_inv_def)
  have num: "sn_num (um_vrUr ?v) = n" "sn_num (um_vrUh ?v) = n"
    using sync by (simp_all add: set_bases_sel rx_sync_def)
  have base: "sn_base (um_vrUr ?v) = sn_value (um_window_low u)"
    "sn_base (um_vrUh ?v) = sn_value (um_window_low u)"
    "sn_base (um_window_low ?v) = sn_value (um_window_low u)"
    by (simp_all add: set_bases_sel)
  have off: "sn_off (um_vrUr ?v) = uint (um_windowSize u)" "sn_off (um_vrUh ?v) = uint (um_windowSize u)"
    "sn_off s = uint (um_windowSize u)"
    using sync_offsets [OF sync wf(1) num(1) base(1)] sync_offsets [OF sync wf(2) num(2) base(2)]
      sync_offsets [OF sync s] by simp_all
  show "sn_off (um_vrUr ?v) < 1023"
    using off sync by (simp add: rx_sync_def)
  have le: "\<exists>b. sn_le (um_window_low ?v) s = Inr b"
    using wf s base by (simp add: sn_le_off)
  have "sn_lt (um_vrUr ?v) s = Inr False" "sn_lt s (um_vrUr ?v) = Inr False"
    using wf s base off by (simp_all add: sn_lt_off)
  with le show "rx_discard s ?v = Inr False"
    by (auto simp: rx_discard_def)
qed

lemma rx_sync_first_pdu:
  assumes "rx_sync n u" "sn_wf s" "sn_num s = n" "sn_num (um_expectedSeqNumber u) = n"
  shows "rx_sync n (rx_first_pdu s u)" "sn_num (um_expectedSeqNumber (rx_first_pdu s u)) = n"
    "um_out (rx_first_pdu s u) = um_out u" "kept_of (rx_first_pdu s u) = kept_of u"
    "um_sdusBuffer (rx_first_pdu s u) = um_sdusBuffer u"
    "um_channelType (rx_first_pdu s u) = um_channelType u"
  using assms
  by (simp_all add: rx_first_pdu_def rx_sync_def rx_buf_inv_def rx_sn_inv_def rs_inv_def kept_of_def)

section \<open>The joined system\<close>

text \<open>The SDUs handed to the PDCP layer of the receiver.\<close>

fun sl_sdus :: "um_event list \<Rightarrow> u8 list list" where
  "sl_sdus [] = []"
| "sl_sdus (ReceiveNrSlPdcpPdu p # es) = pk_bytes p # sl_sdus es"
| "sl_sdus (_ # es) = sl_sdus es"

lemma sl_sdus_append: "sl_sdus (es @ es') = sl_sdus es @ sl_sdus es'"
  by (induction es rule: sl_sdus.induct) simp_all

lemma sl_sdus_deliver: "sl_sdus (map ReceiveNrSlPdcpPdu ps) = map pk_bytes ps"
  by (induction ps) simp_all

lemma receive_in_order:
  assumes c: "pdu_carries p sn segs" and segs: "cut_items m 0 C = (segs, rest)" "C \<noteq> []"
    and sn: "sn_wf sn" "sn_num sn = n"
    and v: "rx_sync n v" "sn_num (um_expectedSeqNumber v) = n" "um_sdusBuffer v = []"
      "um_channelType v = STCH"
    and phase: "starts_sdu (fst (hd segs)) \<longleftrightarrow> kept_of v = None"
  shows "\<exists>v'. DoReceiveNrSlRlcPdu now p dst v = Inr v' \<and> rx_sync ((n + 1) mod 1024) v' \<and>
    sn_num (um_expectedSeqNumber v') = (n + 1) mod 1024 \<and> um_sdusBuffer v' = [] \<and>
    um_channelType v' = STCH \<and>
    (\<exists>es. um_out v' = um_out v @ es \<and>
      reasm False (starts_sdu (fst (hd segs))) (ends_sdu (fst (last segs))) (map snd segs) (kept_of v)
        = (sl_sdus es, kept_of v'))"
proof -
  note parse = pdu_carries_parse [OF c segs]
  obtain ts where ts: "Packet_FindRlcTag p = Some ts"
    using c by (auto simp: pdu_carries_def)
  define v1 where "v1 = rx_first_pdu sn (rx_trace now ts p v)"
  have tr: "rx_sync n (rx_trace now ts p v)" "sn_num (um_expectedSeqNumber (rx_trace now ts p v)) = n"
    using v by (simp_all add: rx_trace_def um_emit_def rx_sync_def rx_buf_inv_def rx_sn_inv_def rs_inv_def)
  note v1 = rx_sync_first_pdu [OF tr(1) sn tr(2), folded v1_def]
  have v1': "um_sdusBuffer v1 = []" "um_channelType v1 = STCH" "kept_of v1 = kept_of v"
    "\<exists>es. um_out v1 = um_out v @ es \<and> sl_sdus es = []"
    using v1 v by (simp_all add: rx_trace_def um_emit_def kept_of_def)
  define u where "u = rx_set_bases v1"
  define s where "s = SetModulusBase sn (um_window_low u)"
  have s: "sn_wf s" "sn_num s = n" "sn_base s = sn_value (um_window_low v1)"
    using sn v1(1) by (simp_all add: s_def u_def set_bases_sel rx_sync_def rx_sn_inv_def)
  note disc = rx_discard_in_order [OF v1(1) s, folded u_def]
  obtain w w' v' where w: "NrSlReassembleAndDeliver p w = Inr w'" "rs_view w = rs_view u"
    "rs_view v' = rs_view w'"
    "rx_place (\<lambda>u. outside_loop NrSlReassembleAndDeliver (um_rxBuffer u) u)
       (interval_loop sn_fuel NrSlReassembleAndDeliver) now s p u = Inr v'"
    "rx_sync ((n + 1) mod 1024) v'" "um_channelType v' = um_channelType u"
    using nrsl_reas.place_in_order [OF rx_sync_set_bases [OF v1(1), folded u_def] s(1,2) parse(1) disc(2)]
    by blast
  have view: "rs_view w = rs_view v1"
    using w(2) by (simp add: u_def set_bases_sel)
  note vw = rs_view_eqD [OF view] and vw' = rs_view_eqD [OF w(3)]
  have inv: "rs_inv w" "sn_wf (um_expectedSeqNumber w)"
    using vw v1(1) by (simp_all add: rx_sync_def rx_buf_inv_def)
  have hdr: "pdu_sn p = sn" "rh_framingInfo (pdu_header_of p) = framing_of segs"
    by (simp_all add: pdu_sn_def parse(2) pdu_header_def)
  have lost: "\<not> pdu_lost p w"
    using hdr(1) vw(5) v1(2) sn(2) by (simp add: pdu_lost_def sn_eq_def sn_value_eq_iff)
  have fr: "pdu_starts p = starts_sdu (fst (hd segs))" "pdu_ends p = ends_sdu (fst (last segs))"
    using framing_of_starts hdr(2) by (simp_all add: pdu_starts_def pdu_ends_def)
  have poss: "reasm_possible (pdu_lost p w) (pdu_starts p) (kept_of w)"
    using phase fr vw(3) v1'(3) by (auto simp: reasm_possible_def)
  obtain w'' where w'': "NrSlReassembleAndDeliver p w = Inr w''"
    "sn_num (um_expectedSeqNumber w'') = (sn_num (pdu_sn p) + 1) mod 1024"
    "um_sdusBuffer w = [] \<and> reasm_possible (pdu_lost p w) (pdu_starts p) (kept_of w) \<longrightarrow>
       nrsl_user.reasm_delivers p w w''"
    using nrsl_user.reassemble_ok [OF parse(1) inv] by (auto simp: NrSlReassembleAndDeliver_eq)
  then have "nrsl_user.reasm_delivers p w w'" "sn_num (um_expectedSeqNumber w') = (n + 1) mod 1024"
    using poss vw(2) v1'(1) w(1) hdr(1) sn(2) by simp_all
  then obtain ps where ps: "um_out v' = um_out v1 @ map ReceiveNrSlPdcpPdu ps"
    "um_sdusBuffer v' = []" "sn_num (um_expectedSeqNumber v') = (n + 1) mod 1024"
    "(map pk_bytes ps, kept_of v') = reasm False (starts_sdu (fst (hd segs)))
       (ends_sdu (fst (last segs))) (map snd segs) (kept_of v)"
    using lost fr parse(3) vw vw' v1'(3) by (auto simp: nrsl_user.reasm_delivers_def)
  have "DoReceiveNrSlRlcPdu now p dst v = Inr v'"
    using ts parse(4) v(4) disc(1) w(4)
    by (simp add: DoReceiveNrSlRlcPdu_def Let_def rx_trace_def um_emit_def pdu_header_def
        NrSlReassembleOutsideWindow_def [abs_def] NrSlReassembleSnInterval_def [abs_def]
        v1_def u_def s_def)
  moreover have "um_channelType v' = STCH"
    using w(6) v1'(2) by (simp add: u_def set_bases_sel)
  ultimately show ?thesis
    using w(5) ps v1'(4) by (auto simp: sl_sdus_append sl_sdus_deliver)
qed

datatype sl_op = Push int packet | Opportunity int u32

text \<open>The MAC and the channel: every PDU handed to the MAC reaches the receiver at once.\<close>

fun sl_receive :: "int \<Rightarrow> um_event list \<Rightarrow> um \<Rightarrow> um res" where
  "sl_receive now [] v = Inr v"
| "sl_receive now (TransmitNrSlRlcPdu p rnti lcid layer harq bwp src dst # es) v =
     rbind (DoReceiveNrSlRlcPdu now p dst v) (sl_receive now es)"
| "sl_receive now (_ # es) v = sl_receive now es v"

fun sl_step :: "sl_op \<Rightarrow> um \<times> um \<Rightarrow> (um \<times> um) res" where
  "sl_step (Push now p) (u, v) = rbind (DoTransmitNrSlPdcpPdu now p u) (\<lambda>u'. Inr (u', v))"
| "sl_step (Opportunity now bytes) (u, v) =
     rbind (DoNotifyNrSlTxOpportunity now bytes 0 0 0 u) (\<lambda>u'.
     rbind (sl_receive now (drop (length (um_out u)) (um_out u')) v) (\<lambda>v'. Inr (u', v')))"

text \<open>The SDU of a step that finds room in the transmission buffer.\<close>

fun sl_accepted :: "sl_op \<Rightarrow> um \<Rightarrow> u8 list list" where
  "sl_accepted (Push now p) u =
     (if um_txBufferSize u + Packet_GetSize p \<le> um_maxTxBufferSize u then [pk_bytes p] else [])"
| "sl_accepted (Opportunity now bytes) u = []"

fun sl_run :: "sl_op list \<Rightarrow> um \<times> um \<Rightarrow> u8 list list \<Rightarrow> ((um \<times> um) \<times> u8 list list) res" where
  "sl_run [] s acc = Inr (s, acc)"
| "sl_run (op # ops) s acc =
     rbind (sl_step op s) (\<lambda>s'. sl_run ops s' (acc @ sl_accepted op (fst s)))"

fun sl_op_ok :: "sl_op \<Rightarrow> bool" where
  "sl_op_ok (Push now p) \<longleftrightarrow> pk_bytes p \<noteq> [] \<and> pk_sdu_status p = None \<and> length (pk_bytes p) < 2 ^ 31"
| "sl_op_ok (Opportunity now bytes) \<longleftrightarrow> bytes < 65536"

definition link_inv :: "u8 list list \<Rightarrow> um \<times> um \<Rightarrow> bool" where
  "link_inv acc s \<longleftrightarrow> (case s of (u, v) \<Rightarrow>
     um_tx_inv u \<and> um_channelType u = STCH \<and> um_maxTxBufferSize u < 2 ^ 31 \<and>
     items_bytes (buf_items (um_txBuffer u)) \<le> unat (um_maxTxBufferSize u) \<and>
     rx_sync (sn_num (um_sequenceNumber u)) v \<and>
     sn_num (um_expectedSeqNumber v) = sn_num (um_sequenceNumber u) \<and>
     um_sdusBuffer v = [] \<and> um_channelType v = STCH \<and>
     in_phase (kept_of v) (buf_items (um_txBuffer u)) \<and>
     acc = sl_sdus (um_out v) @ pending (kept_of v) (buf_items (um_txBuffer u)))"

lemma in_phase_snoc:
  "in_phase kept C \<Longrightarrow> in_phase kept (C @ [(Some FULL_SDU, b)])"
  "in_phase kept C \<Longrightarrow> pending kept (C @ [(Some FULL_SDU, b)]) = pending kept C @ [b]"
  by (cases C; auto simp: in_phase_def pending_def split: option.splits)+

lemma link_push:
  assumes inv: "link_inv acc (u, v)" and ok: "sl_op_ok (Push now p)"
  shows "\<exists>s'. sl_step (Push now p) (u, v) = Inr s' \<and> link_inv (acc @ sl_accepted (Push now p) u) s'"
proof (cases "um_txBufferSize u + Packet_GetSize p \<le> um_maxTxBufferSize u")
  case False
  with inv show ?thesis
    by (simp add: DoTransmitNrSlPdcpPdu_def DoReportNrSlBufferStatus_def um_emit_def link_inv_def
        um_tx_inv_def)
next
  case True
  let ?b = "pk_bytes p"
  define C where "C = buf_items (um_txBuffer u)"
  have C: "items_bytes C \<le> unat (um_maxTxBufferSize u)" "unat (um_maxTxBufferSize u) < 2 ^ 31"
    using inv by (simp_all add: link_inv_def C_def word_less_nat_alt)
  have "um_txBufferSize u + Packet_GetSize p = of_nat (items_bytes C + length ?b)"
    using inv by (simp add: link_inv_def um_tx_inv_def C_def Packet_GetSize_def)
  moreover have "items_bytes C + length ?b < 2 ^ 32"
    using C ok by simp
  ultimately have "items_bytes C + length ?b \<le> unat (um_maxTxBufferSize u)"
    using True by (simp add: word_le_nat_alt unat_of_nat_u32 del: of_nat_add)
  moreover define u' where "u' = u\<lparr>um_txBuffer := um_txBuffer u @ [(p\<lparr>pk_sdu_status := Some FULL_SDU\<rparr>, now)],
      um_txBufferSize := um_txBufferSize u + Packet_GetSize p\<rparr>"
  moreover have "um_store now p u = Inr u'"
    using ok by (simp add: um_store_def Packet_AddPacketTag_def u'_def Packet_GetSize_def)
  moreover have "buf_items (um_txBuffer u') = C @ [(Some FULL_SDU, ?b)]"
    by (simp add: u'_def C_def item_of_def)
  moreover have "um_txBufferSize u' = of_nat (items_bytes (C @ [(Some FULL_SDU, ?b)]))"
    using inv by (simp add: u'_def C_def link_inv_def um_tx_inv_def Packet_GetSize_def)
  ultimately show ?thesis
    using True inv ok C tx_items_ok_snoc [of C ?b] in_phase_snoc [of "kept_of v" C ?b]
    by (auto simp: DoTransmitNrSlPdcpPdu_def DoReportNrSlBufferStatus_def um_emit_def link_inv_def
        um_tx_inv_def C_def u'_def)
qed

text \<open>An opportunity passes at most one PDU to the MAC, which the receiver takes in.\<close>

lemma link_opportunity_events:
  assumes inv: "link_inv acc (u, v)" and ok: "sl_op_ok (Opportunity now bytes)"
  shows "\<exists>u' v'. DoNotifyNrSlTxOpportunity now bytes 0 0 0 u = Inr u' \<and> link_inv acc (u', v') \<and>
    um_maxTxBufferSize u' = um_maxTxBufferSize u \<and>
    items_bytes (buf_items (um_txBuffer u')) \<le> items_bytes (buf_items (um_txBuffer u)) \<and>
    (um_out u' = um_out u \<and> v' = v \<or>
     (\<exists>q es. um_out u' = um_out u @ [TxPduTrace (um_rnti u) (um_lcid u) (Packet_GetSize q),
         TransmitNrSlRlcPdu q (um_rnti u) (um_lcid u) 0 0 0 (um_srcL2Id u) (um_dstL2Id u)] \<and>
       DoReceiveNrSlRlcPdu now q (um_dstL2Id u) v = Inr v' \<and> um_out v' = um_out v @ es))"
proof (cases "bytes \<le> 2 \<or> um_txBuffer u = []")
  case True
  then have "tx_take now bytes (um_rnti u) u = Inr None"
    by (auto simp: tx_take_def)
  with inv show ?thesis
    by (intro exI [of _ u] exI [of _ v])
      (simp add: DoNotifyNrSlTxOpportunity_def nrsl_tx_take_eq link_inv_def)
next
  case False
  define C where "C = buf_items (um_txBuffer u)"
  define sn where "sn = um_sequenceNumber u"
  have opp: "2 < bytes" "unat bytes < 65536" "um_txBuffer u \<noteq> []" "C \<noteq> []"
    using False ok by (auto simp: C_def word_less_nat_alt word_le_nat_alt)
  have txinv: "um_tx_inv u" and sn: "sn_wf sn"
    using inv by (simp_all add: link_inv_def um_tx_inv_def sn_def)
  obtain segs rest where segs: "cut_items (unat bytes - 2) 0 C = (segs, rest)"
    by (rule prod.exhaust)
  obtain packet buf' where take: "tx_take now bytes (um_rnti u) u = Inr (Some (packet,
      u\<lparr>um_txBuffer := buf', um_txBufferSize := of_nat (items_bytes rest),
        um_sequenceNumber := sn_inc (um_sequenceNumber u)\<rparr>))"
    "buf_items buf' = rest" "pdu_carries packet sn segs"
    using tx_take_spec [OF txinv opp(1-3) segs [unfolded C_def], of now "um_rnti u"]
    by (auto simp: sn_def)
  have ph: "in_phase (kept_of v) C" "tx_items_ok C"
    using inv by (simp_all add: link_inv_def um_tx_inv_def C_def)
  obtain v' es where v': "DoReceiveNrSlRlcPdu now packet (um_dstL2Id u) v = Inr v'"
    "rx_sync ((sn_num sn + 1) mod 1024) v'"
    "sn_num (um_expectedSeqNumber v') = (sn_num sn + 1) mod 1024" "um_sdusBuffer v' = []"
    "um_channelType v' = STCH" "um_out v' = um_out v @ es"
    "reasm False (starts_sdu (fst (hd segs))) (ends_sdu (fst (last segs))) (map snd segs) (kept_of v)
        = (sl_sdus es, kept_of v')"
    using receive_in_order [OF take(3) segs opp(4) sn refl, of v now "um_dstL2Id u"]
      in_phase_starts [OF ph(1) segs opp(4)] inv
    by (auto simp: link_inv_def sn_def)
  note pend = reasm_pending [OF ph opp(4) segs v'(7)]
  define u' where "u' = um_start_rbs now (um_emit (TransmitNrSlRlcPdu packet (um_rnti u) (um_lcid u) 0 0 0
      (um_srcL2Id u) (um_dstL2Id u)) (um_emit (TxPduTrace (um_rnti u) (um_lcid u) (Packet_GetSize packet))
      (u\<lparr>um_txBuffer := buf', um_txBufferSize := of_nat (items_bytes rest),
        um_sequenceNumber := sn_inc (um_sequenceNumber u)\<rparr>)))"
  have u': "um_txBuffer u' = buf'" "um_sequenceNumber u' = sn_inc sn" "um_channelType u' = um_channelType u"
    "um_maxTxBufferSize u' = um_maxTxBufferSize u"
    "um_out u' = um_out u @ [TxPduTrace (um_rnti u) (um_lcid u) (Packet_GetSize packet),
       TransmitNrSlRlcPdu packet (um_rnti u) (um_lcid u) 0 0 0 (um_srcL2Id u) (um_dstL2Id u)]"
    "um_tx_inv u' = um_tx_inv (u\<lparr>um_txBuffer := buf', um_txBufferSize := of_nat (items_bytes rest),
        um_sequenceNumber := sn_inc (um_sequenceNumber u)\<rparr>)"
    by (simp_all add: u'_def um_start_rbs_def um_emit_def sn_def um_tx_inv_def)
  have notify: "DoNotifyNrSlTxOpportunity now bytes 0 0 0 u = Inr u'"
    using take(1) inv by (simp add: DoNotifyNrSlTxOpportunity_def nrsl_tx_take_eq link_inv_def u'_def)
  have "um_tx_inv u'"
    unfolding u'(6) using um_tx_inv_take [OF txinv segs [unfolded C_def] take(2)] .
  moreover have le: "items_bytes rest \<le> items_bytes C"
    using arg_cong [OF cut_items_bytes [OF segs], of length]
    by (simp add: items_bytes_def length_concat comp_def)
  ultimately have "link_inv acc (u', v')"
    using inv v' pend take(2) unfolding link_inv_def
    by (simp add: u'(1-4) sl_sdus_append flip: C_def sn_def)
  moreover have "items_bytes (buf_items (um_txBuffer u')) \<le> items_bytes (buf_items (um_txBuffer u))"
    using le take(2) by (simp add: u'(1) C_def)
  ultimately show ?thesis
    using notify v'(1,6) u'(4,5) by blast
qed

lemma link_opportunity:
  assumes "link_inv acc (u, v)" "sl_op_ok (Opportunity now bytes)"
  shows "\<exists>s'. sl_step (Opportunity now bytes) (u, v) = Inr s' \<and> link_inv acc s'"
  using link_opportunity_events [OF assms] by auto

lemma link_run:
  "link_inv acc s \<Longrightarrow> list_all sl_op_ok ops \<Longrightarrow>
   \<exists>s' acc'. sl_run ops s acc = Inr (s', acc') \<and> link_inv acc' s'"
proof (induction ops arbitrary: s acc)
  case (Cons op ops)
  obtain u v where s: "s = (u, v)" by (cases s)
  have "\<exists>s'. sl_step op s = Inr s' \<and> link_inv (acc @ sl_accepted op u) s'"
    using link_push [of acc u v] link_opportunity [of acc u v] Cons.prems s
    by (cases op) (auto simp del: sl_step.simps sl_op_ok.simps)
  then obtain s' where "sl_step op s = Inr s'" "link_inv (acc @ sl_accepted op u) s'"
    by blast
  with Cons.IH [of "acc @ sl_accepted op u" s'] Cons.prems s show ?case
    by simp
qed auto

section \<open>The initial state\<close>

text \<open>An entity configured for the sidelink: identifiers and channel type set, nothing sent yet.\<close>

definition sl_entity :: "u16 \<Rightarrow> u8 \<Rightarrow> u32 \<Rightarrow> u32 \<Rightarrow> um" where
  "sl_entity rnti lcid src dst =
     SetRlcChannelType STCH (SetDestinationL2Id dst (SetSourceL2Id src (SetLcId lcid (SetRnti rnti LteRlcUm))))"

lemmas sl_entity_simps = sl_entity_def SetRlcChannelType_def SetDestinationL2Id_def
  SetSourceL2Id_def SetLcId_def SetRnti_def LteRlcUm_def

lemma link_inv_start: "link_inv [] (sl_entity r1 l1 s1 d1, sl_entity r2 l2 s2 d2)"
  by (simp add: link_inv_def sl_entity_simps um_tx_inv_def tx_items_ok_def rx_sync_def rx_buf_inv_def
      rx_sn_inv_def rs_inv_def in_phase_def pending_def kept_of_def sn_num_def SN10_def sn_wf_def)

end
