(* ===== verification/SlStack.thy ===== *)
theory SlStack
  imports LtePdcp LteRlcUmLink "HOL-Library.Sublist"
begin

text \<open>
  A sidelink bearer end to end: the PDCP and RLC UM entities that \<open>LteUeRrc::AddNrSlDrb\<close> stacks on
  each other, on both sides of a channel.  The PDCP hands its PDUs to the RLC and the RLC its SDUs
  to the PDCP, as the SAP members of the two classes do; RLC PDUs cross the channel in order.
\<close>

section \<open>The two directions of the PDCP\<close>

datatype stack_op = Send int packet u8 | Grant int u32

text \<open>
  The steps of the RLC link that the steps of the sending side cause: an SDU goes through the
  PDCP, whose PDU is passed to the RLC at the same time; a MAC opportunity goes to the RLC.
\<close>

fun pdcp_pdus :: "int \<Rightarrow> pdcp_event list \<Rightarrow> sl_op list" where
  "pdcp_pdus now [] = []"
| "pdcp_pdus now (TransmitNrSlPdcpPdu q rnti lcid src dst # es) = Push now q # pdcp_pdus now es"
| "pdcp_pdus now (_ # es) = pdcp_pdus now es"

fun stack_send :: "stack_op list \<Rightarrow> pdcp \<Rightarrow> (sl_op list \<times> pdcp) res" where
  "stack_send [] d = Inr ([], d)"
| "stack_send (Send now p ty # ops) d =
     rbind (DoTransmitNrSlPdcpSdu now p ty d) (\<lambda>d'.
     rbind (stack_send ops d') (\<lambda>(links, d'').
       Inr (pdcp_pdus now (drop (length (pd_out d)) (pd_out d')) @ links, d'')))"
| "stack_send (Grant now bytes # ops) d =
     rbind (stack_send ops d) (\<lambda>(links, d'). Inr (Opportunity now bytes # links, d'))"

text \<open>The SDUs the RLC delivers go through the receiving PDCP, at some time.\<close>

fun stack_receive :: "int \<Rightarrow> um_event list \<Rightarrow> pdcp \<Rightarrow> pdcp res" where
  "stack_receive now [] d = Inr d"
| "stack_receive now (ReceiveNrSlPdcpPdu q # es) d =
     rbind (pd_DoReceiveNrSlPdcpPdu now q d) (stack_receive now es)"
| "stack_receive now (_ # es) d = stack_receive now es d"

text \<open>What the user of the receiving side gets: the bytes and the type of each SDU.\<close>

fun user_sdus :: "pdcp_event list \<Rightarrow> (u8 list \<times> u8) list" where
  "user_sdus [] = []"
| "user_sdus (ReceiveNrSlPdcpSdu r rnti lcid src dst ty # es) = (pk_bytes r, ty) # user_sdus es"
| "user_sdus (_ # es) = user_sdus es"

lemma user_sdus_append: "user_sdus (es @ es') = user_sdus es @ user_sdus es'"
  by (induction es rule: user_sdus.induct) simp_all

section \<open>Framing\<close>

text \<open>\<open>framed sn sdus pdus\<close>: the PDUs are the SDUs with headers of some sequence numbers.\<close>

definition framed :: "u8 list \<times> u8 \<Rightarrow> u8 list \<Rightarrow> bool" where
  "framed sdu pdu \<longleftrightarrow> (\<exists>sn ty. snd sdu = ty AND 7 \<and> pdu = sl_header_bytes sn ty @ fst sdu)"

fun sent_sdus :: "stack_op list \<Rightarrow> (u8 list \<times> u8) list" where
  "sent_sdus [] = []"
| "sent_sdus (Send now p ty # ops) = (pk_bytes p, ty AND 7) # sent_sdus ops"
| "sent_sdus (Grant now bytes # ops) = sent_sdus ops"

fun pushed :: "sl_op list \<Rightarrow> u8 list list" where
  "pushed [] = []"
| "pushed (Push now q # ops) = pk_bytes q # pushed ops"
| "pushed (Opportunity now bytes # ops) = pushed ops"

fun stack_op_ok :: "stack_op \<Rightarrow> bool" where
  "stack_op_ok (Send now p ty) \<longleftrightarrow> pk_sdu_status p = None \<and> length (pk_bytes p) < 2 ^ 30"
| "stack_op_ok (Grant now bytes) \<longleftrightarrow> bytes < 65536"

lemma stack_send_framed:
  assumes "list_all stack_op_ok ops" "IsSlRb d"
  shows "\<exists>links d'. stack_send ops d = Inr (links, d') \<and> list_all sl_op_ok links \<and>
    list_all2 framed (sent_sdus ops) (pushed links) \<and>
    pd_txSequenceNumber d' = pd_txSequenceNumber d + of_nat (length (sent_sdus ops))"
  using assms
proof (induction ops arbitrary: d)
  case (Cons op ops)
  show ?case
  proof (cases op)
    case (Send now p ty)
    define q where "q = sl_pdu now (pd_txSequenceNumber d) ty p"
    define d1 where "d1 = d\<lparr>pd_txSequenceNumber := pd_txSequenceNumber d + 1,
       pd_out := pd_out d @ [PdcpTxPdu (pd_rnti d) (pd_lcid d) (Packet_GetSize q),
         TransmitNrSlPdcpPdu q (pd_rnti d) (pd_lcid d) (pd_srcL2Id d) (pd_dstL2Id d)]\<rparr>"
    have step: "DoTransmitNrSlPdcpSdu now p ty d = Inr d1"
      using transmit_nrsl [OF Cons.prems(2)] by (simp add: d1_def q_def)
    have "IsSlRb d1" using Cons.prems(2) by (simp add: d1_def IsSlRb_def)
    then obtain links d' where IH: "stack_send ops d1 = Inr (links, d')" "list_all sl_op_ok links"
      "list_all2 framed (sent_sdus ops) (pushed links)"
      "pd_txSequenceNumber d' = pd_txSequenceNumber d1 + of_nat (length (sent_sdus ops))"
      using Cons.IH [of d1] Cons.prems(1) by auto
    have "pdcp_pdus now (drop (length (pd_out d)) (pd_out d1)) = [Push now q]"
      by (simp add: d1_def)
    moreover have "sl_op_ok (Push now q)" "framed (pk_bytes p, ty AND 7) (pk_bytes q)"
      using Cons.prems(1) Send sl_header_bytes(2) [of "pd_txSequenceNumber d" ty]
      by (auto simp: q_def sl_pdu_def framed_def)
    ultimately show ?thesis
      using IH Send step by (simp add: d1_def)
  next
    case (Grant now bytes)
    with Cons show ?thesis by fastforce
  qed
qed simp

lemma stack_receive_framed:
  assumes "list_all2 framed sdus (sl_sdus es)" "IsSlRb d"
  shows "\<exists>d' evs. stack_receive now es d = Inr d' \<and> IsSlRb d' \<and> pd_out d' = pd_out d @ evs \<and>
    user_sdus evs = sdus"
  using assms
proof (induction es arbitrary: d sdus rule: sl_sdus.induct)
  case (2 q es)
  then obtain b sdus' where sdus: "sdus = b # sdus'" "framed b (pk_bytes q)"
    and rest: "list_all2 framed sdus' (sl_sdus es)"
    by (auto simp: list_all2_Cons2)
  obtain sn ty where ty: "snd b = ty AND 7" and bytes: "pk_bytes q = sl_header_bytes sn ty @ fst b"
    using sdus(2) by (auto simp: framed_def)
  obtain r where r: "pd_DoReceiveNrSlPdcpPdu now q d = Inr (d\<lparr>pd_rxSequenceNumber := sn + 1,
        pd_out := pd_out d @ [PdcpRxPdu (pd_rnti d) (pd_lcid d) (Packet_GetSize q)
            (now - (case Packet_FindPdcpTag q of None \<Rightarrow> 0 | Some ts \<Rightarrow> ts)),
          ReceiveNrSlPdcpSdu r (pd_rnti d) (pd_lcid d) (pd_srcL2Id d) (pd_dstL2Id d) (ty AND 7)]\<rparr>)"
      "pk_bytes r = fst b"
    using receive_nrsl [OF 2(3) bytes] by blast
  define d1 where "d1 = d\<lparr>pd_rxSequenceNumber := sn + 1,
        pd_out := pd_out d @ [PdcpRxPdu (pd_rnti d) (pd_lcid d) (Packet_GetSize q)
            (now - (case Packet_FindPdcpTag q of None \<Rightarrow> 0 | Some ts \<Rightarrow> ts)),
          ReceiveNrSlPdcpSdu r (pd_rnti d) (pd_lcid d) (pd_srcL2Id d) (pd_dstL2Id d) (ty AND 7)]\<rparr>"
  have "IsSlRb d1" using 2(3) by (simp add: d1_def IsSlRb_def)
  then obtain d' evs where IH: "stack_receive now es d1 = Inr d'" "IsSlRb d'"
    "pd_out d' = pd_out d1 @ evs" "user_sdus evs = sdus'"
    using 2(1) [OF rest, of d1] by blast
  have "stack_receive now (ReceiveNrSlPdcpPdu q # es) d = Inr d'"
    using r(1) IH(1) by (simp flip: d1_def)
  moreover obtain new where "pd_out d1 = pd_out d @ new" "user_sdus new = [b]"
    using r(2) ty by (simp add: d1_def prod_eq_iff)
  ultimately show ?case
    using IH(2-4) sdus(1) by (simp add: user_sdus_append)
qed simp_all

section \<open>The SDUs the RLC takes\<close>

text \<open>
  For each PDU that is pushed, whether it finds room in the transmission buffer at that time, and
  the elements of a list that are taken.
\<close>

fun sl_takes :: "sl_op list \<Rightarrow> um \<times> um \<Rightarrow> bool list" where
  "sl_takes [] s = []"
| "sl_takes (Push now p # ops) s =
     (um_txBufferSize (fst s) + Packet_GetSize p \<le> um_maxTxBufferSize (fst s)) #
     (case sl_step (Push now p) s of Inl e \<Rightarrow> [] | Inr s' \<Rightarrow> sl_takes ops s')"
| "sl_takes (Opportunity now bytes # ops) s =
     (case sl_step (Opportunity now bytes) s of Inl e \<Rightarrow> [] | Inr s' \<Rightarrow> sl_takes ops s')"

definition select :: "'a list \<Rightarrow> bool list \<Rightarrow> 'a list" where
  "select xs bs = map fst (filter snd (zip xs bs))"

lemma select_simps [simp]:
  "select [] bs = []" "select (x # xs) (b # bs) = (if b then [x] else []) @ select xs bs"
  by (simp_all add: select_def)

lemma subseq_select: "subseq (select xs bs) xs"
proof (induction xs arbitrary: bs)
  case (Cons x xs)
  then show ?case by (cases bs) (auto simp: select_def)
qed simp

lemma list_all2_select: "list_all2 P xs ys \<Longrightarrow> list_all2 P (select xs bs) (select ys bs)"
proof (induction xs ys arbitrary: bs rule: list_all2_induct)
  case (Cons x xs y ys)
  then show ?case by (cases bs) (auto simp: select_def)
qed simp

lemma sl_run_accepted:
  "sl_run ops s acc = Inr (s', acc') \<Longrightarrow> acc' = acc @ select (pushed ops) (sl_takes ops s)"
proof (induction ops arbitrary: s acc)
  case (Cons op ops)
  then obtain s1 where s1: "sl_step op s = Inr s1"
    and "sl_run ops s1 (acc @ sl_accepted op (fst s)) = Inr (s', acc')"
    by (auto simp: rbind_eq_Inr)
  then have "acc' = acc @ sl_accepted op (fst s) @ select (pushed ops) (sl_takes ops s1)"
    using Cons.IH [of s1 "acc @ sl_accepted op (fst s)"] by simp
  then show ?case
    using s1 by (cases op) (simp_all del: sl_step.simps)
qed simp

end
