(* ===== verification/LteUeRrcSl.thy ===== *)
theory LteUeRrcSl
  imports NrSlCommResourcePool SlStack
begin

text \<open>
  The NR sidelink operations of \<open>LteUeRrc\<close> (\<open>src/src/lte/model/lte-ue-rrc.cc\<close>, from line 3371 on):
  they create the PDCP and RLC entities of a bearer, announce it to the MAC, populate the resource
  pools, and carry data between the NAS and the bearers.  The object of \<open>NrSlUeRrc\<close> it works with is
  part of the state.

  The MAC, the PHY and the bandwidth part manager belong to the NR module, which is not part of the
  repository.  What the code asks of them is the record \<open>env\<close>: the sizes of the vectors of SAP
  providers, the bandwidth of a carrier, and the mapping of a logical channel to bandwidth parts.
  The calls on them and on the NAS are appended to \<open>ue_out\<close>.
\<close>

section \<open>State\<close>

datatype RrcState =
    IDLE_START | IDLE_CELL_SEARCH | IDLE_WAIT_MIB_SIB1 | IDLE_WAIT_MIB | IDLE_WAIT_SIB1
  | IDLE_CAMPED_NORMALLY | IDLE_WAIT_SIB2 | IDLE_RANDOM_ACCESS | IDLE_CONNECTING
  | CONNECTED_NORMALLY | CONNECTED_HANDOVER | CONNECTED_PHY_PROBLEM | CONNECTED_REESTABLISHING

record lcinfo =
  lci_srcL2Id :: u32
  lci_dstL2Id :: u32
  lci_lcId :: u8
  lci_lcGroup :: u8
  lci_pqi :: u8
  lci_priority :: u8
  lci_isGbr :: bool
  lci_mbr :: u64
  lci_gbr :: u64

datatype ue_call =
    Cmac_SetSourceL2Id u8 u32
  | Cphy_SetRnti u8 u16
  | Cmac_SetRnti u8 u16
  | Cmac_AddNrSlRxDstL2Id u8 u32
  | Cmac_AddNrSlLc u8 lcinfo
  | Cmac_AddNrSlCommTxPool nat slpool
  | Cmac_SetSlProbResoKeep nat
  | Cmac_SetSlMaxTxTransNumPssch nat u8
  | Cphy_AddNrSlCommTxPool nat slpool
  | Cmac_AddNrSlCommRxPool nat slpool
  | Cphy_AddNrSlCommRxPool nat slpool
  | As_NotifyNrSlRadioBearerActivated u32
  | As_RecvData packet

record env =
  env_nrCmac :: nat
  env_nrCphy :: nat
  env_cmac :: nat
  env_cphy :: nat
  env_bwInRbs :: "nat \<Rightarrow> u32"
  env_addNrSlDrbLc :: "lcinfo \<Rightarrow> (u8 \<times> lcinfo) list"

text \<open>The entities of a bearer are at the position of its object in \<open>ue_objects\<close>.\<close>

record ue =
  ue_rrc :: rrc
  ue_state :: RrcState
  ue_rnti :: u16
  ue_imsi :: u64
  ue_srcL2Id :: u32
  ue_objects :: "(um \<times> pdcp) list"
  ue_out :: "ue_call list"

definition LteUeRrc :: ue where
  "LteUeRrc = \<lparr>ue_rrc = NrSlUeRrc, ue_state = IDLE_START, ue_rnti = 0, ue_imsi = 0,
     ue_srcL2Id = 0xffffffff, ue_objects = [], ue_out = []\<rparr>"

definition ue_emit :: "ue_call list \<Rightarrow> ue \<Rightarrow> ue" where
  "ue_emit es u = u\<lparr>ue_out := ue_out u @ es\<rparr>"

text \<open>A loop over a container, one call per element, that may stop.\<close>

fun for_each :: "('a \<Rightarrow> 's \<Rightarrow> 's res) \<Rightarrow> 'a list \<Rightarrow> 's \<Rightarrow> 's res" where
  "for_each f [] s = Inr s"
| "for_each f (x # xs) s = rbind (f x s) (for_each f xs)"

text \<open>\<open>at\<close> of a vector of SAP providers, followed by calls on the element.\<close>

definition sap_at :: "nat \<Rightarrow> nat \<Rightarrow> ue_call list \<Rightarrow> ue \<Rightarrow> ue res" where
  "sap_at n i es u = rguard OutOfRange (i < n) (Inr (ue_emit es u))"

definition bwp_list :: "ue \<Rightarrow> u8 list" where
  "bwp_list u = sorted_list_of_set (DoGetBwpIdContainer (ue_rrc u))"

section \<open>Identifiers\<close>

definition ue_DoSetSourceL2Id :: "env \<Rightarrow> u32 \<Rightarrow> ue \<Rightarrow> ue res" where
  "ue_DoSetSourceL2Id env src u =
     for_each (\<lambda>b. sap_at (env_nrCmac env) (unat b) [Cmac_SetSourceL2Id b src]) (bwp_list u)
       (u\<lparr>ue_srcL2Id := src\<rparr>)"

definition SetOutofCovrgUeRnti :: "env \<Rightarrow> ue \<Rightarrow> ue res" where
  "SetOutofCovrgUeRnti env u =
     (let rnti = ucast (ue_imsi u AND 0xFFFF) in
      for_each (\<lambda>b v.
          rbind (sap_at (env_cphy env) (unat b) [Cphy_SetRnti b rnti] v)
            (sap_at (env_cmac env) (unat b) [Cmac_SetRnti b rnti]))
        (bwp_list u) (u\<lparr>ue_rnti := rnti\<rparr>))"

section \<open>Bearers\<close>

definition lc_info :: "u32 \<Rightarrow> u32 \<Rightarrow> u8 \<Rightarrow> lcinfo" where
  "lc_info src dst lcid =
     \<lparr>lci_srcL2Id = src, lci_dstL2Id = dst, lci_lcId = lcid, lci_lcGroup = 3, lci_pqi = 65,
      lci_priority = 1, lci_isGbr = True, lci_mbr = 65535, lci_gbr = 65535\<rparr>"

text \<open>The RLC entity is configured as \<^const>\<open>sl_entity\<close> says.\<close>

definition sl_pdcp_entity :: "u16 \<Rightarrow> u8 \<Rightarrow> u32 \<Rightarrow> u32 \<Rightarrow> pdcp" where
  "sl_pdcp_entity rnti lcid src dst =
     pd_SetDestinationL2Id dst (pd_SetSourceL2Id src (pd_SetLcId lcid (pd_SetRnti rnti LtePdcp)))"

definition AddNrSlDrb :: "env \<Rightarrow> u32 \<Rightarrow> u32 \<Rightarrow> u8 \<Rightarrow> ue \<Rightarrow> (drb \<times> ue) res" where
  "AddNrSlDrb env src dst lcid u =
     rguard NsAbort (\<not> (src = 0 \<or> dst = 0))
       (let d = \<lparr>drb_object = length (ue_objects u), drb_logicalChannelIdentity = lcid,
                 drb_sourceL2Id = src, drb_destinationL2Id = dst\<rparr> in
        rbind (if ue_srcL2Id u = src then DoAddNrSlDataRadioBearer d (ue_rrc u)
               else DoAddNrSlRxDataRadioBearer d (ue_rrc u)) (\<lambda>r.
        let u1 = u\<lparr>ue_rrc := r, ue_objects := ue_objects u @
                    [(sl_entity (ue_rnti u) lcid src dst, sl_pdcp_entity (ue_rnti u) lcid src dst)]\<rparr>;
            mapping = env_addNrSlDrbLc env (lc_info src dst lcid);
            numOfBwps = (of_nat (length mapping) :: u8) in
        rguard NsAssert (numOfBwps \<noteq> 0)
          (rguard NsAssert (of_nat (card (DoGetBwpIdContainer r)) = numOfBwps)
            (rbind (for_each (\<lambda>(b, info). sap_at (env_nrCmac env) (unat b) [Cmac_AddNrSlLc b info]) mapping u1)
               (\<lambda>u2. Inr (d, u2))))))"

definition ActivateNrSlDrb :: "env \<Rightarrow> u32 \<Rightarrow> bool \<Rightarrow> bool \<Rightarrow> ue \<Rightarrow> ue res" where
  "ActivateNrSlDrb env dst isTx isRx u =
     (if ue_state u \<in> {IDLE_START, IDLE_CELL_SEARCH, IDLE_WAIT_MIB_SIB1, IDLE_WAIT_MIB, IDLE_WAIT_SIB1,
                       IDLE_CAMPED_NORMALLY}
      then
        rbind (if ue_rnti u = 0 then SetOutofCovrgUeRnti env u else Inr u) (\<lambda>u1.
        rbind (if isTx then
                 rbind (DoGetNextLcid dst (ue_rrc u1)) (\<lambda>lcid.
                 rbind (AddNrSlDrb env (ue_srcL2Id u1) dst lcid u1) (\<lambda>(d, u2). Inr u2))
               else Inr u1) (\<lambda>u2.
        rbind (if (isTx \<and> isRx) \<or> isRx then
                 for_each (\<lambda>b. sap_at (env_nrCmac env) (unat b) [Cmac_AddNrSlRxDstL2Id b dst]) (bwp_list u2) u2
               else Inr u2) (\<lambda>u3.
          Inr (ue_emit [As_NotifyNrSlRadioBearerActivated dst] u3))))
      else Inl NsFatal)"

definition DoActivateNrSlRadioBearer :: "env \<Rightarrow> u32 \<Rightarrow> bool \<Rightarrow> bool \<Rightarrow> bool \<Rightarrow> ue \<Rightarrow> ue res" where
  "DoActivateNrSlRadioBearer env dst isTx isRx isUni u = ActivateNrSlDrb env dst isTx isRx u"

definition DoNotifySidelinkReception :: "env \<Rightarrow> u8 \<Rightarrow> u32 \<Rightarrow> u32 \<Rightarrow> ue \<Rightarrow> ue res" where
  "DoNotifySidelinkReception env lcid src dst u =
     rbind (AddNrSlDrb env src dst lcid u) (\<lambda>(d, u'). Inr u')"

section \<open>Data\<close>

definition IP_SDU :: u8 where "IP_SDU = 0"

text \<open>The RLC entity takes what the PDCP entity hands down.\<close>

fun rlc_take :: "int \<Rightarrow> pdcp_event list \<Rightarrow> um \<Rightarrow> um res" where
  "rlc_take now [] r = Inr r"
| "rlc_take now (TransmitNrSlPdcpPdu q rnti lcid src dst # es) r =
     rbind (DoTransmitNrSlPdcpPdu now q r) (rlc_take now es)"
| "rlc_take now (_ # es) r = rlc_take now es r"

definition DoSendSidelinkData :: "int \<Rightarrow> packet \<Rightarrow> u32 \<Rightarrow> ue \<Rightarrow> ue res" where
  "DoSendSidelinkData now p dst u =
     rbind (DoGetSidelinkDataRadioBearer dst (ue_rrc u)) (\<lambda>d.
     rbind (vec_index (ue_objects u) (drb_object d)) (\<lambda>(r, c).
     rbind (DoTransmitNrSlPdcpSdu now p IP_SDU c) (\<lambda>c'.
     rbind (rlc_take now (drop (length (pd_out c)) (pd_out c')) r) (\<lambda>r'.
       Inr (u\<lparr>ue_objects := (ue_objects u)[drb_object d := (r', c')]\<rparr>)))))"

definition DoReceiveNrSlPdcpSdu :: "packet \<Rightarrow> ue \<Rightarrow> ue" where
  "DoReceiveNrSlPdcpSdu p u = ue_emit [As_RecvData p] u"

section \<open>Pools\<close>

definition pool_entry :: "env \<Rightarrow> nat \<Rightarrow> ue \<Rightarrow> SlResourcePoolConfigNr \<Rightarrow> (u16, bool list) umap
    \<Rightarrow> (u16, bool list) umap res" where
  "pool_entry env index u it m =
     (if cfg_haveSlResourcePoolConfigNr it then
        rbind (GetNrSlSubChSizeValue (pool_slSubchannelSize (cfg_slResourcePool it))) (\<lambda>sbChSizeInRbs.
        rguard OutOfRange (index < env_nrCphy env)
         (rguard NsAssert ((ucast sbChSizeInRbs :: u32) \<le> env_bwInRbs env index)
          (rbind (GetSlFResoPscchValue (pscch_slFreqResourcePscch (pool_slPscchConfig (cfg_slResourcePool it))))
            (\<lambda>numPscchRbs.
           rguard NsAssert (numPscchRbs \<le> sbChSizeInRbs)
            (rbind (DoGetPhysicalSlPool (pool_slTimeResource (cfg_slResourcePool it)) (ue_rrc u)) (\<lambda>physicalPool.
              Inr (umap_emplace (cfg_slResourcePoolId it) physicalPool m)))))))
      else Inr m)"

text \<open>
  One turn of the loop over the bandwidth parts; both maps are local variables of the function,
  cleared at the end of a turn that used them.
\<close>

type_synonym pool_maps = "(u16, bool list) umap \<times> phy_pool_map"

definition ue_slpool :: "ue \<Rightarrow> phy_pool_map \<Rightarrow> slpool" where
  "ue_slpool u m =
     SetNrSlSchedulingType SCHED_UE_SELECTED (SetNrSlPhysicalPoolMap m
       (SetNrSlPreConfigFreqInfoList (pre_slPreconfigFreqInfoList (DoGetNrSlPreconfiguration (ue_rrc u)))
          NrSlCommResourcePool))"

definition install_pool :: "env \<Rightarrow> nat \<Rightarrow> slpool \<Rightarrow> ue \<Rightarrow> ue res" where
  "install_pool env index sp u =
     rbind (sap_at (env_nrCmac env) index
              [Cmac_AddNrSlCommTxPool index sp, Cmac_SetSlProbResoKeep index,
               Cmac_SetSlMaxTxTransNumPssch index
                 (pre_slMaxTxTransNumPssch (DoGetNrSlPreconfiguration (ue_rrc u)))] u) (\<lambda>u1.
     rbind (sap_at (env_nrCphy env) index [Cphy_AddNrSlCommTxPool index sp] u1) (\<lambda>u2.
     rbind (sap_at (env_nrCmac env) index [Cmac_AddNrSlCommRxPool index sp] u2)
       (sap_at (env_nrCphy env) index [Cphy_AddNrSlCommRxPool index sp])))"

definition populate_bwp :: "env \<Rightarrow> nat \<times> SlBwpConfigCommonNr \<Rightarrow> pool_maps \<times> ue \<Rightarrow> (pool_maps \<times> ue) res" where
  "populate_bwp env ib s =
     (case (ib, s) of ((index, b), ((perPool, perBwp), u)) \<Rightarrow>
        rbind (if bwp_haveSlBwpGeneric b \<and> bwp_haveSlBwpPoolConfigCommonNr b then
                 rguard NsAssert (of_nat index \<in> DoGetBwpIdContainer (ue_rrc u))
                  (rbind (for_each (pool_entry env index u) (bwp_slTxPoolSelectedNormal b) perPool) (\<lambda>perPool'.
                   rguard NsAssert (perPool' \<noteq> [])
                     (Inr (perPool', umap_emplace (of_nat index) perPool' perBwp))))
               else Inr (perPool, perBwp)) (\<lambda>(perPool', perBwp').
        if perBwp' \<noteq> [] then
          rbind (install_pool env index (ue_slpool u perBwp') u) (\<lambda>u'. Inr (([], []), u'))
        else Inr ((perPool', perBwp'), u)))"

definition PopulateNrSlPools :: "env \<Rightarrow> ue \<Rightarrow> ue res" where
  "PopulateNrSlPools env u =
     (case pre_slPreconfigFreqInfoList (DoGetNrSlPreconfiguration (ue_rrc u)) of
        [] \<Rightarrow> Inl UndefinedBehaviour
      | f # _ \<Rightarrow>
          rbind (for_each (populate_bwp env) (enumerate 0 (freq_slBwpList f)) (([], []), u))
            (\<lambda>(maps, u'). Inr u'))"

section \<open>The calls of the sidelink RRC\<close>

text \<open>The operations of \<open>NrSlUeRrc\<close> that call back, together with the operations they call.\<close>

definition ue_SetSourceL2Id :: "env \<Rightarrow> u32 \<Rightarrow> ue \<Rightarrow> ue res" where
  "ue_SetSourceL2Id env src u = ue_DoSetSourceL2Id env src (u\<lparr>ue_rrc := rrc_SetSourceL2Id src (ue_rrc u)\<rparr>)"

definition ue_SetNrSlPreconfiguration :: "env \<Rightarrow> SidelinkPreconfigNr \<Rightarrow> ue \<Rightarrow> ue res" where
  "ue_SetNrSlPreconfiguration env pre u =
     rbind (SetNrSlPreconfiguration pre (ue_rrc u)) (\<lambda>r. PopulateNrSlPools env (u\<lparr>ue_rrc := r\<rparr>))"

section \<open>The loops\<close>

lemma sap_at_ok: "sap_at n i es u = Inr u' \<longleftrightarrow> i < n \<and> u' = ue_emit es u"
  by (auto simp: sap_at_def rguard_eq_Inr)

lemma ue_emit_sel [simp]:
  "ue_rrc (ue_emit es u) = ue_rrc u" "ue_objects (ue_emit es u) = ue_objects u"
  "ue_out (ue_emit es u) = ue_out u @ es" "ue_state (ue_emit es u) = ue_state u"
  "ue_rnti (ue_emit es u) = ue_rnti u" "ue_srcL2Id (ue_emit es u) = ue_srcL2Id u"
  by (simp_all add: ue_emit_def)

lemma for_each_inv:
  assumes "for_each f xs s = Inr s'" "P s" "\<And>x s s'. x \<in> set xs \<Longrightarrow> P s \<Longrightarrow> f x s = Inr s' \<Longrightarrow> P s'"
  shows "P s'"
  using assms by (induction xs arbitrary: s) (auto simp: rbind_eq_Inr)

text \<open>The part of the state that the loops over the bandwidth parts leave alone.\<close>

definition same_bearers :: "ue \<Rightarrow> ue \<Rightarrow> bool" where
  "same_bearers u u' \<longleftrightarrow> ue_rrc u' = ue_rrc u \<and> ue_objects u' = ue_objects u \<and> ue_state u' = ue_state u \<and>
     ue_srcL2Id u' = ue_srcL2Id u"

lemma same_bearers_refl: "same_bearers u u"
  by (simp add: same_bearers_def)

lemma same_bearers_sap: "same_bearers u v \<Longrightarrow> sap_at n i es v = Inr v' \<Longrightarrow> same_bearers u v'"
  by (auto simp: sap_at_ok same_bearers_def)

lemma for_each_sap:
  assumes "for_each (\<lambda>b. sap_at n (f b) (es b)) xs u = Inr u'"
  shows "same_bearers u u' \<and> ue_rnti u' = ue_rnti u"
  by (rule for_each_inv [OF assms, where P = "\<lambda>v. same_bearers u v \<and> ue_rnti v = ue_rnti u"])
    (auto simp: same_bearers_def sap_at_ok)

lemma rnti_set:
  assumes "SetOutofCovrgUeRnti env u = Inr u'"
  shows "same_bearers u u' \<and> ue_rnti u' = ucast (ue_imsi u AND 0xFFFF)"
proof -
  let ?r = "ucast (ue_imsi u AND 0xFFFF) :: u16"
  have "for_each (\<lambda>b v. rbind (sap_at (env_cphy env) (unat b) [Cphy_SetRnti b ?r] v)
            (sap_at (env_cmac env) (unat b) [Cmac_SetRnti b ?r])) (bwp_list u) (u\<lparr>ue_rnti := ?r\<rparr>) = Inr u'"
    using assms by (simp add: SetOutofCovrgUeRnti_def Let_def)
  from for_each_inv [OF this, where P = "\<lambda>v. same_bearers u v \<and> ue_rnti v = ?r"] show ?thesis
    by (auto simp: same_bearers_def sap_at_ok rbind_eq_Inr)
qed

section \<open>Populating the pools\<close>

text \<open>
  The entries that the transmission pools of a bandwidth part contribute, first ones first, and
  the table that collects them.
\<close>

definition entry_ok :: "env \<Rightarrow> nat \<Rightarrow> ue \<Rightarrow> SlResourcePoolConfigNr \<Rightarrow> u16 \<times> bool list \<Rightarrow> bool" where
  "entry_ok env i u c e \<longleftrightarrow>
     fst e = cfg_slResourcePoolId c \<and>
     DoGetPhysicalSlPool (pool_slTimeResource (cfg_slResourcePool c)) (ue_rrc u) = Inr (snd e) \<and>
     (\<exists>rbs sub. GetSlFResoPscchValue (pscch_slFreqResourcePscch (pool_slPscchConfig (cfg_slResourcePool c))) = Inr rbs \<and>
        GetNrSlSubChSizeValue (pool_slSubchannelSize (cfg_slResourcePool c)) = Inr sub \<and>
        rbs \<le> sub \<and> ucast sub \<le> env_bwInRbs env i)"

lemma pool_entries:
  assumes "for_each (pool_entry env i u) cs m = Inr m'"
  shows "\<exists>es. m' = fold (\<lambda>(k, v). umap_emplace k v) es m \<and>
    list_all2 (entry_ok env i u) (filter cfg_haveSlResourcePoolConfigNr cs) es"
  using assms
proof (induction cs arbitrary: m)
  case (Cons c cs)
  then obtain m1 where m1: "pool_entry env i u c m = Inr m1" "for_each (pool_entry env i u) cs m1 = Inr m'"
    by (auto simp: rbind_eq_Inr)
  from Cons.IH [OF m1(2)] obtain es where es: "m' = fold (\<lambda>(k, v). umap_emplace k v) es m1"
    "list_all2 (entry_ok env i u) (filter cfg_haveSlResourcePoolConfigNr cs) es" by blast
  show ?case
  proof (cases "cfg_haveSlResourcePoolConfigNr c")
    case True
    then obtain phy where "m1 = umap_emplace (cfg_slResourcePoolId c) phy m"
      "entry_ok env i u c (cfg_slResourcePoolId c, phy)"
      using m1(1) by (auto simp: pool_entry_def entry_ok_def rbind_eq_Inr rguard_eq_Inr)
    with True es show ?thesis
      by (intro exI [of _ "(cfg_slResourcePoolId c, phy) # es"]) simp
  next
    case False
    with m1(1) es show ?thesis by (auto simp: pool_entry_def)
  qed
qed simp

lemma map_of_list_all2:
  "list_all2 (entry_ok env i u) cs es \<Longrightarrow> map_of es pid = Some phy \<Longrightarrow>
   \<exists>c \<in> set cs. cfg_slResourcePoolId c = pid \<and> entry_ok env i u c (pid, phy)"
proof (induction rule: list_all2_induct)
  case (Cons c cs e es)
  then show ?case
    by (cases e) (auto simp: entry_ok_def split: if_splits)
qed simp

lemma pool_table:
  assumes "for_each (pool_entry env i u) cs [] = Inr m" "map_of m pid = Some phy"
  shows "\<exists>c \<in> set cs. cfg_haveSlResourcePoolConfigNr c \<and> cfg_slResourcePoolId c = pid \<and>
    entry_ok env i u c (pid, phy)"
proof -
  obtain es where es: "m = fold (\<lambda>(k, v). umap_emplace k v) es []"
    "list_all2 (entry_ok env i u) (filter cfg_haveSlResourcePoolConfigNr cs) es"
    using pool_entries [OF assms(1)] by blast
  have "map_of es pid = Some phy"
    using umap.fold_find [of es "[]" pid] assms(2) es(1) by simp
  from map_of_list_all2 [OF es(2) this] show ?thesis by auto
qed

definition configured :: "SlBwpConfigCommonNr \<Rightarrow> bool" where
  "configured b \<longleftrightarrow> bwp_haveSlBwpGeneric b \<and> bwp_haveSlBwpPoolConfigCommonNr b"

text \<open>What a configured bandwidth part has installed in MAC and PHY.\<close>

definition bwp_calls :: "env \<Rightarrow> ue \<Rightarrow> nat \<times> SlBwpConfigCommonNr \<Rightarrow> ue_call list" where
  "bwp_calls env u = (\<lambda>(i, b).
     if configured b then
       let sp = ue_slpool u [(of_nat i, projr (for_each (pool_entry env i u) (bwp_slTxPoolSelectedNormal b) []))] in
       [Cmac_AddNrSlCommTxPool i sp, Cmac_SetSlProbResoKeep i,
        Cmac_SetSlMaxTxTransNumPssch i (pre_slMaxTxTransNumPssch (rrc_preconfiguration (ue_rrc u))),
        Cphy_AddNrSlCommTxPool i sp, Cmac_AddNrSlCommRxPool i sp, Cphy_AddNrSlCommRxPool i sp]
     else [])"

definition bwp_ok :: "env \<Rightarrow> ue \<Rightarrow> nat \<times> SlBwpConfigCommonNr \<Rightarrow> bool" where
  "bwp_ok env u = (\<lambda>(i, b). configured b \<longrightarrow>
     of_nat i \<in> rrc_slBwpIds (ue_rrc u) \<and> i < env_nrCmac env \<and> i < env_nrCphy env \<and>
     (\<exists>m. for_each (pool_entry env i u) (bwp_slTxPoolSelectedNormal b) [] = Inr m \<and> m \<noteq> []))"

lemma pool_entry_rrc: "ue_rrc u' = ue_rrc u \<Longrightarrow> pool_entry env i u' = pool_entry env i u"
  by (simp add: pool_entry_def fun_eq_iff)

lemma bwp_rrc:
  assumes "ue_rrc u' = ue_rrc u"
  shows "bwp_calls env u' = bwp_calls env u" "bwp_ok env u' = bwp_ok env u"
proof -
  have pe: "pool_entry env i u' = pool_entry env i u" for i
    by (rule pool_entry_rrc [OF assms])
  show "bwp_calls env u' = bwp_calls env u" "bwp_ok env u' = bwp_ok env u"
    unfolding bwp_calls_def bwp_ok_def ue_slpool_def DoGetNrSlPreconfiguration_def pe assms
    by (rule refl)+
qed

lemma populate_turn:
  assumes "populate_bwp env ib (([], []), u) = Inr s'"
  shows "s' = (([], []), ue_emit (bwp_calls env u ib) u) \<and> bwp_ok env u ib"
proof -
  obtain i b where ib: "ib = (i, b)" by (cases ib)
  show ?thesis
  proof (cases "configured b")
    case True
    then show ?thesis
      using assms by (auto simp: ib populate_bwp_def configured_def bwp_calls_def bwp_ok_def rbind_eq_Inr
          rguard_eq_Inr install_pool_def sap_at_ok umap_emplace_new DoGetBwpIdContainer_def
          DoGetNrSlPreconfiguration_def ue_emit_def Let_def)
  next
    case False
    then show ?thesis
      using assms by (auto simp: ib populate_bwp_def configured_def bwp_calls_def bwp_ok_def ue_emit_def
          split: if_splits)
  qed
qed

lemma populate_loop:
  assumes "for_each (populate_bwp env) ibs (([], []), u) = Inr s'"
  shows "s' = (([], []), ue_emit (concat (map (bwp_calls env u) ibs)) u) \<and> list_all (bwp_ok env u) ibs"
  using assms
proof (induction ibs arbitrary: u)
  case (Cons ib ibs)
  then obtain s1 where s1: "populate_bwp env ib (([], []), u) = Inr s1" "for_each (populate_bwp env) ibs s1 = Inr s'"
    by (auto simp: rbind_eq_Inr)
  define u1 where "u1 = ue_emit (bwp_calls env u ib) u"
  have rrc: "ue_rrc u1 = ue_rrc u" by (simp add: u1_def)
  have "for_each (populate_bwp env) ibs (([], []), u1) = Inr s'" "bwp_ok env u ib"
    using populate_turn [OF s1(1)] s1(2) by (simp_all add: u1_def)
  with Cons.IH [of u1] show ?case
    unfolding bwp_rrc [OF rrc] by (simp add: u1_def ue_emit_def)
qed (simp add: ue_emit_def)

lemma populate_pools:
  assumes "PopulateNrSlPools env u = Inr u'"
    and "pre_slPreconfigFreqInfoList (rrc_preconfiguration (ue_rrc u)) = f # fs"
  shows "u' = ue_emit (concat (map (bwp_calls env u) (enumerate 0 (freq_slBwpList f)))) u \<and>
    list_all (bwp_ok env u) (enumerate 0 (freq_slBwpList f))"
  using assms populate_loop [of env "enumerate 0 (freq_slBwpList f)" u]
  by (auto simp: PopulateNrSlPools_def DoGetNrSlPreconfiguration_def rbind_eq_Inr)

section \<open>Creating bearers\<close>

text \<open>The calls on MAC and PHY, which the NAS does not see.\<close>

fun lower_call :: "ue_call \<Rightarrow> bool" where
  "lower_call (As_NotifyNrSlRadioBearerActivated dst) = False"
| "lower_call (As_RecvData p) = False"
| "lower_call _ = True"

definition lower_only :: "ue \<Rightarrow> ue \<Rightarrow> bool" where
  "lower_only u u' \<longleftrightarrow> same_bearers u u' \<and> (\<exists>cs. ue_out u' = ue_out u @ cs \<and> list_all lower_call cs)"

lemma lower_only_refl: "lower_only u u"
  by (simp add: lower_only_def same_bearers_refl)

lemma lower_only_trans: "lower_only u v \<Longrightarrow> lower_only v w \<Longrightarrow> lower_only u w"
  by (auto simp: lower_only_def same_bearers_def)

lemma lower_only_sap: "sap_at n i es u = Inr u' \<Longrightarrow> list_all lower_call es \<Longrightarrow> lower_only u u'"
  by (auto simp: sap_at_ok lower_only_def same_bearers_def)

lemma lower_only_sap2:
  "rbind (sap_at n i es u) (sap_at m j fs) = Inr u' \<Longrightarrow> list_all lower_call es \<Longrightarrow> list_all lower_call fs \<Longrightarrow>
   lower_only u u'"
  unfolding rbind_eq_Inr by (blast intro: lower_only_trans lower_only_sap)

lemma lower_only_each:
  assumes "for_each f xs u = Inr u'" "\<And>x v v'. f x v = Inr v' \<Longrightarrow> lower_only v v'"
  shows "lower_only u u'"
  by (rule for_each_inv [OF assms(1), where P = "lower_only u"])
    (blast intro: lower_only_refl lower_only_trans assms(2))+

lemma lower_only_rnti: "SetOutofCovrgUeRnti env u = Inr u' \<Longrightarrow> lower_only u u'"
proof -
  assume "SetOutofCovrgUeRnti env u = Inr u'"
  then have "for_each (\<lambda>b v. rbind (sap_at (env_cphy env) (unat b) [Cphy_SetRnti b (ucast (ue_imsi u AND 0xFFFF))] v)
            (sap_at (env_cmac env) (unat b) [Cmac_SetRnti b (ucast (ue_imsi u AND 0xFFFF))]))
          (bwp_list u) (u\<lparr>ue_rnti := ucast (ue_imsi u AND 0xFFFF)\<rparr>) = Inr u'"
    by (simp add: SetOutofCovrgUeRnti_def Let_def)
  then have "lower_only (u\<lparr>ue_rnti := ucast (ue_imsi u AND 0xFFFF)\<rparr>) u'"
    by (rule lower_only_each) (erule lower_only_sap2, simp_all)
  then show ?thesis by (simp add: lower_only_def same_bearers_def)
qed

text \<open>The entities of a new bearer.\<close>

definition new_entities :: "u16 \<Rightarrow> u8 \<Rightarrow> u32 \<Rightarrow> u32 \<Rightarrow> um \<times> pdcp" where
  "new_entities rnti lcid src dst = (sl_entity rnti lcid src dst, sl_pdcp_entity rnti lcid src dst)"

definition new_drb :: "ue \<Rightarrow> u8 \<Rightarrow> u32 \<Rightarrow> u32 \<Rightarrow> drb" where
  "new_drb u lcid src dst = \<lparr>drb_object = length (ue_objects u), drb_logicalChannelIdentity = lcid,
     drb_sourceL2Id = src, drb_destinationL2Id = dst\<rparr>"

lemma AddNrSlDrb_eq:
  "AddNrSlDrb env src dst lcid u =
     rguard NsAbort (\<not> (src = 0 \<or> dst = 0))
       (let d = new_drb u lcid src dst in
        rbind (if ue_srcL2Id u = src then DoAddNrSlDataRadioBearer d (ue_rrc u)
               else DoAddNrSlRxDataRadioBearer d (ue_rrc u)) (\<lambda>r.
        let u1 = u\<lparr>ue_rrc := r, ue_objects := ue_objects u @ [new_entities (ue_rnti u) lcid src dst]\<rparr>;
            mapping = env_addNrSlDrbLc env (lc_info src dst lcid);
            numOfBwps = (of_nat (length mapping) :: u8) in
        rguard NsAssert (numOfBwps \<noteq> 0)
          (rguard NsAssert (of_nat (card (DoGetBwpIdContainer r)) = numOfBwps)
            (rbind (for_each (\<lambda>(b, info). sap_at (env_nrCmac env) (unat b) [Cmac_AddNrSlLc b info]) mapping u1)
               (\<lambda>u2. Inr (d, u2))))))"
  unfolding AddNrSlDrb_def new_drb_def new_entities_def by (rule refl)

lemma add_drb:
  assumes "AddNrSlDrb env src dst lcid u = Inr (d, u')"
  shows "d = new_drb u lcid src dst" "src \<noteq> 0" "dst \<noteq> 0"
    "(if ue_srcL2Id u = src then DoAddNrSlDataRadioBearer d (ue_rrc u)
      else DoAddNrSlRxDataRadioBearer d (ue_rrc u)) = Inr (ue_rrc u')"
    "ue_objects u' = ue_objects u @ [new_entities (ue_rnti u) lcid src dst]"
    "ue_state u' = ue_state u" "ue_srcL2Id u' = ue_srcL2Id u"
    "\<exists>cs. ue_out u' = ue_out u @ cs \<and> list_all lower_call cs"
proof -
  obtain r where r: "src \<noteq> 0" "dst \<noteq> 0" "d = new_drb u lcid src dst"
    "(if ue_srcL2Id u = src then DoAddNrSlDataRadioBearer d (ue_rrc u)
      else DoAddNrSlRxDataRadioBearer d (ue_rrc u)) = Inr r"
    and loop: "for_each (\<lambda>(b, info). sap_at (env_nrCmac env) (unat b) [Cmac_AddNrSlLc b info])
      (env_addNrSlDrbLc env (lc_info src dst lcid))
      (u\<lparr>ue_rrc := r, ue_objects := ue_objects u @ [new_entities (ue_rnti u) lcid src dst]\<rparr>) = Inr u'"
    using assms by (auto simp: AddNrSlDrb_eq Let_def rguard_eq_Inr rbind_eq_Inr)
  have "lower_only (u\<lparr>ue_rrc := r, ue_objects := ue_objects u @ [new_entities (ue_rnti u) lcid src dst]\<rparr>) u'"
    by (rule lower_only_each [OF loop]) (auto intro: lower_only_sap split: prod.splits)
  with r show "d = new_drb u lcid src dst" "src \<noteq> 0" "dst \<noteq> 0"
    "(if ue_srcL2Id u = src then DoAddNrSlDataRadioBearer d (ue_rrc u)
      else DoAddNrSlRxDataRadioBearer d (ue_rrc u)) = Inr (ue_rrc u')"
    "ue_objects u' = ue_objects u @ [new_entities (ue_rnti u) lcid src dst]"
    "ue_state u' = ue_state u" "ue_srcL2Id u' = ue_srcL2Id u"
    "\<exists>cs. ue_out u' = ue_out u @ cs \<and> list_all lower_call cs"
    by (simp_all add: lower_only_def same_bearers_def)
qed

lemma added_bearer:
  "DoAddNrSlDataRadioBearer d r = Inr r' \<Longrightarrow> map_of (rrc_slDrbMap r) (drb_destinationL2Id d) = None \<and>
   map_of (rrc_slDrbMap r') (drb_destinationL2Id d) = Some [(drb_logicalChannelIdentity d, d)]"
  by (auto simp: DoAddNrSlDataRadioBearer_def rguard_eq_Inr umap_find_emplace new_bearer_table_eq)

lemma new_drb_sel [simp]:
  "drb_object (new_drb u lcid src dst) = length (ue_objects u)"
  "drb_logicalChannelIdentity (new_drb u lcid src dst) = lcid"
  "drb_sourceL2Id (new_drb u lcid src dst) = src"
  "drb_destinationL2Id (new_drb u lcid src dst) = dst"
  by (simp_all add: new_drb_def)

text \<open>A transmission bearer that has been activated.\<close>

lemma activate_tx:
  assumes "ActivateNrSlDrb env dst True isRx u = Inr u'"
  shows "\<exists>lcid rnti. map_of (rrc_slDrbMap (ue_rrc u)) dst = None \<and> dst \<noteq> 0 \<and> ue_srcL2Id u \<noteq> 0 \<and>
    map_of (rrc_slDrbMap (ue_rrc u')) dst = Some [(lcid, new_drb u lcid (ue_srcL2Id u) dst)] \<and>
    ue_objects u' = ue_objects u @ [new_entities rnti lcid (ue_srcL2Id u) dst] \<and>
    (\<exists>cs. ue_out u' = ue_out u @ cs @ [As_NotifyNrSlRadioBearerActivated dst] \<and> list_all lower_call cs)"
proof -
  have "ue_state u \<in> {IDLE_START, IDLE_CELL_SEARCH, IDLE_WAIT_MIB_SIB1, IDLE_WAIT_MIB, IDLE_WAIT_SIB1,
                       IDLE_CAMPED_NORMALLY}"
    using assms unfolding ActivateNrSlDrb_def by (rule contrapos_pp) simp
  note body = assms [unfolded ActivateNrSlDrb_def if_P [OF this]]
  obtain u1 lcid d u2 u3 where
    u1: "(if ue_rnti u = 0 then SetOutofCovrgUeRnti env u else Inr u) = Inr u1" and
    add: "AddNrSlDrb env (ue_srcL2Id u1) dst lcid u1 = Inr (d, u2)" and
    u3: "(if isRx then for_each (\<lambda>b. sap_at (env_nrCmac env) (unat b) [Cmac_AddNrSlRxDstL2Id b dst])
        (bwp_list u2) u2 else Inr u2) = Inr u3" and
    u': "u' = ue_emit [As_NotifyNrSlRadioBearerActivated dst] u3"
    using body by (auto simp: rbind_eq_Inr)
  have low1: "lower_only u u1"
    using u1 lower_only_rnti lower_only_refl by (auto split: if_splits)
  have low3: "lower_only u2 u3"
  proof (cases isRx)
    case True
    with u3 have "for_each (\<lambda>b. sap_at (env_nrCmac env) (unat b) [Cmac_AddNrSlRxDstL2Id b dst])
        (bwp_list u2) u2 = Inr u3" by simp
    then show ?thesis by (rule lower_only_each) (erule lower_only_sap, simp)
  qed (use u3 lower_only_refl in simp)
  note add = add_drb [OF add]
  have same: "ue_rrc u1 = ue_rrc u" "ue_objects u1 = ue_objects u" "ue_srcL2Id u1 = ue_srcL2Id u"
    using low1 by (simp_all add: lower_only_def same_bearers_def)
  have "map_of (rrc_slDrbMap (ue_rrc u)) dst = None \<and>
      map_of (rrc_slDrbMap (ue_rrc u2)) dst = Some [(lcid, new_drb u lcid (ue_srcL2Id u) dst)]"
    using added_bearer [of "new_drb u1 lcid (ue_srcL2Id u1) dst" "ue_rrc u1" "ue_rrc u2"] add(1,4)
    by (simp add: same new_drb_def)
  moreover have "ue_rrc u' = ue_rrc u2" "ue_objects u' = ue_objects u2"
    using low3 by (simp_all add: u' lower_only_def same_bearers_def)
  moreover have "\<exists>cs. ue_out u' = ue_out u @ cs @ [As_NotifyNrSlRadioBearerActivated dst] \<and> list_all lower_call cs"
    using low1 low3 add(8) by (auto simp: u' lower_only_def)
  ultimately show ?thesis
    using add(2,3,5) same by auto
qed

end
