(* ===== verification/SlUe.thy ===== *)
theory SlUe
  imports EpcUeNas LteUeRrcSl
begin

text \<open>
  A UE of the sidelink simulation: the NAS (\<open>EpcUeNas\<close>) on top of the RRC (\<open>LteUeRrc\<close>) on top of
  the PDCP and RLC entities of its bearers, joined as the SAP members of \<open>lte-as-sap.h\<close> and of the
  PDCP and RLC classes join them.  Two UEs are connected by a channel that carries the RLC PDUs the
  MAC is given, in order.

  The requests of the NAS to the LTE part of the RRC (cell selection, connection, uplink data) are
  handled by the parameter \<open>lte\<close>.
\<close>

section \<open>The service access points\<close>

record device =
  dev_nas :: nas
  dev_ue :: ue

text \<open>\<open>MemberLteAsSapProvider\<close> and \<open>MemberLteAsSapUser\<close>: each call becomes a call of the owner.\<close>

fun as_provider :: "(nas_call \<Rightarrow> ue \<Rightarrow> ue res) \<Rightarrow> env \<Rightarrow> int \<Rightarrow> nas_call list \<Rightarrow> ue \<Rightarrow> ue res" where
  "as_provider lte env now [] u = Inr u"
| "as_provider lte env now (As_ActivateNrSlRadioBearer dst isTx isRx isUni # es) u =
     rbind (DoActivateNrSlRadioBearer env dst isTx isRx isUni u) (as_provider lte env now es)"
| "as_provider lte env now (As_SendSidelinkData p dst # es) u =
     rbind (DoSendSidelinkData now p dst u) (as_provider lte env now es)"
| "as_provider lte env now (Nas_ForwardUp p # es) u = as_provider lte env now es u"
| "as_provider lte env now (Nas_StateTransition s s' # es) u = as_provider lte env now es u"
| "as_provider lte env now (e # es) u = rbind (lte e u) (as_provider lte env now es)"

fun as_user :: "ue_call list \<Rightarrow> nas \<Rightarrow> nas" where
  "as_user [] n = n"
| "as_user (As_NotifyNrSlRadioBearerActivated dst # es) n =
     as_user es (DoNotifyNrSlRadioBearerActivated dst n)"
| "as_user (As_RecvData p # es) n = as_user es (nas_DoRecvData p n)"
| "as_user (_ # es) n = as_user es n"

text \<open>The calls a component has made since a state.\<close>

definition new_nas_calls :: "nas \<Rightarrow> nas \<Rightarrow> nas_call list" where
  "new_nas_calls n n' = drop (length (nas_out n)) (nas_out n')"

definition new_ue_calls :: "ue \<Rightarrow> ue \<Rightarrow> ue_call list" where
  "new_ue_calls u u' = drop (length (ue_out u)) (ue_out u')"

definition dev_after_nas :: "(nas_call \<Rightarrow> ue \<Rightarrow> ue res) \<Rightarrow> env \<Rightarrow> int \<Rightarrow> nas \<Rightarrow> device \<Rightarrow> device res" where
  "dev_after_nas lte env now n d =
     rbind (as_provider lte env now (new_nas_calls (dev_nas d) n) (dev_ue d)) (\<lambda>u.
       Inr \<lparr>dev_nas = as_user (new_ue_calls (dev_ue d) u) n, dev_ue = u\<rparr>)"

section \<open>Operations\<close>

definition dev_ActivateNrSlBearer ::
  "(nas_call \<Rightarrow> ue \<Rightarrow> ue res) \<Rightarrow> env \<Rightarrow> int \<Rightarrow> sltft \<Rightarrow> device \<Rightarrow> device res" where
  "dev_ActivateNrSlBearer lte env now t d =
     rbind (ActivateNrSlBearer t (dev_nas d)) (\<lambda>n. dev_after_nas lte env now n d)"

definition dev_Send ::
  "(nat \<Rightarrow> epc_tft) \<Rightarrow> (nas_call \<Rightarrow> ue \<Rightarrow> ue res) \<Rightarrow> env \<Rightarrow> int \<Rightarrow>
   packet \<Rightarrow> u16 \<Rightarrow> device \<Rightarrow> (bool \<times> device) res" where
  "dev_Send tfts lte env now p protocolNumber d =
     rbind (nas_Send tfts p protocolNumber (dev_nas d)) (\<lambda>(sent, n).
     rbind (dev_after_nas lte env now n d) (\<lambda>d'. Inr (sent, d')))"

definition dev_NotifySidelinkReception :: "env \<Rightarrow> u8 \<Rightarrow> u32 \<Rightarrow> u32 \<Rightarrow> device \<Rightarrow> device res" where
  "dev_NotifySidelinkReception env lcid src dst d =
     rbind (DoNotifySidelinkReception env lcid src dst (dev_ue d)) (\<lambda>u.
       Inr \<lparr>dev_nas = as_user (new_ue_calls (dev_ue d) u) (dev_nas d), dev_ue = u\<rparr>)"

text \<open>The MAC grants the bearer at position \<open>i\<close> an opportunity; the result is what the MAC gets.\<close>

definition dev_Opportunity :: "nat \<Rightarrow> int \<Rightarrow> u32 \<Rightarrow> device \<Rightarrow> (um_event list \<times> device) res" where
  "dev_Opportunity i now bytes d =
     rbind (vec_index (ue_objects (dev_ue d)) i) (\<lambda>(r, c).
     rbind (DoNotifyNrSlTxOpportunity now bytes 0 0 0 r) (\<lambda>r'.
       Inr (drop (length (um_out r)) (um_out r'),
            d\<lparr>dev_ue := (dev_ue d)\<lparr>ue_objects := (ue_objects (dev_ue d))[i := (r', c)]\<rparr>\<rparr>)))"

text \<open>
  The MAC passes an RLC PDU to the entity at position \<open>j\<close>: RLC to PDCP, PDCP to RRC, RRC to NAS.
\<close>

fun rrc_take :: "pdcp_event list \<Rightarrow> ue \<Rightarrow> ue" where
  "rrc_take [] u = u"
| "rrc_take (ReceiveNrSlPdcpSdu q rnti lcid src dst ty # es) u = rrc_take es (DoReceiveNrSlPdcpSdu q u)"
| "rrc_take (_ # es) u = rrc_take es u"

definition dev_ReceiveRlcPdu :: "nat \<Rightarrow> int \<Rightarrow> packet \<Rightarrow> u32 \<Rightarrow> device \<Rightarrow> device res" where
  "dev_ReceiveRlcPdu j now q dst d =
     rbind (vec_index (ue_objects (dev_ue d)) j) (\<lambda>(r, c).
     rbind (DoReceiveNrSlRlcPdu now q dst r) (\<lambda>r'.
     rbind (stack_receive now (drop (length (um_out r)) (um_out r')) c) (\<lambda>c'.
       let u = (dev_ue d)\<lparr>ue_objects := (ue_objects (dev_ue d))[j := (r', c')]\<rparr>;
           u' = rrc_take (drop (length (pd_out c)) (pd_out c')) u
       in Inr \<lparr>dev_nas = as_user (new_ue_calls u u') (dev_nas d), dev_ue = u'\<rparr>)))"

fun dev_receive_all :: "nat \<Rightarrow> int \<Rightarrow> um_event list \<Rightarrow> device \<Rightarrow> device res" where
  "dev_receive_all j now [] d = Inr d"
| "dev_receive_all j now (TransmitNrSlRlcPdu q rnti lcid layer harq bwp src dst # es) d =
     rbind (dev_ReceiveRlcPdu j now q dst d) (dev_receive_all j now es)"
| "dev_receive_all j now (_ # es) d = dev_receive_all j now es d"

section \<open>Two UEs\<close>

text \<open>
  \<open>NetSend\<close>: the application of the first UE sends an IPv4 packet.  \<open>NetGrant\<close>: the MAC grants its
  bearer an opportunity, and the PDU reaches the second UE.
\<close>

datatype net_op = NetSend int packet | NetGrant int u32

fun net_step ::
  "(nat \<Rightarrow> epc_tft) \<Rightarrow> (nas_call \<Rightarrow> ue \<Rightarrow> ue res) \<Rightarrow> env \<Rightarrow> nat \<Rightarrow> nat \<Rightarrow>
   net_op \<Rightarrow> device \<times> device \<Rightarrow> (device \<times> device) res" where
  "net_step tfts lte env i j (NetSend now p) (a, b) =
     rbind (dev_Send tfts lte env now p IPV4_PROT_NUMBER a) (\<lambda>(sent, a'). Inr (a', b))"
| "net_step tfts lte env i j (NetGrant now bytes) (a, b) =
     rbind (dev_Opportunity i now bytes a) (\<lambda>(es, a').
     rbind (dev_receive_all j now es b) (\<lambda>b'. Inr (a', b')))"

text \<open>What the NAS has forwarded to the upper layers, and what a run sends.\<close>

fun forwarded :: "nas_call list \<Rightarrow> u8 list list" where
  "forwarded [] = []"
| "forwarded (Nas_ForwardUp p # es) = pk_bytes p # forwarded es"
| "forwarded (_ # es) = forwarded es"

fun net_sent :: "net_op list \<Rightarrow> u8 list list" where
  "net_sent [] = []"
| "net_sent (NetSend now p # ops) = pk_bytes p # net_sent ops"
| "net_sent (NetGrant now bytes # ops) = net_sent ops"

lemma forwarded_append: "forwarded (es @ es') = forwarded es @ forwarded es'"
  by (induction es rule: forwarded.induct) simp_all

section \<open>Activation\<close>

lemma as_user_append: "as_user (xs @ ys) n = as_user ys (as_user xs n)"
  by (induction xs n rule: as_user.induct) simp_all

lemma as_user_lower: "list_all lower_call es \<Longrightarrow> as_user es n = n"
  by (induction es n rule: as_user.induct) simp_all

lemma move_activated_eq:
  "move_activated dst pend act =
     (filter (\<lambda>t. GetDstL2Id t \<noteq> dst) pend, act @ filter (\<lambda>t. GetDstL2Id t = dst) pend)"
  by (induction dst pend act rule: move_activated.induct) auto

text \<open>A bearer that is ready: the template that matches the address leads to an entity of the UE.\<close>

definition bearer_ready :: "ipv4 \<Rightarrow> u32 \<Rightarrow> nat \<Rightarrow> device \<Rightarrow> bool" where
  "bearer_ready ra dst i d \<longleftrightarrow>
     nas_state (dev_nas d) \<in> {NAS_OFF, NAS_ACTIVE} \<and>
     (\<exists>t. List.find (tft_Matches4 ra) (nas_activatedSl (dev_nas d)) = Some t \<and> GetDstL2Id t = dst) \<and>
     (\<exists>b. map_of (rrc_slDrbMap (ue_rrc (dev_ue d))) dst = Some [(drb_logicalChannelIdentity b, b)] \<and>
       drb_object b = i)"

lemma find_append: "List.find P (xs @ ys) = (case List.find P xs of None \<Rightarrow> List.find P ys | r \<Rightarrow> r)"
  by (induction xs) simp_all

lemma find_filter_same:
  assumes "t \<in> set ts" "P t" "Q t"
  shows "\<exists>u. List.find P (filter Q ts) = Some u \<and> Q u"
  using assms by (induction ts) auto

lemma activate_ready:
  assumes run: "dev_ActivateNrSlBearer lte env now t d = Inr d'"
    and t: "isTransmit t = Inr True" "tft_Matches4 ra t"
    and fresh: "List.find (tft_Matches4 ra) (nas_activatedSl (dev_nas d)) = None"
    and state: "nas_state (dev_nas d) \<in> {NAS_OFF, NAS_ACTIVE}"
  shows "\<exists>rnti lcid. bearer_ready ra (GetDstL2Id t) (length (ue_objects (dev_ue d))) d' \<and>
    ue_objects (dev_ue d') = ue_objects (dev_ue d) @
      [new_entities rnti lcid (ue_srcL2Id (dev_ue d)) (GetDstL2Id t)] \<and>
    GetDstL2Id t \<noteq> 0 \<and> forwarded (nas_out (dev_nas d')) = forwarded (nas_out (dev_nas d))"
proof -
  define n where "n = (dev_nas d)\<lparr>nas_pendingSl := nas_pendingSl (dev_nas d) @ [t]\<rparr>"
  obtain rx uni u where rx: "isReceive t = Inr rx" "isUnicast t = Inr uni"
    and u: "ActivateNrSlDrb env (GetDstL2Id t) True rx (dev_ue d) = Inr u"
    and d': "d' = \<lparr>dev_nas = as_user (new_ue_calls (dev_ue d) u)
      (nas_emit [As_ActivateNrSlRadioBearer (GetDstL2Id t) True rx uni] n), dev_ue = u\<rparr>"
    using run t(1) by (auto simp: dev_ActivateNrSlBearer_def ActivateNrSlBearer_def dev_after_nas_def
        new_nas_calls_def nas_emit_def rbind_eq_Inr DoActivateNrSlRadioBearer_def n_def)
  obtain lcid rnti cs where tx: "GetDstL2Id t \<noteq> 0"
    "map_of (rrc_slDrbMap (ue_rrc u)) (GetDstL2Id t)
       = Some [(lcid, new_drb (dev_ue d) lcid (ue_srcL2Id (dev_ue d)) (GetDstL2Id t))]"
    "ue_objects u = ue_objects (dev_ue d) @ [new_entities rnti lcid (ue_srcL2Id (dev_ue d)) (GetDstL2Id t)]"
    "ue_out u = ue_out (dev_ue d) @ cs @ [As_NotifyNrSlRadioBearerActivated (GetDstL2Id t)]"
    "list_all lower_call cs"
    using activate_tx [OF u] by blast
  have nas: "dev_nas d' = DoNotifyNrSlRadioBearerActivated (GetDstL2Id t)
      (nas_emit [As_ActivateNrSlRadioBearer (GetDstL2Id t) True rx uni] n)"
    by (simp add: d' new_ue_calls_def tx(4) as_user_append as_user_lower [OF tx(5)])
  have act: "nas_activatedSl (dev_nas d') = nas_activatedSl (dev_nas d) @
      filter (\<lambda>s. GetDstL2Id s = GetDstL2Id t) (nas_pendingSl (dev_nas d) @ [t])"
    by (simp add: nas DoNotifyNrSlRadioBearerActivated_def move_activated_eq nas_emit_def n_def)
  have "\<exists>s. List.find (tft_Matches4 ra) (nas_activatedSl (dev_nas d')) = Some s \<and> GetDstL2Id s = GetDstL2Id t"
    using find_filter_same [of t "nas_pendingSl (dev_nas d) @ [t]" "tft_Matches4 ra"
        "\<lambda>s. GetDstL2Id s = GetDstL2Id t"] t(2) fresh
    unfolding act find_append by simp
  moreover have "nas_state (dev_nas d') = nas_state (dev_nas d)"
    "forwarded (nas_out (dev_nas d')) = forwarded (nas_out (dev_nas d))"
    by (simp_all add: nas DoNotifyNrSlRadioBearerActivated_def move_activated_eq nas_emit_def n_def
        forwarded_append)
  ultimately show ?thesis
    using tx(1-3) state by (auto simp: bearer_ready_def d')
qed

end
