(* ===== verification/SlUeLink.thy ===== *)
theory SlUeLink
  imports SlUe
begin

text \<open>
  The path of a packet from the NAS of one UE to the NAS of another: the steps of the two UEs
  are steps of the RLC link between their entities, on which the invariant \<^const>\<open>link_inv\<close>
  holds.
\<close>

section \<open>Sending\<close>

lemma rlc_take_pdu:
  "rlc_take now [PdcpTxPdu r1 l1 sz, TransmitNrSlPdcpPdu q r2 l2 s2 d2] r = DoTransmitNrSlPdcpPdu now q r"
  by (cases "DoTransmitNrSlPdcpPdu now q r") simp_all

lemma nas_send_ready:
  assumes "bearer_ready ra dst i d" "Ipv4Header_Destination (pk_bytes p) = Inr ra"
  shows "nas_Send tfts p IPV4_PROT_NUMBER (dev_nas d)
    = Inr (True, nas_emit [As_SendSidelinkData p dst] (dev_nas d))"
  using assms by (auto simp: bearer_ready_def nas_Send_def sidelink_blocks_def try_sidelink_def)

lemma send_ready:
  assumes ready: "bearer_ready ra dst i d" and ip: "Ipv4Header_Destination (pk_bytes p) = Inr ra"
    and obj: "i < length (ue_objects (dev_ue d))" "ue_objects (dev_ue d) ! i = (r, c)" "IsSlRb c"
    and tx: "DoTransmitNrSlPdcpPdu now (sl_pdu now (pd_txSequenceNumber c) IP_SDU p) r = Inr r'"
  shows "\<exists>d' c'. dev_Send tfts lte env now p IPV4_PROT_NUMBER d = Inr (True, d') \<and>
    bearer_ready ra dst i d' \<and> ue_objects (dev_ue d') = (ue_objects (dev_ue d))[i := (r', c')] \<and> IsSlRb c'"
proof -
  define q where "q = sl_pdu now (pd_txSequenceNumber c) IP_SDU p"
  define c' where "c' = c\<lparr>pd_txSequenceNumber := pd_txSequenceNumber c + 1,
       pd_out := pd_out c @ [PdcpTxPdu (pd_rnti c) (pd_lcid c) (Packet_GetSize q),
         TransmitNrSlPdcpPdu q (pd_rnti c) (pd_lcid c) (pd_srcL2Id c) (pd_dstL2Id c)]\<rparr>"
  define u where "u = (dev_ue d)\<lparr>ue_objects := (ue_objects (dev_ue d))[i := (r', c')]\<rparr>"
  obtain b where b: "map_of (rrc_slDrbMap (ue_rrc (dev_ue d))) dst = Some [(drb_logicalChannelIdentity b, b)]"
    "drb_object b = i"
    using ready by (auto simp: bearer_ready_def)
  have bearer: "DoGetSidelinkDataRadioBearer dst (ue_rrc (dev_ue d)) = Inr b"
    by (simp add: DoGetSidelinkDataRadioBearer_def GetSidelinkDataRadioBearer_def b(1))
  have pdcp: "DoTransmitNrSlPdcpSdu now p IP_SDU c = Inr c'"
    using transmit_nrsl [OF obj(3)] by (simp add: c'_def q_def)
  have "DoSendSidelinkData now p dst (dev_ue d) = Inr u"
    using obj tx by (simp add: DoSendSidelinkData_def bearer b(2) vec_index_ok pdcp u_def
        c'_def rlc_take_pdu flip: q_def)
  then have "dev_after_nas lte env now (nas_emit [As_SendSidelinkData p dst] (dev_nas d)) d
      = Inr \<lparr>dev_nas = nas_emit [As_SendSidelinkData p dst] (dev_nas d), dev_ue = u\<rparr>"
    by (simp add: dev_after_nas_def new_nas_calls_def nas_emit_def new_ue_calls_def u_def)
  then have "dev_Send tfts lte env now p IPV4_PROT_NUMBER d
      = Inr (True, \<lparr>dev_nas = nas_emit [As_SendSidelinkData p dst] (dev_nas d), dev_ue = u\<rparr>)"
    by (simp add: dev_Send_def nas_send_ready [OF ready ip])
  moreover have "IsSlRb c'" using obj(3) by (simp add: c'_def IsSlRb_def)
  ultimately show ?thesis
    using ready by (intro exI conjI) (assumption | simp add: bearer_ready_def nas_emit_def u_def)+
qed

section \<open>Receiving\<close>

text \<open>A PDU of the RLC that starts with a header of a sidelink PDCP entity.\<close>

definition pdu_framed :: "u8 list \<Rightarrow> bool" where
  "pdu_framed b \<longleftrightarrow> (\<exists>sn ty. b = sl_header_bytes sn ty @ drop 5 b)"

lemma pdu_framed_sl_pdu: "pdu_framed (pk_bytes (sl_pdu now sn ty p))" "drop 5 (pk_bytes (sl_pdu now sn ty p)) = pk_bytes p"
  using sl_header_bytes(2) [of sn ty] by (auto simp: pdu_framed_def sl_pdu_def)

lemma framed_all: "list_all pdu_framed bs \<Longrightarrow> \<exists>sdus. list_all2 framed sdus bs \<and> map fst sdus = map (drop 5) bs"
proof (induction bs)
  case (Cons b bs)
  then obtain sdus where sdus: "list_all2 framed sdus bs" "map fst sdus = map (drop 5) bs" by auto
  obtain sn ty where "b = sl_header_bytes sn ty @ drop 5 b"
    using Cons.prems by (auto simp: pdu_framed_def)
  then have "framed (drop 5 b, ty AND 7) b" by (auto simp: framed_def)
  with sdus show ?case by (intro exI [of _ "(drop 5 b, ty AND 7) # sdus"]) simp
qed simp

lemma rrc_take_forwards:
  "ue_objects (rrc_take evs u) = ue_objects u \<and>
   (\<exists>cs. ue_out (rrc_take evs u) = ue_out u @ cs \<and>
     (\<forall>n. forwarded (nas_out (as_user cs n)) = forwarded (nas_out n) @ map fst (user_sdus evs)))"
proof (induction evs u rule: rrc_take.induct)
  case (2 q rnti lcid src dst ty es u)
  define u1 where "u1 = DoReceiveNrSlPdcpSdu q u"
  have u1: "ue_objects u1 = ue_objects u" "ue_out u1 = ue_out u @ [As_RecvData q]"
    by (simp_all add: u1_def DoReceiveNrSlPdcpSdu_def)
  obtain cs where cs: "ue_objects (rrc_take es u1) = ue_objects u1" "ue_out (rrc_take es u1) = ue_out u1 @ cs"
    "\<And>n. forwarded (nas_out (as_user cs n)) = forwarded (nas_out n) @ map fst (user_sdus es)"
    using 2 by (auto simp: u1_def)
  have "forwarded (nas_out (as_user (As_RecvData q # cs) n))
      = forwarded (nas_out n) @ pk_bytes q # map fst (user_sdus es)" for n
    by (simp add: cs(3) nas_DoRecvData_def nas_emit_def forwarded_append)
  then show ?case
    using cs(1,2) u1 by (auto simp: simp flip: u1_def intro!: exI [of _ "As_RecvData q # cs"])
qed (auto intro!: exI [of _ "[]"])

lemma receive_pdu:
  assumes obj: "j < length (ue_objects (dev_ue d))" "ue_objects (dev_ue d) ! j = (v, c)" "IsSlRb c"
    and rlc: "DoReceiveNrSlRlcPdu now q dst v = Inr v'" "um_out v' = um_out v @ es"
    and framed: "list_all pdu_framed (sl_sdus es)"
  shows "\<exists>d' c'. dev_ReceiveRlcPdu j now q dst d = Inr d' \<and>
    ue_objects (dev_ue d') = (ue_objects (dev_ue d))[j := (v', c')] \<and> IsSlRb c' \<and>
    forwarded (nas_out (dev_nas d')) = forwarded (nas_out (dev_nas d)) @ map (drop 5) (sl_sdus es)"
proof -
  obtain sdus where sdus: "list_all2 framed sdus (sl_sdus es)" "map fst sdus = map (drop 5) (sl_sdus es)"
    using framed_all [OF framed] by blast
  obtain c' evs where c': "stack_receive now es c = Inr c'" "IsSlRb c'" "pd_out c' = pd_out c @ evs"
    "user_sdus evs = sdus"
    using stack_receive_framed [OF sdus(1) obj(3), of now] by blast
  define u where "u = (dev_ue d)\<lparr>ue_objects := (ue_objects (dev_ue d))[j := (v', c')]\<rparr>"
  obtain cs where cs: "ue_objects (rrc_take evs u) = ue_objects u" "ue_out (rrc_take evs u) = ue_out u @ cs"
    "\<And>n. forwarded (nas_out (as_user cs n)) = forwarded (nas_out n) @ map fst (user_sdus evs)"
    using rrc_take_forwards [of evs u] by blast
  have "new_ue_calls u (rrc_take evs u) = cs"
    by (simp add: new_ue_calls_def cs(2))
  then have "dev_ReceiveRlcPdu j now q dst d
      = Inr \<lparr>dev_nas = as_user cs (dev_nas d), dev_ue = rrc_take evs u\<rparr>"
    using obj rlc c' by (simp add: dev_ReceiveRlcPdu_def vec_index_ok Let_def flip: u_def)
  then show ?thesis
    using cs(1,3) c'(2,4) sdus(2) by (auto simp: u_def)
qed

section \<open>The invariant of the two UEs\<close>

definition net_inv :: "ipv4 \<Rightarrow> u32 \<Rightarrow> nat \<Rightarrow> nat \<Rightarrow> u8 list list \<Rightarrow> u8 list list \<Rightarrow> um \<Rightarrow> device \<times> device \<Rightarrow> bool" where
  "net_inv ra dst i j fwd acc r s \<longleftrightarrow> (case s of (a, b) \<Rightarrow>
     bearer_ready ra dst i a \<and> i < length (ue_objects (dev_ue a)) \<and> j < length (ue_objects (dev_ue b)) \<and>
     (\<exists>c v e. ue_objects (dev_ue a) ! i = (r, c) \<and> ue_objects (dev_ue b) ! j = (v, e) \<and>
        IsSlRb c \<and> IsSlRb e \<and> link_inv acc (r, v) \<and> list_all pdu_framed acc \<and>
        forwarded (nas_out (dev_nas b)) = fwd @ map (drop 5) (sl_sdus (um_out v))))"

fun net_op_ok :: "ipv4 \<Rightarrow> net_op \<Rightarrow> bool" where
  "net_op_ok ra (NetSend now p) \<longleftrightarrow> pk_sdu_status p = None \<and> length (pk_bytes p) < 2 ^ 30 \<and>
     Ipv4Header_Destination (pk_bytes p) = Inr ra"
| "net_op_ok ra (NetGrant now bytes) \<longleftrightarrow> bytes < 65536"

text \<open>The bytes of the RLC transmission buffer that an operation takes at most.\<close>

fun net_load :: "net_op \<Rightarrow> nat" where
  "net_load (NetSend now p) = length (pk_bytes p) + 5"
| "net_load (NetGrant now bytes) = 0"

definition buffered :: "um \<Rightarrow> nat" where
  "buffered r = items_bytes (buf_items (um_txBuffer r))"

lemma push_buffered:
  assumes inv: "link_inv acc (r, v)" and ok: "sl_op_ok (Push now q)" and tx: "DoTransmitNrSlPdcpPdu now q r = Inr r'"
  shows "um_maxTxBufferSize r' = um_maxTxBufferSize r"
    "buffered r' \<le> buffered r + length (pk_bytes q)"
    "buffered r + length (pk_bytes q) \<le> unat (um_maxTxBufferSize r) \<Longrightarrow>
       sl_accepted (Push now q) r = [pk_bytes q]"
proof -
  show "um_maxTxBufferSize r' = um_maxTxBufferSize r" "buffered r' \<le> buffered r + length (pk_bytes q)"
    using tx by (auto simp: DoTransmitNrSlPdcpPdu_def um_store_def Packet_AddPacketTag_def rbind_eq_Inr
        rguard_eq_Inr DoReportNrSlBufferStatus_def um_emit_def buffered_def item_of_def items_bytes_def
        split: if_splits)
  assume fits: "buffered r + length (pk_bytes q) \<le> unat (um_maxTxBufferSize r)"
  then have "buffered r + length (pk_bytes q) < 2 ^ 32"
    using unsigned_less [of "um_maxTxBufferSize r", where 'a = nat] by simp
  moreover have "um_txBufferSize r + Packet_GetSize q = of_nat (buffered r + length (pk_bytes q))"
    using inv by (simp add: link_inv_def um_tx_inv_def buffered_def Packet_GetSize_def)
  ultimately show "sl_accepted (Push now q) r = [pk_bytes q]"
    using fits by (simp add: word_le_nat_alt unat_of_nat_u32 del: of_nat_add)
qed

section \<open>The steps of the two UEs\<close>

lemma net_send:
  assumes inv: "net_inv ra dst i j fwd acc r (a, b)" and ok: "net_op_ok ra (NetSend now p)"
  shows "\<exists>s' new r'. net_step tfts lte env i j (NetSend now p) (a, b) = Inr s' \<and>
    net_inv ra dst i j fwd (acc @ new) r' s' \<and> subseq (map (drop 5) new) [pk_bytes p] \<and>
    um_maxTxBufferSize r' = um_maxTxBufferSize r \<and> buffered r' \<le> buffered r + net_load (NetSend now p) \<and>
    (buffered r + net_load (NetSend now p) \<le> unat (um_maxTxBufferSize r) \<longrightarrow> map (drop 5) new = [pk_bytes p])"
proof -
  obtain c v e where ab: "bearer_ready ra dst i a" "i < length (ue_objects (dev_ue a))"
    "j < length (ue_objects (dev_ue b))" "ue_objects (dev_ue a) ! i = (r, c)"
    "ue_objects (dev_ue b) ! j = (v, e)" "IsSlRb c" "IsSlRb e" "link_inv acc (r, v)" "list_all pdu_framed acc"
    "forwarded (nas_out (dev_nas b)) = fwd @ map (drop 5) (sl_sdus (um_out v))"
    using inv by (auto simp: net_inv_def)
  define q where "q = sl_pdu now (pd_txSequenceNumber c) IP_SDU p"
  have q: "pdu_framed (pk_bytes q)" "drop 5 (pk_bytes q) = pk_bytes p" "length (pk_bytes q) = length (pk_bytes p) + 5"
    "sl_op_ok (Push now q)"
    using pdu_framed_sl_pdu ok sl_header_bytes(2) [of "pd_txSequenceNumber c" IP_SDU]
    by (auto simp: q_def sl_pdu_def)
  define new where "new = sl_accepted (Push now q) r"
  obtain r' where push: "DoTransmitNrSlPdcpPdu now q r = Inr r'" "link_inv (acc @ new) (r', v)"
    using link_push [OF ab(8) q(4)] unfolding sl_step.simps rbind_eq_Inr new_def by auto
  note buf = push_buffered [OF ab(8) q(4) push(1), folded new_def]
  obtain a' c' where a': "dev_Send tfts lte env now p IPV4_PROT_NUMBER a = Inr (True, a')"
    "bearer_ready ra dst i a'" "ue_objects (dev_ue a') = (ue_objects (dev_ue a))[i := (r', c')]" "IsSlRb c'"
    using send_ready [OF ab(1) _ ab(2,4,6) push(1) [unfolded q_def], of tfts lte env] ok by auto
  have new: "new = [] \<or> new = [pk_bytes q]" by (simp add: new_def)
  have "net_step tfts lte env i j (NetSend now p) (a, b) = Inr (a', b)"
    by (simp add: a'(1))
  moreover have "net_inv ra dst i j fwd (acc @ new) r' (a', b)"
    using ab a'(2-4) push(2) new q(1) by (auto simp: net_inv_def)
  moreover have "subseq (map (drop 5) new) [pk_bytes p]"
    using new q(2) by auto
  ultimately show ?thesis
    using buf q(2,3) by (intro exI [of _ "(a', b)"] exI [of _ new] exI [of _ r']) simp
qed

lemma net_grant:
  assumes inv: "net_inv ra dst i j fwd acc r (a, b)" and ok: "net_op_ok ra (NetGrant now bytes)"
  shows "\<exists>s' r'. net_step tfts lte env i j (NetGrant now bytes) (a, b) = Inr s' \<and>
    net_inv ra dst i j fwd acc r' s' \<and>
    um_maxTxBufferSize r' = um_maxTxBufferSize r \<and> buffered r' \<le> buffered r"
proof -
  obtain c v e where ab: "bearer_ready ra dst i a" "i < length (ue_objects (dev_ue a))"
    "j < length (ue_objects (dev_ue b))" "ue_objects (dev_ue a) ! i = (r, c)"
    "ue_objects (dev_ue b) ! j = (v, e)" "IsSlRb c" "IsSlRb e" "link_inv acc (r, v)" "list_all pdu_framed acc"
    "forwarded (nas_out (dev_nas b)) = fwd @ map (drop 5) (sl_sdus (um_out v))"
    using inv by (auto simp: net_inv_def)
  obtain r' v' where rv: "DoNotifyNrSlTxOpportunity now bytes 0 0 0 r = Inr r'" "link_inv acc (r', v')"
    "um_maxTxBufferSize r' = um_maxTxBufferSize r" "buffered r' \<le> buffered r"
    and cases: "um_out r' = um_out r \<and> v' = v \<or>
     (\<exists>q es. um_out r' = um_out r @ [TxPduTrace (um_rnti r) (um_lcid r) (Packet_GetSize q),
         TransmitNrSlRlcPdu q (um_rnti r) (um_lcid r) 0 0 0 (um_srcL2Id r) (um_dstL2Id r)] \<and>
       DoReceiveNrSlRlcPdu now q (um_dstL2Id r) v = Inr v' \<and> um_out v' = um_out v @ es)"
    using link_opportunity_events [OF ab(8), of now bytes] ok unfolding buffered_def by auto
  define a' where "a' = a\<lparr>dev_ue := (dev_ue a)\<lparr>ue_objects := (ue_objects (dev_ue a))[i := (r', c)]\<rparr>\<rparr>"
  have opp: "dev_Opportunity i now bytes a = Inr (drop (length (um_out r)) (um_out r'), a')"
    by (simp add: dev_Opportunity_def vec_index_ok ab(2,4) rv(1) a'_def)
  have a': "bearer_ready ra dst i a'" "i < length (ue_objects (dev_ue a'))" "ue_objects (dev_ue a') ! i = (r', c)"
    using ab(1,2) by (simp_all add: a'_def bearer_ready_def)
  from cases show ?thesis
  proof
    assume *: "um_out r' = um_out r \<and> v' = v"
    then have "net_step tfts lte env i j (NetGrant now bytes) (a, b) = Inr (a', b)"
      by (simp add: opp)
    moreover have "net_inv ra dst i j fwd acc r' (a', b)"
      using ab a' rv(2) * by (auto simp: net_inv_def)
    ultimately show ?thesis using rv(3,4) by blast
  next
    assume "\<exists>q es. um_out r' = um_out r @ [TxPduTrace (um_rnti r) (um_lcid r) (Packet_GetSize q),
         TransmitNrSlRlcPdu q (um_rnti r) (um_lcid r) 0 0 0 (um_srcL2Id r) (um_dstL2Id r)] \<and>
       DoReceiveNrSlRlcPdu now q (um_dstL2Id r) v = Inr v' \<and> um_out v' = um_out v @ es"
    then obtain q es where out: "um_out r' = um_out r @ [TxPduTrace (um_rnti r) (um_lcid r) (Packet_GetSize q),
         TransmitNrSlRlcPdu q (um_rnti r) (um_lcid r) 0 0 0 (um_srcL2Id r) (um_dstL2Id r)]"
      and rx: "DoReceiveNrSlRlcPdu now q (um_dstL2Id r) v = Inr v'" "um_out v' = um_out v @ es"
      by blast
    have "list_all pdu_framed (sl_sdus es)"
      using rv(2) ab(9) rx(2) by (auto simp: link_inv_def sl_sdus_append)
    then obtain b' e' where b': "dev_ReceiveRlcPdu j now q (um_dstL2Id r) b = Inr b'"
      "ue_objects (dev_ue b') = (ue_objects (dev_ue b))[j := (v', e')]" "IsSlRb e'"
      "forwarded (nas_out (dev_nas b')) = forwarded (nas_out (dev_nas b)) @ map (drop 5) (sl_sdus es)"
      using receive_pdu [OF ab(3,5,7) rx] by blast
    have "net_step tfts lte env i j (NetGrant now bytes) (a, b) = Inr (a', b')"
      by (simp add: opp out b'(1))
    moreover have "net_inv ra dst i j fwd acc r' (a', b')"
      using ab a' rv(2) b' rx(2) by (auto simp: net_inv_def sl_sdus_append)
    ultimately show ?thesis using rv(3,4) by blast
  qed
qed

section \<open>Runs\<close>

fun net_run ::
  "(nat \<Rightarrow> epc_tft) \<Rightarrow> (nas_call \<Rightarrow> ue \<Rightarrow> ue res) \<Rightarrow> env \<Rightarrow> nat \<Rightarrow> nat \<Rightarrow>
   net_op list \<Rightarrow> device \<times> device \<Rightarrow> (device \<times> device) res" where
  "net_run tfts lte env i j [] s = Inr s"
| "net_run tfts lte env i j (op # ops) s =
     rbind (net_step tfts lte env i j op s) (net_run tfts lte env i j ops)"

lemma net_step_inv:
  assumes "net_inv ra dst i j fwd acc r s" "net_op_ok ra op"
  shows "\<exists>s' new r'. net_step tfts lte env i j op s = Inr s' \<and>
    net_inv ra dst i j fwd (acc @ new) r' s' \<and> subseq (map (drop 5) new) (net_sent [op]) \<and>
    um_maxTxBufferSize r' = um_maxTxBufferSize r \<and> buffered r' \<le> buffered r + net_load op \<and>
    (buffered r + net_load op \<le> unat (um_maxTxBufferSize r) \<longrightarrow> map (drop 5) new = net_sent [op])"
proof -
  obtain a b where s: "s = (a, b)" by (cases s)
  show ?thesis
  proof (cases op)
    case (NetSend now p)
    with net_send [of ra dst i j fwd acc r a b now p tfts lte env] assms s show ?thesis by auto
  next
    case (NetGrant now bytes)
    obtain s' r' where "net_step tfts lte env i j (NetGrant now bytes) (a, b) = Inr s'"
      "net_inv ra dst i j fwd acc r' s'" "um_maxTxBufferSize r' = um_maxTxBufferSize r" "buffered r' \<le> buffered r"
      using net_grant [of ra dst i j fwd acc r a b now bytes tfts lte env] assms s NetGrant by blast
    then show ?thesis
      using s NetGrant by (intro exI [of _ s'] exI [of _ "[]"] exI [of _ r']) simp
  qed
qed

lemma net_sent_Cons: "net_sent (op # ops) = net_sent [op] @ net_sent ops"
  by (cases op) simp_all

lemma net_run_inv:
  assumes "net_inv ra dst i j fwd acc r s" "list_all (net_op_ok ra) ops"
  shows "\<exists>s' new r'. net_run tfts lte env i j ops s = Inr s' \<and>
    net_inv ra dst i j fwd (acc @ new) r' s' \<and> subseq (map (drop 5) new) (net_sent ops) \<and>
    (buffered r + sum_list (map net_load ops) \<le> unat (um_maxTxBufferSize r) \<longrightarrow>
       map (drop 5) new = net_sent ops)"
  using assms
proof (induction ops arbitrary: acc r s)
  case Nil
  then show ?case by (intro exI [of _ s] exI [of _ "[]"] exI [of _ r]) simp
next
  case (Cons op ops)
  obtain s1 new1 r1 where s1: "net_step tfts lte env i j op s = Inr s1"
    "net_inv ra dst i j fwd (acc @ new1) r1 s1" "subseq (map (drop 5) new1) (net_sent [op])"
    "um_maxTxBufferSize r1 = um_maxTxBufferSize r" "buffered r1 \<le> buffered r + net_load op"
    "buffered r + net_load op \<le> unat (um_maxTxBufferSize r) \<longrightarrow> map (drop 5) new1 = net_sent [op]"
    using net_step_inv [OF Cons.prems(1), of op tfts lte env] Cons.prems(2) by auto
  obtain s' new r' where s': "net_run tfts lte env i j ops s1 = Inr s'"
    "net_inv ra dst i j fwd ((acc @ new1) @ new) r' s'" "subseq (map (drop 5) new) (net_sent ops)"
    "buffered r1 + sum_list (map net_load ops) \<le> unat (um_maxTxBufferSize r1) \<longrightarrow>
       map (drop 5) new = net_sent ops"
    using Cons.IH [OF s1(2)] Cons.prems(2) by fastforce
  have "subseq (map (drop 5) (new1 @ new)) (net_sent (op # ops))"
    unfolding net_sent_Cons [of op ops] map_append using s1(3) s'(3) by (rule list_emb_append_mono)
  moreover have "map (drop 5) (new1 @ new) = net_sent (op # ops)"
    if "buffered r + sum_list (map net_load (op # ops)) \<le> unat (um_maxTxBufferSize r)"
    using that s1(4-6) s'(4) unfolding net_sent_Cons [of op ops] map_append by auto
  ultimately show ?case
    using s1(1) s'(1,2) by (intro exI [of _ s'] exI [of _ "new1 @ new"] exI [of _ r']) simp
qed

end
