(* ===== verification/SlPoolProperties.thy ===== *)
theory SlPoolProperties
  imports NrSlCommResourcePool
begin

text \<open>
  The properties of the sidelink configuration: enumerations, TDD pattern, physical pool,
  bearer table and resource pool, each with an instance at a concrete input where it has
  hypotheses.
\<close>

section \<open>Transmission opportunities\<close>

lemma map_of_nat_filter:
  "list_all2 (\<lambda>s n. g (of_nat n) = Inr s) ss ns \<Longrightarrow> (\<And>i s. g i = Inr s \<Longrightarrow> h s = i) \<Longrightarrow>
   map h ss = map of_nat ns"
  by (induction rule: list_all2_induct) auto

lemma list_all2_left: "list_all2 P xs ys \<Longrightarrow> x \<in> set xs \<Longrightarrow> \<exists>y. P x y"
  by (induction rule: list_all2_induct) auto

lemma slot_info_fields:
  assumes "slot_info gen pool tot start cur i = Inr s"
  shows "si_absSlotIndex s = i" "si_slotOffset s = ucast (i - cur)"
    "si_slPscchSymStart s = start"
    "GetSlTResoPscchValue (pscch_slTimeResourcePscch (pool_slPscchConfig pool)) = Inr (si_slPscchSymLength s)"
    "GetSlFResoPscchValue (pscch_slFreqResourcePscch (pool_slPscchConfig pool)) = Inr (si_numSlPscchRbs s)"
    "GetNrSlSubChSizeValue (pool_slSubchannelSize pool) = Inr (si_slSubchannelSize s)"
    "si_slPsschSymStart s = start + si_slPscchSymLength s"
    "si_slPsschSymLength s = tot - si_slPscchSymLength s - 1"
  using assms by (auto simp: slot_info_def rbind_eq_Inr)

lemma opportunities_run:
  assumes "GetNrSlCommOpportunities cur bwp num pid t1 t2 p = Inr ss"
    and "GetNrSlPhyPool bwp pid p = Inr phy" "length phy \<le> 65536" "unat cur + 65536 < 2 ^ 64"
  obtains b pool tot start where
    "slp_bwp bwp p = Inr b" "GetSlResourcePoolNr bwp pid p = Inr pool"
    "GetSlLengthSymbolsValue (gen_slLengthSymbols (bwp_slBwpGeneric b)) = Inr tot"
    "GetSlStartSymbolValue (gen_slStartSymbol (bwp_slBwpGeneric b)) = Inr start"
    "phy \<noteq> []"
    "list_all2 (\<lambda>s n. slot_info (bwp_slBwpGeneric b) pool tot start cur (of_nat n) = Inr s) ss
       (filter (\<lambda>n. phy ! (n mod length phy)) [unat cur + unat t1..<Suc (unat cur + unat t2)])"
proof -
  from assms(1,2) obtain b pool tot start k where
    *: "slp_bwp bwp p = Inr b" "GetSlResourcePoolNr bwp pid p = Inr pool"
    "GetSlLengthSymbolsValue (gen_slLengthSymbols (bwp_slBwpGeneric b)) = Inr tot"
    "GetSlStartSymbolValue (gen_slStartSymbol (bwp_slBwpGeneric b)) = Inr start"
    and k: "abs_pool_index (cur + ucast t1) phy = Inr k"
    and loop: "slot_loop (slot_info (bwp_slBwpGeneric b) pool tot start cur) phy (cur + ucast t2)
            (cur + ucast t1) k = Inr ss"
    by (auto simp: GetNrSlCommOpportunities_def rbind_eq_Inr rguard_eq_Inr Let_def)
  have "phy \<noteq> []" using k by (auto simp: abs_pool_index_def rguard_def split: if_splits)
  moreover have "k = unat (cur + ucast t1) mod length phy"
    using k calculation assms(3) by (simp add: abs_pool_index_eq)
  ultimately show thesis
    using that [OF *] slot_loop_sound [OF loop] assms(3) unfolding window_bounds [OF assms(4)]
    by blast
qed

lemma window_slots:
  assumes "GetNrSlPhyPool bwp pid p = Inr phy" "phy \<noteq> []" "length phy \<le> 65536"
    and "unat cur + 65536 < 2 ^ 64"
  shows "filter (\<lambda>i. IsSidelinkSlot bwp pid i p = Inr True) (window cur t1 t2)
    = map of_nat (filter (\<lambda>n. phy ! (n mod length phy)) [unat cur + unat t1..<Suc (unat cur + unat t2)])"
proof -
  have "(IsSidelinkSlot bwp pid (of_nat n) p = Inr True) = phy ! (n mod length phy)"
    if "n \<in> set [unat cur + unat t1..<Suc (unat cur + unat t2)]" for n
  proof -
    have "n < 2 ^ 64" using that assms(4) unat_u16_less [of t2] by auto
    then show ?thesis
      using assms by (simp add: IsSidelinkSlot_eq GetNrSlPhyPool_def unat_of_nat take_bit_nat_eq_self)
  qed
  then show ?thesis
    unfolding window_def filter_map by (intro arg_cong [where f = "map of_nat"] filter_cong) simp_all
qed

text \<open>
  C32. The transmission opportunities of a selection window are exactly the slots of the window
  \<open>[cur + t1, cur + t2]\<close> that are sidelink slots according to \<open>IsSidelinkSlot\<close>, in ascending
  order and each once; the offset of each is its distance from the current slot.
\<close>

theorem opportunities_exact:
  assumes "GetNrSlCommOpportunities cur bwp num pid t1 t2 p = Inr ss"
    and "GetNrSlPhyPool bwp pid p = Inr phy" "length phy \<le> 65536" "unat cur + 65536 < 2 ^ 64"
  shows "map si_absSlotIndex ss = filter (\<lambda>i. IsSidelinkSlot bwp pid i p = Inr True) (window cur t1 t2)
    \<and> list_all (\<lambda>s. si_slotOffset s = ucast (si_absSlotIndex s - cur)) ss"
proof (rule opportunities_run [OF assms])
  fix b pool tot start
  assume ne: "phy \<noteq> []" and
    run: "list_all2 (\<lambda>s n. slot_info (bwp_slBwpGeneric b) pool tot start cur (of_nat n) = Inr s) ss
       (filter (\<lambda>n. phy ! (n mod length phy)) [unat cur + unat t1..<Suc (unat cur + unat t2)])"
  have "list_all (\<lambda>s. si_slotOffset s = ucast (si_absSlotIndex s - cur)) ss"
    using run by (induction rule: list_all2_induct) (auto simp: slot_info_fields(1,2))
  moreover have "map si_absSlotIndex ss = map of_nat
      (filter (\<lambda>n. phy ! (n mod length phy)) [unat cur + unat t1..<Suc (unat cur + unat t2)])"
    by (rule map_of_nat_filter [OF run]) (rule slot_info_fields(1))
  ultimately show ?thesis
    unfolding window_slots [OF assms(2) ne assms(3,4)] by blast
qed

text \<open>A pool with one transmission pool of period 3, bits 0, 1 and 1, used by the instances.\<close>

definition sample_config :: SlResourcePoolConfigNr where
  "sample_config =
     default_SlResourcePoolConfigNr\<lparr>cfg_haveSlResourcePoolConfigNr := True, cfg_slResourcePoolId := 0,
       cfg_slResourcePool := \<lparr>
         pool_slPscchConfig = \<lparr>pscch_setupRelease = PSCCH_SETUP, pscch_slTimeResourcePscch = TR_N1,
           pscch_slFreqResourcePscch = FR_N10\<rparr>,
         pool_slSubchannelSize = SC_N50,
         pool_slUeSelectedConfigRp = \<lparr>rp_slSensingWindow = SW_MS100, rp_slSelectionWindow = SEL_N1,
           rp_slMultiReserveResource = False,
           rp_slResourceReservePeriodList = RP_MS0 # RP_MS30 # replicate 14 RP_INVALID,
           rp_slMaxNumPerReserve = MR_N3\<rparr>,
         pool_slTimeResource = [True, True]\<rparr>\<rparr>"

definition sample_bwp :: SlBwpConfigCommonNr where
  "sample_bwp =
     \<lparr>bwp_haveSlBwpGeneric = True,
      bwp_slBwpGeneric = \<lparr>gen_bwp = default_Bwp, gen_slLengthSymbols = LS_SYM14, gen_slStartSymbol = SS_SYM0\<rparr>,
      bwp_haveSlBwpPoolConfigCommonNr = True,
      bwp_slTxPoolSelectedNormal = sample_config # replicate 7 default_SlResourcePoolConfigNr\<rparr>"

definition sample_freq :: "SlFreqConfigCommonNr list" where
  "sample_freq = [\<lparr>freq_slBwpList = sample_bwp # replicate 3 default_SlBwpConfigCommonNr\<rparr>]"

definition sample_pool :: slpool where
  "sample_pool =
     \<lparr>slp_freqInfoList = sample_freq, slp_phySlPoolMap = [(0, [(0, [False, True, True])])],
      slp_schType = SCHED_UE_SELECTED, slp_tddPattern = []\<rparr>"

lemmas sample_simps = sample_pool_def sample_freq_def sample_bwp_def sample_config_def

lemma sample_lookup:
  "GetNrSlPhyPool 0 0 sample_pool = Inr [False, True, True]"
  "slp_bwp 0 sample_pool = Inr sample_bwp"
  "GetSlResourcePoolNr 0 0 sample_pool = Inr (cfg_slResourcePool sample_config)"
proof -
  show bwp: "slp_bwp 0 sample_pool = Inr sample_bwp"
    by (simp add: slp_bwp_def sample_pool_def sample_freq_def vec_at_def)
  have "cfg_slResourcePoolId sample_config = 0" by (simp add: sample_config_def)
  then show "GetSlResourcePoolNr 0 0 sample_pool = Inr (cfg_slResourcePool sample_config)"
    by (simp add: GetSlResourcePoolNr_def bwp sample_bwp_def)
  show "GetNrSlPhyPool 0 0 sample_pool = Inr [False, True, True]"
    by (simp add: GetNrSlPhyPool_def ValidateBwpAndPoolId_def sample_pool_def)
qed

text \<open>
  The values of the configuration that the computation of an opportunity converts.
\<close>

definition slot_config_ok :: "SlResourcePoolNr \<Rightarrow> bool" where
  "slot_config_ok pool =
     (is_ok (GetSlFResoPscchValue (pscch_slFreqResourcePscch (pool_slPscchConfig pool))) \<and>
      is_ok (GetSlTResoPscchValue (pscch_slTimeResourcePscch (pool_slPscchConfig pool))) \<and>
      is_ok (GetNrSlSubChSizeValue (pool_slSubchannelSize pool)) \<and>
      is_ok (GetSlMaxNumPerReserveValue (rp_slMaxNumPerReserve (pool_slUeSelectedConfigRp pool))))"

lemma slot_info_ok: "slot_config_ok pool \<Longrightarrow> is_ok (slot_info gen pool tot start cur i)"
  unfolding slot_config_ok_def is_ok_iff by (auto simp: slot_info_def rbind_eq_Inr)

text \<open>
  With a complete configuration and a window that does not wrap, the computation of the
  opportunities returns a list of slots exactly when the window reaches the minimum that the
  selection window of the pool prescribes for the numerology; otherwise it aborts.
\<close>

theorem opportunities_total:
  assumes "GetNrSlPhyPool bwp pid p = Inr phy" "phy \<noteq> []"
    and "GetSlResourcePoolNr bwp pid p = Inr pool" "slot_config_ok pool"
    and "slp_bwp bwp p = Inr b"
    and "GetSlLengthSymbolsValue (gen_slLengthSymbols (bwp_slBwpGeneric b)) = Inr tot"
    and "GetSlStartSymbolValue (gen_slStartSymbol (bwp_slBwpGeneric b)) = Inr start"
    and "GetSlSelWindowValue (rp_slSelectionWindow (pool_slUeSelectedConfigRp pool)) = Inr sel"
    and "num < 8" "unat cur + 65536 < 2 ^ 64"
  shows "if unat sel * 2 ^ unat num \<le> unat t2
    then \<exists>ss. GetNrSlCommOpportunities cur bwp num pid t1 t2 p = Inr ss
    else GetNrSlCommOpportunities cur bwp num pid t1 t2 p = Inl NsAbort"
proof -
  have sel: "unat sel \<le> 20"
    using assms(8) by (auto simp: GetSlSelWindowValue_def split: SlSelectionWindow.splits)
  have num: "unat num < 8"
    using assms(9) by (simp add: word_less_nat_alt)
  have "unat sel * 2 ^ unat num \<le> 20 * 2 ^ 7"
    using sel num by (intro mult_le_mono power_increasing) simp_all
  moreover have "(2 :: nat) ^ unat num < 2 ^ 16"
    using num by (intro power_strict_increasing) simp_all
  then have "unat (2 ^ unat num :: u16) = 2 ^ unat num"
    using unat_of_nat_u16 [of "2 ^ unat num"] by simp
  ultimately have "unat (sel * push_bit (unat num) 1) = unat sel * 2 ^ unat num"
    by (simp add: push_bit_eq_mult unat_word_ariths unat_of_nat)
  then have le: "(sel * push_bit (unat num) 1 \<le> t2) = (unat sel * 2 ^ unat num \<le> unat t2)"
    by (simp add: word_le_nat_alt)
  have "unat (cur + ucast t1) mod length phy mod 65536 < length phy"
    using le_less_trans [OF mod_less_eq_dividend mod_less_divisor] assms(2) by blast
  then obtain k where k: "abs_pool_index (cur + ucast t1) phy = Inr k" "k < length phy"
    using assms(2) by (simp add: abs_pool_index_def unat_of_nat take_bit_eq_mod)
  have "cur + ucast t2 \<noteq> - 1"
  proof
    assume "cur + ucast t2 = - 1"
    then have "unat cur + unat t2 = 2 ^ 64 - 1"
      using window_bounds(2) [OF assms(10), of t2] by (simp add: unsigned_minus_1_eq_mask mask_eq_exp_minus_1)
    then show False using assms(10) unat_u16_less [of t2] by simp
  qed
  then have "\<exists>ss. slot_loop (slot_info (bwp_slBwpGeneric b) pool tot start cur) phy (cur + ucast t2)
      (cur + ucast t1) k = Inr ss"
    using slot_info_ok [OF assms(4)] assms(2) k(2) by (intro slot_loop_total) simp_all
  moreover have "num < 16" using assms(9) by (simp add: word_less_nat_alt)
  ultimately show ?thesis
    using assms(1,3,5-8) k(1) le
    by (simp add: GetNrSlCommOpportunities_def numerology_multiplier_def rguard_def)
qed


lemma sample_run:
  "GetNrSlCommOpportunities 10 0 0 0 2 5 sample_pool = Inr
     [\<lparr>si_numSlPscchRbs = 10, si_slPscchSymStart = 0, si_slPscchSymLength = 1,
       si_slPsschSymStart = 1, si_slPsschSymLength = 12, si_slSubchannelSize = 50,
       si_slMaxNumPerReserve = 3, si_absSlotIndex = 13, si_slotOffset = 3\<rparr>,
      \<lparr>si_numSlPscchRbs = 10, si_slPscchSymStart = 0, si_slPscchSymLength = 1,
       si_slPsschSymStart = 1, si_slPsschSymLength = 12, si_slSubchannelSize = 50,
       si_slMaxNumPerReserve = 3, si_absSlotIndex = 14, si_slotOffset = 4\<rparr>]"
  by (simp add: GetNrSlCommOpportunities_def sample_lookup numerology_multiplier_def abs_pool_index_def
      slot_loop.simps slot_info_def sample_bwp_def sample_config_def vec_index_def
      GetSlLengthSymbolsValue_def GetSlStartSymbolValue_def GetSlSelWindowValue_def
      GetSlFResoPscchValue_def GetSlTResoPscchValue_def GetNrSlSubChSizeValue_def
      GetSlMaxNumPerReserveValue_def)

theorem opportunities_exact_witness:
  "map si_absSlotIndex (projr (GetNrSlCommOpportunities 10 0 0 0 2 5 sample_pool))
     = filter (\<lambda>i. IsSidelinkSlot 0 0 i sample_pool = Inr True) (window 10 2 5)"
  using opportunities_exact [OF sample_run sample_lookup(1)] unfolding sample_run by simp

theorem opportunities_total_witness:
  "\<exists>ss. GetNrSlCommOpportunities 10 0 0 0 2 5 sample_pool = Inr ss"
  using opportunities_total [OF sample_lookup(1) _ sample_lookup(3) _ sample_lookup(2), where cur = 10
      and num = 0 and ?t1.0 = 2 and ?t2.0 = 5 and tot = 14 and start = 0 and sel = 1]
  by (simp add: slot_config_ok_def sample_bwp_def sample_config_def GetSlLengthSymbolsValue_def
      GetSlStartSymbolValue_def GetSlSelWindowValue_def GetSlFResoPscchValue_def
      GetSlTResoPscchValue_def GetNrSlSubChSizeValue_def GetSlMaxNumPerReserveValue_def)

text \<open>
  In every transmission opportunity the control part starts at the first sidelink symbol, the
  shared part follows it, and together with one guard symbol they fill the sidelink symbols of
  the slot; nothing wraps.  The control part has at least one symbol and the shared part at
  least three.
\<close>

theorem opportunity_layout:
  assumes "GetNrSlCommOpportunities cur bwp num pid t1 t2 p = Inr ss" "s \<in> set ss"
    and "GetNrSlPhyPool bwp pid p = Inr phy" "length phy \<le> 65536" "unat cur + 65536 < 2 ^ 64"
    and "slp_bwp bwp p = Inr b"
    and "GetSlLengthSymbolsValue (gen_slLengthSymbols (bwp_slBwpGeneric b)) = Inr tot"
    and "GetSlStartSymbolValue (gen_slStartSymbol (bwp_slBwpGeneric b)) = Inr start"
  shows "si_slPscchSymStart s = start \<and>
    unat (si_slPsschSymStart s) = unat start + unat (si_slPscchSymLength s) \<and>
    unat (si_slPscchSymLength s) + unat (si_slPsschSymLength s) + 1 = unat tot \<and>
    1 \<le> unat (si_slPscchSymLength s) \<and> 3 \<le> unat (si_slPsschSymLength s)"
proof (rule opportunities_run [OF assms(1,3-5)])
  fix b' pool tot' start'
  assume "slp_bwp bwp p = Inr b'"
    "GetSlLengthSymbolsValue (gen_slLengthSymbols (bwp_slBwpGeneric b')) = Inr tot'"
    "GetSlStartSymbolValue (gen_slStartSymbol (bwp_slBwpGeneric b')) = Inr start'"
    and run: "list_all2 (\<lambda>s n. slot_info (bwp_slBwpGeneric b') pool tot' start' cur (of_nat n) = Inr s) ss
       (filter (\<lambda>n. phy ! (n mod length phy)) [unat cur + unat t1..<Suc (unat cur + unat t2)])"
  with assms(6-8) have eq: "b' = b" "tot' = tot" "start' = start" by simp_all
  obtain i where info: "slot_info (bwp_slBwpGeneric b) pool tot start cur i = Inr s"
    using list_all2_left [OF run assms(2)] unfolding eq by blast
  have len: "unat (si_slPscchSymLength s) \<in> {1, 2, 3}"
    using slot_info_fields(4) [OF info] by (auto simp: GetSlTResoPscchValue_def split: SlTimeResourcePscch.splits)
  have tot: "7 \<le> unat tot"
    using assms(7) by (auto simp: GetSlLengthSymbolsValue_def split: SlLengthSymbols.splits)
  have start: "unat start \<le> 7"
    using assms(8) by (auto simp: GetSlStartSymbolValue_def split: SlStartSymbol.splits)
  have "unat (start + si_slPscchSymLength s) = unat start + unat (si_slPscchSymLength s)"
    using start len by (intro unat_add_lem [THEN iffD1]) auto
  moreover have le: "si_slPscchSymLength s \<le> tot" "1 \<le> tot - si_slPscchSymLength s"
    using tot len by (auto simp: word_le_nat_alt unat_sub)
  then have "unat (tot - si_slPscchSymLength s - 1) = unat tot - unat (si_slPscchSymLength s) - 1"
    by (simp add: unat_sub)
  ultimately show ?thesis
    using slot_info_fields(3,7,8) [OF info] len tot by auto
qed

theorem opportunity_layout_witness:
  "1 \<le> unat (si_slPscchSymLength (hd (projr (GetNrSlCommOpportunities 10 0 0 0 2 5 sample_pool))))"
  using opportunity_layout [OF sample_run _ sample_lookup(1) _ _ sample_lookup(2), where tot = 14 and start = 0]
  unfolding sample_run
  by (simp add: sample_bwp_def GetSlLengthSymbolsValue_def GetSlStartSymbolValue_def)

section \<open>Reservation periods\<close>

lemma ValidateResvPeriod_pool:
  assumes "ValidateResvPeriod slots bwp pid resvPeriod slotLength p = Inr ()"
  shows "\<exists>rsvp phy. slots (word_of_int (GetMilliSeconds resvPeriod)) slotLength = Inr rsvp \<and>
    ValidateBwpAndPoolId bwp pid p = Inr phy \<and> phy \<noteq> [] \<and> unat rsvp mod length phy = 0"
proof -
  have "check_periods chk e its found = Inr True \<Longrightarrow> found \<or> chk = Inr ()" for chk e its found
    by (induction its arbitrary: found) (auto simp: rbind_eq_Inr split: if_splits)
  from this [where found = False] assms show ?thesis
    unfolding ValidateResvPeriod_def GetResvPeriodInSlots_def IsRsvpMultipOfPoolLen_def GetNrSlPhyPool_def
    by (auto simp: rbind_eq_Inr rguard_eq_Inr; fastforce simp: rbind_eq_Inr rguard_eq_Inr)
qed

text \<open>
  A reservation period that \<open>ValidateResvPeriod\<close> accepts repeats the pool: if the period is
  \<open>rsvp\<close> slots, the slots a whole number of periods apart are sidelink slots together, so every
  repetition of a reserved slot is one again.
\<close>

theorem reservation_periodic:
  assumes "ValidateResvPeriod slots bwp pid resvPeriod slotLength p = Inr ()"
    and "slots (word_of_int (GetMilliSeconds resvPeriod)) slotLength = Inr rsvp"
    and "GetNrSlPhyPool bwp pid p = Inr phy" "length phy \<le> 65536"
    and "unat i + k * unat rsvp < 2 ^ 64"
  shows "IsSidelinkSlot bwp pid (i + of_nat (k * unat rsvp)) p = IsSidelinkSlot bwp pid i p"
proof -
  have pool: "ValidateBwpAndPoolId bwp pid p = Inr phy" and "phy \<noteq> []"
    and mod: "unat rsvp mod length phy = 0"
    using ValidateResvPeriod_pool [OF assms(1)] assms(2,3) by (auto simp: GetNrSlPhyPool_def)
  have "(unat i + k * unat rsvp) mod length phy = unat i mod length phy"
    using mod by (metis add.right_neutral mod_add_right_eq mod_mult_right_eq mult_0_right mod_0)
  then show ?thesis
    using pool \<open>phy \<noteq> []\<close> assms(4) u64_add [OF assms(5)]
    by (simp add: IsSidelinkSlot_eq del: of_nat_mult)
qed

definition sample_slots :: "u16 \<Rightarrow> Time \<Rightarrow> u16 res" where
  "sample_slots ms slotLength = (if slotLength = 0 then Inl UndefinedBehaviour
     else Inr (word_of_int (uint ms * 1000000 div slotLength)))"

lemma check_periods_other: "x \<noteq> e \<Longrightarrow> check_periods chk e (replicate n x) found = Inr found"
  by (induction n) simp_all

theorem reservation_periodic_witness:
  "ValidateResvPeriod sample_slots 0 0 30000000 1000000 sample_pool = Inr () \<and>
   IsSidelinkSlot 0 0 (13 + of_nat (4 * unat (30 :: u16))) sample_pool = IsSidelinkSlot 0 0 13 sample_pool"
proof -
  have val: "ValidateResvPeriod sample_slots 0 0 30000000 1000000 sample_pool = Inr ()"
    using sample_lookup
    by (simp add: ValidateResvPeriod_def GetResvPeriodInSlots_def IsRsvpMultipOfPoolLen_def
        GetNrSlPhyPool_def GetMilliSeconds_def signed_divide_int_def sample_slots_def
        GetSlResoResvPrdEnum_def sample_config_def check_periods_other)
  have "sample_slots (word_of_int (GetMilliSeconds 30000000)) 1000000 = Inr 30"
    by (simp add: GetMilliSeconds_def signed_divide_int_def sample_slots_def)
  from reservation_periodic [OF val this sample_lookup(1), of 13 4] val show ?thesis
    by simp
qed

section \<open>Pool identifiers and indices\<close>

lemma find_config:
  "k < length cs \<Longrightarrow> cfg_slResourcePoolId (cs ! k) = pid \<Longrightarrow>
   (\<And>j. j < k \<Longrightarrow> cfg_slResourcePoolId (cs ! j) \<noteq> pid) \<Longrightarrow>
   List.find (\<lambda>it. cfg_slResourcePoolId it = pid) cs = Some (cs ! k)"
proof (induction cs arbitrary: k)
  case (Cons c cs)
  show ?case
  proof (cases k)
    case (Suc k')
    have "cfg_slResourcePoolId (cs ! j) \<noteq> pid" if "j < k'" for j
      using Cons.prems(3) [of "Suc j"] that Suc by simp
    moreover have "cfg_slResourcePoolId c \<noteq> pid"
      using Cons.prems(3) [of 0] Suc by simp
    ultimately show ?thesis
      using Cons.IH [of k'] Cons.prems(1,2) Suc by simp
  qed (use Cons.prems in simp)
qed simp

text \<open>
  The two accessors of the subchannel size, the one that uses the pool identifier as an index
  of the list of pools and the one that searches for it, give the same size for a pool that is
  stored at the index of its identifier, provided no pool before it has that identifier and the
  size is configured.
\<close>

theorem subchannel_sizes_agree:
  assumes "ValidateBwpAndPoolId bwp pid p = Inr phy" "slp_bwp bwp p = Inr b"
    and "bwp_slTxPoolSelectedNormal b = cs" "unat pid < length cs"
    and "\<forall>j \<le> unat pid. cfg_slResourcePoolId (cs ! j) = pid \<longleftrightarrow> j = unat pid"
    and "pool_slSubchannelSize (cfg_slResourcePool (cs ! unat pid)) \<noteq> SC_INVALID"
  shows "GetNrSlSubChSize bwp pid p = GetSlSubChSize bwp pid p \<and> is_ok (GetNrSlSubChSize bwp pid p)"
proof -
  have "List.find (\<lambda>it. cfg_slResourcePoolId it = pid) cs = Some (cs ! unat pid)"
    using assms(4,5) by (intro find_config) auto
  moreover have "is_ok (GetNrSlSubChSizeValue z)" if "z \<noteq> SC_INVALID" for z
    using that by (cases z) (simp_all add: GetNrSlSubChSizeValue_def)
  ultimately show ?thesis
    using assms
    by (simp add: GetNrSlSubChSize_def GetSlSubChSize_def pool_at_def GetSlResourcePoolNr_def vec_at_def)
qed

theorem subchannel_sizes_agree_witness:
  "GetNrSlSubChSize 0 0 sample_pool = GetSlSubChSize 0 0 sample_pool"
  using subchannel_sizes_agree [OF sample_lookup(1) [unfolded GetNrSlPhyPool_def] sample_lookup(2) refl]
  by (simp add: sample_bwp_def sample_config_def)

section \<open>Equality of pools\<close>

text \<open>
  What \<open>operator==\<close> compares: of the reservation periods only the last entry, and not the
  maximum number of reservations, the sidelink symbols or the bandwidth part.
\<close>

definition compared_alike :: "SlResourcePoolConfigNr \<Rightarrow> SlResourcePoolConfigNr \<Rightarrow> bool" where
  "compared_alike c d =
     (let x = cfg_slResourcePool c; y = cfg_slResourcePool d;
          u = pool_slUeSelectedConfigRp x; v = pool_slUeSelectedConfigRp y in
      (cfg_haveSlResourcePoolConfigNr c, cfg_slResourcePoolId c, pool_slPscchConfig x,
       pool_slSubchannelSize x, pool_slTimeResource x, rp_slSelectionWindow u, rp_slSensingWindow u,
       rp_slMultiReserveResource u, last (rp_slResourceReservePeriodList u)) =
      (cfg_haveSlResourcePoolConfigNr d, cfg_slResourcePoolId d, pool_slPscchConfig y,
       pool_slSubchannelSize y, pool_slTimeResource y, rp_slSelectionWindow v, rp_slSensingWindow v,
       rp_slMultiReserveResource v, last (rp_slResourceReservePeriodList v)))"

lemma resv_lists_equal_last:
  "length xs = length ys \<Longrightarrow> resv_lists_equal xs ys \<longleftrightarrow> xs \<noteq> [] \<and> last xs = last ys"
proof (cases xs rule: rev_cases; cases ys rule: rev_cases)
  fix xs' ys' x y
  assume "length xs = length ys" "xs = xs' @ [x]" "ys = ys' @ [y]"
  then show ?thesis by (simp add: resv_lists_equal_def)
qed (simp_all add: resv_lists_equal_def)

lemma pool_config_equal_iff:
  "wf_pool_config c \<Longrightarrow> wf_pool_config d \<Longrightarrow> pool_config_equal c d \<longleftrightarrow> compared_alike c d"
  unfolding pool_config_equal_def compared_alike_def wf_pool_config_def Let_def RESV_PERIODS_def
  by (subst resv_lists_equal_last) (auto simp: SlPscchConfig.equality)

lemma pools_equal_iff:
  "length cs = length ds \<Longrightarrow> pools_equal cs ds True \<longleftrightarrow> list_all2 pool_config_equal cs ds"
  by (induction cs ds rule: list_induct2) simp_all

lemma wf_bwp_at:
  assumes "slp_bwp bwp p = Inr b" "wf_freq_list (slp_freqInfoList p)"
  shows "wf_bwp_config b"
proof -
  let ?f = "slp_freqInfoList p ! 0"
  have "?f \<in> set (slp_freqInfoList p)" "b \<in> set (freq_slBwpList ?f)"
    using assms(1) by (auto simp: slp_bwp_def rbind_eq_Inr)
  then show ?thesis
    using assms(2) by (auto simp: wf_freq_list_def list_all_iff)
qed

text \<open>
  C33. Two pools with the same bandwidth parts compare equal exactly when they have the same
  physical pools and, for the first bandwidth part, transmission pools that agree pairwise on the
  compared fields: of the sixteen reservation periods only the last one counts.
\<close>

theorem slpool_equal_iff:
  assumes "slp_phySlPoolMap p = (bwp, m) # rest" "slp_phySlPoolMap q = (bwp, m') # rest'"
    and "slp_bwp bwp p = Inr b" "slp_bwp bwp q = Inr c"
    and "wf_freq_list (slp_freqInfoList p)" "wf_freq_list (slp_freqInfoList q)"
  shows "slpool_equal p q = Inr
    (umap_eq (umap_eq (=)) (slp_phySlPoolMap p) (slp_phySlPoolMap q) \<and>
     list_all2 compared_alike (bwp_slTxPoolSelectedNormal b) (bwp_slTxPoolSelectedNormal c))"
proof -
  let ?cs = "bwp_slTxPoolSelectedNormal b" and ?ds = "bwp_slTxPoolSelectedNormal c"
  have wf: "wf_bwp_config b" "wf_bwp_config c"
    using wf_bwp_at assms(3-6) by blast+
  then have "pools_equal ?cs ?ds True \<longleftrightarrow> list_all2 pool_config_equal ?cs ?ds"
    by (simp add: wf_bwp_config_def pools_equal_iff)
  also have "\<dots> \<longleftrightarrow> list_all2 compared_alike ?cs ?ds"
    using wf by (auto simp: list_all2_conv_all_nth wf_bwp_config_def list_all_length pool_config_equal_iff)
  finally show ?thesis
    using assms(1-4) by (simp add: slpool_equal_def)
qed

text \<open>The sample pool with another first reservation period.\<close>

definition other_config :: SlResourcePoolConfigNr where
  "other_config = sample_config\<lparr>cfg_slResourcePool := (cfg_slResourcePool sample_config)\<lparr>
     pool_slUeSelectedConfigRp := (pool_slUeSelectedConfigRp (cfg_slResourcePool sample_config))\<lparr>
       rp_slResourceReservePeriodList := RP_MS100 # RP_MS30 # replicate 14 RP_INVALID\<rparr>\<rparr>\<rparr>"

definition other_pool :: slpool where
  "other_pool = sample_pool\<lparr>slp_freqInfoList :=
     [\<lparr>freq_slBwpList = sample_bwp\<lparr>bwp_slTxPoolSelectedNormal :=
         other_config # replicate 7 default_SlResourcePoolConfigNr\<rparr>
       # replicate 3 default_SlBwpConfigCommonNr\<rparr>]\<rparr>"

lemma wf_default_config: "wf_pool_config default_SlResourcePoolConfigNr"
  by (simp add: wf_pool_config_def default_simps)

lemma wf_default_bwp: "wf_bwp_config default_SlBwpConfigCommonNr"
  by (simp add: wf_bwp_config_def default_SlBwpConfigCommonNr_def list_all_iff wf_default_config)

lemma wf_sample: "wf_freq_list (slp_freqInfoList sample_pool)"
proof -
  have "wf_pool_config sample_config" by (simp add: wf_pool_config_def sample_config_def max_simps)
  then have "wf_bwp_config sample_bwp"
    by (simp add: wf_bwp_config_def sample_bwp_def list_all_iff wf_default_config max_simps)
  then show ?thesis
    by (simp add: wf_freq_list_def sample_pool_def sample_freq_def list_all_iff wf_default_bwp max_simps)
qed

lemma wf_other: "wf_freq_list (slp_freqInfoList other_pool)"
proof -
  have "wf_pool_config other_config"
    by (simp add: wf_pool_config_def other_config_def max_simps)
  then have "wf_bwp_config (sample_bwp\<lparr>bwp_slTxPoolSelectedNormal :=
      other_config # replicate 7 default_SlResourcePoolConfigNr\<rparr>)"
    by (simp add: wf_bwp_config_def list_all_iff wf_default_config max_simps)
  then show ?thesis
    by (simp add: wf_freq_list_def other_pool_def list_all_iff wf_default_bwp max_simps)
qed

theorem slpool_equal_iff_witness:
  "slpool_equal sample_pool other_pool = Inr True \<and> sample_pool \<noteq> other_pool"
proof
  have bwp: "slp_bwp 0 other_pool = Inr (sample_bwp\<lparr>bwp_slTxPoolSelectedNormal :=
      other_config # replicate 7 default_SlResourcePoolConfigNr\<rparr>)"
    by (simp add: slp_bwp_def other_pool_def vec_at_def)
  have map: "slp_phySlPoolMap other_pool = slp_phySlPoolMap sample_pool"
    by (simp add: other_pool_def)
  have "compared_alike sample_config other_config"
    by (simp add: compared_alike_def other_config_def sample_config_def)
  moreover have "compared_alike c c" for c
    by (simp add: compared_alike_def)
  ultimately have "list_all2 compared_alike (sample_config # replicate 7 default_SlResourcePoolConfigNr)
      (other_config # replicate 7 default_SlResourcePoolConfigNr)"
    by (simp add: list_all2_same)
  moreover have "umap_eq (umap_eq (=)) (slp_phySlPoolMap sample_pool) (slp_phySlPoolMap sample_pool)"
    by (simp add: umap_eq_def sample_pool_def)
  moreover have "slp_phySlPoolMap sample_pool = (0, [(0, [False, True, True])]) # []"
    by (simp add: sample_pool_def)
  ultimately show "slpool_equal sample_pool other_pool = Inr True"
    using slpool_equal_iff [OF _ _ sample_lookup(2) bwp wf_sample wf_other] map
    by (simp add: sample_bwp_def)
  have "rp_slResourceReservePeriodList (pool_slUeSelectedConfigRp (cfg_slResourcePool sample_config))
      \<noteq> rp_slResourceReservePeriodList (pool_slUeSelectedConfigRp (cfg_slResourcePool other_config))"
    by (simp add: sample_config_def other_config_def)
  then show "sample_pool \<noteq> other_pool"
    by (auto simp: sample_pool_def sample_freq_def sample_bwp_def other_pool_def)
qed

end
