(* ===== verification/SlUeProperties.thy ===== *)
theory SlUeProperties
  imports SlUeLink SlPoolProperties
begin

text \<open>
  The properties of the UE: delivery from NAS to NAS, the pools that the RRC installs in MAC and
  PHY, the bearers of the NAS and the sidelink templates, each with an instance at a concrete input
  where it has hypotheses.
\<close>

section \<open>Delivery\<close>

lemma isTransmit_dir: "tft_direction t \<in> {DIR_TRANSMIT, DIR_BIDIRECTIONAL} \<Longrightarrow> isTransmit t = Inr True"
  by (auto simp: isTransmit_def)

lemma notified_bearer:
  assumes "dev_NotifySidelinkReception env lcid src dst b0 = Inr b"
  shows "\<exists>rnti. ue_objects (dev_ue b) = ue_objects (dev_ue b0) @ [new_entities rnti lcid src dst] \<and>
    dst \<noteq> 0 \<and> dev_nas b = dev_nas b0"
proof -
  obtain d u where u: "AddNrSlDrb env src dst lcid (dev_ue b0) = Inr (d, u)"
    "b = \<lparr>dev_nas = as_user (new_ue_calls (dev_ue b0) u) (dev_nas b0), dev_ue = u\<rparr>"
    using assms by (auto simp: dev_NotifySidelinkReception_def DoNotifySidelinkReception_def rbind_eq_Inr)
  obtain cs where "ue_out u = ue_out (dev_ue b0) @ cs" "list_all lower_call cs"
    using add_drb(8) [OF u(1)] by blast
  then have "as_user (new_ue_calls (dev_ue b0) u) (dev_nas b0) = dev_nas b0"
    by (simp add: new_ue_calls_def as_user_lower)
  with u(2) add_drb(3,5) [OF u(1)] show ?thesis by auto
qed

lemma new_entities_rb: "dst \<noteq> 0 \<Longrightarrow> IsSlRb (snd (new_entities rnti lcid src dst))"
  by (simp add: new_entities_def sl_pdcp_entity_def IsSlRb_def pd_SetDestinationL2Id_def)

lemma new_entities_buffer:
  "um_maxTxBufferSize (fst (new_entities rnti lcid src dst)) = 10240"
  "buffered (fst (new_entities rnti lcid src dst)) = 0"
  "sl_sdus (um_out (fst (new_entities rnti lcid src dst))) = []"
  by (simp_all add: new_entities_def sl_entity_simps buffered_def items_bytes_def)

lemma net_inv_start:
  assumes "dev_ActivateNrSlBearer lte env now t a0 = Inr a" "isTransmit t = Inr True" "tft_Matches4 ra t"
    and "List.find (tft_Matches4 ra) (nas_activatedSl (dev_nas a0)) = None"
    and "nas_state (dev_nas a0) \<in> {NAS_OFF, NAS_ACTIVE}"
    and "dev_NotifySidelinkReception env' lcid src dst b0 = Inr b"
  shows "\<exists>r. net_inv ra (GetDstL2Id t) (length (ue_objects (dev_ue a0))) (length (ue_objects (dev_ue b0)))
      (forwarded (nas_out (dev_nas b0))) [] r (a, b) \<and> um_maxTxBufferSize r = 10240 \<and> buffered r = 0"
proof -
  obtain rnti l where a: "bearer_ready ra (GetDstL2Id t) (length (ue_objects (dev_ue a0))) a"
    "ue_objects (dev_ue a) = ue_objects (dev_ue a0) @
      [new_entities rnti l (ue_srcL2Id (dev_ue a0)) (GetDstL2Id t)]" "GetDstL2Id t \<noteq> 0"
    using activate_ready [OF assms(1-5)] by blast
  obtain rnti' where b: "ue_objects (dev_ue b) = ue_objects (dev_ue b0) @ [new_entities rnti' lcid src dst]"
    "dst \<noteq> 0" "dev_nas b = dev_nas b0"
    using notified_bearer [OF assms(6)] by blast
  let ?x = "new_entities rnti l (ue_srcL2Id (dev_ue a0)) (GetDstL2Id t)"
  let ?y = "new_entities rnti' lcid src dst"
  have "link_inv [] (fst ?x, fst ?y)"
    by (simp add: new_entities_def link_inv_start)
  then have "net_inv ra (GetDstL2Id t) (length (ue_objects (dev_ue a0))) (length (ue_objects (dev_ue b0)))
      (forwarded (nas_out (dev_nas b0))) [] (fst ?x) (a, b)"
    using a b new_entities_rb new_entities_buffer(3) unfolding net_inv_def prod.case
    by (intro conjI exI [where x = "snd ?x"], simp_all)
      (rule exI [where x = "fst ?y"], rule exI [where x = "snd ?y"], simp)
  then show ?thesis using new_entities_buffer(1,2) by blast
qed

text \<open>
  C1. Delivery from the NAS of a UE to the NAS of another.  A UE activates a sidelink bearer for a
  template with an IPv4 address, as transmitter, and no bearer it activated before matches the
  address; the other UE has been told of a logical channel.  Then let the first UE send any IPv4
  packets to the address and let the MAC grant its bearer any opportunities in between: no step
  stops, and the second UE forwards up a prefix of the packets that the RLC accepted, which are a
  subsequence of the packets sent, byte for byte and in order.  It forwards up all of them once the
  RLC buffer is empty, and the RLC accepts all packets sent if they fit in its buffer together, each
  with 5 bytes of PDCP header.
\<close>

theorem sidelink_delivery:
  assumes "LteSlTft_v4 dir comm ra dst = Inr t" "dir \<in> {DIR_TRANSMIT, DIR_BIDIRECTIONAL}"
    and "dev_ActivateNrSlBearer lte env now t a0 = Inr a"
    and "List.find (tft_Matches4 ra) (nas_activatedSl (dev_nas a0)) = None"
    and "nas_state (dev_nas a0) \<in> {NAS_OFF, NAS_ACTIVE}"
    and "dev_NotifySidelinkReception env' lcid src dst' b0 = Inr b"
    and "list_all (net_op_ok ra) ops"
  shows "\<exists>a' b' accepted fwd r c.
    net_run tfts lte env (length (ue_objects (dev_ue a0))) (length (ue_objects (dev_ue b0))) ops (a, b)
      = Inr (a', b') \<and>
    ue_objects (dev_ue a') ! length (ue_objects (dev_ue a0)) = (r, c) \<and>
    forwarded (nas_out (dev_nas b')) = forwarded (nas_out (dev_nas b0)) @ fwd \<and>
    prefix fwd accepted \<and> subseq accepted (net_sent ops) \<and>
    (um_txBuffer r = [] \<longrightarrow> fwd = accepted) \<and>
    (sum_list (map net_load ops) \<le> 10240 \<longrightarrow> accepted = net_sent ops)"
proof -
  let ?i = "length (ue_objects (dev_ue a0))" and ?j = "length (ue_objects (dev_ue b0))"
  let ?fwd0 = "forwarded (nas_out (dev_nas b0))"
  note tft = matches_v4 [OF assms(1)]
  have "isTransmit t = Inr True" "tft_Matches4 ra t"
    using assms(2) tft isTransmit_dir by simp_all
  then obtain r0 where start: "net_inv ra (GetDstL2Id t) ?i ?j ?fwd0 [] r0 (a, b)"
    "um_maxTxBufferSize r0 = 10240" "buffered r0 = 0"
    using net_inv_start [OF assms(3) _ _ assms(4-6)] by blast
  obtain s' new r where run: "net_run tfts lte env ?i ?j ops (a, b) = Inr s'"
    "net_inv ra (GetDstL2Id t) ?i ?j ?fwd0 new r s'" "subseq (map (drop 5) new) (net_sent ops)"
    "sum_list (map net_load ops) \<le> 10240 \<longrightarrow> map (drop 5) new = net_sent ops"
    using net_run_inv [OF start(1) assms(7), of tfts lte env] start(2,3) by auto
  obtain a' b' where s': "s' = (a', b')" by (cases s')
  obtain c v e where inv: "ue_objects (dev_ue a') ! ?i = (r, c)" "link_inv new (r, v)"
    "forwarded (nas_out (dev_nas b')) = ?fwd0 @ map (drop 5) (sl_sdus (um_out v))"
    using run(2) by (auto simp: net_inv_def s')
  have new: "new = sl_sdus (um_out v) @ pending (kept_of v) (buf_items (um_txBuffer r))"
    using inv(2) by (simp add: link_inv_def)
  have "um_txBuffer r = [] \<longrightarrow> map (drop 5) (sl_sdus (um_out v)) = map (drop 5) new"
    using inv(2) new by (cases "kept_of v") (auto simp: link_inv_def in_phase_def pending_def)
  moreover have "prefix (map (drop 5) (sl_sdus (um_out v))) (map (drop 5) new)"
    by (simp add: new)
  ultimately show ?thesis
    using run(1,3,4) s' inv(1,3)
    by (intro exI [of _ a'] exI [of _ b'] exI [of _ "map (drop 5) new"]
        exI [of _ "map (drop 5) (sl_sdus (um_out v))"] exI [of _ r] exI [of _ c]) simp
qed

text \<open>A UE with one bandwidth part, its environment, a template and an IPv4 packet for it.\<close>

definition sample_env :: env where
  "sample_env = \<lparr>env_nrCmac = 1, env_nrCphy = 1, env_cmac = 1, env_cphy = 1, env_bwInRbs = (\<lambda>_. 106),
     env_addNrSlDrbLc = (\<lambda>info. [(0, info)])\<rparr>"

definition sample_device :: "u32 \<Rightarrow> device" where
  "sample_device src =
     \<lparr>dev_nas = EpcUeNas, dev_ue = LteUeRrc\<lparr>ue_rrc := NrSlUeRrc\<lparr>rrc_slBwpIds := {0}\<rparr>, ue_imsi := 7,
        ue_srcL2Id := src\<rparr>\<rparr>"

definition sample_tft :: sltft where
  "sample_tft = projr (LteSlTft_v4 DIR_BIDIRECTIONAL COMM_Broadcast 0x0A000002 255)"

definition sample_packet :: packet where
  "sample_packet = Packet_Create\<lparr>pk_bytes :=
     [0x45, 0, 0, 22, 0, 0, 0, 0, 64, 17, 0, 0, 10, 0, 0, 1, 10, 0, 0, 2, 7, 8]\<rparr>"

lemma sample_tft: "LteSlTft_v4 DIR_BIDIRECTIONAL COMM_Broadcast 0x0A000002 255 = Inr sample_tft"
  by (simp add: sample_tft_def LteSlTft_v4_def)

lemmas sample_device_simps = sample_device_def sample_env_def LteUeRrc_def NrSlUeRrc_def EpcUeNas_def

lemma sample_activate: "\<exists>a. dev_ActivateNrSlBearer lte sample_env 0 sample_tft (sample_device 1) = Inr a"
proof -
  note tft = matches_v4 [OF sample_tft]
  have "isTransmit sample_tft = Inr True" "isReceive sample_tft = Inr True" "isUnicast sample_tft = Inr False"
    "GetDstL2Id sample_tft = 255"
    using tft by (simp_all add: isTransmit_def isReceive_def isUnicast_def GetDstL2Id_def)
  moreover have "\<exists>u. ActivateNrSlDrb sample_env 255 True True (dev_ue (sample_device 1)) = Inr u"
    by (simp add: sample_device_simps ActivateNrSlDrb_def SetOutofCovrgUeRnti_def bwp_list_def
        DoGetBwpIdContainer_def sap_at_def ue_emit_def AddNrSlDrb_def DoGetNextLcid_def
        DoAddNrSlDataRadioBearer_def new_bearer_table_def umap_emplace_def map_count_def Let_def)
  ultimately show ?thesis
    by (auto simp: dev_ActivateNrSlBearer_def ActivateNrSlBearer_def dev_after_nas_def new_nas_calls_def
        nas_emit_def DoActivateNrSlRadioBearer_def)
qed

lemma sample_notify: "\<exists>b. dev_NotifySidelinkReception sample_env 4 1 255 (sample_device 2) = Inr b"
  by (simp add: sample_device_simps dev_NotifySidelinkReception_def DoNotifySidelinkReception_def
      DoGetBwpIdContainer_def sap_at_def ue_emit_def AddNrSlDrb_def
      DoAddNrSlRxDataRadioBearer_def new_bearer_table_def umap_emplace_def map_count_def Let_def)

theorem sidelink_delivery_witness:
  "\<exists>a b a' b' accepted fwd.
    dev_ActivateNrSlBearer (\<lambda>e u. Inr u) sample_env 0 sample_tft (sample_device 1) = Inr a \<and>
    dev_NotifySidelinkReception sample_env 4 1 255 (sample_device 2) = Inr b \<and>
    net_run (\<lambda>i. default_tft) (\<lambda>e u. Inr u) sample_env 0 0 [NetSend 0 sample_packet, NetGrant 5 100] (a, b)
      = Inr (a', b') \<and>
    forwarded (nas_out (dev_nas b')) = fwd \<and> prefix fwd accepted \<and> accepted = [pk_bytes sample_packet]"
proof -
  obtain a where a: "dev_ActivateNrSlBearer (\<lambda>e u. Inr u) sample_env 0 sample_tft (sample_device 1) = Inr a"
    using sample_activate by blast
  obtain b where b: "dev_NotifySidelinkReception sample_env 4 1 255 (sample_device 2) = Inr b"
    using sample_notify by blast
  have start: "nas_activatedSl (dev_nas (sample_device s)) = []" "nas_state (dev_nas (sample_device s)) = NAS_OFF"
    "ue_objects (dev_ue (sample_device s)) = []" "nas_out (dev_nas (sample_device s)) = []" for s
    by (simp_all add: sample_device_simps)
  have "list_all (net_op_ok 0x0A000002) [NetSend 0 sample_packet, NetGrant 5 100]"
    by (simp add: sample_packet_def Packet_Create_def Ipv4Header_Destination_eq u32_of_def)
  moreover have "sum_list (map net_load [NetSend 0 sample_packet, NetGrant 5 100]) \<le> 10240"
    "net_sent [NetSend 0 sample_packet, NetGrant 5 100] = [pk_bytes sample_packet]"
    by (simp_all add: sample_packet_def)
  ultimately show ?thesis
    using sidelink_delivery [OF sample_tft _ a _ _ b, where ops = "[NetSend 0 sample_packet, NetGrant 5 100]"
        and tfts = "\<lambda>i. default_tft"] a b by (simp add: start) metis
qed

section \<open>Pools\<close>

lemma installed_pool:
  assumes "PopulateNrSlPools env u = Inr u'"
    and "pre_slPreconfigFreqInfoList (rrc_preconfiguration (ue_rrc u)) = f # fs"
    and "Cmac_AddNrSlCommTxPool i sp \<in> set (new_ue_calls u u')"
  obtains b m where "i < length (freq_slBwpList f)" "b = freq_slBwpList f ! i" "configured b"
    "of_nat i \<in> rrc_slBwpIds (ue_rrc u)"
    "for_each (pool_entry env i u) (bwp_slTxPoolSelectedNormal b) [] = Inr m"
    "sp = ue_slpool u [(of_nat i, m)]"
    "set (bwp_calls env u (i, b)) \<subseteq> set (new_ue_calls u u')"
proof -
  note pop = populate_pools [OF assms(1,2)]
  then have new: "new_ue_calls u u' = concat (map (bwp_calls env u) (enumerate 0 (freq_slBwpList f)))"
    by (simp add: new_ue_calls_def)
  then obtain k b where kb: "(k, b) \<in> set (enumerate 0 (freq_slBwpList f))"
    "Cmac_AddNrSlCommTxPool i sp \<in> set (bwp_calls env u (k, b))"
    using assms(3) by auto
  then have conf: "configured b" "k = i"
    "sp = ue_slpool u [(of_nat i, projr (for_each (pool_entry env i u) (bwp_slTxPoolSelectedNormal b) []))]"
    by (auto simp: bwp_calls_def Let_def split: if_splits)
  have "bwp_ok env u (i, b)"
    using pop kb(1) conf(2) by (auto simp: list_all_iff)
  then obtain m where "of_nat i \<in> rrc_slBwpIds (ue_rrc u)"
    "for_each (pool_entry env i u) (bwp_slTxPoolSelectedNormal b) [] = Inr m"
    using conf(1) by (auto simp: bwp_ok_def)
  moreover have "i < length (freq_slBwpList f)" "b = freq_slBwpList f ! i"
    using kb(1) conf(2) by (auto simp: in_set_enumerate_eq)
  moreover have "set (bwp_calls env u (i, b)) \<subseteq> set (new_ue_calls u u')"
    using kb(1) conf(2) unfolding new by auto
  ultimately show thesis using that conf(1,3) by simp
qed

lemma ue_slpool_phy:
  "GetNrSlPhyPool k pid (ue_slpool u [(k, m)]) = (case map_of m pid of None \<Rightarrow> Inl NsAbort | Some v \<Rightarrow> Inr v)"
  by (simp add: GetNrSlPhyPool_def ValidateBwpAndPoolId_def ue_slpool_def SetNrSlSchedulingType_def
      SetNrSlPhysicalPoolMap_def)

text \<open>
  C2. The pools that \<open>PopulateNrSlPools\<close> installs.  A pool that the MAC of a bandwidth part gets for
  transmission is also what its reception and its PHY get, the bandwidth part is configured and is
  one of the UE, and every physical pool in it comes from a pool of the pre-configuration with that
  id: it is the physical pool of the bitmap, the sub-channel fits into the bandwidth and the PSCCH
  into the sub-channel.
\<close>

theorem installed_pools:
  assumes "PopulateNrSlPools env u = Inr u'"
    and "pre_slPreconfigFreqInfoList (rrc_preconfiguration (ue_rrc u)) = f # fs"
    and "Cmac_AddNrSlCommTxPool i sp \<in> set (new_ue_calls u u')"
    and "GetNrSlPhyPool (of_nat i) pid sp = Inr phy"
  shows "{Cphy_AddNrSlCommTxPool i sp, Cmac_AddNrSlCommRxPool i sp, Cphy_AddNrSlCommRxPool i sp}
      \<subseteq> set (new_ue_calls u u') \<and>
    i < length (freq_slBwpList f) \<and> of_nat i \<in> DoGetBwpIdContainer (ue_rrc u) \<and>
    (\<exists>c rbs sub. c \<in> set (bwp_slTxPoolSelectedNormal (freq_slBwpList f ! i)) \<and>
      cfg_haveSlResourcePoolConfigNr c \<and> cfg_slResourcePoolId c = pid \<and>
      DoGetPhysicalSlPool (pool_slTimeResource (cfg_slResourcePool c)) (ue_rrc u) = Inr phy \<and>
      GetSlFResoPscchValue (pscch_slFreqResourcePscch (pool_slPscchConfig (cfg_slResourcePool c))) = Inr rbs \<and>
      GetNrSlSubChSizeValue (pool_slSubchannelSize (cfg_slResourcePool c)) = Inr sub \<and>
      rbs \<le> sub \<and> ucast sub \<le> env_bwInRbs env i)"
proof (rule installed_pool [OF assms(1-3)])
  fix b m
  assume b: "i < length (freq_slBwpList f)" "b = freq_slBwpList f ! i" "configured b"
    "of_nat i \<in> rrc_slBwpIds (ue_rrc u)"
    "for_each (pool_entry env i u) (bwp_slTxPoolSelectedNormal b) [] = Inr m"
    "sp = ue_slpool u [(of_nat i, m)]"
    "set (bwp_calls env u (i, b)) \<subseteq> set (new_ue_calls u u')"
  have "map_of m pid = Some phy"
    using assms(4) by (simp add: b(6) ue_slpool_phy split: option.splits)
  then obtain c where "c \<in> set (bwp_slTxPoolSelectedNormal b)" "cfg_haveSlResourcePoolConfigNr c"
    "cfg_slResourcePoolId c = pid" "entry_ok env i u c (pid, phy)"
    using pool_table [OF b(5)] by blast
  moreover have "{Cphy_AddNrSlCommTxPool i sp, Cmac_AddNrSlCommRxPool i sp, Cphy_AddNrSlCommRxPool i sp}
      \<subseteq> set (bwp_calls env u (i, b))"
    using b(3,5,6) by (simp add: bwp_calls_def Let_def)
  ultimately show ?thesis
    using b(1,2,4,7) unfolding entry_ok_def DoGetBwpIdContainer_def by auto
qed

lemma physical_pool_uplink:
  assumes "DoGetPhysicalSlPool bm r = Inr phy" "length (rrc_tddPattern r) < 65536"
    and "phy \<noteq> []" "phy ! (n mod length phy)"
  shows "rrc_tddPattern r ! (n mod length (rrc_tddPattern r)) = TDD_UL"
proof -
  let ?pat = "rrc_tddPattern r"
  obtain k where phy: "phy = fill (concat (replicate k ?pat)) bm"
    using assms(1) unfolding physical_pool_eq [OF assms(2)] Let_def by (auto split: if_split_asm)
  then have len: "length phy = k * length ?pat" by (simp add: length_concat sum_list_replicate)
  define m where "m = n mod length phy"
  have m: "m < length phy" using assms(3) by (simp add: m_def)
  have "concat (replicate k ?pat) ! m = TDD_UL"
    using fill_only_ul [of m "concat (replicate k ?pat)" bm] m assms(4) unfolding phy m_def by simp
  moreover have "m mod length ?pat = n mod length ?pat"
    unfolding m_def len by (simp add: mod_mod_cancel)
  ultimately show ?thesis
    using nth_concat_replicate [of m k ?pat] m len by simp
qed

text \<open>
  C3. The pools that \<open>PopulateNrSlPools\<close> installs are made for the TDD pattern: whenever a resource
  pool that the MAC has got says that a slot is a sidelink slot, the TDD pattern of the RRC has an
  uplink slot there.
\<close>

theorem installed_pools_uplink:
  assumes "PopulateNrSlPools env u = Inr u'"
    and "pre_slPreconfigFreqInfoList (rrc_preconfiguration (ue_rrc u)) = f # fs"
    and "Cmac_AddNrSlCommTxPool i sp \<in> set (new_ue_calls u u')"
    and "GetNrSlPhyPool (of_nat i) pid sp = Inr phy" "phy \<noteq> []" "length phy \<le> 65536"
    and "length (rrc_tddPattern (ue_rrc u)) < 65536"
    and "IsSidelinkSlot (of_nat i) pid slot sp = Inr True"
  shows "rrc_tddPattern (ue_rrc u) ! (unat slot mod length (rrc_tddPattern (ue_rrc u))) = TDD_UL"
proof (rule installed_pool [OF assms(1-3)])
  fix b m
  assume b: "for_each (pool_entry env i u) (bwp_slTxPoolSelectedNormal b) [] = Inr m"
    "sp = ue_slpool u [(of_nat i, m)]"
  have "map_of m pid = Some phy"
    using assms(4) by (simp add: b(2) ue_slpool_phy split: option.splits)
  then obtain c where "entry_ok env i u c (pid, phy)"
    using pool_table [OF b(1)] by blast
  then have "DoGetPhysicalSlPool (pool_slTimeResource (cfg_slResourcePool c)) (ue_rrc u) = Inr phy"
    by (simp add: entry_ok_def)
  moreover have "phy ! (unat slot mod length phy)"
    using IsSidelinkSlot_eq [of "of_nat i" pid sp phy slot] assms(4-6,8) by (simp add: GetNrSlPhyPool_eq)
  ultimately show ?thesis
    using physical_pool_uplink assms(5,7) by blast
qed

text \<open>A UE whose TDD pattern is downlink, uplink, with the sample configuration.\<close>

definition sample_pool_ue :: ue where
  "sample_pool_ue = LteUeRrc\<lparr>ue_rrc := NrSlUeRrc\<lparr>rrc_slBwpIds := {0}, rrc_tddPattern := [TDD_DL, TDD_UL],
     rrc_preconfiguration := default_SidelinkPreconfigNr\<lparr>pre_slPreconfigFreqInfoList := sample_freq\<rparr>\<rparr>\<rparr>"

definition sample_installed :: slpool where
  "sample_installed = ue_slpool sample_pool_ue [(0, [(0, [False, True, False, True])])]"

lemma sample_physical: "DoGetPhysicalSlPool [True, True] (ue_rrc sample_pool_ue) = Inr [False, True, False, True]"
proof -
  have "rrc_tddPattern (ue_rrc sample_pool_ue) = [TDD_DL, TDD_UL]"
    by (simp add: sample_pool_ue_def LteUeRrc_def NrSlUeRrc_def)
  then show ?thesis
    by (simp add: physical_pool_eq count_ul_def numeral_2_eq_2)
qed

lemma sample_flags:
  "env_nrCmac sample_env = 1" "env_nrCphy sample_env = 1"
  "bwp_haveSlBwpGeneric sample_bwp" "bwp_haveSlBwpPoolConfigCommonNr sample_bwp"
  "DoGetBwpIdContainer (ue_rrc sample_pool_ue) = {0}"
  by (simp_all add: sample_env_def sample_bwp_def sample_pool_ue_def DoGetBwpIdContainer_def LteUeRrc_def NrSlUeRrc_def)

lemma sample_populate:
  "\<exists>u'. PopulateNrSlPools sample_env sample_pool_ue = Inr u' \<and>
    Cmac_AddNrSlCommTxPool 0 sample_installed \<in> set (new_ue_calls sample_pool_ue u')"
proof -
  have freq: "pre_slPreconfigFreqInfoList (rrc_preconfiguration (ue_rrc sample_pool_ue)) = sample_freq"
    by (simp add: sample_pool_ue_def LteUeRrc_def NrSlUeRrc_def)
  have "pool_entry sample_env 0 sample_pool_ue sample_config [] = Inr [(0, [False, True, False, True])]"
    using sample_physical
    by (simp add: pool_entry_def sample_config_def sample_env_def umap_emplace_def map_count_def
        GetNrSlSubChSizeValue_def GetSlFResoPscchValue_def)
  moreover have "pool_entry sample_env 0 sample_pool_ue default_SlResourcePoolConfigNr m = Inr m" for m
    by (simp add: pool_entry_def default_SlResourcePoolConfigNr_def)
  ultimately have entries: "for_each (pool_entry sample_env 0 sample_pool_ue) (bwp_slTxPoolSelectedNormal sample_bwp) []
      = Inr [(0, [False, True, False, True])]"
    by (simp add: sample_bwp_def eval_nat_numeral)
  from entries have first: "populate_bwp sample_env (0, sample_bwp) (([], []), sample_pool_ue)
      = Inr (([], []), ue_emit (bwp_calls sample_env sample_pool_ue (0, sample_bwp)) sample_pool_ue)"
    by (simp add: populate_bwp_def bwp_calls_def configured_def install_pool_def sap_at_def Let_def
        umap_emplace_def map_count_def sample_flags DoGetNrSlPreconfiguration_def ue_emit_def)
  have rest: "populate_bwp sample_env (i, default_SlBwpConfigCommonNr) (([], []), v) = Inr (([], []), v)" for i v
    by (simp add: populate_bwp_def default_SlBwpConfigCommonNr_def)
  have "enumerate 0 (freq_slBwpList (hd sample_freq)) = (0, sample_bwp) #
      map (\<lambda>i. (i, default_SlBwpConfigCommonNr)) [1, 2, 3]"
    by (simp add: sample_freq_def eval_nat_numeral)
  then have "PopulateNrSlPools sample_env sample_pool_ue
      = Inr (ue_emit (bwp_calls sample_env sample_pool_ue (0, sample_bwp)) sample_pool_ue)"
    using first rest freq by (simp add: PopulateNrSlPools_def DoGetNrSlPreconfiguration_def sample_freq_def)
  moreover have "Cmac_AddNrSlCommTxPool 0 sample_installed \<in> set (bwp_calls sample_env sample_pool_ue (0, sample_bwp))"
    using entries by (simp add: bwp_calls_def configured_def sample_flags sample_installed_def Let_def)
  ultimately show ?thesis by (simp add: new_ue_calls_def ue_emit_def)
qed

lemma sample_pool_facts:
  "pre_slPreconfigFreqInfoList (rrc_preconfiguration (ue_rrc sample_pool_ue)) = hd sample_freq # []"
  "GetNrSlPhyPool 0 0 sample_installed = Inr [False, True, False, True]"
  "rrc_tddPattern (ue_rrc sample_pool_ue) = [TDD_DL, TDD_UL]"
  by (simp_all add: sample_pool_ue_def LteUeRrc_def NrSlUeRrc_def sample_freq_def sample_installed_def ue_slpool_phy)

theorem installed_pools_witness:
  "\<exists>u'. PopulateNrSlPools sample_env sample_pool_ue = Inr u' \<and>
    Cphy_AddNrSlCommRxPool 0 sample_installed \<in> set (new_ue_calls sample_pool_ue u')"
proof -
  obtain u' where u': "PopulateNrSlPools sample_env sample_pool_ue = Inr u'"
    "Cmac_AddNrSlCommTxPool 0 sample_installed \<in> set (new_ue_calls sample_pool_ue u')"
    using sample_populate by blast
  with installed_pools [OF u'(1) sample_pool_facts(1) u'(2), of 0] sample_pool_facts(2) show ?thesis
    by auto
qed

theorem installed_pools_uplink_witness:
  "\<exists>u'. PopulateNrSlPools sample_env sample_pool_ue = Inr u' \<and>
    IsSidelinkSlot 0 0 1 sample_installed = Inr True \<and>
    rrc_tddPattern (ue_rrc sample_pool_ue) ! 1 = TDD_UL"
proof -
  obtain u' where u': "PopulateNrSlPools sample_env sample_pool_ue = Inr u'"
    "Cmac_AddNrSlCommTxPool 0 sample_installed \<in> set (new_ue_calls sample_pool_ue u')"
    using sample_populate by blast
  have slot: "IsSidelinkSlot 0 0 1 sample_installed = Inr True"
    using IsSidelinkSlot_eq [of 0 0 sample_installed "[False, True, False, True]" 1] sample_pool_facts(2)
    by (simp add: GetNrSlPhyPool_eq)
  with installed_pools_uplink [OF u'(1) sample_pool_facts(1) u'(2), of 0 "[False, True, False, True]" 1]
  show ?thesis
    using u'(1) sample_pool_facts(2,3) by (simp del: One_nat_def)
qed

section \<open>The NAS\<close>

text \<open>
  C4. In every reachable state of the NAS the classifier holds exactly the first bearers asked for,
  under the identities 1, 2, ..., at most eleven; the others wait in order, and none waits in state
  ACTIVE.  A successful connection activates all of them if they are at most eleven and stops
  otherwise; a released connection empties the classifier and makes all of them wait again.
\<close>

theorem nas_bearers:
  assumes "nas_reachable n"
  shows "nas_bidCounter n \<le> 11 \<and>
    nas_tftMap n = eps_map (take (unat (nas_bidCounter n)) (nas_forReconnection n)) \<and>
    nas_toBeActivated n = drop (unat (nas_bidCounter n)) (nas_forReconnection n) \<and>
    (nas_state n = NAS_ACTIVE \<longrightarrow> nas_toBeActivated n = []) \<and>
    (if length (nas_forReconnection n) \<le> 11
     then \<exists>n'. DoNotifyConnectionSuccessful n = Inr n' \<and> nas_state n' = NAS_ACTIVE \<and>
       nas_tftMap n' = eps_map (nas_forReconnection n)
     else DoNotifyConnectionSuccessful n = Inl NsAssert) \<and>
    (\<exists>n'. DoNotifyConnectionReleased n = Inr n' \<and> nas_state n' = NAS_OFF \<and> nas_tftMap n' = [] \<and>
       nas_toBeActivated n' = nas_forReconnection n)"
proof -
  note inv = nas_reachable_inv [OF assms]
  have "if length (nas_forReconnection n) \<le> 11
     then \<exists>n'. DoNotifyConnectionSuccessful n = Inr n' \<and> nas_state n' = NAS_ACTIVE \<and>
       nas_tftMap n' = eps_map (nas_forReconnection n)
     else DoNotifyConnectionSuccessful n = Inl NsAssert"
    using connection_successful [OF inv] by (auto split: if_splits)
  moreover have "\<exists>n'. DoNotifyConnectionReleased n = Inr n' \<and> nas_state n' = NAS_OFF \<and> nas_tftMap n' = [] \<and>
       nas_toBeActivated n' = nas_forReconnection n"
    using connection_released [OF inv] by blast
  ultimately show ?thesis
    using inv by (auto simp: nas_inv_def Let_def word_le_nat_alt)
qed

theorem nas_bearers_witness:
  "\<exists>n n'. ActivateEpsBearer 9 EpcUeNas = Inr n \<and> nas_toBeActivated n = [9] \<and>
    DoNotifyConnectionSuccessful n = Inr n' \<and> nas_tftMap n' = [(1, 9)]"
proof -
  define n where "n = EpcUeNas\<lparr>nas_toBeActivated := [9], nas_forReconnection := [9]\<rparr>"
  have n: "ActivateEpsBearer 9 EpcUeNas = Inr n"
    by (simp add: ActivateEpsBearer_def EpcUeNas_def n_def)
  then have "nas_reachable n"
    by (intro nas_reachable.bearer [OF nas_reachable.init])
  moreover have "nas_forReconnection n = [9]" "nas_toBeActivated n = [9]" by (simp_all add: n_def)
  ultimately show ?thesis
    using nas_bearers [of n] n by (auto simp: eps_map_def)
qed

text \<open>
  C5. The templates of sidelink bearers.  A template made from an IPv4 address matches that address
  alone, but every IPv6 address, because its IPv6 mask is zero; a copy of it matches every address,
  because the copy constructor leaves \<open>m_hasRemoteAddress\<close> out; and \<open>Equals\<close> holds of any two such
  templates, because it tells two templates apart only if all their members differ.
\<close>

theorem template_matching:
  assumes "LteSlTft_v4 d c ra dst = Inr t" "LteSlTft_v4 d' c' ra' dst' = Inr t'"
  shows "(tft_Matches4 a t \<longleftrightarrow> a = ra) \<and> tft_Matches6 b t \<and>
    tft_Matches4 a (LteSlTft_copy t) \<and> tft_Matches6 b (LteSlTft_copy t) \<and>
    GetDstL2Id (LteSlTft_copy t) = GetDstL2Id t \<and> tft_Equals t t'"
proof -
  have "tft_remoteMask t = tft_remoteMask t'"
    using assms by (auto simp: LteSlTft_v4_def rguard_eq_Inr)
  then show ?thesis
    using matches_v4 [OF assms(1)]
    by (simp add: tft_Equals_def LteSlTft_copy_def tft_initializers_def tft_Matches4_def tft_Matches6_def
        GetDstL2Id_def)
qed

theorem template_matching_witness:
  "\<not> tft_Matches4 5 sample_tft \<and> tft_Matches4 5 (LteSlTft_copy sample_tft) \<and> tft_Matches6 [1] sample_tft"
  using template_matching [OF sample_tft sample_tft, of 5 "[1]"] by simp

end
