(* ===== verification/TftProperties.thy ===== *)
theory TftProperties
  imports EpcUeNas
begin

text \<open>
  The properties of the EPS templates and of the classifier: the order of the filters, the bearer
  that an uplink packet gets from the NAS, the bearer of the fragments of a datagram, and the round
  trips of the IP headers, each with an instance at a concrete input.
\<close>

section \<open>Headers\<close>

text \<open>
  C16. The headers that the classifier reads come back from their bytes: every IPv4 header with an
  offset that is a multiple of 8, every IPv6 header with a 20-bit flow label, every UDP header (whose
  length field is the forced one or the size of the packet), whatever follows them.
\<close>

theorem ip_headers_roundtrip:
  assumes "ipv4_wf h4" "ipv6_wf h6"
  shows "Ipv4Header_Deserialize x4 (Ipv4Header_Serialize h4 @ rest) = Inr (h4, 20) \<and>
    Ipv6Header_Deserialize x6 (Ipv6Header_Serialize h6 @ rest) = Inr (h6, 40) \<and>
    UdpHeader_Deserialize UdpHeader (UdpHeader_Serialize sz u @ rest) =
      Inr (u\<lparr>udp_payloadSize := (if udp_forcedPayloadSize u = 0 then of_nat sz else udp_forcedPayloadSize u) - 8,
             udp_forcedPayloadSize := 0\<rparr>, 8)"
  using ipv4_header_roundtrip [OF assms(1)] ipv6_header_roundtrip [OF assms(2)] udp_header_roundtrip by blast

definition sample_ipv4 :: ipv4_header where
  "sample_ipv4 = Ipv4Header\<lparr>ip_payloadSize := 8, ip_identification := 77, ip_flags := MORE_FRAGMENTS,
     ip_ttl := 64, ip_protocol := UDP_PROT_NUMBER, ip_source := 0x0A000001, ip_destination := 0x0A000002\<rparr>"

lemmas sample_ipv4_simps = sample_ipv4_def Ipv4Header_def MORE_FRAGMENTS_def UDP_PROT_NUMBER_def

theorem ip_headers_roundtrip_witness:
  "Ipv4Header_Deserialize Ipv4Header (Ipv4Header_Serialize (sample_ipv4\<lparr>ip_fragmentOffset := 1480\<rparr>) @ [1, 2])
     = Inr (sample_ipv4\<lparr>ip_fragmentOffset := 1480\<rparr>, 20) \<and>
   Ipv6Header_Deserialize Ipv6Header (Ipv6Header_Serialize Ipv6Header @ [1, 2]) = Inr (Ipv6Header, 40)"
proof -
  have "ipv4_wf (sample_ipv4\<lparr>ip_fragmentOffset := 1480\<rparr>)" "ipv6_wf Ipv6Header"
    by (simp_all add: ipv4_wf_def sample_ipv4_simps ipv6_wf_def Ipv6Header_def)
  from ip_headers_roundtrip [OF this, of Ipv4Header "[1, 2]" Ipv6Header] show ?thesis by simp
qed

section \<open>Templates\<close>

lemma add_filters_stable:
  "tft_inv t \<Longrightarrow> add_filters fs t = Inr t' \<Longrightarrow>
   filter (\<lambda>g. pf_precedence g = k) (tft_filters t') =
   filter (\<lambda>g. pf_precedence g = k) (tft_filters t) @ filter (\<lambda>g. pf_precedence g = k) fs"
proof (induction fs arbitrary: t)
  case (Cons f fs)
  obtain i t1 where t1: "EpcTft_Add f t = Inr (i, t1)" "add_filters fs t1 = Inr t'"
    using Cons.prems(2) by (auto simp: rbind_eq_Inr)
  note inv = EpcTft_Add_inv [OF Cons.prems(1) t1(1)]
  have "tft_filters t1 = insert_filter f (tft_filters t)"
    using t1(1) Cons.prems(1) by (auto simp: EpcTft_Add_result split: if_splits)
  moreover have "sorted (map pf_precedence (tft_filters t))"
    using Cons.prems(1) by (simp add: tft_inv_def)
  ultimately show ?case
    using Cons.IH [OF inv(1) t1(2)] by (simp add: stable_insert_filter)
qed simp

text \<open>
  C15. Filters that are added to a new template are accepted exactly while there are at most 16; the
  template then holds all of them in ascending order of precedence, those of equal precedence in the
  order of their addition, and it matches a packet exactly when one of them does.
\<close>

theorem filters_ordered:
  "if length fs \<le> 16
   then \<exists>t. add_filters fs EpcTft = Inr t \<and> mset (GetPacketFilters t) = mset fs \<and>
     sorted (map pf_precedence (GetPacketFilters t)) \<and>
     (filter (\<lambda>g. pf_precedence g = k) (GetPacketFilters t) = filter (\<lambda>g. pf_precedence g = k) fs) \<and>
     (EpcTft_Matches4 d ra la rp lp tos t = list_ex (filter_Matches4 d ra la rp lp tos) fs) \<and>
     (EpcTft_Matches6 d ra6 la6 rp lp tos t = list_ex (filter_Matches6 d ra6 la6 rp lp tos) fs)
   else add_filters fs EpcTft = Inl NsAbort"
proof (cases "length fs \<le> 16")
  case True
  obtain t where t: "add_filters fs EpcTft = Inr t" "tft_inv t" "mset (tft_filters t) = mset fs"
    using add_filters_result [OF EpcTft_inv, of fs] True by (auto simp: EpcTft_def)
  have "set (tft_filters t) = set fs" using t(3) by (metis set_mset_mset)
  moreover have "filter (\<lambda>g. pf_precedence g = k) (tft_filters t) = filter (\<lambda>g. pf_precedence g = k) fs"
    using add_filters_stable [OF EpcTft_inv t(1), of k] by (simp add: EpcTft_def)
  ultimately show ?thesis
    using True t by (auto simp: GetPacketFilters_def tft_inv_def EpcTft_Matches4_def EpcTft_Matches6_def
        any_filter_iff list_ex_iff)
next
  case False
  then show ?thesis using add_filters_too_many [OF EpcTft_inv, of fs] by (simp add: EpcTft_def)
qed

section \<open>Fragments\<close>

text \<open>
  C14. All fragments of a datagram get the same bearer.  Let the first fragment hold the UDP or TCP
  ports, let any packets of other datagrams and any middle fragments of this one follow, then the
  last fragment.  Then the first fragment gets the last bearer whose template matches its addresses,
  ports and type of service, every other fragment gets this bearer although it holds no ports, and
  the classifier has forgotten the datagram afterwards.
\<close>

theorem fragments_same_bearer:
  assumes "is_ipv4 h0 l0 p0" "has_ports h0" "readable h0 l0" "\<not> IsLastFragment h0"
    and "list_all (between h0) xs"
    and "is_ipv4 h1 l1 p1" "fragment_key h1 = fragment_key h0" "ip_tos h1 = ip_tos h0"
    and "ip_fragmentOffset h1 \<noteq> 0" "IsLastFragment h1"
    and "map_wf fr" "d = UPLINK \<or> d = DOWNLINK"
  shows "\<exists>k ks fr'. classify_all tfts d m (p0 # map (snd \<circ> snd) xs @ [p1]) fr = Inr (k # ks @ [k], fr') \<and>
    k = choose_bearer tfts d h0 (header_ports d l0) m \<and>
    chosen_for h0 k xs ks \<and> map_of fr' (fragment_key h0) = None"
  using fragments_agree [OF assms, of tfts m] by blast

text \<open>A template for local port 7, in a table behind the default template.\<close>

definition port_tft :: epc_tft where
  "port_tft = \<lparr>tft_filters = [PacketFilter\<lparr>pf_localPortStart := 7, pf_localPortEnd := 7\<rparr>], tft_numFilters = 1\<rparr>"

definition sample_tfts :: "nat \<Rightarrow> epc_tft" where
  "sample_tfts i = (if i = 0 then default_tft else port_tft)"

theorem fragments_same_bearer_witness:
  "\<exists>fr. classify_all sample_tfts UPLINK [(1, 0), (2, 1)]
     [Packet_Create\<lparr>pk_bytes := Ipv4Header_Serialize sample_ipv4 @ [0, 7, 0, 9, 0, 16, 0, 0]\<rparr>,
      Packet_Create\<lparr>pk_bytes := Ipv4Header_Serialize (sample_ipv4\<lparr>ip_fragmentOffset := 8, ip_flags := 0\<rparr>) @ [5]\<rparr>] []
     = Inr ([2, 2], fr) \<and> map_of fr (fragment_key sample_ipv4) = None"
proof -
  let ?l = "[0, 7, 0, 9, 0, 16, 0, 0] :: u8 list"
  let ?p0 = "Packet_Create\<lparr>pk_bytes := Ipv4Header_Serialize sample_ipv4 @ ?l\<rparr>"
  let ?h1 = "sample_ipv4\<lparr>ip_fragmentOffset := 8, ip_flags := 0\<rparr>"
  let ?p1 = "Packet_Create\<lparr>pk_bytes := Ipv4Header_Serialize ?h1 @ [5]\<rparr>"
  have "is_ipv4 sample_ipv4 ?l ?p0" "has_ports sample_ipv4" "readable sample_ipv4 ?l" "\<not> IsLastFragment sample_ipv4"
    "is_ipv4 ?h1 [5] ?p1" "fragment_key ?h1 = fragment_key sample_ipv4" "IsLastFragment ?h1"
    by (simp_all add: is_ipv4_def ipv4_wf_def has_ports_def readable_def IsLastFragment_def fragment_key_def
        sample_ipv4_simps)
  from fragments_same_bearer [OF this(1-4) _ this(5,6) _ _ this(7), of "[]" "[]" UPLINK sample_tfts "[(1, 0), (2, 1)]"]
  obtain k fr where "classify_all sample_tfts UPLINK [(1, 0), (2, 1)] [?p0, ?p1] [] = Inr ([k, k], fr)"
    "k = choose_bearer sample_tfts UPLINK sample_ipv4 (header_ports UPLINK ?l) [(1, 0), (2, 1)]"
    "map_of fr (fragment_key sample_ipv4) = None"
    by (auto simp: chosen_for_def)
  moreover have "choose_bearer sample_tfts UPLINK sample_ipv4 (header_ports UPLINK ?l) [(1, 0), (2, 1)] = 2"
    by (simp add: choose_bearer_def header_ports_def local_remote_def sample_tfts_def port_tft_def PacketFilter_def
        EpcTft_Matches4_def filter_Matches4_def Ipv4Mask_IsMatch_def ReadNtohU16_def sample_ipv4_simps)
  ultimately show ?thesis by auto
qed

section \<open>Uplink packets\<close>

text \<open>The entries of the table of the bearers.\<close>

lemma eps_map_entry: "(k, t) \<in> set (eps_map ts) \<longleftrightarrow> (\<exists>i < length ts. k = of_nat (Suc i) \<and> t = ts ! i)"
proof (induction ts rule: rev_induct)
  case (snoc u ts)
  have "(\<exists>i < length (ts @ [u]). k = of_nat (Suc i) \<and> t = (ts @ [u]) ! i) \<longleftrightarrow>
      k = of_nat (Suc (length ts)) \<and> t = u \<or> (\<exists>i < length ts. k = of_nat (Suc i) \<and> t = ts ! i)"
    by (simp add: Ex_less_Suc nth_append cong: conj_cong del: of_nat_Suc)
  moreover have "(k, t) \<in> set (eps_map (ts @ [u])) \<longleftrightarrow>
      k = of_nat (Suc (length ts)) \<and> t = u \<or> (k, t) \<in> set (eps_map ts)"
    unfolding eps_map_snoc by (simp del: of_nat_Suc)
  ultimately show ?case using snoc.IH by blast
qed (simp add: eps_map_def)

lemma eps_map_wf: "length ts \<le> 11 \<Longrightarrow> map_wf (eps_map ts)"
proof (induction ts rule: rev_induct)
  case (snoc t ts)
  then have "map_wf (map_put (of_nat (Suc (length ts))) t (eps_map ts))" by (intro map_wf_put) simp
  then show ?case using snoc.prems eps_map_put [of ts t] by (simp del: of_nat_Suc)
qed (simp add: eps_map_def)

lemma eps_id: "i < 11 \<Longrightarrow> unat (of_nat (Suc i) :: u32) = Suc i"
  by (rule unat_of_nat_u32) simp

lemma eps_byte:
  assumes "i < 11"
  shows "((of_nat (Suc i) :: u32) AND 0xFFFFFF00) = 0" "(ucast ((of_nat (Suc i) :: u32) AND 0xFF) :: u8) = of_nat (Suc i)"
    "(of_nat (Suc i) :: u8) \<noteq> 0"
proof -
  have "i = 0 \<or> i = 1 \<or> i = 2 \<or> i = 3 \<or> i = 4 \<or> i = 5 \<or> i = 6 \<or> i = 7 \<or> i = 8 \<or> i = 9 \<or> i = 10"
    using assms by arith
  then show "((of_nat (Suc i) :: u32) AND 0xFFFFFF00) = 0"
    "(ucast ((of_nat (Suc i) :: u32) AND 0xFF) :: u8) = of_nat (Suc i)" "(of_nat (Suc i) :: u8) \<noteq> 0"
    by (elim disjE; simp)+
qed

text \<open>
  C13. Uplink packets.  Let a UE in state ACTIVE have asked first for a bearer with the default
  template.  Then a readable IPv4 packet that no sidelink template matches is sent on exactly one of
  its bearers, under that bearer's identity: on the last one whose template matches the packet's
  addresses, its type of service and the ports that the classifier reads or remembers for it.
\<close>

theorem uplink_bearer:
  assumes "nas_reachable n" "nas_state n = NAS_ACTIVE"
    and "nas_forReconnection n = t0 # ts" "EpcTft_Default = Inr (tfts t0)"
    and "is_ipv4 h l4 p" "readable h l4"
    and "List.find (tft_Matches4 (ip_destination h)) (nas_activatedSl n @ nas_pendingSl n) = None"
  shows "\<exists>i fr' lp rp. i < length (t0 # ts) \<and> length (t0 # ts) \<le> 11 \<and>
    ipv4_ports UPLINK h l4 (nas_fragments n) = Inr ((lp, rp), fr') \<and>
    nas_Send tfts p IPV4_PROT_NUMBER n =
      Inr (True, nas_emit [As_SendData p (of_nat (Suc i))] (n\<lparr>nas_fragments := fr'\<rparr>)) \<and>
    EpcTft_Matches4 UPLINK (ip_destination h) (ip_source h) rp lp (ip_tos h) (tfts ((t0 # ts) ! i)) \<and>
    list_all (\<lambda>t. \<not> EpcTft_Matches4 UPLINK (ip_destination h) (ip_source h) rp lp (ip_tos h) (tfts t))
      (drop (Suc i) (t0 # ts))"
proof -
  define us where "us = t0 # ts"
  define M where "M t lp rp \<longleftrightarrow>
    EpcTft_Matches4 UPLINK (ip_destination h) (ip_source h) rp lp (ip_tos h) (tfts t)" for t lp rp
  have us: "nas_tftMap n = eps_map us" "length us \<le> 11"
    using nas_reachable_inv [OF assms(1)] assms(2,3) by (auto simp: nas_inv_def Let_def us_def)
  have t0: "tfts t0 = default_tft" using assms(4) unfolding EpcTft_Default by simp
  have lr: "local_remote UPLINK (ip_source h) (ip_destination h) = (ip_source h, ip_destination h)"
    by (simp add: local_remote_def)
  obtain lp rp fr' where ports: "ipv4_ports UPLINK h l4 (nas_fragments n) = Inr ((lp, rp), fr')"
    using ipv4_ports_total [OF assms(6)] by blast
  have "(of_nat (Suc 0), t0) \<in> set (eps_map us)"
    unfolding eps_map_entry us_def by (intro exI [of _ 0]) simp
  from choose_bearer_best [OF eps_map_wf [OF us(2)] this, of tfts UPLINK h "ip_source h" "ip_destination h" lp rp, OF t0 lr]
  obtain k t where k: "choose_bearer tfts UPLINK h (lp, rp) (eps_map us) = k" "(k, t) \<in> set (eps_map us)" "M t lp rp"
    and best: "\<And>k' t'. (k', t') \<in> set (eps_map us) \<Longrightarrow> M t' lp rp \<Longrightarrow> k' \<le> k"
    unfolding M_def by blast
  obtain i where i: "i < length us" "k = of_nat (Suc i)" "t = us ! i" using k(2) unfolding eps_map_entry by blast
  have i11: "i < 11" using i(1) us(2) by simp
  have "\<not> M t' lp rp" if "t' \<in> set (drop (Suc i) us)" for t'
  proof
    assume "M t' lp rp"
    obtain j where j: "j < length (drop (Suc i) us)" "t' = drop (Suc i) us ! j"
      using \<open>t' \<in> set (drop (Suc i) us)\<close> by (metis in_set_conv_nth)
    then have "(of_nat (Suc (Suc i + j)), t') \<in> set (eps_map us)" "Suc i + j < 11"
      unfolding eps_map_entry using us(2) by (auto intro!: exI [of _ "Suc i + j"])
    then show False
      using best [of "of_nat (Suc (Suc i + j))" t'] \<open>M t' lp rp\<close> eps_id [of "Suc i + j"] eps_id [OF i11] i(2)
      by (simp add: word_le_nat_alt del: of_nat_Suc)
  qed
  then have later: "list_all (\<lambda>t'. \<not> M t' lp rp) (drop (Suc i) us)" by (simp add: list_all_iff)
  have dest: "Ipv4Header_Destination (pk_bytes p) = Inr (ip_destination h)"
    using assms(5) by (simp add: Ipv4Header_Destination_def is_ipv4_def ipv4_header_roundtrip)
  have none: "List.find (tft_Matches4 (ip_destination h)) (nas_activatedSl n) = None"
    "List.find (tft_Matches4 (ip_destination h)) (nas_pendingSl n) = None"
    using assms(7) by (auto simp: find_None_iff)
  have "sidelink_blocks True p IPV4_PROT_NUMBER n = Inr None"
    by (simp add: sidelink_blocks_def dest try_sidelink_def none)
  moreover have "Classify tfts p UPLINK IPV4_PROT_NUMBER (nas_tftMap n) (nas_fragments n) = Inr (of_nat (Suc i), fr')"
    using Classify_ipv4 [OF assms(5), of UPLINK tfts "nas_tftMap n" "nas_fragments n"] ports us(1) k(1) i(2) by simp
  ultimately have "nas_Send tfts p IPV4_PROT_NUMBER n =
      Inr (True, nas_emit [As_SendData p (of_nat (Suc i))] (n\<lparr>nas_fragments := fr'\<rparr>))"
    using eps_byte [OF i11] assms(2) by (simp add: nas_Send_def Let_def del: of_nat_Suc)
  then show ?thesis
    using i(1) us(2) ports k(3) i(3) later unfolding us_def M_def by blast
qed

theorem uplink_bearer_witness:
  "\<exists>n n' fr. ActivateEpsBearer 0 EpcUeNas = Inr n \<and> DoNotifyConnectionSuccessful n = Inr n' \<and>
    nas_Send sample_tfts (Packet_Create\<lparr>pk_bytes := Ipv4Header_Serialize sample_ipv4 @ [0, 7, 0, 9, 0, 16, 0, 0]\<rparr>)
      IPV4_PROT_NUMBER n' =
      Inr (True, nas_emit [As_SendData
        (Packet_Create\<lparr>pk_bytes := Ipv4Header_Serialize sample_ipv4 @ [0, 7, 0, 9, 0, 16, 0, 0]\<rparr>) 1]
        (n'\<lparr>nas_fragments := fr\<rparr>))"
proof -
  let ?l = "[0, 7, 0, 9, 0, 16, 0, 0] :: u8 list"
  define p where "p = Packet_Create\<lparr>pk_bytes := Ipv4Header_Serialize sample_ipv4 @ ?l\<rparr>"
  define n where "n = EpcUeNas\<lparr>nas_toBeActivated := [0], nas_forReconnection := [0]\<rparr>"
  have n: "ActivateEpsBearer 0 EpcUeNas = Inr n"
    by (simp add: ActivateEpsBearer_def EpcUeNas_def n_def)
  then have r: "nas_reachable n" by (intro nas_reachable.bearer [OF nas_reachable.init])
  define n' where "n' = nas_emit [Nas_StateTransition NAS_OFF NAS_ACTIVE]
    (n\<lparr>nas_state := NAS_ACTIVE, nas_bidCounter := 1, nas_tftMap := [(1, 0)], nas_toBeActivated := []\<rparr>)"
  have n': "DoNotifyConnectionSuccessful n = Inr n'"
    by (simp add: DoNotifyConnectionSuccessful_def SwitchToState_def DoActivateEpsBearer_def classifier_Add_def
        nas_emit_def n'_def n_def EpcUeNas_def)
  then have r': "nas_reachable n'" by (rule nas_reachable.success [OF r])
  have "is_ipv4 sample_ipv4 ?l p" "readable sample_ipv4 ?l"
    by (simp_all add: is_ipv4_def ipv4_wf_def has_ports_def readable_def sample_ipv4_simps p_def)
  moreover have "nas_state n' = NAS_ACTIVE" "nas_forReconnection n' = [0]" "nas_activatedSl n' @ nas_pendingSl n' = []"
    by (simp_all add: n'_def n_def EpcUeNas_def nas_emit_def)
  moreover have "EpcTft_Default = Inr (sample_tfts 0)" by (simp add: EpcTft_Default sample_tfts_def)
  ultimately have "\<exists>fr. nas_Send sample_tfts p IPV4_PROT_NUMBER n' =
      Inr (True, nas_emit [As_SendData p 1] (n'\<lparr>nas_fragments := fr\<rparr>))"
    using uplink_bearer [OF r', of 0 "[]" sample_tfts sample_ipv4 ?l p] by (auto simp del: One_nat_def)
  then show ?thesis using n n' unfolding p_def by blast
qed

end
