(* ===== verification/RlcProperties.thy ===== *)
theory RlcProperties
  imports LteRlcUmLink
begin

text \<open>
  The properties of the RLC UM entity that the development claims, each with an instance at
  a concrete input where it has hypotheses.  They rest on the lemmas of the RLC theories.
\<close>

section \<open>The sidelink channel\<close>

text \<open>
  C22. A sidelink logical channel is lossless and in order.  Start a transmitting and a receiving
  RLC UM entity and run any sequence of PDCP PDUs to send and MAC opportunities, of any sizes, with
  every RLC PDU reaching the receiver in order.  No step stops, and the SDUs the transmitter accepted are
  those the receiver has delivered, in the same order and with the same bytes, followed by
  those still pending; when the transmission buffer is empty all of them have been delivered.
\<close>

theorem sl_channel_lossless:
  assumes "list_all sl_op_ok ops"
  shows "\<exists>u v accepted.
    sl_run ops (sl_entity r1 l1 s1 d1, sl_entity r2 l2 s2 d2) [] = Inr ((u, v), accepted) \<and>
    accepted = sl_sdus (um_out v) @ pending (kept_of v) (buf_items (um_txBuffer u)) \<and>
    (um_txBuffer u = [] \<longrightarrow> sl_sdus (um_out v) = accepted)"
proof -
  obtain u v accepted where run: "sl_run ops (sl_entity r1 l1 s1 d1, sl_entity r2 l2 s2 d2) []
      = Inr ((u, v), accepted)" and inv: "link_inv accepted (u, v)"
    using link_run [OF link_inv_start assms] by fastforce
  moreover have "pending (kept_of v) (buf_items (um_txBuffer u)) = []" if "um_txBuffer u = []"
    using inv that by (cases "kept_of v") (simp_all add: link_inv_def in_phase_def pending_def)
  ultimately show ?thesis
    by (auto simp: link_inv_def)
qed

theorem sl_channel_lossless_witness:
  "\<exists>u v accepted. sl_run [Push 0 (Packet_Create\<lparr>pk_bytes := [1, 2, 3]\<rparr>), Opportunity 5 4, Opportunity 9 40]
      (sl_entity 1 4 10 20, sl_entity 2 4 20 10) [] = Inr ((u, v), accepted) \<and>
    accepted = sl_sdus (um_out v) @ pending (kept_of v) (buf_items (um_txBuffer u))"
  using sl_channel_lossless [of "[Push 0 (Packet_Create\<lparr>pk_bytes := [1, 2, 3]\<rparr>), Opportunity 5 4, Opportunity 9 40]"
      1 4 10 20 2 4 20 10]
  by (auto simp: Packet_Create_def)

text \<open>A PDU with one full SDU, used by the instances.\<close>

definition sample_pdu :: "u8 \<Rightarrow> packet" where
  "sample_pdu sn = \<lparr>pk_bytes = [0, sn, 7, 8, 9], pk_sdu_status = None,
     pk_btags = [(RlcTag 0 1, 1, 2)]\<rparr>"

lemma sample_pdu_header:
  "rlc_Deserialize LteRlcHeader (0 # sn # data) =
    Inr (LteRlcHeader\<lparr>rh_headerLength := 2, rh_framingInfo := 0,
      rh_sequenceNumber := SN10 (ucast sn), rh_extensionBits := [0]\<rparr>, 2)"
proof -
  have "dec_sn 0 sn = ucast sn"
    by (rule bit_word_eqI) (auto simp: dec_sn_bits bit_simps dest: bit_imp_le_length)
  then show ?thesis
    by (simp add: rlc_Deserialize_def LteRlcHeader_def Let_def dec_fixE_def dec_fi_def
        DATA_FIELD_FOLLOWS_def rlc_GetSerializedSize_def sn_assign_def SN10_def)
qed

lemma sample_pdu_ok:
  "pdu_ok (sample_pdu sn)" "Packet_FindRlcTag (sample_pdu sn) = Some 0"
  "pdu_sn (sample_pdu sn) = SN10 (ucast sn)" "pdu_starts (sample_pdu sn)" "pdu_ends (sample_pdu sn)"
  "pdu_fields (sample_pdu sn) = [[7, 8, 9]]"
  by (simp_all add: pdu_ok_def sample_pdu_def sample_pdu_header pdu_sn_def
      pdu_header_of_def pdu_starts_def pdu_ends_def pdu_fields_def Packet_FindRlcTag_def bt_iter_def)
    (simp_all add: LteRlcHeader_def)

lemma fresh_um:
  "rs_inv LteRlcUm" "sn_wf (um_expectedSeqNumber LteRlcUm)" "um_sdusBuffer LteRlcUm = []"
  "um_out LteRlcUm = []" "kept_of LteRlcUm = None" "um_rxBuffer LteRlcUm = []"
  by (simp_all add: LteRlcUm_def rs_inv_def kept_of_def)

lemma reasm_full_sdu: "reasm loss True True ds None = (ds, None)"
  by (simp add: reasm_def reasm_finish_def)

section \<open>Reassembly\<close>

text \<open>
  C23. The sidelink reassembly refines the abstract one, for every PDU that can be taken apart, in
  every reassembly state, for every framing, with and without losses and with any fragments
  left behind: \<open>NrSlReassembleAndDeliver\<close> returns, hands up exactly the SDUs of \<open>reasm_complete\<close>, keeps
  the part and leaves behind the fragments that it says, and expects the next sequence number.
  Where a PDU that starts with a new SDU follows an open one without a loss (the source calls it
  \<open>Transition not possible\<close>), nothing is handed up and all fields of the PDU are left behind, in
  front of those of the next PDU; in all other cases nothing is left behind.
\<close>

theorem nrsl_reassembly_refines:
  assumes "pdu_ok p" "rs_inv u" "sn_wf (um_expectedSeqNumber u)"
  shows "\<exists>u' ps. NrSlReassembleAndDeliver p u = Inr u' \<and>
    um_out u' = um_out u @ map ReceiveNrSlPdcpPdu ps \<and>
    (map pk_bytes ps, kept_of u', map pk_bytes (um_sdusBuffer u')) =
      reasm_complete (pdu_lost p u) (pdu_starts p) (pdu_ends p) (pdu_fields p) (kept_of u)
        (map pk_bytes (um_sdusBuffer u)) \<and>
    rs_inv u' \<and> sn_num (um_expectedSeqNumber u') = (sn_num (pdu_sn p) + 1) mod 1024"
  using nrsl_user.reassemble_does [OF assms]
  by (auto simp: NrSlReassembleAndDeliver_eq nrsl_user.reasm_does_def)

text \<open>
  A full SDU into a new entity; and a PDU with a full SDU into an entity that holds the first part of
  another one and expects just this PDU: it is left behind.
\<close>

definition open_sdu_um :: um where
  "open_sdu_um = LteRlcUm\<lparr>um_reassemblingState := WAITING_SI_SF, um_keepS0 := Some Packet_Create\<rparr>"

lemma open_sdu_um:
  "rs_inv open_sdu_um" "sn_wf (um_expectedSeqNumber open_sdu_um)" "um_sdusBuffer open_sdu_um = []"
  "um_out open_sdu_um = []" "kept_of open_sdu_um = Some []" "\<not> pdu_lost (sample_pdu 0) open_sdu_um"
  by (simp_all add: open_sdu_um_def rs_inv_def kept_of_def Packet_Create_def fresh_um)
    (simp_all add: LteRlcUm_def pdu_lost_def sample_pdu_ok sn_eq_def SN10_def)

theorem nrsl_reassembly_refines_witness:
  "(\<exists>u' p. NrSlReassembleAndDeliver (sample_pdu 0) LteRlcUm = Inr u' \<and>
     um_out u' = [ReceiveNrSlPdcpPdu p] \<and> pk_bytes p = [7, 8, 9] \<and> um_sdusBuffer u' = []) \<and>
   (\<exists>u'. NrSlReassembleAndDeliver (sample_pdu 0) open_sdu_um = Inr u' \<and>
     um_out u' = [] \<and> map pk_bytes (um_sdusBuffer u') = [[7, 8, 9]])"
proof
  show "\<exists>u' p. NrSlReassembleAndDeliver (sample_pdu 0) LteRlcUm = Inr u' \<and>
     um_out u' = [ReceiveNrSlPdcpPdu p] \<and> pk_bytes p = [7, 8, 9] \<and> um_sdusBuffer u' = []"
    using nrsl_reassembly_refines [OF sample_pdu_ok(1) fresh_um(1,2), of 0]
    by (auto simp: sample_pdu_ok fresh_um reasm_full_sdu reasm_possible_def reasm_complete_def)
  show "\<exists>u'. NrSlReassembleAndDeliver (sample_pdu 0) open_sdu_um = Inr u' \<and>
     um_out u' = [] \<and> map pk_bytes (um_sdusBuffer u') = [[7, 8, 9]]"
    using nrsl_reassembly_refines [OF sample_pdu_ok(1) open_sdu_um(1,2), of 0]
    by (auto simp: sample_pdu_ok open_sdu_um reasm_possible_def reasm_complete_def)
qed

text \<open>
  The LTE reassembly refines the same abstract function, with the LTE call to the PDCP layer.
\<close>

theorem lte_reassembly_refines:
  assumes "pdu_ok p" "rs_inv u" "sn_wf (um_expectedSeqNumber u)"
  shows "\<exists>u' ps. ReassembleAndDeliver p u = Inr u' \<and>
    um_out u' = um_out u @ map ReceivePdcpPdu ps \<and>
    (map pk_bytes ps, kept_of u', map pk_bytes (um_sdusBuffer u')) =
      reasm_complete (pdu_lost p u) (pdu_starts p) (pdu_ends p) (pdu_fields p) (kept_of u)
        (map pk_bytes (um_sdusBuffer u)) \<and>
    rs_inv u' \<and> sn_num (um_expectedSeqNumber u') = (sn_num (pdu_sn p) + 1) mod 1024"
  using lte_user.reassemble_does [OF assms]
  by (auto simp: ReassembleAndDeliver_def lte_user.reasm_does_def)

theorem lte_reassembly_refines_witness:
  "\<exists>u' p. ReassembleAndDeliver (sample_pdu 5) LteRlcUm = Inr u' \<and>
    um_out u' = [ReceivePdcpPdu p] \<and> pk_bytes p = [7, 8, 9]"
  using lte_reassembly_refines [OF sample_pdu_ok(1) fresh_um(1,2), of 5]
  by (auto simp: sample_pdu_ok fresh_um reasm_full_sdu reasm_possible_def reasm_complete_def)

section \<open>The reception handlers\<close>

lemma um_rx_inv_initial: "um_rx_inv LteRlcUm"
  by (simp add: um_rx_inv_def rx_inv_initial) (simp add: LteRlcUm_def)

text \<open>
  The sidelink reception handler never stops and keeps its invariant: for any entity that
  satisfies it and any PDU that can be taken apart and carries an \<open>RlcTag\<close>, whatever its sequence
  number, \<open>DoReceiveNrSlRlcPdu\<close> returns, no comparison of sequence numbers meets different
  modulus bases, no empty or null access happens and all loops end.
\<close>

theorem nrsl_receive_total:
  assumes "um_rx_inv u" "pdu_ok p" "Packet_FindRlcTag p \<noteq> None"
    and "dstL2Id = 0 \<or> um_channelType u = STCH"
  shows "\<exists>u'. DoReceiveNrSlRlcPdu now p dstL2Id u = Inr u' \<and> um_rx_inv u'"
proof -
  obtain ts where ts: "Packet_FindRlcTag p = Some ts"
    using assms(3) by blast
  obtain h where h: "Packet_PeekHeader (rlc_Deserialize LteRlcHeader) p = Inr h"
    "sn_wf (rh_sequenceNumber h)"
    using pdu_ok_peek [OF assms(2)] by blast
  let ?t = "rx_trace now ts p u"
  let ?u = "rx_first_pdu (rh_sequenceNumber h) ?t"
  have t: "um_rx_inv ?t" "um_channelType ?t = um_channelType u"
    using assms(1) rx_inv_trace [of now ts p u] by (simp_all add: um_rx_inv_def rx_cfg_def)
      (simp add: rx_trace_def um_emit_def)
  note f = rx_first_pdu_inv [OF t(1) h(2)]
  show ?thesis
    using nrsl_reas.receive_ok [OF f(1) h(2) assms(2), of now] ts h(1) t(2) f(2) assms(4)
    by (auto simp: DoReceiveNrSlRlcPdu_def nrsl_loops Let_def um_rx_inv_def rx_cfg_def)
qed

theorem nrsl_receive_total_witness:
  "\<exists>u'. DoReceiveNrSlRlcPdu 100 (sample_pdu 200) 0 LteRlcUm = Inr u' \<and> um_rx_inv u'"
  using nrsl_receive_total [of LteRlcUm "sample_pdu 200" 0 100] um_rx_inv_initial sample_pdu_ok
  by simp

text \<open>
  The LTE reception handler never stops and keeps the invariant of the reordering variables,
  of the reception buffer and of the timer.
\<close>

theorem lte_receive_total:
  assumes "rx_inv u" "pdu_ok p" "Packet_FindRlcTag p \<noteq> None"
  shows "\<exists>u'. DoReceivePdu now p u = Inr u' \<and> rx_inv u'"
proof -
  obtain ts where ts: "Packet_FindRlcTag p = Some ts"
    using assms(3) by blast
  obtain h where h: "Packet_PeekHeader (rlc_Deserialize LteRlcHeader) p = Inr h"
    "sn_wf (rh_sequenceNumber h)"
    using pdu_ok_peek [OF assms(2)] by blast
  have "rx_inv (rx_trace now ts p u)"
    using assms(1) rx_inv_trace by simp
  then show ?thesis
    using lte_reas.receive_ok [OF _ h(2) assms(2), of "rx_trace now ts p u" now] ts h(1)
    by (auto simp: DoReceivePdu_def lte_loops Let_def)
qed

theorem lte_receive_total_witness:
  "\<exists>u'. DoReceivePdu 100 (sample_pdu 1) LteRlcUm = Inr u' \<and> rx_inv u'"
  using lte_receive_total [of LteRlcUm "sample_pdu 1" 100] rx_inv_initial sample_pdu_ok by simp

text \<open>
  When the sidelink t-Reordering timer expires and some sequence number is free, the handler
  returns, the invariant holds again, and if the timer is not running afterwards then VR(UH) is not
  above VR(UR): a gap is never left without a timer.
\<close>

theorem nrsl_expire_total:
  assumes "um_rx_inv u" "um_reorderingTimer u \<noteq> None" "length (um_rxBuffer u) < 1024"
  shows "\<exists>u'. ExpireNrSlReorderingTimer now u = Inr u' \<and> um_rx_inv u' \<and>
    (um_reorderingTimer u' = None \<longrightarrow> sn_gt (um_vrUh u') (um_vrUr u') = Inr False)"
proof -
  have inv: "rx_inv u"
    using assms(1) by (simp add: um_rx_inv_def)
  show ?thesis
    using nrsl_reas.expire_ok [OF inv assms(2,3), of now] assms(1,2)
    by (auto simp: ExpireNrSlReorderingTimer_def nrsl_loops Let_def um_rx_inv_def rx_cfg_def)
qed

text \<open>An entity that waits for sequence number 0 and has received 1.\<close>

definition sample_gap :: um where
  "sample_gap = LteRlcUm\<lparr>um_rxBuffer := [(1, sample_pdu 1)], um_vrUr := \<lparr>sn_value = 0, sn_base = 514\<rparr>,
     um_vrUx := \<lparr>sn_value = 2, sn_base = 514\<rparr>, um_vrUh := \<lparr>sn_value = 2, sn_base = 514\<rparr>,
     um_reorderingTimer := Some 100\<rparr>"

lemma sample_gap_inv: "um_rx_inv sample_gap"
  using sample_pdu_ok(1)
  by (simp add: sample_gap_def um_rx_inv_def rx_inv_def rx_buf_inv_def rx_sn_inv_def rs_inv_def
      rx_bases_def um_window_low_def sn_sub_def SN10_def sn_wf_def LteRlcUm_def)

theorem nrsl_expire_total_witness:
  "\<exists>u'. ExpireNrSlReorderingTimer 100 sample_gap = Inr u' \<and> um_rx_inv u'"
  using nrsl_expire_total [of sample_gap 100] sample_gap_inv by (auto simp: sample_gap_def)

text \<open>
  The same for the LTE timer.
\<close>

theorem lte_expire_total:
  assumes "rx_inv u" "um_reorderingTimer u \<noteq> None" "length (um_rxBuffer u) < 1024"
  shows "\<exists>u'. ExpireReorderingTimer now u = Inr u' \<and> rx_inv u' \<and>
    (um_reorderingTimer u' = None \<longrightarrow> sn_gt (um_vrUh u') (um_vrUr u') = Inr False)"
  using lte_reas.expire_ok [OF assms, of now]
  by (auto simp: ExpireReorderingTimer_def lte_loops Let_def)

theorem lte_expire_total_witness:
  "\<exists>u'. ExpireReorderingTimer 100 sample_gap = Inr u' \<and> rx_inv u'"
  using lte_expire_total [of sample_gap 100] sample_gap_inv by (auto simp: sample_gap_def um_rx_inv_def)

section \<open>Transmission\<close>

text \<open>A transmitting entity with one SDU of five bytes waiting, used by the instances.\<close>

definition sample_tx :: um where
  "sample_tx = LteRlcUm\<lparr>um_txBuffer := [(\<lparr>pk_bytes = [1, 2, 3, 4, 5], pk_sdu_status = Some FULL_SDU,
     pk_btags = []\<rparr>, 0)], um_txBufferSize := 5\<rparr>"

lemma sample_tx_inv: "um_tx_inv sample_tx" "um_txBuffer sample_tx \<noteq> []"
  "um_channelType sample_tx = DEFAULT_CH" "um_srcL2Id sample_tx = 0"
  by (simp_all add: sample_tx_def um_tx_inv_def tx_items_ok_def LteRlcUm_def item_of_def)

lemma um_tx_inv_cong:
  "um_txBuffer u' = um_txBuffer u \<Longrightarrow> um_txBufferSize u' = um_txBufferSize u \<Longrightarrow>
   um_sequenceNumber u' = um_sequenceNumber u \<Longrightarrow> um_tx_inv u' = um_tx_inv u"
  by (simp add: um_tx_inv_def)

lemma tx_sent_sel:
  "um_txBuffer (um_start_rbs now (um_emit e2 (um_emit e1 w))) = um_txBuffer w"
  "um_sequenceNumber (um_start_rbs now (um_emit e2 (um_emit e1 w))) = um_sequenceNumber w"
  "um_out (um_start_rbs now (um_emit e2 (um_emit e1 w))) = um_out w @ [e1, e2]"
  "um_tx_inv (um_start_rbs now (um_emit e2 (um_emit e1 w))) = um_tx_inv w"
  "um_txBuffer w \<noteq> [] \<longrightarrow>
    um_rbsTimer (um_start_rbs now (um_emit e2 (um_emit e1 w))) = Some (now + 10 * 1000000)"
  by (simp_all add: um_start_rbs_def um_emit_def um_tx_inv_def)

lemma tx_opportunity_spec:
  assumes "um_tx_inv u" "2 < bytes" "unat bytes < 65536" "um_txBuffer u \<noteq> []"
  obtains p buf' segs rest where "cut_items (unat bytes - 2) 0 (buf_items (um_txBuffer u)) = (segs, rest)"
    "tx_take now bytes rnti u = Inr (Some (p, u\<lparr>um_txBuffer := buf',
      um_txBufferSize := of_nat (items_bytes rest), um_sequenceNumber := sn_inc (um_sequenceNumber u)\<rparr>))"
    "buf_items buf' = rest" "pdu_carries p (um_sequenceNumber u) segs" "length (pk_bytes p) \<le> unat bytes"
    "um_tx_inv (u\<lparr>um_txBuffer := buf', um_txBufferSize := of_nat (items_bytes rest),
      um_sequenceNumber := sn_inc (um_sequenceNumber u)\<rparr>)"
proof -
  obtain segs rest where segs: "cut_items (unat bytes - 2) 0 (buf_items (um_txBuffer u)) = (segs, rest)"
    by (rule prod.exhaust)
  obtain p buf' where t: "tx_take now bytes rnti u = Inr (Some (p, u\<lparr>um_txBuffer := buf',
      um_txBufferSize := of_nat (items_bytes rest), um_sequenceNumber := sn_inc (um_sequenceNumber u)\<rparr>))"
    "buf_items buf' = rest" "pdu_carries p (um_sequenceNumber u) segs"
    using tx_take_spec [OF assms segs, of now rnti] by blast
  moreover have "length (pk_bytes p) \<le> unat bytes"
    using pdu_carries_length [OF t(3) segs] assms(2) by (simp add: word_less_nat_alt)
  ultimately show ?thesis
    using that segs um_tx_inv_take [OF assms(1) segs t(2)] by blast
qed

text \<open>
  C24. A sidelink MAC opportunity: when data are waiting the entity sends one PDU no longer than the
  opportunity.  The PDU has the next sequence number and carries the segments that the abstract
  segmentation cuts from the transmission buffer; what is left in the buffer is the rest, the
  buffer size field counts it exactly, and the buffer status timer runs if there is a rest.
\<close>

theorem nrsl_opportunity_pdu:
  assumes "um_tx_inv u" "2 < bytes" "unat bytes < 65536" "um_txBuffer u \<noteq> []"
    and "um_srcL2Id u = 0 \<or> um_channelType u = STCH"
  shows "\<exists>p u' segs rest.
    DoNotifyNrSlTxOpportunity now bytes layer harqId bwpId u = Inr u' \<and>
    cut_items (unat bytes - 2) 0 (buf_items (um_txBuffer u)) = (segs, rest) \<and>
    um_out u' = um_out u @ [TxPduTrace (um_rnti u) (um_lcid u) (Packet_GetSize p),
      TransmitNrSlRlcPdu p (um_rnti u) (um_lcid u) layer harqId bwpId (um_srcL2Id u) (um_dstL2Id u)] \<and>
    length (pk_bytes p) \<le> unat bytes \<and> pdu_carries p (um_sequenceNumber u) segs \<and>
    buf_items (um_txBuffer u') = rest \<and> um_tx_inv u' \<and>
    um_sequenceNumber u' = sn_inc (um_sequenceNumber u) \<and>
    (um_txBuffer u' \<noteq> [] \<longrightarrow> um_rbsTimer u' = Some (now + 10 * 1000000))"
proof -
  obtain p buf' segs rest where t: "cut_items (unat bytes - 2) 0 (buf_items (um_txBuffer u)) = (segs, rest)"
    "tx_take now bytes (um_rnti u) u = Inr (Some (p, u\<lparr>um_txBuffer := buf',
      um_txBufferSize := of_nat (items_bytes rest), um_sequenceNumber := sn_inc (um_sequenceNumber u)\<rparr>))"
    "buf_items buf' = rest" "pdu_carries p (um_sequenceNumber u) segs" "length (pk_bytes p) \<le> unat bytes"
    "um_tx_inv (u\<lparr>um_txBuffer := buf', um_txBufferSize := of_nat (items_bytes rest),
      um_sequenceNumber := sn_inc (um_sequenceNumber u)\<rparr>)"
    by (rule tx_opportunity_spec [OF assms(1-4)])
  define w where "w = u\<lparr>um_txBuffer := buf', um_txBufferSize := of_nat (items_bytes rest),
      um_sequenceNumber := sn_inc (um_sequenceNumber u)\<rparr>"
  define e1 e2 where "e1 = TxPduTrace (um_rnti w) (um_lcid w) (Packet_GetSize p)"
    and "e2 = TransmitNrSlRlcPdu p (um_rnti w) (um_lcid w) layer harqId bwpId (um_srcL2Id w) (um_dstL2Id w)"
  define u' where "u' = um_start_rbs now (um_emit e2 (um_emit e1 w))"
  note u' = tx_sent_sel [where now = now and w = w and ?e1.0 = e1 and ?e2.0 = e2, folded u'_def]
  have "DoNotifyNrSlTxOpportunity now bytes layer harqId bwpId u = Inr u'"
    using t(2) assms(5) by (auto simp: DoNotifyNrSlTxOpportunity_def nrsl_tx_take_eq u'_def w_def e1_def e2_def)
  moreover have "um_tx_inv u'"
    using t(6) u' by (simp add: w_def)
  ultimately show ?thesis
    using t(1,3-5) u'(1-3,5) unfolding w_def e1_def e2_def
    by (intro exI [of _ p] exI [of _ u'] exI [of _ segs] exI [of _ rest]) simp
qed

theorem nrsl_opportunity_pdu_witness:
  "\<exists>p u'. DoNotifyNrSlTxOpportunity 7 6 0 0 0 sample_tx = Inr u' \<and> length (pk_bytes p) \<le> 6 \<and>
    pdu_carries p (um_sequenceNumber sample_tx)
      [(Some FIRST_SEGMENT, [1, 2, 3, 4])]"
proof -
  have "cut_items (unat (6 :: u32) - 2) 0 (buf_items (um_txBuffer sample_tx))
      = ([(Some FIRST_SEGMENT, [1, 2, 3, 4])], [(Some LAST_SEGMENT, [5])])"
    by (simp add: sample_tx_def item_of_def split_status_def)
  then show ?thesis
    using nrsl_opportunity_pdu [of sample_tx 6 7 0 0 0] sample_tx_inv by auto
qed

text \<open>
  The same for an LTE opportunity.
\<close>

theorem lte_opportunity_pdu:
  assumes "um_tx_inv u" "2 < bytes" "unat bytes < 65536" "um_txBuffer u \<noteq> []"
  shows "\<exists>p u' segs rest.
    DoNotifyTxOpportunity now bytes layer harqId ccId u = Inr u' \<and>
    cut_items (unat bytes - 2) 0 (buf_items (um_txBuffer u)) = (segs, rest) \<and>
    um_out u' = um_out u @ [TxPduTrace (um_rnti u) (um_lcid u) (Packet_GetSize p),
      TransmitPdu p (um_rnti u) (um_lcid u) layer harqId ccId] \<and>
    length (pk_bytes p) \<le> unat bytes \<and> pdu_carries p (um_sequenceNumber u) segs \<and>
    buf_items (um_txBuffer u') = rest \<and> um_tx_inv u' \<and>
    um_sequenceNumber u' = sn_inc (um_sequenceNumber u) \<and>
    (um_txBuffer u' \<noteq> [] \<longrightarrow> um_rbsTimer u' = Some (now + 10 * 1000000))"
proof -
  obtain p buf' segs rest where t: "cut_items (unat bytes - 2) 0 (buf_items (um_txBuffer u)) = (segs, rest)"
    "tx_take now bytes 0 u = Inr (Some (p, u\<lparr>um_txBuffer := buf',
      um_txBufferSize := of_nat (items_bytes rest), um_sequenceNumber := sn_inc (um_sequenceNumber u)\<rparr>))"
    "buf_items buf' = rest" "pdu_carries p (um_sequenceNumber u) segs" "length (pk_bytes p) \<le> unat bytes"
    "um_tx_inv (u\<lparr>um_txBuffer := buf', um_txBufferSize := of_nat (items_bytes rest),
      um_sequenceNumber := sn_inc (um_sequenceNumber u)\<rparr>)"
    by (rule tx_opportunity_spec [OF assms(1-4)])
  define w where "w = u\<lparr>um_txBuffer := buf', um_txBufferSize := of_nat (items_bytes rest),
      um_sequenceNumber := sn_inc (um_sequenceNumber u)\<rparr>"
  define e1 e2 where "e1 = TxPduTrace (um_rnti w) (um_lcid w) (Packet_GetSize p)"
    and "e2 = TransmitPdu p (um_rnti w) (um_lcid w) layer harqId ccId"
  define u' where "u' = um_start_rbs now (um_emit e2 (um_emit e1 w))"
  note u' = tx_sent_sel [where now = now and w = w and ?e1.0 = e1 and ?e2.0 = e2, folded u'_def]
  have "DoNotifyTxOpportunity now bytes layer harqId ccId u = Inr u'"
    using t(2) by (auto simp: DoNotifyTxOpportunity_def u'_def w_def e1_def e2_def)
  moreover have "um_tx_inv u'"
    using t(6) u' by (simp add: w_def)
  ultimately show ?thesis
    using t(1,3-5) u'(1-3,5) unfolding w_def e1_def e2_def
    by (intro exI [of _ p] exI [of _ u'] exI [of _ segs] exI [of _ rest]) simp
qed

theorem lte_opportunity_pdu_witness:
  "\<exists>u'. DoNotifyTxOpportunity 7 60 0 0 0 sample_tx = Inr u' \<and> um_txBuffer u' = []"
proof -
  have "cut_items (unat (60 :: u32) - 2) 0 (buf_items (um_txBuffer sample_tx))
      = ([(Some FULL_SDU, [1, 2, 3, 4, 5])], [])"
    by (simp add: sample_tx_def item_of_def)
  then show ?thesis
    using lte_opportunity_pdu [of sample_tx 60 7 0 0 0] sample_tx_inv by auto
qed

text \<open>
  A sidelink PDCP PDU is queued exactly when it fits: the transmission invariant is kept, an
  accepted PDU is appended as a full SDU and counted, a PDU that does not fit leaves the buffer
  as it was, and in both cases the entity reports its buffer status to the MAC.
\<close>

theorem nrsl_transmit_queues:
  assumes "um_tx_inv u" "pk_bytes p \<noteq> []" "pk_sdu_status p = None"
    and "items_bytes (buf_items (um_txBuffer u)) + length (pk_bytes p) < 2 ^ 32"
  shows "\<exists>u'. DoTransmitNrSlPdcpPdu now p u = Inr u' \<and> um_tx_inv u' \<and>
    buf_items (um_txBuffer u') = buf_items (um_txBuffer u) @
      (if items_bytes (buf_items (um_txBuffer u)) + length (pk_bytes p) \<le> unat (um_maxTxBufferSize u)
       then [(Some FULL_SDU, pk_bytes p)] else []) \<and>
    um_out u' = um_out u @ [ReportNrSlBufferStatus (um_rnti u) (um_lcid u) (um_queueSize u')
      (um_holDelay now u') (um_srcL2Id u) (um_dstL2Id u)]"
proof -
  let ?C = "buf_items (um_txBuffer u)"
  have size: "um_txBufferSize u + Packet_GetSize p = of_nat (items_bytes ?C + length (pk_bytes p))"
    using assms(1) by (simp add: um_tx_inv_def Packet_GetSize_def)
  have fits: "um_txBufferSize u + Packet_GetSize p \<le> um_maxTxBufferSize u \<longleftrightarrow>
      items_bytes ?C + length (pk_bytes p) \<le> unat (um_maxTxBufferSize u)"
    unfolding size word_le_nat_alt unat_of_nat_u32 [OF assms(4)] ..
  show ?thesis
  proof (cases "um_txBufferSize u + Packet_GetSize p \<le> um_maxTxBufferSize u")
    case False
    with assms(1) fits show ?thesis
      by (simp add: DoTransmitNrSlPdcpPdu_def DoReportNrSlBufferStatus_def um_emit_def um_tx_inv_def
          um_queueSize_def um_holDelay_def)
  next
    case True
    define w where "w = u\<lparr>um_txBuffer := um_txBuffer u @ [(p\<lparr>pk_sdu_status := Some FULL_SDU\<rparr>, now)],
      um_txBufferSize := um_txBufferSize u + Packet_GetSize p\<rparr>"
    have w: "um_store now p u = Inr w"
      using assms(3) by (simp add: um_store_def Packet_AddPacketTag_def w_def Packet_GetSize_def)
    have items: "buf_items (um_txBuffer w) = ?C @ [(Some FULL_SDU, pk_bytes p)]"
      by (simp add: w_def item_of_def)
    then have "um_tx_inv w"
      using assms size tx_items_ok_snoc [of ?C "pk_bytes p"]
      by (simp add: um_tx_inv_def w_def)
    with True fits w items show ?thesis
      by (simp add: DoTransmitNrSlPdcpPdu_def DoReportNrSlBufferStatus_def um_emit_def um_tx_inv_def
          um_queueSize_def um_holDelay_def) (simp add: w_def)
  qed
qed

theorem nrsl_transmit_queues_witness:
  "\<exists>u'. DoTransmitNrSlPdcpPdu 3 (Packet_Create\<lparr>pk_bytes := [9]\<rparr>) sample_tx = Inr u' \<and>
    buf_items (um_txBuffer u') = [(Some FULL_SDU, [1, 2, 3, 4, 5]), (Some FULL_SDU, [9])]"
  using nrsl_transmit_queues [of sample_tx "Packet_Create\<lparr>pk_bytes := [9]\<rparr>" 3] sample_tx_inv
  by (auto simp: Packet_Create_def sample_tx_def LteRlcUm_def item_of_def)

text \<open>
  C25. The PDCP discarding of the LTE entity does not discard: with the discard timer exceeded by the
  head-of-line packet, \<open>DoTransmitPdcpPdu\<close> fires the drop trace for the new PDU and queues it all
  the same.
\<close>

theorem lte_pdcp_discard_keeps_pdu:
  assumes "um_enablePdcpDiscarding u" "pdcp_discard_due now u" "pk_sdu_status p = None"
    and "um_txBufferSize u + Packet_GetSize p \<le> um_maxTxBufferSize u"
  shows "\<exists>u' report. DoTransmitPdcpPdu now p u = Inr u' \<and>
    um_out u' = um_out u @ [TxDropTrace p, report] \<and>
    um_txBuffer u' = um_txBuffer u @ [(p\<lparr>pk_sdu_status := Some FULL_SDU\<rparr>, now)]"
  using assms
  by (simp add: DoTransmitPdcpPdu_def um_store_def Packet_AddPacketTag_def um_emit_def
      DoReportBufferStatus_def)

theorem lte_pdcp_discard_keeps_pdu_witness:
  "\<exists>u'. DoTransmitPdcpPdu 70000000000 (Packet_Create\<lparr>pk_bytes := [9]\<rparr>) sample_tx = Inr u' \<and>
    length (um_txBuffer u') = 2"
  using lte_pdcp_discard_keeps_pdu [of sample_tx 70000000000 "Packet_Create\<lparr>pk_bytes := [9]\<rparr>"]
  by (auto simp: sample_tx_def LteRlcUm_def pdcp_discard_due_def ms_of_def Packet_Create_def
      Packet_GetSize_def word_less_nat_alt word_le_nat_alt)

section \<open>The reordering window\<close>

text \<open>
  \<open>IsInsideReorderingWindow\<close> answers for well-formed sequence numbers without failing, and the
  answer is membership in \<open>[VR(UH) - UM_Window_Size, VR(UH))\<close> modulo 1024; it only changes the
  modulus base of VR(UH).
\<close>

theorem window_membership:
  assumes "sn_wf sn" "sn_wf (um_vrUh u)"
  shows "IsInsideReorderingWindow sn u =
    Inr ((sn_num sn - (sn_num (um_vrUh u) - uint (um_windowSize u))) mod 1024
           < uint (um_windowSize u) mod 1024,
         u\<lparr>um_vrUh := SetModulusBase (um_vrUh u) (um_window_low u)\<rparr>)"
  using IsInside_spec [OF assms] by (simp add: in_window_def um_set_vrUh_base_def)

theorem window_membership_witness:
  "\<exists>u. IsInsideReorderingWindow (SN10 1023) sample_gap = Inr (True, u)"
  using window_membership [of "SN10 1023" sample_gap]
  by (simp add: sample_gap_def LteRlcUm_def sn_wf_def sn_num_def SN10_def)

text \<open>
  C26. \<open>NrSlReassembleOutsideWindow\<close> reassembles and removes the PDUs of the longest prefix of the
  reception buffer, in key order, that lie outside the window; it stops at the first one inside.
\<close>

theorem nrsl_outside_window_prefix:
  assumes "rx_buf_inv u" "sn_wf (um_vrUh u)"
  shows "\<exists>u'. NrSlReassembleOutsideWindow u = Inr u' \<and> rx_buf_inv u' \<and>
    um_rxBuffer u' = dropWhile (\<lambda>(k, _). \<not> in_window (SN10 k) u) (um_rxBuffer u)"
  using nrsl_reas.outside_loop_ok [OF assms(1) refl assms(2)]
  by (auto simp: NrSlReassembleOutsideWindow_def)

text \<open>
  VR(UH) has wrapped to 2: the PDU 0 is inside the window, the PDU 255 is not and stays behind it.
\<close>

theorem nrsl_outside_window_prefix_witness:
  "\<exists>u'. NrSlReassembleOutsideWindow
      (sample_gap\<lparr>um_rxBuffer := [(0, sample_pdu 0), (255, sample_pdu 255)]\<rparr>) = Inr u' \<and>
    um_rxBuffer u' = [(0, sample_pdu 0), (255, sample_pdu 255)]"
proof -
  let ?u = "sample_gap\<lparr>um_rxBuffer := [(0, sample_pdu 0), (255, sample_pdu 255)]\<rparr>"
  have "rx_buf_inv ?u" "sn_wf (um_vrUh ?u)" "in_window (SN10 0) ?u"
    using sample_gap_inv sample_pdu_ok(1)
    by (simp_all add: um_rx_inv_def rx_inv_def rx_buf_inv_def rx_sn_inv_def rs_inv_def)
      (simp add: in_window_def sample_gap_def LteRlcUm_def sn_num_def SN10_def)
  then show ?thesis
    using nrsl_outside_window_prefix [of ?u] by auto
qed

text \<open>
  \<open>NrSlReassembleSnInterval\<close> ends within 1024 turns and removes from the reception buffer
  exactly the PDUs with a sequence number in \<open>[low, high)\<close>, counted from the common modulus base.
\<close>

theorem nrsl_interval_removes:
  assumes "rx_buf_inv u" "sn_wf low" "sn_wf high" "sn_base low = sn_base high"
  shows "\<exists>u'. NrSlReassembleSnInterval low high u = Inr u' \<and> rx_buf_inv u' \<and>
    (\<forall>k < 1024. map_of (um_rxBuffer u') k =
      (if sn_off low \<le> (uint k - uint (sn_base low)) mod 1024 \<and>
          (uint k - uint (sn_base low)) mod 1024 < sn_off high
       then None else map_of (um_rxBuffer u) k))"
proof -
  have "sn_off high - sn_off low \<le> int sn_fuel"
    using sn_off_bounds [of high] sn_off_bounds [of low] by (simp add: sn_fuel_def)
  from nrsl_reas.interval_loop_ok [OF assms this] show ?thesis
    by (auto simp: NrSlReassembleSnInterval_def drop_keys_def key_off_def)
qed

theorem nrsl_interval_removes_witness:
  "\<exists>u'. NrSlReassembleSnInterval \<lparr>sn_value = 0, sn_base = 514\<rparr> \<lparr>sn_value = 2, sn_base = 514\<rparr>
      sample_gap = Inr u' \<and> map_of (um_rxBuffer u') 1 = None"
proof -
  have "rx_buf_inv sample_gap"
    using sample_gap_inv by (simp add: um_rx_inv_def rx_inv_def)
  then obtain u' where "NrSlReassembleSnInterval \<lparr>sn_value = 0, sn_base = 514\<rparr>
      \<lparr>sn_value = 2, sn_base = 514\<rparr> sample_gap = Inr u'"
    "\<forall>k < 1024. map_of (um_rxBuffer u') k =
      (if sn_off \<lparr>sn_value = 0, sn_base = 514\<rparr> \<le> (uint k - 514) mod 1024 \<and>
          (uint k - 514) mod 1024 < sn_off \<lparr>sn_value = 2, sn_base = 514\<rparr>
       then None else map_of (um_rxBuffer sample_gap) k)"
    using nrsl_interval_removes [of sample_gap "\<lparr>sn_value = 0, sn_base = 514\<rparr>" "\<lparr>sn_value = 2, sn_base = 514\<rparr>"]
    by (auto simp: sn_wf_def)
  then show ?thesis
    by (auto simp: sn_off_def dest: spec [of _ 1])
qed

lemma scan_to_1024:
  assumes "rx_buf_inv u" "sn_value (um_vrUr u) < 1024"
    and "\<forall>k. sn_value (um_vrUr u) \<le> k \<longrightarrow> k < 1024 \<longrightarrow> map_count k (um_rxBuffer u)"
  shows "scan_u16 (length (um_rxBuffer u)) (um_rxBuffer u) (sn_value (um_vrUr u) + 1) = Inr 1024"
proof -
  let ?m = "um_rxBuffer u" and ?x = "sn_value (um_vrUr u) + 1"
  have "map_wf ?m" "length ?m < 65535"
    using rx_buf_length [OF assms(1)] assms(1) by (simp_all add: rx_buf_inv_def)
  then obtain j where j: "scan_u16 (length ?m) ?m ?x = Inr (?x + of_nat j)"
    "\<not> map_count (?x + of_nat j) ?m" "\<forall>i < j. map_count (?x + of_nat i) ?m" "j \<le> length ?m"
    using scan_u16_ok [OF free_u16] by blast
  define n where "n = 1023 - unat (sn_value (um_vrUr u))"
  have x: "unat ?x = Suc (unat (sn_value (um_vrUr u)))" "unat (sn_value (um_vrUr u)) < 1024"
    using assms(2) by (simp_all add: word_less_nat_alt unat_word_ariths)
  have at: "unat (?x + of_nat i) = unat ?x + i" if "i \<le> 1024" for i
    using that x by (simp add: unat_word_ariths unat_of_nat_u16)
  have n: "?x + of_nat n = 1024"
    using at [of n] x by (simp add: n_def word_unat_eq_iff)
  have "\<not> map_count 1024 ?m"
    using assms(1) by (auto simp: rx_buf_inv_def map_count_iff)
  moreover have "map_count (?x + of_nat n) ?m" if "n < j"
    using that j(3) by blast
  ultimately have "\<not> n < j"
    unfolding n by blast
  moreover have "\<not> j < n"
  proof
    assume "j < n"
    then have "unat (?x + of_nat j) = unat ?x + j" "j < 1023 - unat (sn_value (um_vrUr u))"
      using at [of j] by (simp_all add: n_def)
    then have "map_count (?x + of_nat j) ?m"
      using assms(3) x by (simp add: word_le_nat_alt word_less_nat_alt)
    with j(2) show False by simp
  qed
  ultimately have "j = n" by simp
  with j(1) n show ?thesis by simp
qed

text \<open>
  C27. The scan for the new VR(UR) is not modulo 1024: when every PDU from VR(UR) up to 1023 is in the
  reception buffer, VR(UR) becomes 0 even if the PDU 0 has been received, which the buffer then still
  holds.
\<close>

theorem advance_stops_at_1024:
  assumes "rx_buf_inv u" "sn_wf (um_vrUr u)"
    and "\<forall>k. sn_value (um_vrUr u) \<le> k \<longrightarrow> k < 1024 \<longrightarrow> map_count k (um_rxBuffer u)"
  shows "\<exists>u'. rx_advance NrSlReassembleSnInterval u = Inr u' \<and> sn_num (um_vrUr u') = 0 \<and>
    map_of (um_rxBuffer u') 0 = map_of (um_rxBuffer u) 0"
proof -
  let ?high = "sn_assign (um_vrUr u) 1024"
  let ?v = "u\<lparr>um_vrUr := ?high\<rparr>"
  have lt: "sn_value (um_vrUr u) < 1024"
    using assms(2) by (simp add: sn_wf_def)
  have v: "rx_buf_inv ?v"
    using assms(1) by (simp add: rx_buf_inv_def rs_inv_def)
  have "sn_off ?high - sn_off (um_vrUr u) \<le> int sn_fuel"
    using sn_off_bounds [of ?high] sn_off_bounds [of "um_vrUr u"] by (simp add: sn_fuel_def)
  then obtain u' where u': "interval_loop sn_fuel NrSlReassembleAndDeliver (um_vrUr u) ?high ?v = Inr u'"
    "loop_frame ?v u'" "map_of (um_rxBuffer u') = drop_keys (\<lambda>k. k < 1024 \<and>
      sn_off (um_vrUr u) \<le> key_off (sn_base (um_vrUr u)) k \<and>
      key_off (sn_base (um_vrUr u)) k < sn_off ?high) (map_of (um_rxBuffer ?v))"
    using nrsl_reas.interval_loop_ok [OF v assms(2), of ?high] assms(2) by auto
  have "sn_value ?high = 0"
    by (simp add: sn_assign_def)
  then have "key_off (sn_base (um_vrUr u)) 0 = sn_off ?high"
    using key_off_value [of ?high] by simp
  then have "map_of (um_rxBuffer u') 0 = map_of (um_rxBuffer u) 0"
    by (simp add: u'(3) drop_keys_def)
  moreover have "um_vrUr u' = ?high"
    using u'(2) by (simp add: loop_frame_def)
  ultimately show ?thesis
    using u'(1) scan_to_1024 [OF assms(1) lt assms(3)] assms(3) lt
    by (simp add: rx_advance_def NrSlReassembleSnInterval_def)
qed

text \<open>PDU 1023 arrives last, PDU 0 has been received: VR(UR) = 0 with PDU 0 still in the buffer.\<close>

theorem advance_stops_at_1024_witness:
  "\<exists>u'. rx_advance NrSlReassembleSnInterval
      (LteRlcUm\<lparr>um_rxBuffer := [(0, sample_pdu 0), (1023, sample_pdu 255)],
        um_vrUr := \<lparr>sn_value = 1023, sn_base = 513\<rparr>\<rparr>) = Inr u' \<and>
    sn_num (um_vrUr u') = 0 \<and> map_of (um_rxBuffer u') 0 = Some (sample_pdu 0)"
proof -
  let ?u = "LteRlcUm\<lparr>um_rxBuffer := [(0, sample_pdu 0), (1023, sample_pdu 255)],
    um_vrUr := \<lparr>sn_value = 1023, sn_base = 513\<rparr>\<rparr>"
  have "rx_buf_inv ?u" "sn_wf (um_vrUr ?u)"
    using sample_pdu_ok(1) fresh_um by (simp_all add: rx_buf_inv_def rs_inv_def sn_wf_def)
  moreover have "\<forall>k. sn_value (um_vrUr ?u) \<le> k \<longrightarrow> k < 1024 \<longrightarrow> map_count k (um_rxBuffer ?u)"
    by (auto simp: map_count_def word_le_nat_alt word_less_nat_alt word_unat_eq_iff)
  ultimately show ?thesis
    using advance_stops_at_1024 [of ?u] by auto
qed

lemma rx_discard_spec:
  assumes "rx_sn_inv u" "sn_wf sn"
  shows "rx_discard (SetModulusBase sn (um_window_low (rx_set_bases u))) (rx_set_bases u) = Inr
    (let low = sn_num (um_window_low u); off = (\<lambda>n. (n - low) mod 1024) in
      off (sn_num (um_vrUr u)) < off (sn_num sn) \<and> off (sn_num sn) < off (sn_num (um_vrUh u)) \<and>
      map_count (sn_value sn) (um_rxBuffer u) \<or>
      off (sn_num sn) < off (sn_num (um_vrUr u)))"
proof -
  let ?v = "rx_set_bases u"
  let ?s = "SetModulusBase sn (um_window_low ?v)"
  let ?low = "sn_num (um_window_low u)"
  have low: "sn_value (um_window_low ?v) = sn_value (um_window_low u)"
    by (simp add: set_bases_sel)
  then have lown: "sn_num (um_window_low ?v) = ?low" "uint (sn_value (um_window_low u)) = ?low"
    by (simp_all add: sn_num_def)
  have wf: "sn_wf (um_vrUr ?v)" "sn_wf (um_vrUh ?v)" "sn_wf (um_window_low ?v)" "sn_wf ?s"
    using assms by (simp_all add: rx_sn_inv_def set_bases_sel)
  have base: "sn_base (um_vrUr ?v) = sn_value (um_window_low u)"
    "sn_base (um_vrUh ?v) = sn_value (um_window_low u)"
    "sn_base (um_window_low ?v) = sn_value (um_window_low u)"
    "sn_base ?s = sn_value (um_window_low u)"
    using low by (simp_all add: set_bases_sel)
  have o: "sn_off x = (sn_num x - ?low) mod 1024" if "sn_base x = sn_value (um_window_low u)" for x
    using that lown(2) by (simp add: sn_off_def sn_num_def)
  have off: "sn_off (um_vrUr ?v) = (sn_num (um_vrUr u) - ?low) mod 1024"
    "sn_off (um_vrUh ?v) = (sn_num (um_vrUh u) - ?low) mod 1024"
    "sn_off (um_window_low ?v) = 0" "sn_off ?s = (sn_num sn - ?low) mod 1024"
    using o [OF base(1)] o [OF base(2)] o [OF base(3)] o [OF base(4)] lown(1)
    by (simp_all add: set_bases_sel)
  have cmp: "sn_lt (um_vrUr ?v) ?s = Inr (sn_off (um_vrUr ?v) < sn_off ?s)"
    "sn_lt ?s (um_vrUh ?v) = Inr (sn_off ?s < sn_off (um_vrUh ?v))"
    "sn_lt ?s (um_vrUr ?v) = Inr (sn_off ?s < sn_off (um_vrUr ?v))"
    "sn_le (um_window_low ?v) ?s = Inr (sn_off (um_window_low ?v) \<le> sn_off ?s)"
    using wf base by (simp_all add: sn_lt_off sn_le_off)
  show ?thesis
    unfolding rx_discard_def cmp off by (simp add: set_bases_sel Let_def)
qed

text \<open>
  C28. A duplicate is not buffered twice: a PDU that is in the reception buffer and lies strictly
  between VR(UR) and VR(UH) is discarded, and so is a PDU of the window below VR(UR); the reception
  buffer, VR(UR), VR(UX), VR(UH) as numbers and what was delivered are unchanged.
\<close>

theorem nrsl_duplicate_discarded:
  assumes "um_rx_inv u" "um_firstPduRxed u" "dstL2Id = 0 \<or> um_channelType u = STCH"
    and "pdu_ok p" "Packet_FindRlcTag p = Some ts"
    and "(let low = sn_num (um_window_low u); off = (\<lambda>n. (n - low) mod 1024) in
      off (sn_num (um_vrUr u)) < off (sn_num (pdu_sn p)) \<and>
      off (sn_num (pdu_sn p)) < off (sn_num (um_vrUh u)) \<and>
      map_count (sn_value (pdu_sn p)) (um_rxBuffer u) \<or>
      off (sn_num (pdu_sn p)) < off (sn_num (um_vrUr u)))"
  shows "\<exists>u'. DoReceiveNrSlRlcPdu now p dstL2Id u = Inr u' \<and> um_rxBuffer u' = um_rxBuffer u \<and>
    sn_num (um_vrUr u') = sn_num (um_vrUr u) \<and> um_vrUx u' = um_vrUx u \<and>
    sn_num (um_vrUh u') = sn_num (um_vrUh u) \<and> kept_of u' = kept_of u \<and>
    um_out u' = um_out u @ [RxPduTrace (um_rnti u) (um_lcid u) (Packet_GetSize p) (now - ts)]"
proof -
  define u1 where "u1 = rx_trace now ts p u"
  obtain h where h: "Packet_PeekHeader (rlc_Deserialize LteRlcHeader) p = Inr h"
    "sn_wf (rh_sequenceNumber h)" "pdu_sn p = rh_sequenceNumber h"
    using pdu_ok_peek [OF assms(4)] by blast
  have u1: "rx_first_pdu (rh_sequenceNumber h) u1 = u1" "um_rxBuffer u1 = um_rxBuffer u"
    "um_vrUr u1 = um_vrUr u" "um_vrUh u1 = um_vrUh u" "um_window_low u1 = um_window_low u"
    "um_channelType u1 = um_channelType u" "rx_sn_inv u1"
    using assms(1,2)
    by (simp_all add: u1_def rx_trace_def um_emit_def rx_first_pdu_def um_window_low_def um_rx_inv_def
        rx_inv_def rx_sn_inv_def)
  have "rx_discard (SetModulusBase (rh_sequenceNumber h) (um_window_low (rx_set_bases u1))) (rx_set_bases u1)
      = Inr True"
    unfolding rx_discard_spec [OF u1(7) h(2)] using assms(6) by (simp add: u1 h(3) Let_def)
  then have "DoReceiveNrSlRlcPdu now p dstL2Id u = Inr (rx_set_bases u1)"
    using assms(3,5) h(1) u1(1,6) by (auto simp: DoReceiveNrSlRlcPdu_def Let_def simp flip: u1_def)
  moreover have "um_vrUx u1 = um_vrUx u" "kept_of u1 = kept_of u"
    "um_out u1 = um_out u @ [RxPduTrace (um_rnti u) (um_lcid u) (Packet_GetSize p) (now - ts)]"
    by (simp_all add: u1_def rx_trace_def um_emit_def kept_of_def)
  ultimately show ?thesis
    using u1 rs_view_eqD(1,3) [OF set_bases_sel(7) [of u1]] by (simp add: set_bases_sel)
qed

theorem nrsl_duplicate_discarded_witness:
  "\<exists>u'. DoReceiveNrSlRlcPdu 50 (sample_pdu 1) 0 (sample_gap\<lparr>um_firstPduRxed := True\<rparr>) = Inr u' \<and>
    um_rxBuffer u' = [(1, sample_pdu 1)]"
proof -
  let ?u = "sample_gap\<lparr>um_firstPduRxed := True\<rparr>"
  have "um_rx_inv ?u" "um_firstPduRxed ?u"
    using sample_gap_inv
    by (simp_all add: um_rx_inv_def rx_inv_def rx_buf_inv_def rx_sn_inv_def rs_inv_def rx_bases_def
        um_window_low_def sample_gap_def LteRlcUm_def)
  moreover have "(let low = sn_num (um_window_low ?u); off = (\<lambda>n. (n - low) mod 1024) in
      off (sn_num (um_vrUr ?u)) < off (sn_num (pdu_sn (sample_pdu 1))) \<and>
      off (sn_num (pdu_sn (sample_pdu 1))) < off (sn_num (um_vrUh ?u)) \<and>
      map_count (sn_value (pdu_sn (sample_pdu 1))) (um_rxBuffer ?u) \<or>
      off (sn_num (pdu_sn (sample_pdu 1))) < off (sn_num (um_vrUr ?u)))"
    by (simp add: sample_pdu_ok(3) um_window_low_def)
      (simp add: sample_gap_def LteRlcUm_def sn_num_def SN10_def map_count_def)
  ultimately show ?thesis
    using nrsl_duplicate_discarded [of ?u 0 "sample_pdu 1" 0 50] sample_pdu_ok(1,2)
    by (auto simp: sample_gap_def)
qed

text \<open>
  C29. No gap without a timer: after a sidelink PDU has been placed in the reception buffer,
  either t-Reordering is running or VR(UH) is not above VR(UR).
\<close>

theorem nrsl_gap_has_timer:
  assumes "um_rx_inv u" "um_firstPduRxed u" "dstL2Id = 0 \<or> um_channelType u = STCH"
    and "pdu_ok p" "Packet_FindRlcTag p \<noteq> None"
    and "rx_discard (SetModulusBase (pdu_sn p) (um_window_low (rx_set_bases u))) (rx_set_bases u) = Inr False"
  shows "\<exists>u'. DoReceiveNrSlRlcPdu now p dstL2Id u = Inr u' \<and>
    (um_reorderingTimer u' \<noteq> None \<or> sn_gt (um_vrUh u') (um_vrUr u') = Inr False)"
proof -
  obtain ts where ts: "Packet_FindRlcTag p = Some ts"
    using assms(5) by blast
  define u1 where "u1 = rx_trace now ts p u"
  obtain h where h: "Packet_PeekHeader (rlc_Deserialize LteRlcHeader) p = Inr h"
    "sn_wf (rh_sequenceNumber h)" "pdu_sn p = rh_sequenceNumber h"
    using pdu_ok_peek [OF assms(4)] by blast
  have u1: "rx_first_pdu (rh_sequenceNumber h) u1 = u1" "rx_inv u1"
    "um_channelType u1 = um_channelType u" "rx_sn_inv u1" "rx_sn_inv u"
    "um_window_low u1 = um_window_low u"
    using assms(1,2) rx_inv_trace(1) [of now ts p u]
    by (simp_all add: u1_def rx_trace_def um_emit_def rx_first_pdu_def um_window_low_def um_rx_inv_def
        rx_inv_def rx_sn_inv_def)
  have "rx_discard (SetModulusBase (rh_sequenceNumber h) (um_window_low (rx_set_bases u1))) (rx_set_bases u1)
      = Inr False"
    using assms(6) unfolding rx_discard_spec [OF u1(4) h(2)] h(3) rx_discard_spec [OF u1(5) h(2)]
    by (simp add: u1(6) Let_def) (simp add: u1_def rx_trace_def um_emit_def)
  then show ?thesis
    using nrsl_reas.receive_ok [OF u1(2) h(2) assms(4), of now] assms(3) ts h(1) u1(1,3)
    by (auto simp: DoReceiveNrSlRlcPdu_def nrsl_loops Let_def simp flip: u1_def)
qed

theorem nrsl_gap_has_timer_witness:
  "\<exists>u'. DoReceiveNrSlRlcPdu 50 (sample_pdu 3) 0 (sample_gap\<lparr>um_firstPduRxed := True\<rparr>) = Inr u' \<and>
    (um_reorderingTimer u' \<noteq> None \<or> sn_gt (um_vrUh u') (um_vrUr u') = Inr False)"
proof -
  let ?u = "sample_gap\<lparr>um_firstPduRxed := True\<rparr>"
  have inv: "um_rx_inv ?u" "um_firstPduRxed ?u"
    using sample_gap_inv
    by (simp_all add: um_rx_inv_def rx_inv_def rx_buf_inv_def rx_sn_inv_def rs_inv_def rx_bases_def
        um_window_low_def sample_gap_def LteRlcUm_def)
  moreover have "rx_discard (SetModulusBase (pdu_sn (sample_pdu 3)) (um_window_low (rx_set_bases ?u)))
      (rx_set_bases ?u) = Inr False"
    using inv(1) by (subst rx_discard_spec)
      (simp_all add: um_rx_inv_def rx_inv_def sample_pdu_ok(3) um_window_low_def,
       simp add: sample_gap_def LteRlcUm_def sn_num_def SN10_def map_count_def)
  ultimately show ?thesis
    using nrsl_gap_has_timer [of ?u 0 "sample_pdu 3" 50] sample_pdu_ok(1,2) by auto
qed

section \<open>Sequence numbers and the header\<close>

text \<open>
  The comparisons of \<open>SequenceNumber10\<close>, computed with the truncating C++ remainder in
  \<open>uint16_t\<close>, are the comparisons of the offsets from the modulus base, modulo 1024.
\<close>

theorem sequence_number_order:
  assumes "sn_wf a" "sn_wf b" "sn_base a = sn_base b"
  shows "sn_gt a b = Inr (sn_off a > sn_off b) \<and> sn_ge a b = Inr (sn_off a \<ge> sn_off b) \<and>
    sn_lt a b = Inr (sn_off a < sn_off b) \<and> sn_le a b = Inr (sn_off a \<le> sn_off b)"
  using assms by (simp add: sn_cmp_off)

theorem sequence_number_order_witness:
  "sn_lt \<lparr>sn_value = 1023, sn_base = 512\<rparr> \<lparr>sn_value = 3, sn_base = 512\<rparr> = Inr True"
  using sequence_number_order [of "\<lparr>sn_value = 1023, sn_base = 512\<rparr>" "\<lparr>sn_value = 3, sn_base = 512\<rparr>"]
  by (simp add: sn_wf_def sn_off_def)

text \<open>
  C30. The arithmetic of \<open>SequenceNumber10\<close> is modulo 1024 for every 16-bit operand, keeps the type
  invariant and the modulus base, and subtracting undoes adding.
\<close>

theorem sequence_number_arithmetic:
  assumes "sn_wf a"
  shows "sn_wf (sn_add a d) \<and> sn_num (sn_add a d) = (sn_num a + uint d) mod 1024 \<and>
    sn_wf (sn_sub a d) \<and> sn_num (sn_sub a d) = (sn_num a - uint d) mod 1024 \<and>
    sn_wf (sn_inc a) \<and> sn_num (sn_inc a) = (sn_num a + 1) mod 1024 \<and>
    sn_sub (sn_add a d) d = a"
proof -
  have "sn_num (sn_sub (sn_add a d) d) = sn_num a"
    using sn_wf_num [OF assms] by (simp add: mod_diff_left_eq)
  then have "sn_value (sn_sub (sn_add a d) d) = sn_value a"
    by (simp only: sn_value_eq_iff)
  then have "sn_sub (sn_add a d) d = a"
    by (intro sn10.equality) simp_all
  with assms show ?thesis by simp
qed

theorem sequence_number_arithmetic_witness:
  "sn_num (sn_sub \<lparr>sn_value = 3, sn_base = 7\<rparr> 512) = 515"
  using sequence_number_arithmetic [of "\<lparr>sn_value = 3, sn_base = 7\<rparr>" 512]
  by (simp add: sn_wf_def sn_num_def)

text \<open>
  C31. The RLC header survives the packet: adding the header a transmitter builds, for any framing
  info, sequence number and list of 11-bit length indicators, to a packet and removing it gives
  back every field, the bytes of the packet, and takes two bytes plus one and a half per indicator.
\<close>

theorem rlc_header_roundtrip:
  assumes "fi < 4" "sn_value sn < 1024" "sn_base sn = 0" "\<forall>li \<in> set lis. li < 2048"
    and "2 + li_bytes (length lis) < 65536"
  shows "\<exists>q p'. (let h = rlc_header_of fi sn lis in
    Packet_AddHeader (unat (rlc_GetSerializedSize h)) (rlc_Serialize h) p = Inr q \<and>
    length (pk_bytes q) = 2 + (3 * length lis + 1) div 2 + length (pk_bytes p) \<and>
    Packet_PeekHeader (rlc_Deserialize LteRlcHeader) q = Inr h \<and>
    Packet_RemoveHeader (rlc_Deserialize LteRlcHeader) q = Inr (h, p') \<and> pk_bytes p' = pk_bytes p)"
proof -
  let ?h = "rlc_header_of fi sn lis"
  have wf: "rlc_header_wf ?h"
    using assms by (rule rlc_header_wfI)
  obtain q where q: "Packet_AddHeader (unat (rlc_GetSerializedSize ?h)) (rlc_Serialize ?h) p = Inr q"
    using rlc_codec.add_header_ok [OF wf, of p] by (auto simp: is_ok_iff)
  have "li_bytes (length lis) = (3 * length lis + 1) div 2"
    by (cases "even (length lis)") (auto simp: li_bytes_def elim!: evenE oddE)
  with q rlc_codec.add_header_length [OF wf q] rlc_codec.peek_added_header [OF wf q]
    rlc_codec.remove_added_header [OF wf q] show ?thesis
    by (auto simp: Let_def rlc_header_size [OF wf])
qed

theorem rlc_header_roundtrip_witness:
  "\<exists>q p'. Packet_RemoveHeader (rlc_Deserialize LteRlcHeader) q
    = Inr (rlc_header_of 2 \<lparr>sn_value = 1023, sn_base = 0\<rparr> [3, 2047, 5], p') \<and> pk_bytes p' = [42]"
  using rlc_header_roundtrip [of 2 "\<lparr>sn_value = 1023, sn_base = 0\<rparr>" "[3, 2047, 5]"
      "Packet_Create\<lparr>pk_bytes := [42]\<rparr>"]
  by (auto simp: Let_def li_bytes_def)

end
