(* ===== verification/SlRrcProperties.thy ===== *)
theory SlRrcProperties
  imports NrSlUeRrc
begin

text \<open>
  The properties of the sidelink RRC of a UE: the conversions of the pre-configuration, the TDD
  pattern, the physical pool and the table of bearers.
\<close>

section \<open>Enumerations\<close>

text \<open>
  The conversions of eight enumerations to integers and back are inverse to each other: a
  value converts to an enumerator exactly when the enumerator converts to the value.
\<close>

theorem enumerations_inverse:
  "(\<forall>e n. GetScSpacingValue e = Inr n \<longleftrightarrow> GetScSpacingEnum n = Inr e) \<and>
   (\<forall>e n. GetSlLengthSymbolsValue e = Inr n \<longleftrightarrow> GetSlLengthSymbolsEnum n = Inr e) \<and>
   (\<forall>e n. GetSlTResoPscchValue e = Inr n \<longleftrightarrow> GetSlTResoPscchEnum n = Inr e) \<and>
   (\<forall>e n. GetSlFResoPscchValue e = Inr n \<longleftrightarrow> GetSlFResoPscchEnum n = Inr e) \<and>
   (\<forall>e n. GetNrSlSubChSizeValue e = Inr n \<longleftrightarrow> GetNrSlSubChSizeEnum n = Inr e) \<and>
   (\<forall>e n. GetSlSensWindowValue e = Inr n \<longleftrightarrow> GetSlSensWindowEnum n = Inr e) \<and>
   (\<forall>e n. GetSlSelWindowValue e = Inr n \<longleftrightarrow> GetSlSelWindowEnum n = Inr e) \<and>
   (\<forall>e n. GetSlMaxNumPerReserveValue e = Inr n \<longleftrightarrow> GetSlMaxNumPerReserveEnum n = Inr e)"
  using subcarrierSpacing.convert slLengthSymbols.convert slTimeResourcePscch.convert
    slFreqResourcePscch.convert slSubchannelSize.convert slSensingWindow.convert
    slSelectionWindow.convert slMaxNumPerReserve.convert
  by blast

text \<open>
  C38. The start symbols and the reservation periods convert both ways except for three
  enumerators.  The integer 5 gives \<open>SYM6\<close>, whose value is 6, and 6 is rejected; the enumerator
  \<open>MS250\<close>, to which 250 converts, has no value.  All other enumerators convert both ways.
\<close>

theorem enumerations_exceptions:
  "GetSlStartSymbolEnum 5 = Inr SS_SYM6 \<and> GetSlStartSymbolValue SS_SYM6 = Inr 6 \<and>
   GetSlStartSymbolValue SS_SYM5 = Inr 5 \<and> GetSlStartSymbolEnum 6 = Inl NsFatal \<and>
   GetSlResoResvPrdEnum 250 = Inr RP_MS250 \<and> GetSlResoResvPrdValue RP_MS250 = Inl NsFatal \<and>
   (\<forall>e n. e \<noteq> SS_SYM5 \<longrightarrow> e \<noteq> SS_SYM6 \<longrightarrow> GetSlStartSymbolValue e = Inr n \<longleftrightarrow> GetSlStartSymbolEnum n = Inr e) \<and>
   (\<forall>e n. e \<noteq> RP_MS250 \<longrightarrow> GetSlResoResvPrdValue e = Inr n \<longleftrightarrow> GetSlResoResvPrdEnum n = Inr e)"
  using slStartSymbol.convert slResourceReservePeriod.convert
  by (simp add: GetSlStartSymbolEnum_def GetSlStartSymbolValue_def GetSlResoResvPrdEnum_def
      GetSlResoResvPrdValue_def)

theorem enumerations_exceptions_witness:
  "GetSlStartSymbolEnum 3 = Inr SS_SYM3 \<and> GetSlResoResvPrdEnum 100 = Inr RP_MS100"
proof -
  have "GetSlStartSymbolValue SS_SYM3 = Inr 3 \<longleftrightarrow> GetSlStartSymbolEnum 3 = Inr SS_SYM3"
    and "GetSlResoResvPrdValue RP_MS100 = Inr 100 \<longleftrightarrow> GetSlResoResvPrdEnum 100 = Inr RP_MS100"
    using enumerations_exceptions by blast+
  then show ?thesis
    by (simp add: GetSlStartSymbolValue_def GetSlResoResvPrdValue_def)
qed

section \<open>TDD pattern\<close>

text \<open>The string of a pattern: the name of each slot followed by a separator.\<close>

definition show_pattern :: "LteNrTddSlotType list \<Rightarrow> string" where
  "show_pattern ts = concat (map (\<lambda>t. tdd_show t @ ''|'') ts)"

text \<open>
  Every TDD pattern survives printing and parsing: a pre-configuration with the printed
  pattern sets exactly that pattern, and asks the RRC once to populate the pools.
\<close>

theorem tdd_pattern_roundtrip:
  "SetNrSlPreconfiguration (pre\<lparr>pre_tddPattern := show_pattern ts\<rparr>) r
     = Inr (r\<lparr>rrc_preconfiguration := pre\<lparr>pre_tddPattern := show_pattern ts\<rparr>, rrc_tddPattern := ts,
              rrc_calls := rrc_calls r @ [Sap_PopulatePools]\<rparr>)"
proof -
  have "show_pattern ts = concat (map (\<lambda>w. w @ [CHR ''|'']) (map tdd_show ts))"
    by (simp add: show_pattern_def comp_def)
  moreover have "getlines CHR ''|'' [] \<dots> = map tdd_show ts"
    by (rule getlines_joined) (simp add: list_all_iff tdd_show_sep)
  ultimately have "tdd_slots (getlines CHR ''|'' [] (show_pattern ts)) = Inr ts"
    by (simp add: tdd_slots_ok)
  then show ?thesis
    by (simp add: SetNrSlPreconfiguration_def rrc_SetTddPattern_def)
qed

text \<open>
  The names of the slot types in a TDD pattern, and the patterns of a sequence of slots: the names
  separated by \<open>|\<close>, with or without a separator behind the last one.
\<close>

inductive slot_word :: "string \<Rightarrow> LteNrTddSlotType \<Rightarrow> bool" where
  "slot_word ''DL'' TDD_DL"
| "slot_word ''UL'' TDD_UL"
| "slot_word ''S'' TDD_S"
| "slot_word ''F'' TDD_F"

inductive_simps slot_word_simps: "slot_word w TDD_DL" "slot_word w TDD_UL" "slot_word w TDD_S" "slot_word w TDD_F"

definition spells :: "string \<Rightarrow> LteNrTddSlotType list \<Rightarrow> bool" where
  "spells s ts \<longleftrightarrow> (\<exists>ws. list_all2 slot_word ws ts \<and>
     (s = concat (map (\<lambda>w. w @ ''|'') ws) \<or> s @ ''|'' = concat (map (\<lambda>w. w @ ''|'') ws)))"

lemma slot_word_iff: "slot_word w t \<longleftrightarrow> w = tdd_show t"
  by (cases t) (simp_all add: slot_word_simps tdd_show_def)

lemma slot_words: "list_all2 slot_word ws ts \<longleftrightarrow> ws = map tdd_show ts"
  by (auto simp: list_all2_conv_all_nth slot_word_iff intro: nth_equalityI)

lemma tdd_show_not_Nil [simp]: "tdd_show t \<noteq> []"
  by (cases t) (simp_all add: tdd_show_def)

lemma tokens_of_pattern: "getlines CHR ''|'' [] s = map tdd_show ts \<longleftrightarrow> spells s ts"
proof
  assume "getlines CHR ''|'' [] s = map tdd_show ts"
  then show "spells s ts"
    using getlines_concat [of "CHR ''|''" "[]" s] by (auto simp: spells_def slot_words)
next
  define join where "join = (\<lambda>ts. concat (map (\<lambda>w. w @ ''|'') (map tdd_show ts)))"
  have sep: "list_all (\<lambda>w. CHR ''|'' \<notin> set w) (map tdd_show ts)" for ts
    by (simp add: list_all_iff tdd_show_sep)
  assume "spells s ts"
  then consider "s = join ts" | "s @ ''|'' = join ts"
    by (auto simp: spells_def slot_words join_def)
  then show "getlines CHR ''|'' [] s = map tdd_show ts"
  proof cases
    case 1
    then show ?thesis using getlines_joined [OF sep] by (simp add: join_def)
  next
    case 2
    then obtain us t where ts: "ts = us @ [t]" by (cases ts rule: rev_exhaust) (auto simp: join_def)
    with 2 have "s = concat (map (\<lambda>w. w @ ''|'') (map tdd_show us)) @ tdd_show t" by (simp add: join_def)
    then show ?thesis
      using getlines_last [OF sep tdd_show_sep tdd_show_not_Nil, of us t] ts by simp
  qed
qed

text \<open>
  C37. The TDD patterns that a pre-configuration may have: it is accepted with the slots \<open>ts\<close> exactly
  when its pattern spells \<open>ts\<close>, that is the names DL, UL, S and F of the slots in order with a separator
  between them and at most one behind them, and then the RRC is asked once to populate the pools;
  every other pattern (an unknown name, an empty one between two separators) is a fatal error.
\<close>

theorem tdd_pattern_accepted:
  "(SetNrSlPreconfiguration pre r = Inr r' \<longleftrightarrow>
     (\<exists>ts. spells (pre_tddPattern pre) ts \<and>
        r' = r\<lparr>rrc_preconfiguration := pre, rrc_tddPattern := ts,
               rrc_calls := rrc_calls r @ [Sap_PopulatePools]\<rparr>)) \<and>
   (SetNrSlPreconfiguration pre r = Inl e \<longleftrightarrow>
     e = NsFatal \<and> (\<nexists>ts. spells (pre_tddPattern pre) ts))"
proof -
  define ws where "ws = getlines CHR ''|'' [] (pre_tddPattern pre)"
  have ok: "tdd_slots ws = Inr ts \<longleftrightarrow> spells (pre_tddPattern pre) ts" for ts
    unfolding tdd_slots_ok ws_def by (rule tokens_of_pattern)
  have run: "SetNrSlPreconfiguration pre r =
    rbind (tdd_slots ws) (\<lambda>ts. Inr (r\<lparr>rrc_preconfiguration := pre, rrc_tddPattern := ts,
      rrc_calls := rrc_calls r @ [Sap_PopulatePools]\<rparr>))"
    by (cases "tdd_slots ws") (simp_all add: SetNrSlPreconfiguration_def rrc_SetTddPattern_def flip: ws_def)
  show ?thesis
  proof (cases "tdd_slots ws")
    case (Inl f)
    then show ?thesis using ok tdd_slots_error [OF Inl] by (auto simp: run)
  next
    case (Inr ts)
    then have "spells (pre_tddPattern pre) us \<longleftrightarrow> us = ts" for us using ok [of us] by auto
    then show ?thesis by (auto simp: run Inr)
  qed
qed

lemma tdd_pattern_example:
  "spells ''DL|S|UL|UL'' [TDD_DL, TDD_S, TDD_UL, TDD_UL]" "spells ''DL|UL|'' [TDD_DL, TDD_UL]"
  by (simp_all add: spells_def slot_words tdd_show_def)

section \<open>Physical pool\<close>

text \<open>
  C34. \<open>DoGetPhysicalSlPool\<close> returns for every bitmap and pattern of fewer than 65536 slots: it
  asserts without uplink slots, aborts when the bitmap is shorter than the pattern or its length is
  not a multiple of the number of uplink slots, and otherwise repeats the pattern once per group
  of that many bits and puts the bits in the uplink slots, in order.
\<close>

theorem physical_pool_refines:
  assumes "length (rrc_tddPattern r) < 65536"
  shows "DoGetPhysicalSlPool bm r =
    (let pat = rrc_tddPattern r; u = count_ul pat in
     if u = 0 then Inl NsAssert
     else if length bm mod u \<noteq> 0 \<or> length bm < length pat then Inl NsAbort
     else Inr (fill (concat (replicate (length bm div u) pat)) bm))"
  using assms by (rule physical_pool_eq)

lemma two_rounds:
  "Suc (Suc (Suc (Suc 0))) div Suc (Suc 0) = Suc (Suc 0)" "Suc (Suc (Suc (Suc 0))) mod Suc (Suc 0) = 0"
  by (simp_all flip: numeral_2_eq_2)

theorem physical_pool_refines_witness:
  "DoGetPhysicalSlPool [True, False, True, True] (NrSlUeRrc\<lparr>rrc_tddPattern := [TDD_DL, TDD_UL, TDD_UL]\<rparr>)
     = Inr [False, True, False, False, True, True]"
  using physical_pool_refines [of "NrSlUeRrc\<lparr>rrc_tddPattern := [TDD_DL, TDD_UL, TDD_UL]\<rparr>" "[True, False, True, True]"]
  by (simp add: numeral_2_eq_2 two_rounds)

text \<open>
  A physical pool has whole repetitions of the TDD pattern; only uplink slots are sidelink
  slots; the bits of the uplink slots, in order, are the bitmap, none lost and none added.
\<close>

theorem physical_pool_bits:
  assumes "DoGetPhysicalSlPool bm r = Inr pool" "length (rrc_tddPattern r) < 65536"
  shows "length pool = length bm div count_ul (rrc_tddPattern r) * length (rrc_tddPattern r) \<and>
    (\<forall>i < length pool. pool ! i \<longrightarrow> rrc_tddPattern r ! (i mod length (rrc_tddPattern r)) = TDD_UL) \<and>
    map snd (filter (\<lambda>(i, b). rrc_tddPattern r ! (i mod length (rrc_tddPattern r)) = TDD_UL)
      (enumerate 0 pool)) = bm"
proof -
  define pat u k where "pat = rrc_tddPattern r" and "u = count_ul pat" and "k = length bm div u"
  have u: "0 < u" "length bm mod u = 0" and pool: "pool = fill (concat (replicate k pat)) bm"
    using assms(1) unfolding physical_pool_eq [OF assms(2)]
    by (auto simp: Let_def pat_def u_def k_def split: if_splits)
  have len: "length pool = k * length pat"
    by (simp add: pool length_concat_replicate)
  have slot: "concat (replicate k pat) ! i = pat ! (i mod length pat)" if "i < length pool" for i
    using that by (simp add: len nth_concat_replicate)
  have ul: "pat ! (i mod length pat) = TDD_UL" if "i < length pool" "pool ! i" for i
    using fill_only_ul [of i "concat (replicate k pat)" bm] that slot
    by (simp add: pool)
  have "zip (concat (replicate k pat)) pool = map (\<lambda>(i, b). (pat ! (i mod length pat), b)) (enumerate 0 pool)"
    by (rule nth_equalityI) (auto simp: len slot length_concat_replicate nth_enumerate_eq)
  moreover have "count_ul (concat (replicate k pat)) = length bm"
    using u by (simp add: k_def flip: u_def) (metis dvd_div_mult_self dvd_eq_mod_eq_0)
  then have "map snd (filter (\<lambda>(t, b). t = TDD_UL) (zip (concat (replicate k pat)) pool)) = bm"
    unfolding pool by (rule fill_bits)
  ultimately have "map snd (filter (\<lambda>(i, b). pat ! (i mod length pat) = TDD_UL) (enumerate 0 pool)) = bm"
    by (simp add: filter_map comp_def case_prod_unfold)
  then show ?thesis
    using len ul by (auto simp: pat_def u_def k_def)
qed

theorem physical_pool_bits_witness:
  "map snd (filter (\<lambda>(i, b). [TDD_DL, TDD_UL, TDD_UL] ! (i mod 3) = TDD_UL)
     (enumerate 0 [False, True, False, False, True, True])) = [True, False, True, True]"
proof -
  let ?r = "NrSlUeRrc\<lparr>rrc_tddPattern := [TDD_DL, TDD_UL, TDD_UL]\<rparr>"
  have "DoGetPhysicalSlPool [True, False, True, True] ?r = Inr [False, True, False, False, True, True]"
    using physical_pool_eq [of ?r "[True, False, True, True]"] by (simp add: numeral_2_eq_2 two_rounds)
  from conjunct2 [OF conjunct2 [OF physical_pool_bits [OF this]]] show ?thesis by simp
qed

section \<open>Bearers\<close>

text \<open>
  C35. In every state that the operations reach, each remote identifier has at most one bearer,
  kept under its own logical channel; looking one up fails only for an unknown identifier; and a
  logical channel identity between 4 and 19 that the identifier does not use is always found.
\<close>

theorem bearer_table_invariant:
  assumes "rrc_reachable r"
  shows "(case map_of (rrc_slDrbMap r) l2 of
        None \<Rightarrow> DoGetSidelinkDataRadioBearer l2 r = Inl NsAssert
      | Some lcs \<Rightarrow> \<exists>d. lcs = [(drb_logicalChannelIdentity d, d)] \<and> DoGetSidelinkDataRadioBearer l2 r = Inr d) \<and>
    (\<exists>l. DoGetNextLcid l2 r = Inr l \<and> 4 \<le> l \<and> l < 20 \<and>
      (\<forall>lcs. map_of (rrc_slDrbMap r) l2 = Some lcs \<longrightarrow> \<not> map_count l lcs))"
proof -
  note inv = rrc_reachable_inv [OF assms]
  have "case map_of (rrc_slDrbMap r) l2 of
        None \<Rightarrow> DoGetSidelinkDataRadioBearer l2 r = Inl NsAssert
      | Some lcs \<Rightarrow> \<exists>d. lcs = [(drb_logicalChannelIdentity d, d)] \<and> DoGetSidelinkDataRadioBearer l2 r = Inr d"
  proof (cases "map_of (rrc_slDrbMap r) l2")
    case (Some lcs)
    show ?thesis
      by (rule rrc_inv_bearer [OF inv Some])
        (simp add: Some DoGetSidelinkDataRadioBearer_def rrc_inv_lookup [OF inv])
  qed (simp add: DoGetSidelinkDataRadioBearer_def rrc_inv_lookup [OF inv])
  then show ?thesis
    using rrc_inv_lcid [OF inv, of l2] by (simp add: lcids_def)
qed

definition sample_drb :: drb where
  "sample_drb = \<lparr>drb_object = 0, drb_logicalChannelIdentity = 4, drb_sourceL2Id = 1, drb_destinationL2Id = 255\<rparr>"

lemma sample_added:
  "DoAddNrSlDataRadioBearer sample_drb NrSlUeRrc = Inr (NrSlUeRrc\<lparr>rrc_slDrbMap := [(255, [(4, sample_drb)])]\<rparr>)"
  by (simp add: DoAddNrSlDataRadioBearer_def NrSlUeRrc_def new_bearer_table_eq umap_emplace_def
      map_count_def sample_drb_def)

theorem bearer_table_invariant_witness:
  "DoGetNextLcid 255 (NrSlUeRrc\<lparr>rrc_slDrbMap := [(255, [(4, sample_drb)])]\<rparr>) \<noteq> Inr 4"
  using bearer_table_invariant [OF rrc_reachable.add [OF rrc_reachable.start sample_added], of 255]
  by (auto simp: map_count_def)

text \<open>
  A bearer that is added for transmission is the one found for its destination, and the other
  destinations keep theirs; a second bearer for the destination is a fatal error.
\<close>

theorem bearer_added:
  assumes "rrc_reachable r" "DoAddNrSlDataRadioBearer d r = Inr r'"
  shows "DoGetSidelinkDataRadioBearer (drb_destinationL2Id d) r' = Inr d \<and>
    (\<forall>l2. l2 \<noteq> drb_destinationL2Id d \<longrightarrow> DoGetSidelinkDataRadioBearer l2 r' = DoGetSidelinkDataRadioBearer l2 r) \<and>
    (\<forall>d'. drb_destinationL2Id d' = drb_destinationL2Id d \<longrightarrow> DoAddNrSlDataRadioBearer d' r' = Inl NsFatal)"
proof -
  have new: "map_of (rrc_slDrbMap r) (drb_destinationL2Id d) = None"
    and r': "r' = r\<lparr>rrc_slDrbMap := umap_emplace (drb_destinationL2Id d) (new_bearer_table d) (rrc_slDrbMap r)\<rparr>"
    using assms(2) by (auto simp: DoAddNrSlDataRadioBearer_def rguard_eq_Inr)
  show ?thesis
    using umap.inserted [OF new, of "new_bearer_table d"] new unfolding r'
    by (simp add: DoGetSidelinkDataRadioBearer_def GetSidelinkDataRadioBearer_def umap_find_emplace
        new_bearer_table_eq DoAddNrSlDataRadioBearer_def rguard_def)
qed

theorem bearer_added_witness:
  "DoGetSidelinkDataRadioBearer 255 (NrSlUeRrc\<lparr>rrc_slDrbMap := [(255, [(4, sample_drb)])]\<rparr>) = Inr sample_drb"
  using bearer_added [OF rrc_reachable.start sample_added] by (simp add: sample_drb_def)

text \<open>
  C36. A bearer added for reception goes into the transmission table: the reception table of every
  reachable state is empty, the bearer is found when sending to the UE it receives from, and
  adding a bearer for sending to that UE is a fatal error.
\<close>

theorem rx_bearer_in_tx_table:
  assumes "rrc_reachable r" "DoAddNrSlRxDataRadioBearer d r = Inr r'"
    and "map_of (rrc_slDrbMap r) (drb_sourceL2Id d) = None"
  shows "rrc_slRxDrbMap r' = [] \<and> DoGetSidelinkDataRadioBearer (drb_sourceL2Id d) r' = Inr d \<and>
    (\<forall>d'. drb_destinationL2Id d' = drb_sourceL2Id d \<longrightarrow> DoAddNrSlDataRadioBearer d' r' = Inl NsFatal)"
proof -
  have r': "r' = r\<lparr>rrc_slDrbMap := umap_emplace (drb_sourceL2Id d) (new_bearer_table d) (rrc_slDrbMap r)\<rparr>"
    using assms(2) by (auto simp: DoAddNrSlRxDataRadioBearer_def rguard_eq_Inr)
  have "rrc_slRxDrbMap r' = []"
    using rrc_reachable_inv [OF rrc_reachable.add_rx [OF assms(1,2)]] by (simp add: rrc_inv_def)
  then show ?thesis
    using umap.inserted [OF assms(3), of "new_bearer_table d"] assms(3) unfolding r'
    by (simp add: DoGetSidelinkDataRadioBearer_def GetSidelinkDataRadioBearer_def umap_find_emplace
        new_bearer_table_eq DoAddNrSlDataRadioBearer_def rguard_def)
qed

theorem rx_bearer_in_tx_table_witness:
  "\<exists>r'. DoAddNrSlRxDataRadioBearer sample_drb NrSlUeRrc = Inr r' \<and>
    DoAddNrSlDataRadioBearer (sample_drb\<lparr>drb_sourceL2Id := 2, drb_destinationL2Id := 1\<rparr>) r' = Inl NsFatal"
proof -
  obtain r' where r': "DoAddNrSlRxDataRadioBearer sample_drb NrSlUeRrc = Inr r'"
    by (simp add: DoAddNrSlRxDataRadioBearer_def NrSlUeRrc_def)
  from rx_bearer_in_tx_table [OF rrc_reachable.start r'] r' show ?thesis
    by (auto simp: NrSlUeRrc_def sample_drb_def)
qed

end
