(* ===== verification/PdcpProperties.thy ===== *)
theory PdcpProperties
  imports SlStack
begin

text \<open>
  The properties of the PDCP entity, and of the sidelink stack of PDCP and RLC UM, each with an
  instance at a concrete input.
\<close>

section \<open>One PDU\<close>

text \<open>
  C40. An SDU sent over a sidelink bearer comes back whole: the peer PDCP that receives the PDU
  delivers the bytes of the SDU with the low three bits of its type, reports the time between the
  two calls as its delay, and expects the sequence number that the sender will use next, also when
  the number wraps.
\<close>

theorem pdcp_sl_roundtrip:
  assumes "IsSlRb d" "IsSlRb e" "no_pdcp_tag (pk_btags p)"
  shows "\<exists>q d' e' r. DoTransmitNrSlPdcpSdu now p ty d = Inr d' \<and>
    last (pd_out d') = TransmitNrSlPdcpPdu q (pd_rnti d) (pd_lcid d) (pd_srcL2Id d) (pd_dstL2Id d) \<and>
    pd_DoReceiveNrSlPdcpPdu now' q e = Inr e' \<and>
    pd_out e' = pd_out e @ [PdcpRxPdu (pd_rnti e) (pd_lcid e) (Packet_GetSize q) (now' - now),
      ReceiveNrSlPdcpSdu r (pd_rnti e) (pd_lcid e) (pd_srcL2Id e) (pd_dstL2Id e) (ty AND 7)] \<and>
    pk_bytes r = pk_bytes p \<and> pd_rxSequenceNumber e' = pd_txSequenceNumber d'"
proof -
  define q where "q = sl_pdu now (pd_txSequenceNumber d) ty p"
  have bytes: "pk_bytes q = sl_header_bytes (pd_txSequenceNumber d) ty @ pk_bytes p"
    by (simp add: q_def sl_pdu_def)
  obtain r where "pd_DoReceiveNrSlPdcpPdu now' q e = Inr (e\<lparr>pd_rxSequenceNumber := pd_txSequenceNumber d + 1,
        pd_out := pd_out e @ [PdcpRxPdu (pd_rnti e) (pd_lcid e) (Packet_GetSize q) (now' - now),
          ReceiveNrSlPdcpSdu r (pd_rnti e) (pd_lcid e) (pd_srcL2Id e) (pd_dstL2Id e) (ty AND 7)]\<rparr>)"
      "pk_bytes r = pk_bytes p"
    using receive_nrsl [OF assms(2) bytes, of now'] sl_pdu_tag [OF assms(3), of now "pd_txSequenceNumber d" ty]
    by (auto simp flip: q_def)
  then show ?thesis
    using transmit_nrsl [OF assms(1), of now p ty, folded q_def] by simp
qed

definition sl_pdcp :: "u32 \<Rightarrow> u32 \<Rightarrow> pdcp" where
  "sl_pdcp src dst = pd_SetDestinationL2Id dst (pd_SetSourceL2Id src LtePdcp)"

lemma sl_pdcp_rb: "src \<noteq> 0 \<Longrightarrow> IsSlRb (sl_pdcp src dst)"
  by (simp add: sl_pdcp_def pd_SetDestinationL2Id_def pd_SetSourceL2Id_def IsSlRb_def)

theorem pdcp_sl_roundtrip_witness:
  "\<exists>d'. DoTransmitNrSlPdcpSdu 5 Packet_Create 1 (sl_pdcp 1 255) = Inr d' \<and>
    (\<exists>q e'. pd_DoReceiveNrSlPdcpPdu 9 q (sl_pdcp 255 1) = Inr e' \<and>
      pd_rxSequenceNumber e' = pd_txSequenceNumber d')"
  using pdcp_sl_roundtrip [OF sl_pdcp_rb [of 1 255] sl_pdcp_rb [of 255 1], of Packet_Create 5 1 9]
  by (auto simp: no_pdcp_tag_def Packet_Create_def)

text \<open>
  The same for an LTE bearer, whose sequence numbers have 12 bits: sending keeps them below 4096
  and moves them by one modulo 4096; the peer's assertion on the D/C bit holds and it delivers the
  bytes of the SDU.
\<close>

theorem pdcp_lte_roundtrip:
  assumes "pdcp_lte_inv d"
  shows "\<exists>q d' e' r. DoTransmitPdcpSdu now p d = Inr d' \<and> pdcp_lte_inv d' \<and>
    unat (pd_txSequenceNumber d') = (unat (pd_txSequenceNumber d) + 1) mod 4096 \<and>
    last (pd_out d') = TransmitPdcpPdu q (pd_rnti d) (pd_lcid d) \<and>
    pd_DoReceivePdu now' q e = Inr e' \<and>
    last (pd_out e') = ReceivePdcpSdu r (pd_rnti e) (pd_lcid e) \<and>
    pk_bytes r = pk_bytes p \<and> pd_rxSequenceNumber e' = pd_txSequenceNumber d'"
proof -
  have sn: "pd_txSequenceNumber d < 4096" using assms by (simp add: pdcp_lte_inv_def)
  obtain bs where bs: "ph_Serialize \<lparr>ph_dcBit = DATA_PDU, ph_sequenceNumber = pd_txSequenceNumber d\<rparr> = Inr bs"
    by (simp add: ph_Serialize_def)
  show ?thesis
  proof (rule transmit_lte [OF assms, of now p])
    fix q
    assume tx: "DoTransmitPdcpSdu now p d = Inr (d\<lparr>pd_txSequenceNumber := next_sn m_maxPdcpSn (pd_txSequenceNumber d),
       pd_out := pd_out d @ [PdcpTxPdu (pd_rnti d) (pd_lcid d) (Packet_GetSize q),
         TransmitPdcpPdu q (pd_rnti d) (pd_lcid d)]\<rparr>)"
      and bytes: "\<And>bs. ph_Serialize \<lparr>ph_dcBit = DATA_PDU, ph_sequenceNumber = pd_txSequenceNumber d\<rparr> = Inr bs \<Longrightarrow>
       pk_bytes q = bs @ pk_bytes p"
    from receive_lte [OF bs sn bytes [OF bs], of now' e] tx sn show ?thesis
      by (auto simp: pdcp_lte_inv_def next_sn_lte_less next_sn_lte)
  qed
qed

theorem pdcp_lte_roundtrip_witness:
  "\<exists>q d' e' r. DoTransmitPdcpSdu 5 (Packet_Create\<lparr>pk_bytes := [7, 8]\<rparr>) (LtePdcp\<lparr>pd_txSequenceNumber := 4095\<rparr>) = Inr d' \<and>
    unat (pd_txSequenceNumber d') = 0 \<and> pd_DoReceivePdu 9 q LtePdcp = Inr e' \<and>
    last (pd_out e') = ReceivePdcpSdu r 0 0 \<and> pk_bytes r = [7, 8]"
  using pdcp_lte_roundtrip [of "LtePdcp\<lparr>pd_txSequenceNumber := 4095\<rparr>" 5 "Packet_Create\<lparr>pk_bytes := [7, 8]\<rparr>" 9 LtePdcp]
  by (auto simp: pdcp_lte_inv_def LtePdcp_def)

section \<open>The stack\<close>

text \<open>
  C39. A sidelink bearer end to end.  Send any SDUs through PDCP and RLC UM with any MAC opportunities
  between them, and let every RLC PDU reach the peer in order.  No step stops.  Let \<open>taken\<close> be those
  of the SDUs, in order, whose PDU found room in the RLC transmission buffer when it came: what the
  user of the peer's PDCP gets is a prefix of \<open>taken\<close>, with all bytes and types, the rest of \<open>taken\<close>
  is one SDU for each that waits in the RLC, and when the RLC buffer is empty the user gets
  exactly \<open>taken\<close>.  So an SDU is missing only if it found no room.
\<close>

theorem sl_stack_lossless:
  assumes "list_all stack_op_ok ops" "IsSlRb d" "IsSlRb e" "user_sdus (pd_out e) = []"
  shows "\<exists>links d' u v accepted e' taken. stack_send ops d = Inr (links, d') \<and>
    sl_run links (sl_entity r1 l1 s1 d1, sl_entity r2 l2 s2 d2) [] = Inr ((u, v), accepted) \<and>
    stack_receive now (um_out v) e = Inr e' \<and>
    taken = select (sent_sdus ops) (sl_takes links (sl_entity r1 l1 s1 d1, sl_entity r2 l2 s2 d2)) \<and>
    prefix (user_sdus (pd_out e')) taken \<and>
    length taken = length (user_sdus (pd_out e')) + length (pending (kept_of v) (buf_items (um_txBuffer u))) \<and>
    (um_txBuffer u = [] \<longrightarrow> user_sdus (pd_out e') = taken)"
proof -
  let ?start = "(sl_entity r1 l1 s1 d1, sl_entity r2 l2 s2 d2)"
  obtain links d' where send: "stack_send ops d = Inr (links, d')" "list_all sl_op_ok links"
    and framed: "list_all2 framed (sent_sdus ops) (pushed links)"
    using stack_send_framed [OF assms(1,2)] by blast
  obtain u v accepted where run: "sl_run links ?start [] = Inr ((u, v), accepted)" and inv: "link_inv accepted (u, v)"
    using link_run [OF link_inv_start send(2)] by fastforce
  define pend where "pend = pending (kept_of v) (buf_items (um_txBuffer u))"
  define taken where "taken = select (sent_sdus ops) (sl_takes links ?start)"
  have acc: "accepted = sl_sdus (um_out v) @ pend"
    using inv by (simp add: link_inv_def pend_def)
  have "list_all2 framed taken accepted"
    using list_all2_select [OF framed] sl_run_accepted [OF run] by (simp add: taken_def)
  then obtain t1 t2 where split: "taken = t1 @ t2" "list_all2 framed t1 (sl_sdus (um_out v))"
    "length t2 = length pend"
    unfolding acc by (metis list_all2_append2 list_all2_lengthD)
  obtain e' where e': "stack_receive now (um_out v) e = Inr e'" "user_sdus (pd_out e') = t1"
    using stack_receive_framed [OF split(2) assms(3), of now] assms(4) by (auto simp: user_sdus_append)
  have "pend = []" if "um_txBuffer u = []"
    using inv that unfolding pend_def
    by (cases "kept_of v") (simp_all add: link_inv_def in_phase_def pending_def)
  then have "um_txBuffer u = [] \<longrightarrow> t1 = taken" using split by auto
  moreover have "length taken = length t1 + length pend" using split(1,3) by simp
  moreover have "prefix t1 taken" using split(1) by simp
  ultimately show ?thesis
    using send(1) run e' taken_def unfolding pend_def by blast
qed

theorem sl_stack_lossless_witness:
  "\<exists>links d' u v accepted e'.
    stack_send [Send 0 (Packet_Create\<lparr>pk_bytes := [1, 2, 3]\<rparr>) 1, Grant 5 40] (sl_pdcp 1 255) = Inr (links, d') \<and>
    sl_run links (sl_entity 1 4 1 255, sl_entity 2 4 1 255) [] = Inr ((u, v), accepted) \<and>
    stack_receive 9 (um_out v) (sl_pdcp 1 255) = Inr e' \<and>
    prefix (user_sdus (pd_out e'))
      (select [([1, 2, 3], 1)] (sl_takes links (sl_entity 1 4 1 255, sl_entity 2 4 1 255)))"
proof -
  have ops: "list_all stack_op_ok [Send 0 (Packet_Create\<lparr>pk_bytes := [1, 2, 3]\<rparr>) 1, Grant 5 40]"
    by (simp add: Packet_Create_def)
  have start: "user_sdus (pd_out (sl_pdcp 1 255)) = []"
    by (simp add: sl_pdcp_def pd_SetDestinationL2Id_def pd_SetSourceL2Id_def LtePdcp_def)
  have "\<exists>links d' u v accepted e' taken.
    stack_send [Send 0 (Packet_Create\<lparr>pk_bytes := [1, 2, 3]\<rparr>) 1, Grant 5 40] (sl_pdcp 1 255) = Inr (links, d') \<and>
    sl_run links (sl_entity 1 4 1 255, sl_entity 2 4 1 255) [] = Inr ((u, v), accepted) \<and>
    stack_receive 9 (um_out v) (sl_pdcp 1 255) = Inr e' \<and>
    taken = select (sent_sdus [Send 0 (Packet_Create\<lparr>pk_bytes := [1, 2, 3]\<rparr>) 1, Grant 5 40])
      (sl_takes links (sl_entity 1 4 1 255, sl_entity 2 4 1 255)) \<and>
    prefix (user_sdus (pd_out e')) taken \<and>
    length taken = length (user_sdus (pd_out e')) + length (pending (kept_of v) (buf_items (um_txBuffer u))) \<and>
    (um_txBuffer u = [] \<longrightarrow> user_sdus (pd_out e') = taken)"
    by (rule sl_stack_lossless [OF ops sl_pdcp_rb sl_pdcp_rb start]) simp_all
  moreover have "sent_sdus [Send 0 (Packet_Create\<lparr>pk_bytes := [1, 2, 3]\<rparr>) 1, Grant 5 40] = [([1, 2, 3], 1)]"
    by (simp add: Packet_Create_def)
  ultimately show ?thesis
    by (simp only:) blast
qed

end
