(* ===== verification/Scheduler.thy ===== *)
theory Scheduler
  imports Prelude
begin

text \<open>
  The events of the simulation core and the interface of its schedulers
  (\<open>src/src/core/model/scheduler.h\<close>): keys, their order, and the contract of an event list as a
  locale.  An \<open>EventImpl\<close> is its identity.
\<close>

section \<open>Events\<close>

record event =
  ev_impl :: nat
  ev_ts :: u64
  ev_uid :: u32
  ev_context :: u32

definition key_less :: "event \<Rightarrow> event \<Rightarrow> bool" where
  "key_less a b =
     (if ev_ts a < ev_ts b then True
      else if ev_ts a = ev_ts b \<and> ev_uid a < ev_uid b then True
      else False)"

definition key_greater :: "event \<Rightarrow> event \<Rightarrow> bool" where
  "key_greater a b =
     (if ev_ts a > ev_ts b then True
      else if ev_ts a = ev_ts b \<and> ev_uid a > ev_uid b then True
      else False)"

definition key_equal :: "event \<Rightarrow> event \<Rightarrow> bool" where
  "key_equal a b \<longleftrightarrow> ev_uid a = ev_uid b"

text \<open>The order of the keys is that of one number.\<close>

definition rank :: "event \<Rightarrow> nat" where
  "rank e = unat (ev_ts e) * 2 ^ 32 + unat (ev_uid e)"

lemma u32_bound: "unat (x :: u32) < 2 ^ 32"
  using unsigned_less [of x, where 'a = nat] by simp

lemma lex_number:
  fixes k :: nat
  assumes "c < k" "d < k"
  shows "x * k + c < y * k + d \<longleftrightarrow> x < y \<or> (x = y \<and> c < d)"
proof (cases x y rule: linorder_cases)
  case less
  then have "(x + 1) * k \<le> y * k" by (intro mult_right_mono) simp_all
  with less assms show ?thesis by simp
next
  case greater
  then have "(y + 1) * k \<le> x * k" by (intro mult_right_mono) simp_all
  with greater assms show ?thesis by simp
qed simp

lemma rank_less: "rank a < rank b \<longleftrightarrow>
  unat (ev_ts a) < unat (ev_ts b) \<or> (unat (ev_ts a) = unat (ev_ts b) \<and> unat (ev_uid a) < unat (ev_uid b))"
  unfolding rank_def by (rule lex_number [OF u32_bound u32_bound])

lemma key_less_rank: "key_less a b \<longleftrightarrow> rank a < rank b"
  unfolding key_less_def rank_less word_less_nat_alt word_unat_eq_iff by simp

lemma key_greater_rank: "key_greater a b \<longleftrightarrow> rank b < rank a"
  unfolding key_greater_def rank_less word_less_nat_alt word_unat_eq_iff by auto

lemma rank_eq: "rank a = rank b \<longleftrightarrow> ev_ts a = ev_ts b \<and> ev_uid a = ev_uid b"
  using rank_less [of a b] rank_less [of b a] unfolding word_unat_eq_iff
  by (metis less_irrefl linorder_less_linear)

lemma rank_ts: "rank a \<le> rank b \<Longrightarrow> unat (ev_ts a) \<le> unat (ev_ts b)"
  using rank_less [of b a] by linarith

section \<open>The contract of an event list\<close>

text \<open>
  \<open>events\<close> is the set of the events in the list, whose unique ids differ.  An event that is inserted
  lies between \<open>floor\<close>, which \<open>RemoveNext\<close> may raise up to the time of the event it removes, and the
  constant \<open>horizon\<close>.
\<close>

definition uids_distinct :: "event set \<Rightarrow> bool" where
  "uids_distinct E \<longleftrightarrow> inj_on ev_uid E"

lemma uids_distinct_insert: "uids_distinct E \<Longrightarrow> ev_uid e \<notin> ev_uid ` E \<Longrightarrow> uids_distinct (insert e E)"
  by (auto simp: uids_distinct_def)

lemma uids_distinct_mono: "uids_distinct E \<Longrightarrow> F \<subseteq> E \<Longrightarrow> uids_distinct F"
  by (auto simp: uids_distinct_def intro: inj_on_subset)

lemma uids_distinct_tl: "uids_distinct (insert e E) \<Longrightarrow> uids_distinct E"
  by (auto simp: uids_distinct_def)

lemma uid_inj: "uids_distinct E \<Longrightarrow> a \<in> E \<Longrightarrow> b \<in> E \<Longrightarrow> ev_uid a = ev_uid b \<Longrightarrow> a = b"
  by (auto simp: uids_distinct_def dest: inj_onD)

definition is_next :: "event \<Rightarrow> event set \<Rightarrow> bool" where
  "is_next e E \<longleftrightarrow> e \<in> E \<and> (\<forall>x \<in> E. rank e \<le> rank x)"

lemma next_unique:
  assumes "uids_distinct E" "is_next a E" "is_next b E"
  shows "a = b"
proof -
  have "rank a = rank b" using assms by (auto simp: is_next_def intro: order_antisym)
  then have "ev_uid a = ev_uid b" by (simp add: rank_eq)
  with assms show ?thesis by (auto simp: uids_distinct_def is_next_def dest: inj_onD)
qed

locale event_queue =
  fixes start :: "'q"
    and insert_event :: "event \<Rightarrow> 'q \<Rightarrow> 'q res"
    and is_empty :: "'q \<Rightarrow> bool"
    and peek_next :: "'q \<Rightarrow> event res"
    and remove_next :: "'q \<Rightarrow> (event \<times> 'q) res"
    and inv :: "'q \<Rightarrow> bool"
    and events :: "'q \<Rightarrow> event set"
    and floor :: "'q \<Rightarrow> nat"
    and horizon :: nat
  assumes start: "inv start" "events start = {}" "floor start = 0"
    and events: "inv q \<Longrightarrow> finite (events q) \<and> uids_distinct (events q)"
    and insert_event: "inv q \<Longrightarrow> ev_uid e \<noteq> 0 \<Longrightarrow> ev_uid e \<notin> ev_uid ` events q \<Longrightarrow>
      floor q \<le> unat (ev_ts e) \<Longrightarrow> unat (ev_ts e) < horizon \<Longrightarrow>
      \<exists>q'. insert_event e q = Inr q' \<and> inv q' \<and> events q' = insert e (events q) \<and> floor q' = floor q"
    and is_empty: "inv q \<Longrightarrow> is_empty q \<longleftrightarrow> events q = {}"
    and peek_next: "inv q \<Longrightarrow> events q \<noteq> {} \<Longrightarrow> \<exists>e. peek_next q = Inr e \<and> is_next e (events q)"
    and remove_next: "inv q \<Longrightarrow> events q \<noteq> {} \<Longrightarrow>
      \<exists>e q'. remove_next q = Inr (e, q') \<and> is_next e (events q) \<and> inv q' \<and> events q' = events q - {e} \<and>
        floor q' \<le> unat (ev_ts e)"
begin

lemma peek_is_removed:
  assumes "inv q" "events q \<noteq> {}"
  shows "\<exists>e q'. peek_next q = Inr e \<and> remove_next q = Inr (e, q')"
proof -
  obtain e where e: "peek_next q = Inr e" "is_next e (events q)"
    using peek_next [OF assms] by blast
  obtain e' q' where e': "remove_next q = Inr (e', q')" "is_next e' (events q)"
    using remove_next [OF assms] by blast
  have "e = e'"
    using next_unique [OF _ e(2) e'(2)] events [OF assms(1)] by blast
  with e(1) e'(1) show ?thesis by blast
qed

end

section \<open>Runs\<close>

text \<open>A sequence of operations, and the events that \<open>PeekNext\<close> and \<open>RemoveNext\<close> return.\<close>

datatype queue_op = QInsert event | QPeek | QNext | QRemove event

text \<open>The specification: the set of the events, of which the earliest is next.\<close>

inductive spec_run :: "nat \<Rightarrow> queue_op list \<Rightarrow> event set \<Rightarrow> nat \<Rightarrow> event list \<Rightarrow> bool" for hz :: nat where
  Nil: "spec_run hz [] E now []"
| Insert: "ev_uid e \<noteq> 0 \<Longrightarrow> ev_uid e \<notin> ev_uid ` E \<Longrightarrow> now \<le> unat (ev_ts e) \<Longrightarrow> unat (ev_ts e) < hz \<Longrightarrow>
    spec_run hz ops (insert e E) now out \<Longrightarrow> spec_run hz (QInsert e # ops) E now out"
| Peek: "is_next e E \<Longrightarrow> spec_run hz ops E now out \<Longrightarrow> spec_run hz (QPeek # ops) E now (e # out)"
| Next: "is_next e E \<Longrightarrow> spec_run hz ops (E - {e}) (unat (ev_ts e)) out \<Longrightarrow>
    spec_run hz (QNext # ops) E now (e # out)"
| Remove: "e \<in> E \<Longrightarrow> spec_run hz ops (E - {e}) now out \<Longrightarrow> spec_run hz (QRemove e # ops) E now out"

fun queue_run :: "(event \<Rightarrow> 'q \<Rightarrow> 'q res) \<Rightarrow> ('q \<Rightarrow> event res) \<Rightarrow> ('q \<Rightarrow> (event \<times> 'q) res) \<Rightarrow>
    (event \<Rightarrow> 'q \<Rightarrow> 'q res) \<Rightarrow> queue_op list \<Rightarrow> 'q \<Rightarrow> event list res" where
  "queue_run ins peek nxt rem [] q = Inr []"
| "queue_run ins peek nxt rem (QInsert e # ops) q = rbind (ins e q) (queue_run ins peek nxt rem ops)"
| "queue_run ins peek nxt rem (QPeek # ops) q =
     rbind (peek q) (\<lambda>e. rbind (queue_run ins peek nxt rem ops q) (\<lambda>es. Inr (e # es)))"
| "queue_run ins peek nxt rem (QNext # ops) q =
     rbind (nxt q) (\<lambda>(e, q'). rbind (queue_run ins peek nxt rem ops q') (\<lambda>es. Inr (e # es)))"
| "queue_run ins peek nxt rem (QRemove e # ops) q = rbind (rem e q) (queue_run ins peek nxt rem ops)"

text \<open>A queue does what the specification does, given a \<open>Remove\<close> that does if there is a removal.\<close>

definition removes :: "(event \<Rightarrow> 'q \<Rightarrow> 'q res) \<Rightarrow> ('q \<Rightarrow> bool) \<Rightarrow> ('q \<Rightarrow> event set) \<Rightarrow> ('q \<Rightarrow> nat) \<Rightarrow> bool" where
  "removes rem ok ev fl \<longleftrightarrow> (\<forall>q e. ok q \<longrightarrow> e \<in> ev q \<longrightarrow>
     (\<exists>q'. rem e q = Inr q' \<and> ok q' \<and> ev q' = ev q - {e} \<and> fl q' = fl q))"

context event_queue
begin

lemma run_refines:
  assumes "spec_run horizon ops E now out" "inv q" "events q = E" "floor q \<le> now"
    and "\<And>e. QRemove e \<in> set ops \<Longrightarrow> removes rem inv events floor"
  shows "queue_run insert_event peek_next remove_next rem ops q = Inr out"
  using assms
proof (induction ops E now out arbitrary: q rule: spec_run.induct)
  case (Insert e E now ops out)
  then obtain q' where "insert_event e q = Inr q'" "inv q'" "events q' = insert e E" "floor q' = floor q"
    using insert_event [of q e] by auto
  with Insert show ?case by simp
next
  case (Peek e E ops now out)
  then obtain e' where e': "peek_next q = Inr e'" "is_next e' E"
    using peek_next [of q] by (auto simp: is_next_def)
  moreover have "e' = e"
    using next_unique [OF _ e'(2) Peek(1)] events [of q] Peek by blast
  ultimately show ?case using Peek by simp
next
  case (Next e E ops out now)
  then obtain e' q' where e': "remove_next q = Inr (e', q')" "is_next e' E" "inv q'" "events q' = E - {e'}"
    "floor q' \<le> unat (ev_ts e')"
    using remove_next [of q] by (auto simp: is_next_def)
  moreover have "e' = e"
    using next_unique [OF _ e'(2) Next(1)] events [of q] Next by blast
  ultimately show ?case using Next by simp
next
  case (Remove e E ops now out)
  have r: "removes rem inv events floor" using Remove.prems(4) [of e] by simp
  then obtain q' where "rem e q = Inr q'" "inv q'" "events q' = E - {e}" "floor q' = floor q"
    unfolding removes_def using Remove.hyps(1) Remove.prems(1,2) by metis
  with r Remove.IH [of q'] Remove.prems(3) show ?case by simp
qed simp

end

text \<open>A list that can also remove the events it holds.\<close>

locale event_list = event_queue +
  fixes remove :: "event \<Rightarrow> 'a \<Rightarrow> 'a res"
  assumes remove: "inv q \<Longrightarrow> e \<in> events q \<Longrightarrow>
    \<exists>q'. remove e q = Inr q' \<and> inv q' \<and> events q' = events q - {e} \<and> floor q' = floor q"

context event_list
begin

lemma removes: "removes remove inv events floor"
  unfolding removes_def using remove by blast

lemma run_refines_start:
  "spec_run horizon ops {} 0 out \<Longrightarrow>
   queue_run insert_event peek_next remove_next remove ops start = Inr out"
  using run_refines start removes by simp

end

end
