(* ===== verification/DefaultSimulatorImpl.thy ===== *)
theory DefaultSimulatorImpl
  imports Scheduler
begin

text \<open>
  \<open>DefaultSimulatorImpl\<close> (\<open>src/src/core/model/default-simulator-impl.cc\<close>) with \<open>EventId\<close> and
  \<open>EventImpl\<close>: scheduling, cancelling and removing events, the run loop, and the events that other
  threads hand over.  The simulator works on any scheduler, given as the table of its operations.
  What the code of an event does is a tree of the calls it makes to the simulator.
\<close>

section \<open>Identities of events\<close>

record event_id =
  id_impl :: "nat option"
  id_ts :: u64
  id_context :: u32
  id_uid :: u32

definition EventId :: event_id where
  "EventId = \<lparr>id_impl = None, id_ts = 0, id_context = 0, id_uid = 0\<rparr>"

definition INVALID :: u32 where "INVALID = 0"
definition DESTROY :: u32 where "DESTROY = 2"
definition VALID :: u32 where "VALID = 4"
definition NO_CONTEXT :: u32 where "NO_CONTEXT = 0xffffffff"

definition event_of :: "nat \<Rightarrow> event_id \<Rightarrow> event" where
  "event_of impl i = \<lparr>ev_impl = impl, ev_ts = id_ts i, ev_uid = id_uid i, ev_context = id_context i\<rparr>"

definition id_of :: "event \<Rightarrow> event_id" where
  "id_of e = \<lparr>id_impl = Some (ev_impl e), id_ts = ev_ts e, id_context = ev_context e, id_uid = ev_uid e\<rparr>"

section \<open>State\<close>

text \<open>The virtual operations of \<open>Scheduler\<close>.\<close>

record 'q scheduler =
  s_Insert :: "event \<Rightarrow> 'q \<Rightarrow> 'q res"
  s_IsEmpty :: "'q \<Rightarrow> bool"
  s_PeekNext :: "'q \<Rightarrow> event res"
  s_RemoveNext :: "'q \<Rightarrow> (event \<times> 'q) res"
  s_Remove :: "event \<Rightarrow> 'q \<Rightarrow> 'q res"

text \<open>How a call fails; \<open>Sched\<close> is a failure inside the scheduler.\<close>

datatype sim_error = NegativeDelay | TimeOverflow | CountOverflow | Sched rt_error | TimeOrder | LostEvents | OutOfFuel

text \<open>
  What happens, in a ghost field \<open>trace\<close> with the last action first.  \<open>Calls\<close> records the delay of
  a \<open>ScheduleWithContext\<close>, \<open>RemoveCall\<close> the event of a \<open>Remove\<close>; \<open>Removed\<close> is a removal that has an
  effect.
\<close>

datatype action =
    Calls u64
  | Scheduled event
  | ScheduledDestroy nat
  | RemoveCall event
  | Removed event
  | Cancelled nat
  | Executed event
  | Notified nat

record 'w sim =
  m_stop :: bool
  m_uid :: u32
  m_currentUid :: u32
  m_currentTs :: u64
  m_currentContext :: u32
  m_unscheduledEvents :: int
  m_eventCount :: u64
  m_eventsWithContext :: "(u32 \<times> u64 \<times> nat) list"
  m_eventsWithContextEmpty :: bool
  m_destroyEvents :: "event_id list"
  m_cancel :: "nat list"
  stop_events :: "nat list"
  world :: 'w
  trace :: "action list"

definition DefaultSimulatorImpl :: "'w \<Rightarrow> 'w sim" where
  "DefaultSimulatorImpl w =
     \<lparr>m_stop = False, m_uid = VALID, m_currentUid = INVALID, m_currentTs = 0, m_currentContext = NO_CONTEXT,
      m_unscheduledEvents = 0, m_eventCount = 0, m_eventsWithContext = [], m_eventsWithContextEmpty = True,
      m_destroyEvents = [], m_cancel = [], stop_events = [], world = w, trace = []\<rparr>"

definition note_action :: "action \<Rightarrow> 'w sim \<Rightarrow> 'w sim" where
  "note_action a s = s\<lparr>trace := a # trace s\<rparr>"

text \<open>A failure keeps the state of the simulator as it was; the queue is not needed then.\<close>

type_synonym ('a, 'q, 'w) outcome = "(sim_error \<times> 'w sim) + ('a \<times> 'q \<times> 'w sim)"

definition obind :: "('a, 'q, 'w) outcome \<Rightarrow> ('a \<Rightarrow> 'q \<Rightarrow> 'w sim \<Rightarrow> ('b, 'q, 'w) outcome) \<Rightarrow> ('b, 'q, 'w) outcome" where
  "obind m f = (case m of Inl e \<Rightarrow> Inl e | Inr (x, q, s) \<Rightarrow> f x q s)"

definition oguard :: "sim_error \<Rightarrow> 'w sim \<Rightarrow> bool \<Rightarrow> ('a, 'q, 'w) outcome \<Rightarrow> ('a, 'q, 'w) outcome" where
  "oguard e s b m = (if b then m else Inl (e, s))"

definition osched :: "'w sim \<Rightarrow> 'a res \<Rightarrow> ('a \<Rightarrow> ('b, 'q, 'w) outcome) \<Rightarrow> ('b, 'q, 'w) outcome" where
  "osched s m f = (case m of Inl e \<Rightarrow> Inl (Sched e, s) | Inr x \<Rightarrow> f x)"

section \<open>Scheduling\<close>

text \<open>The block that \<open>Schedule\<close>, \<open>ScheduleWithContext\<close> and \<open>ProcessEventsWithContext\<close> share.\<close>

definition new_event :: "'q scheduler \<Rightarrow> u64 \<Rightarrow> u32 \<Rightarrow> nat \<Rightarrow> 'q \<Rightarrow> 'w sim \<Rightarrow> (event, 'q, 'w) outcome" where
  "new_event V ts context impl q s =
     (let ev = \<lparr>ev_impl = impl, ev_ts = ts, ev_uid = m_uid s, ev_context = context\<rparr>;
          s1 = note_action (Scheduled ev) (s\<lparr>m_uid := m_uid s + 1\<rparr>) in
      oguard CountOverflow s1 (m_unscheduledEvents s + 1 < 2 ^ 31)
        (osched s1 (s_Insert V ev q)
          (\<lambda>q1. Inr (ev, q1, s1\<lparr>m_unscheduledEvents := m_unscheduledEvents s + 1\<rparr>))))"

text \<open>\<open>delay + TimeStep (m_currentTs)\<close> on \<open>int64_t\<close>; a \<open>Time\<close> is read with its sign.\<close>

definition absolute_time :: "u64 \<Rightarrow> 'w sim \<Rightarrow> (u64 \<Rightarrow> ('a, 'q, 'w) outcome) \<Rightarrow> ('a, 'q, 'w) outcome" where
  "absolute_time delay s k =
     (let t = sint delay + sint (m_currentTs s) in
      oguard TimeOverflow s (- (2 ^ 63) \<le> t \<and> t < 2 ^ 63) (k (word_of_int t)))"

definition GetContext :: "'w sim \<Rightarrow> u32" where
  "GetContext s = m_currentContext s"

definition Schedule :: "'q scheduler \<Rightarrow> u64 \<Rightarrow> nat \<Rightarrow> 'q \<Rightarrow> 'w sim \<Rightarrow> (event_id, 'q, 'w) outcome" where
  "Schedule V delay impl q s =
     oguard NegativeDelay s (0 \<le> sint delay)
       (absolute_time delay s (\<lambda>ts.
          obind (new_event V ts (GetContext s) impl q s) (\<lambda>ev q1 s1. Inr (id_of ev, q1, s1))))"

definition ScheduleWithContext ::
    "'q scheduler \<Rightarrow> bool \<Rightarrow> u32 \<Rightarrow> u64 \<Rightarrow> nat \<Rightarrow> 'q \<Rightarrow> 'w sim \<Rightarrow> (unit, 'q, 'w) outcome" where
  "ScheduleWithContext V main_thread context delay impl q s =
     (let s0 = note_action (Calls delay) s in
      if main_thread then
        absolute_time delay s0 (\<lambda>ts.
          obind (new_event V ts context impl q s0) (\<lambda>ev q1 s1. Inr ((), q1, s1)))
      else
        Inr ((), q, s0\<lparr>m_eventsWithContext := m_eventsWithContext s0 @ [(context, delay, impl)],
                      m_eventsWithContextEmpty := False\<rparr>))"

definition ScheduleNow :: "'q scheduler \<Rightarrow> nat \<Rightarrow> 'q \<Rightarrow> 'w sim \<Rightarrow> (event_id, 'q, 'w) outcome" where
  "ScheduleNow V impl q s = Schedule V 0 impl q s"

definition ScheduleDestroy :: "nat \<Rightarrow> 'q \<Rightarrow> 'w sim \<Rightarrow> (event_id, 'q, 'w) outcome" where
  "ScheduleDestroy impl q s =
     (let i = \<lparr>id_impl = Some impl, id_ts = m_currentTs s, id_context = 0xffffffff, id_uid = 2\<rparr> in
      Inr (i, q, note_action (ScheduledDestroy impl)
                   (s\<lparr>m_destroyEvents := m_destroyEvents s @ [i], m_uid := m_uid s + 1\<rparr>)))"

definition Stop :: "'w sim \<Rightarrow> 'w sim" where
  "Stop s = s\<lparr>m_stop := True\<rparr>"

text \<open>\<open>Stop (delay)\<close> schedules \<open>Simulator::Stop\<close>; \<open>impl\<close> is the event made for it.\<close>

definition Stop_delay :: "'q scheduler \<Rightarrow> u64 \<Rightarrow> nat \<Rightarrow> 'q \<Rightarrow> 'w sim \<Rightarrow> (event_id, 'q, 'w) outcome" where
  "Stop_delay V delay impl q s = Schedule V delay impl q (s\<lparr>stop_events := impl # stop_events s\<rparr>)"

section \<open>Expiry, cancelling, removing\<close>

definition IsCancelled :: "nat \<Rightarrow> 'w sim \<Rightarrow> bool" where
  "IsCancelled impl s \<longleftrightarrow> impl \<in> set (m_cancel s)"

definition EventImpl_Cancel :: "nat \<Rightarrow> 'w sim \<Rightarrow> 'w sim" where
  "EventImpl_Cancel impl s = note_action (Cancelled impl) (s\<lparr>m_cancel := List.insert impl (m_cancel s)\<rparr>)"

definition IsExpired :: "event_id \<Rightarrow> 'w sim \<Rightarrow> bool" where
  "IsExpired i s =
     (if id_uid i = DESTROY then
        (case id_impl i of
           None \<Rightarrow> True
         | Some impl \<Rightarrow> if IsCancelled impl s then True else i \<notin> set (m_destroyEvents s))
      else
        (case id_impl i of
           None \<Rightarrow> True
         | Some impl \<Rightarrow> id_ts i < m_currentTs s \<or>
             (id_ts i = m_currentTs s \<and> id_uid i \<le> m_currentUid s) \<or> IsCancelled impl s))"

definition GetDelayLeft :: "event_id \<Rightarrow> 'w sim \<Rightarrow> u64" where
  "GetDelayLeft i s = (if IsExpired i s then 0 else id_ts i - m_currentTs s)"

definition Remove :: "'q scheduler \<Rightarrow> event_id \<Rightarrow> 'q \<Rightarrow> 'w sim \<Rightarrow> (unit, 'q, 'w) outcome" where
  "Remove V i q s =
     (if id_uid i = DESTROY then Inr ((), q, s\<lparr>m_destroyEvents := remove1 i (m_destroyEvents s)\<rparr>)
      else if IsExpired i s then Inr ((), q, s)
      else
        (case id_impl i of
           None \<Rightarrow> Inr ((), q, s)
         | Some impl \<Rightarrow>
             (let ev = event_of impl i; s0 = note_action (RemoveCall ev) s in
              osched s0 (s_Remove V ev q) (\<lambda>q1.
                (let s1 = EventImpl_Cancel impl (note_action (Removed ev) s0) in
                 Inr ((), q1, s1\<lparr>m_unscheduledEvents := m_unscheduledEvents s1 - 1\<rparr>))))))"

definition Cancel :: "event_id \<Rightarrow> 'w sim \<Rightarrow> 'w sim" where
  "Cancel i s =
     (if \<not> IsExpired i s
      then (case id_impl i of None \<Rightarrow> s | Some impl \<Rightarrow> EventImpl_Cancel impl s)
      else s)"

section \<open>What an event does\<close>

datatype request =
    ReqSchedule u64 nat
  | ReqScheduleWithContext u32 u64 nat
  | ReqScheduleNow nat
  | ReqScheduleDestroy nat
  | ReqStop
  | ReqStopDelay u64 nat
  | ReqRemove event_id
  | ReqCancel event_id
  | ReqIsExpired event_id
  | ReqGetDelayLeft event_id
  | ReqNow
  | ReqGetContext
  | ReqGetEventCount

datatype reply = RUnit | RId event_id | RBool bool | RTime u64 | RContext u32 | RCount u64

datatype 'w prog = Done 'w | Call request "reply \<Rightarrow> 'w prog"

definition reply_map :: "('a \<Rightarrow> reply) \<Rightarrow> ('a, 'q, 'w) outcome \<Rightarrow> (reply, 'q, 'w) outcome" where
  "reply_map f m = obind m (\<lambda>x q s. Inr (f x, q, s))"

fun handle :: "'q scheduler \<Rightarrow> request \<Rightarrow> 'q \<Rightarrow> 'w sim \<Rightarrow> (reply, 'q, 'w) outcome" where
  "handle V (ReqSchedule delay impl) q s = reply_map RId (Schedule V delay impl q s)"
| "handle V (ReqScheduleWithContext context delay impl) q s =
     reply_map (\<lambda>_. RUnit) (ScheduleWithContext V True context delay impl q s)"
| "handle V (ReqScheduleNow impl) q s = reply_map RId (ScheduleNow V impl q s)"
| "handle V (ReqScheduleDestroy impl) q s = reply_map RId (ScheduleDestroy impl q s)"
| "handle V ReqStop q s = Inr (RUnit, q, Stop s)"
| "handle V (ReqStopDelay delay impl) q s = reply_map (\<lambda>_. RUnit) (Stop_delay V delay impl q s)"
| "handle V (ReqRemove i) q s = reply_map (\<lambda>_. RUnit) (Remove V i q s)"
| "handle V (ReqCancel i) q s = Inr (RUnit, q, Cancel i s)"
| "handle V (ReqIsExpired i) q s = Inr (RBool (IsExpired i s), q, s)"
| "handle V (ReqGetDelayLeft i) q s = Inr (RTime (GetDelayLeft i s), q, s)"
| "handle V ReqNow q s = Inr (RTime (m_currentTs s), q, s)"
| "handle V ReqGetContext q s = Inr (RContext (GetContext s), q, s)"
| "handle V ReqGetEventCount q s = Inr (RCount (m_eventCount s), q, s)"

primrec run_prog :: "'q scheduler \<Rightarrow> 'w prog \<Rightarrow> 'q \<Rightarrow> 'w sim \<Rightarrow> (unit, 'q, 'w) outcome" where
  "run_prog V (Done w) = (\<lambda>q s. Inr ((), q, s\<lparr>world := w\<rparr>))"
| "run_prog V (Call r k) = (\<lambda>q s. obind (handle V r q s) (\<lambda>x q1 s1. run_prog V (k x) q1 s1))"

text \<open>\<open>notify\<close> is the code of the events that are not those of \<open>Stop (delay)\<close>.\<close>

definition Notify :: "'q scheduler \<Rightarrow> (nat \<Rightarrow> 'w \<Rightarrow> 'w prog) \<Rightarrow> nat \<Rightarrow> 'q \<Rightarrow> 'w sim \<Rightarrow> (unit, 'q, 'w) outcome" where
  "Notify V notify impl q s =
     (let s0 = note_action (Notified impl) s in
      if impl \<in> set (stop_events s0) then Inr ((), q, Stop s0)
      else run_prog V (notify impl (world s0)) q s0)"

definition Invoke :: "'q scheduler \<Rightarrow> (nat \<Rightarrow> 'w \<Rightarrow> 'w prog) \<Rightarrow> nat \<Rightarrow> 'q \<Rightarrow> 'w sim \<Rightarrow> (unit, 'q, 'w) outcome" where
  "Invoke V notify impl q s = (if \<not> IsCancelled impl s then Notify V notify impl q s else Inr ((), q, s))"

section \<open>The run loop\<close>

fun insert_with_context ::
    "'q scheduler \<Rightarrow> (u32 \<times> u64 \<times> nat) list \<Rightarrow> 'q \<Rightarrow> 'w sim \<Rightarrow> (unit, 'q, 'w) outcome" where
  "insert_with_context V [] q s = Inr ((), q, s)"
| "insert_with_context V ((context, timestamp, impl) # es) q s =
     obind (new_event V (m_currentTs s + timestamp) context impl q s)
       (\<lambda>ev q1 s1. insert_with_context V es q1 s1)"

definition ProcessEventsWithContext :: "'q scheduler \<Rightarrow> 'q \<Rightarrow> 'w sim \<Rightarrow> (unit, 'q, 'w) outcome" where
  "ProcessEventsWithContext V q s =
     (if m_eventsWithContextEmpty s then Inr ((), q, s)
      else insert_with_context V (m_eventsWithContext s) q
             (s\<lparr>m_eventsWithContext := [], m_eventsWithContextEmpty := True\<rparr>))"

definition ProcessOneEvent :: "'q scheduler \<Rightarrow> (nat \<Rightarrow> 'w \<Rightarrow> 'w prog) \<Rightarrow> 'q \<Rightarrow> 'w sim \<Rightarrow> (unit, 'q, 'w) outcome" where
  "ProcessOneEvent V notify q s =
     osched s (s_RemoveNext V q) (\<lambda>(ev, q1).
       oguard TimeOrder s (m_currentTs s \<le> ev_ts ev)
         (let s1 = note_action (Executed ev)
                     (s\<lparr>m_unscheduledEvents := m_unscheduledEvents s - 1, m_eventCount := m_eventCount s + 1,
                        m_currentTs := ev_ts ev, m_currentContext := ev_context ev, m_currentUid := ev_uid ev\<rparr>) in
          obind (Invoke V notify (ev_impl ev) q1 s1) (\<lambda>_ q2 s2. ProcessEventsWithContext V q2 s2)))"

definition IsFinished :: "'q scheduler \<Rightarrow> 'q \<Rightarrow> 'w sim \<Rightarrow> bool" where
  "IsFinished V q s \<longleftrightarrow> s_IsEmpty V q \<or> m_stop s"

text \<open>
  The calls of \<open>ScheduleWithContext\<close> by other threads: those that happen while the \<open>n\<close>-th event runs
  are \<open>others n\<close>.  They only append to a list that the main thread reads between two events, so
  making them before the event is no restriction.
\<close>

fun other_threads ::
    "'q scheduler \<Rightarrow> (u32 \<times> u64 \<times> nat) list \<Rightarrow> 'q \<Rightarrow> 'w sim \<Rightarrow> (unit, 'q, 'w) outcome" where
  "other_threads V [] q s = Inr ((), q, s)"
| "other_threads V ((context, delay, impl) # cs) q s =
     obind (ScheduleWithContext V False context delay impl q s) (\<lambda>_ q1 s1. other_threads V cs q1 s1)"

primrec run_loop :: "'q scheduler \<Rightarrow> (nat \<Rightarrow> 'w \<Rightarrow> 'w prog) \<Rightarrow> (nat \<Rightarrow> (u32 \<times> u64 \<times> nat) list) \<Rightarrow> nat \<Rightarrow> nat \<Rightarrow>
    'q \<Rightarrow> 'w sim \<Rightarrow> (unit, 'q, 'w) outcome" where
  "run_loop V notify others n 0 q s = (if \<not> IsFinished V q s then Inl (OutOfFuel, s) else Inr ((), q, s))"
| "run_loop V notify others n (Suc fuel) q s =
     (if \<not> IsFinished V q s then
        obind (other_threads V (others (Suc n)) q s) (\<lambda>_ q0 s0.
          obind (ProcessOneEvent V notify q0 s0) (\<lambda>_ q1 s1. run_loop V notify others (Suc n) fuel q1 s1))
      else Inr ((), q, s))"

definition Run :: "'q scheduler \<Rightarrow> (nat \<Rightarrow> 'w \<Rightarrow> 'w prog) \<Rightarrow> (nat \<Rightarrow> (u32 \<times> u64 \<times> nat) list) \<Rightarrow> nat \<Rightarrow>
    'q \<Rightarrow> 'w sim \<Rightarrow> (unit, 'q, 'w) outcome" where
  "Run V notify others fuel q s =
     obind (other_threads V (others 0) q s) (\<lambda>_ q0 s0.
       obind (ProcessEventsWithContext V q0 s0) (\<lambda>_ q1 s1.
         obind (run_loop V notify others 0 fuel q1 (s1\<lparr>m_stop := False\<rparr>)) (\<lambda>_ q2 s2.
           oguard LostEvents s2 (\<not> s_IsEmpty V q2 \<or> m_unscheduledEvents s2 = 0) (Inr ((), q2, s2)))))"

section \<open>Destruction, change of the scheduler\<close>

primrec Destroy :: "'q scheduler \<Rightarrow> (nat \<Rightarrow> 'w \<Rightarrow> 'w prog) \<Rightarrow> nat \<Rightarrow> 'q \<Rightarrow> 'w sim \<Rightarrow> (unit, 'q, 'w) outcome" where
  "Destroy V notify 0 q s = (if m_destroyEvents s \<noteq> [] then Inl (OutOfFuel, s) else Inr ((), q, s))"
| "Destroy V notify (Suc fuel) q s =
     (case m_destroyEvents s of
        [] \<Rightarrow> Inr ((), q, s)
      | i # is' \<Rightarrow>
          (let s1 = s\<lparr>m_destroyEvents := is'\<rparr> in
           (case id_impl i of
              None \<Rightarrow> Inl (Sched UndefinedBehaviour, s1)
            | Some impl \<Rightarrow>
                if \<not> IsCancelled impl s1
                then obind (Invoke V notify impl q s1) (\<lambda>_ q2 s2. Destroy V notify fuel q2 s2)
                else Destroy V notify fuel q s1)))"

text \<open>Moving the events of one scheduler into another one; \<open>fuel\<close> bounds their number.\<close>

primrec SetScheduler :: "'q scheduler \<Rightarrow> 'p scheduler \<Rightarrow> nat \<Rightarrow> 'q \<Rightarrow> 'p \<Rightarrow> 'p res" where
  "SetScheduler V W 0 q p = (if \<not> s_IsEmpty V q then Inl Diverges else Inr p)"
| "SetScheduler V W (Suc fuel) q p =
     (if \<not> s_IsEmpty V q
      then rbind (s_RemoveNext V q) (\<lambda>(ev, q1). rbind (s_Insert W ev p) (SetScheduler V W fuel q1))
      else Inr p)"

primrec drain :: "'q scheduler \<Rightarrow> nat \<Rightarrow> 'q \<Rightarrow> 'q res" where
  "drain V 0 q = (if \<not> s_IsEmpty V q then Inl Diverges else Inr q)"
| "drain V (Suc fuel) q =
     (if \<not> s_IsEmpty V q then rbind (s_RemoveNext V q) (\<lambda>(ev, q1). drain V fuel q1) else Inr q)"

definition DoDispose :: "'q scheduler \<Rightarrow> nat \<Rightarrow> 'q \<Rightarrow> 'w sim \<Rightarrow> (unit, 'q, 'w) outcome" where
  "DoDispose V fuel q s =
     obind (ProcessEventsWithContext V q s) (\<lambda>_ q1 s1.
       osched s1 (drain V fuel q1) (\<lambda>q2. Inr ((), q2, s1)))"

end
