(* ===== verification/SimulatorSpec.thy ===== *)
theory SimulatorSpec
  imports DefaultSimulatorImpl
begin

text \<open>
  The simulator on the specification of a scheduler, a set of events: the invariant of its state,
  and that no call breaks it or fails inside the simulator.
\<close>

section \<open>Times\<close>

lemma sint_pos: assumes "unat (x :: u64) < 2 ^ 63" shows "sint x = int (unat x)"
proof -
  have i: "uint x = int (unat x)" by simp
  have "unat x < 9223372036854775808" using assms by simp
  then have "int (unat x) < 9223372036854775808" by linarith
  then have u: "uint x < 2 ^ 63" "0 \<le> uint x" unfolding i by simp_all
  have "sint (word_of_int (uint x) :: u64) = (uint x + 2 ^ 63) mod 2 ^ 64 - 2 ^ 63"
    by (subst int_word_sint) simp
  also have "\<dots> = uint x" using u by (subst mod_pos_pos_trivial) simp_all
  finally show ?thesis by simp
qed

lemma nonneg_sint: "0 \<le> sint (x :: u64) \<longleftrightarrow> unat x < 2 ^ 63"
proof
  assume "0 \<le> sint x"
  have "uint x = take_bit 64 (sint x)" using uint_sint [of x] by simp
  also have "\<dots> = sint x" using \<open>0 \<le> sint x\<close> sint_lt [of x] by (intro take_bit_int_eq_self) auto
  finally show "unat x < 2 ^ 63" using sint_lt [of x] by (simp add: unat_eq_nat_uint nat_less_iff)
qed (simp add: sint_pos)

lemma absolute_time_ok:
  fixes d n :: "u64"
  assumes "0 \<le> sint d" "unat n < 2 ^ 63" "sint d + sint n < 2 ^ 63"
  shows "unat n \<le> unat (word_of_int (sint d + sint n) :: u64)"
proof -
  define t where "t = sint d + sint n"
  have now: "sint n = int (unat n)" using assms(2) by (rule sint_pos)
  have t: "0 \<le> t" "t < 2 ^ 64" "int (unat n) \<le> t" using assms now by (simp_all add: t_def)
  have "int (unat (word_of_int t :: u64)) = take_bit 64 t" by (simp add: unsigned_of_int)
  also have "\<dots> = t" using t(1,2) by (rule take_bit_int_eq_self)
  finally have "int (unat n) \<le> int (unat (word_of_int t :: u64))" using t(3) by (simp only:)
  then show ?thesis unfolding t_def by (simp only: of_nat_le_iff)
qed

section \<open>The specification\<close>

definition spec_next :: "event set \<Rightarrow> event" where
  "spec_next E = the_elem {e \<in> E. \<forall>x \<in> E. rank e \<le> rank x}"

definition spec_scheduler :: "event set scheduler" where
  "spec_scheduler =
     \<lparr>s_Insert = \<lambda>e E. Inr (insert e E),
      s_IsEmpty = \<lambda>E. E = {},
      s_PeekNext = \<lambda>E. if E = {} then Inl UndefinedBehaviour else Inr (spec_next E),
      s_RemoveNext = \<lambda>E. if E = {} then Inl UndefinedBehaviour else Inr (spec_next E, E - {spec_next E}),
      s_Remove = \<lambda>e E. if e \<in> E then Inr (E - {e}) else Inl NsAssert\<rparr>"

lemma spec_scheduler_simps [simp]:
  "s_Insert spec_scheduler e E = Inr (insert e E)"
  "s_IsEmpty spec_scheduler E \<longleftrightarrow> E = {}"
  "s_PeekNext spec_scheduler E = (if E = {} then Inl UndefinedBehaviour else Inr (spec_next E))"
  "s_RemoveNext spec_scheduler E = (if E = {} then Inl UndefinedBehaviour else Inr (spec_next E, E - {spec_next E}))"
  "s_Remove spec_scheduler e E = (if e \<in> E then Inr (E - {e}) else Inl NsAssert)"
  by (simp_all add: spec_scheduler_def)

lemma spec_next_eq: "uids_distinct E \<Longrightarrow> is_next e E \<Longrightarrow> spec_next E = e"
proof -
  assume e: "uids_distinct E" "is_next e E"
  have "{x \<in> E. \<forall>y \<in> E. rank x \<le> rank y} = {x. is_next x E}"
    by (simp add: is_next_def)
  also have "\<dots> = {e}" using e next_unique by blast
  finally show ?thesis by (simp add: spec_next_def)
qed

lemma spec_next_is_next: "finite E \<Longrightarrow> E \<noteq> {} \<Longrightarrow> uids_distinct E \<Longrightarrow> is_next (spec_next E) E"
proof -
  assume E: "finite E" "E \<noteq> {}" "uids_distinct E"
  obtain e where "is_next e E"
    using ex_min_if_finite [of "rank ` E"] E(1,2) by (auto simp: not_less is_next_def)
  with spec_next_eq [OF E(3) this] show ?thesis by simp
qed

section \<open>Traces\<close>

definition scheduled :: "action list \<Rightarrow> event set" where
  "scheduled t = {e. Scheduled e \<in> set t}"

definition removed :: "action list \<Rightarrow> event set" where
  "removed t = {e. Removed e \<in> set t}"

fun executed :: "action list \<Rightarrow> event list" where
  "executed [] = []"
| "executed (Executed e # t) = e # executed t"
| "executed (_ # t) = executed t"

fun uid_count :: "action list \<Rightarrow> nat" where
  "uid_count [] = 0"
| "uid_count (Scheduled e # t) = Suc (uid_count t)"
| "uid_count (ScheduledDestroy i # t) = Suc (uid_count t)"
| "uid_count (_ # t) = uid_count t"

text \<open>
  What the theorems ask of the events: no negative delay for \<open>ScheduleWithContext\<close>, times below
  \<open>hz\<close>, no \<open>Remove\<close> of an event that was not scheduled, and not so many events that the counters of
  the simulator wrap.
\<close>

fun honest :: "nat \<Rightarrow> action list \<Rightarrow> bool" where
  "honest hz [] \<longleftrightarrow> True"
| "honest hz (Calls delay # t) \<longleftrightarrow> 0 \<le> sint delay \<and> honest hz t"
| "honest hz (Scheduled e # t) \<longleftrightarrow> unat (ev_ts e) < hz \<and> honest hz t"
| "honest hz (RemoveCall e # t) \<longleftrightarrow> Scheduled e \<in> set t \<and> honest hz t"
| "honest hz (_ # t) \<longleftrightarrow> honest hz t"

definition within :: "nat \<Rightarrow> action list \<Rightarrow> bool" where
  "within hz t \<longleftrightarrow> honest hz t \<and> uid_count t + 5 < 2 ^ 31"

text \<open>What the theorems say of a trace.  No event runs after its \<open>EventImpl\<close> was cancelled.\<close>

fun cancel_respected :: "action list \<Rightarrow> bool" where
  "cancel_respected [] \<longleftrightarrow> True"
| "cancel_respected (Notified i # t) \<longleftrightarrow> Cancelled i \<notin> set t \<and> cancel_respected t"
| "cancel_respected (_ # t) \<longleftrightarrow> cancel_respected t"

definition trace_ok :: "action list \<Rightarrow> bool" where
  "trace_ok t \<longleftrightarrow>
     sorted_wrt (\<lambda>a b. rank b < rank a) (executed t) \<and>
     set (executed t) \<subseteq> scheduled t \<and>
     removed t \<inter> set (executed t) = {} \<and>
     cancel_respected t"

lemma trace_sets [simp]:
  "scheduled [] = {}" "removed [] = {}"
  "scheduled (a # t) = (case a of Scheduled e \<Rightarrow> insert e (scheduled t) | _ \<Rightarrow> scheduled t)"
  "removed (a # t) = (case a of Removed e \<Rightarrow> insert e (removed t) | _ \<Rightarrow> removed t)"
  by (auto simp: scheduled_def removed_def split: action.splits)

lemma within_Cons: "within hz (a # t) \<Longrightarrow> within hz t"
  by (cases a) (auto simp: within_def)

lemma within_append: "within hz (u @ t) \<Longrightarrow> within hz t"
  by (induction u) (auto dest: within_Cons)

lemma finite_scheduled [simp]: "finite (scheduled t)"
  by (induction t) (auto split: action.splits)

lemma card_scheduled: "card (scheduled t) \<le> uid_count t"
proof (induction t)
  case (Cons a t)
  then show ?case by (cases a) (auto simp: card_insert_if)
qed simp

lemma executed_set: "set (executed t) = {e. Executed e \<in> set t}"
  by (induction t rule: executed.induct) auto

lemma honest_scheduled: "honest hz t \<Longrightarrow> e \<in> scheduled t \<Longrightarrow> unat (ev_ts e) < hz"
  by (induction hz t rule: honest.induct) auto

section \<open>The invariant\<close>

text \<open>The key of the event that runs, as a number; the events after it.\<close>

definition cur_rank :: "'w sim \<Rightarrow> nat" where
  "cur_rank s = unat (m_currentTs s) * 2 ^ 32 + unat (m_currentUid s)"

lemma later_iff: "cur_rank s < rank e \<longleftrightarrow>
  unat (m_currentTs s) < unat (ev_ts e) \<or>
  (unat (m_currentTs s) = unat (ev_ts e) \<and> unat (m_currentUid s) < unat (ev_uid e))"
  unfolding cur_rank_def rank_def by (rule lex_number [OF u32_bound u32_bound])

text \<open>The counters and the events that wait.\<close>

definition queue_ok :: "event set \<Rightarrow> 'w sim \<Rightarrow> bool" where
  "queue_ok E s \<longleftrightarrow>
     E \<subseteq> scheduled (trace s) \<and>
     unat (m_uid s) = uid_count (trace s) + 4 \<and>
     m_unscheduledEvents s = int (card E) \<and>
     unat (m_currentUid s) < unat (m_uid s) \<and>
     unat (m_currentTs s) < 2 ^ 63 \<and>
     (\<forall>e \<in> E. cur_rank s < rank e)"

text \<open>The events that were scheduled: they wait, or they ran, or they are cancelled.\<close>

definition scheduled_ok :: "event set \<Rightarrow> 'w sim \<Rightarrow> bool" where
  "scheduled_ok E s \<longleftrightarrow>
     uids_distinct (scheduled (trace s)) \<and>
     (\<forall>e \<in> scheduled (trace s). 4 \<le> unat (ev_uid e) \<and> unat (ev_uid e) < uid_count (trace s) + 4) \<and>
     (\<forall>e \<in> scheduled (trace s). e \<in> E \<or> e \<in> set (executed (trace s)) \<or> IsCancelled (ev_impl e) s)"

text \<open>The events that ran, in the order of their keys.\<close>

definition executed_ok :: "event set \<Rightarrow> 'w sim \<Rightarrow> bool" where
  "executed_ok E s \<longleftrightarrow>
     set (executed (trace s)) \<subseteq> scheduled (trace s) \<and>
     removed (trace s) \<subseteq> scheduled (trace s) \<and>
     sorted_wrt (\<lambda>a b. rank b < rank a) (executed (trace s)) \<and>
     (\<forall>e \<in> set (executed (trace s)). rank e \<le> cur_rank s) \<and>
     removed (trace s) \<inter> (set (executed (trace s)) \<union> E) = {}"

definition cancel_ok :: "'w sim \<Rightarrow> bool" where
  "cancel_ok s \<longleftrightarrow> cancel_respected (trace s) \<and> (\<forall>i. IsCancelled i s \<longleftrightarrow> Cancelled i \<in> set (trace s))"

text \<open>
  What every state of a run satisfies besides: an event is expired once it has run or its
  \<open>EventImpl\<close> was cancelled, and not before; until then the time that is left is the time to it.
\<close>

definition expiry_ok :: "'w sim \<Rightarrow> bool" where
  "expiry_ok s \<longleftrightarrow> (\<forall>e \<in> scheduled (trace s).
     (IsExpired (id_of e) s \<longleftrightarrow> e \<in> set (executed (trace s)) \<or> Cancelled (ev_impl e) \<in> set (trace s)) \<and>
     uint (GetDelayLeft (id_of e) s) =
       (if IsExpired (id_of e) s then 0 else uint (ev_ts e) - uint (m_currentTs s)))"

definition state_ok :: "'w sim \<Rightarrow> bool" where
  "state_ok s \<longleftrightarrow> trace_ok (trace s) \<and> expiry_ok s"

definition others_ok :: "'w sim \<Rightarrow> bool" where
  "others_ok s \<longleftrightarrow>
     (\<forall>(context, delay, impl) \<in> set (m_eventsWithContext s). 0 \<le> sint delay) \<and>
     (m_eventsWithContextEmpty s \<longleftrightarrow> m_eventsWithContext s = [])"

definition sim_inv :: "event set \<Rightarrow> 'w sim \<Rightarrow> bool" where
  "sim_inv E s \<longleftrightarrow> queue_ok E s \<and> scheduled_ok E s \<and> executed_ok E s \<and> others_ok s \<and> cancel_ok s"

lemmas sim_inv_defs = sim_inv_def queue_ok_def scheduled_ok_def executed_ok_def others_ok_def cancel_ok_def

lemma sim_inv_start: "sim_inv {} (DefaultSimulatorImpl w)"
  by (simp add: sim_inv_defs DefaultSimulatorImpl_def VALID_def INVALID_def uids_distinct_def IsCancelled_def)

lemma sim_inv_finite: "sim_inv E s \<Longrightarrow> finite E"
  by (auto simp: sim_inv_def queue_ok_def intro: finite_subset)

lemma sim_inv_uids: "sim_inv E s \<Longrightarrow> uids_distinct E"
  by (auto simp: sim_inv_def queue_ok_def scheduled_ok_def uids_distinct_def intro: inj_on_subset)

section \<open>Outcomes\<close>

text \<open>
  A call keeps the invariant as long as the trace stays within its limits, and then it fails only
  for a delay that is negative or too long, or for lack of fuel.
\<close>

definition harmless :: "sim_error \<Rightarrow> bool" where
  "harmless e \<longleftrightarrow> e \<in> {NegativeDelay, TimeOverflow, OutOfFuel}"

definition kept :: "nat \<Rightarrow> event set \<Rightarrow> 'w sim \<Rightarrow> bool" where
  "kept hz E s \<longleftrightarrow> (within hz (trace s) \<longrightarrow> sim_inv E s)"

definition longer :: "'w sim \<Rightarrow> 'w sim \<Rightarrow> bool" where
  "longer s s' \<longleftrightarrow> (\<exists>u. trace s' = u @ trace s)"

definition keeps :: "nat \<Rightarrow> 'w sim \<Rightarrow> ('a, event set, 'w) outcome \<Rightarrow> bool" where
  "keeps hz s m =
     (case m of
        Inl (e, s') \<Rightarrow> longer s s' \<and> (within hz (trace s') \<longrightarrow> harmless e \<and> state_ok s')
      | Inr (x, E', s') \<Rightarrow> longer s s' \<and> kept hz E' s')"

lemma longer_refl [simp]: "longer s s"
  by (simp add: longer_def)

lemma longer_trans: "longer s s' \<Longrightarrow> longer s' s'' \<Longrightarrow> longer s s''"
  by (auto simp: longer_def)

lemma longer_eq: "trace s' = trace s \<Longrightarrow> longer s s'"
  by (simp add: longer_def)

lemma longer_note: "trace s' = trace s \<Longrightarrow> longer s (note_action a s')"
  by (simp add: longer_def note_action_def)

lemma longer_within: "longer s s' \<Longrightarrow> within hz (trace s') \<Longrightarrow> within hz (trace s)"
  by (auto simp: longer_def dest: within_append)

lemma keeps_Inr: "longer s s' \<Longrightarrow> kept hz E' s' \<Longrightarrow> keeps hz s (Inr (x, E', s'))"
  by (simp add: keeps_def)

lemma keeps_Inl: "longer s s' \<Longrightarrow> (within hz (trace s') \<Longrightarrow> harmless e \<and> state_ok s') \<Longrightarrow> keeps hz s (Inl (e, s'))"
  by (simp add: keeps_def)

lemma IsExpired_id_of:
  assumes "4 \<le> unat (ev_uid e)"
  shows "IsExpired (id_of e) s \<longleftrightarrow> rank e \<le> cur_rank s \<or> IsCancelled (ev_impl e) s"
proof -
  have "unat (ev_uid e) \<noteq> unat (2 :: u32)" using assms by simp
  then have "ev_uid e \<noteq> DESTROY" by (auto simp: DESTROY_def)
  moreover have "rank e \<le> cur_rank s \<longleftrightarrow>
      ev_ts e < m_currentTs s \<or> (ev_ts e = m_currentTs s \<and> ev_uid e \<le> m_currentUid s)"
    using later_iff [of s e] unfolding word_less_nat_alt word_le_nat_alt word_unat_eq_iff by linarith
  ultimately show ?thesis by (simp add: IsExpired_def id_of_def)
qed

lemma delay_left:
  assumes "cur_rank s < rank e"
  shows "uint (ev_ts e - m_currentTs s) = uint (ev_ts e) - uint (m_currentTs s)"
proof -
  have "m_currentTs s \<le> ev_ts e"
    using assms unfolding later_iff word_le_nat_alt by linarith
  then show ?thesis by (simp add: uint_minus_simple_alt)
qed

lemma sim_inv_expiry:
  assumes "sim_inv E s"
  shows "expiry_ok s"
  unfolding expiry_ok_def
proof
  fix e assume e: "e \<in> scheduled (trace s)"
  have uid: "4 \<le> unat (ev_uid e)"
    using assms e by (simp add: sim_inv_def scheduled_ok_def)
  have "e \<in> E \<or> e \<in> set (executed (trace s)) \<or> IsCancelled (ev_impl e) s"
    using assms e by (simp add: sim_inv_def scheduled_ok_def)
  moreover have "e \<in> E \<longrightarrow> cur_rank s < rank e" "e \<in> set (executed (trace s)) \<longrightarrow> rank e \<le> cur_rank s"
    using assms by (simp_all add: sim_inv_def queue_ok_def executed_ok_def)
  ultimately have "IsExpired (id_of e) s \<longleftrightarrow> e \<in> set (executed (trace s)) \<or> IsCancelled (ev_impl e) s"
    unfolding IsExpired_id_of [OF uid] by linarith
  moreover have "IsCancelled (ev_impl e) s \<longleftrightarrow> Cancelled (ev_impl e) \<in> set (trace s)"
    using assms by (simp add: sim_inv_def cancel_ok_def)
  moreover have "uint (GetDelayLeft (id_of e) s) = uint (ev_ts e) - uint (m_currentTs s)"
    if "\<not> IsExpired (id_of e) s"
    using that delay_left [of s e] by (simp add: GetDelayLeft_def IsExpired_id_of [OF uid]) (simp add: id_of_def)
  ultimately show "(IsExpired (id_of e) s \<longleftrightarrow> e \<in> set (executed (trace s)) \<or> Cancelled (ev_impl e) \<in> set (trace s)) \<and>
     uint (GetDelayLeft (id_of e) s) =
       (if IsExpired (id_of e) s then 0 else uint (ev_ts e) - uint (m_currentTs s))"
    by (simp add: GetDelayLeft_def)
qed

lemma sim_inv_trace: "sim_inv E s \<Longrightarrow> trace_ok (trace s)"
  by (auto simp: sim_inv_def executed_ok_def cancel_ok_def trace_ok_def)

lemma kept_trace: "kept hz E s \<Longrightarrow> within hz (trace s) \<Longrightarrow> state_ok s"
  by (auto simp: kept_def state_ok_def sim_inv_trace intro: sim_inv_expiry)

lemma keeps_longer: "longer s s' \<Longrightarrow> keeps hz s' m \<Longrightarrow> keeps hz s m"
  by (auto simp: keeps_def split: sum.splits intro: longer_trans)

lemma keeps_bind:
  assumes "keeps hz s m"
    and "\<And>x E' s'. m = Inr (x, E', s') \<Longrightarrow> longer s s' \<Longrightarrow> kept hz E' s' \<Longrightarrow> keeps hz s' (f x E' s')"
  shows "keeps hz s (obind m f)"
proof (cases m)
  case (Inl e)
  with assms(1) show ?thesis by (simp add: obind_def keeps_def)
next
  case (Inr y)
  obtain x E' s' where y: "y = (x, E', s')" by (cases y)
  have "longer s s'" "kept hz E' s'" using assms(1) by (simp_all add: keeps_def Inr y)
  with assms(2) [OF Inr [unfolded y]] show ?thesis
    by (auto simp: Inr y obind_def intro: keeps_longer)
qed

lemma keeps_guard:
  "(b \<Longrightarrow> keeps hz s m) \<Longrightarrow> longer s s' \<Longrightarrow> (\<not> b \<Longrightarrow> within hz (trace s') \<Longrightarrow> harmless e \<and> state_ok s') \<Longrightarrow>
   keeps hz s (oguard e s' b m)"
  by (simp add: oguard_def keeps_Inl)

text \<open>Fields that the invariant does not read.\<close>

lemma kept_fields [simp]:
  "kept hz E (s\<lparr>m_stop := b\<rparr>) \<longleftrightarrow> kept hz E s"
  "kept hz E (s\<lparr>world := w\<rparr>) \<longleftrightarrow> kept hz E s"
  "kept hz E (s\<lparr>stop_events := l\<rparr>) \<longleftrightarrow> kept hz E s"
  "kept hz E (s\<lparr>m_destroyEvents := d\<rparr>) \<longleftrightarrow> kept hz E s"
  by (simp_all add: kept_def sim_inv_defs cur_rank_def IsCancelled_def)

definition quiet :: "action \<Rightarrow> bool" where
  "quiet a = (case a of Calls _ \<Rightarrow> True | RemoveCall _ \<Rightarrow> True | _ \<Rightarrow> False)"

lemma kept_note:
  assumes "kept hz E s" "quiet a"
  shows "kept hz E (note_action a s)"
  unfolding kept_def
proof
  assume w: "within hz (trace (note_action a s))"
  then have "within hz (trace s)" by (auto simp: note_action_def dest: within_Cons)
  with assms(1) have "sim_inv E s" by (simp add: kept_def)
  with assms(2) show "sim_inv E (note_action a s)"
    by (cases a) (auto simp: quiet_def note_action_def sim_inv_defs cur_rank_def IsCancelled_def)
qed

section \<open>Scheduling\<close>

lemma new_event_keeps:
  assumes "kept hz E s" "within hz (trace s) \<Longrightarrow> unat (m_currentTs s) \<le> unat ts" "hz \<le> 2 ^ 63"
  shows "keeps hz s (new_event spec_scheduler ts context impl E s)"
proof -
  define ev where "ev = \<lparr>ev_impl = impl, ev_ts = ts, ev_uid = m_uid s, ev_context = context\<rparr>"
  define s1 where "s1 = note_action (Scheduled ev) (s\<lparr>m_uid := m_uid s + 1\<rparr>)"
  define s2 where "s2 = s1\<lparr>m_unscheduledEvents := m_unscheduledEvents s + 1\<rparr>"
  have l: "longer s s1" "longer s s2" by (simp_all add: s1_def s2_def longer_def note_action_def)
  have "m_unscheduledEvents s + 1 < 2 ^ 31 \<and> sim_inv (insert ev E) s2" if w: "within hz (trace s1)"
  proof -
    have w0: "within hz (trace s)" using l(1) w by (rule longer_within)
    then have i: "sim_inv E s" and ts: "unat (m_currentTs s) \<le> unat ts" using assms(1,2) by (simp_all add: kept_def)
    have c: "uid_count (trace s) + 5 < 2 ^ 31" using w0 by (simp add: within_def)
    have fin: "finite E" using i by (rule sim_inv_finite)
    have q: "E \<subseteq> scheduled (trace s)" "unat (m_uid s) = uid_count (trace s) + 4"
      "m_unscheduledEvents s = int (card E)" "unat (m_currentUid s) < unat (m_uid s)"
      "unat (m_currentTs s) < 2 ^ 63" "\<forall>e \<in> E. cur_rank s < rank e"
      using i by (simp_all add: sim_inv_def queue_ok_def)
    have u: "unat (m_uid s + 1) = uid_count (trace s) + 5"
      using c q(2) by (simp add: unat_word_ariths)
    have fresh: "ev_uid ev \<notin> ev_uid ` scheduled (trace s)"
      using i q(2) by (auto simp: sim_inv_def scheduled_ok_def ev_def)
    then have "ev \<notin> scheduled (trace s)" by auto
    then have "ev \<notin> E" using q(1) by auto
    have "card E \<le> uid_count (trace s)"
      using card_mono [OF finite_scheduled q(1)] card_scheduled by (rule le_trans)
    then have "m_unscheduledEvents s + 1 < 2 ^ 31" using c q(3) by simp
    moreover have later: "cur_rank s < rank ev"
      using ts q(4) unfolding later_iff by (auto simp: ev_def)
    moreover have "queue_ok (insert ev E) s2"
      using q u later \<open>ev \<notin> E\<close> fin
      by (simp add: queue_ok_def s2_def s1_def note_action_def cur_rank_def insert_subset subset_insertI2)
    moreover have "scheduled_ok (insert ev E) s2"
    proof -
      have "uids_distinct (scheduled (trace s2))"
        using i fresh by (simp add: s2_def s1_def note_action_def sim_inv_def scheduled_ok_def uids_distinct_insert)
      then show ?thesis
        using i q(2) by (auto simp: sim_inv_def scheduled_ok_def s2_def s1_def note_action_def cur_rank_def IsCancelled_def ev_def)
    qed
    moreover have "executed_ok (insert ev E) s2"
    proof -
      have "ev \<notin> removed (trace s)"
        using i \<open>ev \<notin> scheduled (trace s)\<close> by (auto simp: sim_inv_def executed_ok_def)
      then show ?thesis
        using i by (auto simp: sim_inv_def executed_ok_def s2_def s1_def note_action_def cur_rank_def)
    qed
    moreover have "others_ok s2"
      using i by (simp add: sim_inv_def others_ok_def s2_def s1_def note_action_def)
    moreover have "cancel_ok s2"
      using i by (simp add: sim_inv_def cancel_ok_def s2_def s1_def note_action_def IsCancelled_def)
    ultimately show ?thesis by (simp add: sim_inv_def)
  qed
  note ok = this
  have "kept hz (insert ev E) s2" unfolding kept_def
  proof
    assume "within hz (trace s2)"
    then have "within hz (trace s1)" by (simp add: s2_def)
    with ok show "sim_inv (insert ev E) s2" by simp
  qed
  then have "keeps hz s (Inr (ev, insert ev E, s2))" using l(2) by (rule keeps_Inr [rotated])
  moreover have "new_event spec_scheduler ts context impl E s =
    oguard CountOverflow s1 (m_unscheduledEvents s + 1 < 2 ^ 31) (Inr (ev, insert ev E, s2))"
    by (simp add: new_event_def Let_def osched_def flip: ev_def s1_def s2_def)
  ultimately show ?thesis using ok l(1) by (auto intro: keeps_guard)
qed

lemma kept_ts: "kept hz E s \<Longrightarrow> within hz (trace s) \<Longrightarrow> unat (m_currentTs s) < 2 ^ 63"
  by (simp add: kept_def sim_inv_def queue_ok_def)

lemma time_keeps:
  assumes "kept hz E s" "hz \<le> 2 ^ 63" "within hz (trace s) \<Longrightarrow> 0 \<le> sint delay"
    and "\<And>ev E' s'. kept hz E' s' \<Longrightarrow> keeps hz s' (f ev E' s')"
  shows "keeps hz s (absolute_time delay s (\<lambda>ts. obind (new_event spec_scheduler ts context impl E s) f))"
  unfolding absolute_time_def Let_def
proof (rule keeps_guard)
  assume t: "- (2 ^ 63) \<le> sint delay + sint (m_currentTs s) \<and> sint delay + sint (m_currentTs s) < 2 ^ 63"
  show "keeps hz s (obind (new_event spec_scheduler (word_of_int (sint delay + sint (m_currentTs s))) context impl E s) f)"
    using assms t kept_ts by (intro keeps_bind new_event_keeps absolute_time_ok) auto
qed (simp_all add: harmless_def kept_trace [OF assms(1)])

lemma Schedule_keeps:
  assumes "kept hz E s" "hz \<le> 2 ^ 63"
  shows "keeps hz s (Schedule spec_scheduler delay impl E s)"
  unfolding Schedule_def
  using assms by (intro keeps_guard time_keeps keeps_Inr) (simp_all add: harmless_def kept_trace [OF assms(1)])

lemma ScheduleWithContext_keeps:
  assumes "kept hz E s" "hz \<le> 2 ^ 63"
  shows "keeps hz s (ScheduleWithContext spec_scheduler main_thread context delay impl E s)"
proof -
  define s0 where "s0 = note_action (Calls delay) s"
  have l: "longer s s0" by (simp add: s0_def longer_note)
  have k: "kept hz E s0" unfolding s0_def using assms(1) by (rule kept_note) (simp add: quiet_def)
  have d: "within hz (trace s0) \<Longrightarrow> 0 \<le> sint delay"
    by (simp add: s0_def note_action_def within_def)
  have "keeps hz s0 (absolute_time delay s0 (\<lambda>ts.
          obind (new_event spec_scheduler ts context impl E s0) (\<lambda>ev q1 s1. Inr ((), q1, s1))))"
    using k assms(2) d by (intro time_keeps keeps_Inr) simp_all
  moreover have "kept hz E (s0\<lparr>m_eventsWithContext := m_eventsWithContext s0 @ [(context, delay, impl)],
      m_eventsWithContextEmpty := False\<rparr>)"
    using k d by (auto simp: kept_def sim_inv_defs cur_rank_def IsCancelled_def)
  then have "keeps hz s0 (Inr ((), E, s0\<lparr>m_eventsWithContext := m_eventsWithContext s0 @ [(context, delay, impl)],
      m_eventsWithContextEmpty := False\<rparr>))"
    by (intro keeps_Inr longer_eq) simp
  ultimately show ?thesis
    unfolding ScheduleWithContext_def Let_def s0_def [symmetric]
    using l by (cases main_thread) (simp_all add: keeps_longer [OF l])
qed

lemma ScheduleDestroy_keeps:
  assumes "kept hz E s"
  shows "keeps hz s (ScheduleDestroy impl E s)"
proof -
  define s' where "s' = note_action (ScheduledDestroy impl)
    (s\<lparr>m_destroyEvents := m_destroyEvents s @
        [\<lparr>id_impl = Some impl, id_ts = m_currentTs s, id_context = 0xffffffff, id_uid = 2\<rparr>], m_uid := m_uid s + 1\<rparr>)"
  have "kept hz E s'" unfolding kept_def
  proof
    assume "within hz (trace s')"
    then have w: "within hz (trace s)" by (auto simp: s'_def note_action_def dest: within_Cons)
    then have i: "sim_inv E s" using assms by (simp add: kept_def)
    have "uid_count (trace s) + 5 < 2 ^ 31" "unat (m_uid s) = uid_count (trace s) + 4"
      using w i by (simp_all add: within_def sim_inv_def queue_ok_def)
    then have "unat (m_uid s + 1) = uid_count (trace s) + 5" by (simp add: unat_word_ariths)
    then show "sim_inv E s'"
      using i by (auto simp: s'_def note_action_def sim_inv_defs cur_rank_def IsCancelled_def)
  qed
  then show ?thesis
    unfolding ScheduleDestroy_def Let_def s'_def [symmetric]
    by (intro keeps_Inr) (simp_all add: s'_def longer_def note_action_def)
qed

section \<open>Removing and cancelling\<close>

lemma Cancel_note_kept: "kept hz E s \<Longrightarrow> kept hz E (EventImpl_Cancel impl s)"
proof -
  assume k: "kept hz E s"
  have "sim_inv E (EventImpl_Cancel impl s)" if "sim_inv E s"
    using that by (auto simp: EventImpl_Cancel_def note_action_def sim_inv_defs cur_rank_def IsCancelled_def)
  with k show ?thesis
    by (auto simp: kept_def EventImpl_Cancel_def note_action_def dest: within_Cons)
qed

lemma Notified_kept: "kept hz E s \<Longrightarrow> \<not> IsCancelled impl s \<Longrightarrow> kept hz E (note_action (Notified impl) s)"
proof -
  assume k: "kept hz E s" "\<not> IsCancelled impl s"
  then have "sim_inv E (note_action (Notified impl) s)" if "sim_inv E s"
    using that by (auto simp: note_action_def sim_inv_defs cur_rank_def IsCancelled_def)
  with k show ?thesis by (auto simp: kept_def note_action_def dest: within_Cons)
qed

lemma Cancel_keeps: "kept hz E s \<Longrightarrow> longer s (Cancel i s) \<and> kept hz E (Cancel i s)"
  by (simp add: Cancel_def Cancel_note_kept EventImpl_Cancel_def longer_note split: option.splits)
    (simp add: Cancel_note_kept flip: EventImpl_Cancel_def)

lemma not_expired:
  assumes "id_uid i \<noteq> DESTROY" "\<not> IsExpired i s" "id_impl i = Some impl"
  shows "cur_rank s < rank (event_of impl i)" "\<not> IsCancelled impl s"
proof -
  show "\<not> IsCancelled impl s" using assms by (simp add: IsExpired_def)
  show "cur_rank s < rank (event_of impl i)"
    using assms unfolding later_iff
    by (auto simp: IsExpired_def event_of_def word_less_nat_alt word_le_nat_alt word_unat_eq_iff)
qed

lemma sim_inv_waiting:
  assumes "sim_inv E s" "e \<in> scheduled (trace s)" "cur_rank s < rank e" "\<not> IsCancelled (ev_impl e) s"
  shows "e \<in> E"
proof -
  have "e \<in> E \<or> e \<in> set (executed (trace s)) \<or> IsCancelled (ev_impl e) s"
    using assms(1,2) by (simp add: sim_inv_def scheduled_ok_def)
  moreover have "e \<in> set (executed (trace s)) \<longrightarrow> rank e \<le> cur_rank s"
    using assms(1) by (simp add: sim_inv_def executed_ok_def)
  ultimately show ?thesis using assms(3,4) by linarith
qed

lemma Remove_keeps:
  assumes "kept hz E s"
  shows "keeps hz s (Remove spec_scheduler i E s)"
proof (cases "id_uid i = DESTROY \<or> IsExpired i s \<or> id_impl i = None")
  case True
  with assms show ?thesis
    by (auto simp: Remove_def intro!: keeps_Inr longer_eq)
next
  case False
  then obtain impl where i: "id_uid i \<noteq> DESTROY" "\<not> IsExpired i s" "id_impl i = Some impl" by auto
  define ev where "ev = event_of impl i"
  define s0 where "s0 = note_action (RemoveCall ev) s"
  define s1 where "s1 = note_action (Removed ev) s0"
  define s2 where "s2 = EventImpl_Cancel impl s1"
  define s3 where "s3 = s2\<lparr>m_unscheduledEvents := m_unscheduledEvents s2 - 1\<rparr>"
  have l: "longer s s0" "longer s s3"
    by (simp_all add: s0_def s1_def s2_def s3_def EventImpl_Cancel_def longer_def note_action_def)
  have mem: "ev \<in> E" if w: "within hz (trace s0)"
  proof -
    have w0: "within hz (trace s)" using l(1) w by (rule longer_within)
    have "ev \<in> scheduled (trace s)"
      using w by (simp add: s0_def note_action_def within_def scheduled_def)
    with assms w0 not_expired [OF i] show ?thesis
      unfolding ev_def by (intro sim_inv_waiting [of E s]) (simp_all add: kept_def event_of_def)
  qed
  have "kept hz (E - {ev}) s3" unfolding kept_def
  proof
    assume "within hz (trace s3)"
    then have w: "within hz (trace s0)"
      by (auto simp: s3_def s2_def s1_def EventImpl_Cancel_def note_action_def dest: within_Cons)
    then have w0: "within hz (trace s)" by (rule longer_within [OF l(1)])
    have e: "ev \<in> E" using mem w .
    have inv: "sim_inv E s" using assms w0 by (simp add: kept_def)
    have fin: "finite E" using inv by (rule sim_inv_finite)
    then have card: "0 < card E" using e by (auto simp: card_gt_0_iff)
    have "queue_ok (E - {ev}) s3"
      using inv e fin card
      by (auto simp: sim_inv_def queue_ok_def s3_def s2_def s1_def s0_def EventImpl_Cancel_def note_action_def
          cur_rank_def of_nat_diff)
    moreover have "scheduled_ok (E - {ev}) s3"
      using inv
      by (auto simp: sim_inv_def scheduled_ok_def s3_def s2_def s1_def s0_def EventImpl_Cancel_def note_action_def
          cur_rank_def IsCancelled_def ev_def event_of_def)
    moreover have "executed_ok (E - {ev}) s3"
    proof -
      have "cur_rank s < rank ev" unfolding ev_def using i by (rule not_expired)
      moreover have "cur_rank s3 = cur_rank s"
        by (simp add: s3_def s2_def s1_def s0_def EventImpl_Cancel_def note_action_def cur_rank_def)
      moreover have "trace s3 = Cancelled impl # Removed ev # RemoveCall ev # trace s"
        by (simp add: s3_def s2_def s1_def s0_def EventImpl_Cancel_def note_action_def)
      ultimately show ?thesis
        using inv e by (fastforce simp: sim_inv_def queue_ok_def executed_ok_def)
    qed
    moreover have "others_ok s3"
      using inv by (simp add: sim_inv_def others_ok_def s3_def s2_def s1_def s0_def EventImpl_Cancel_def note_action_def)
    moreover have "cancel_ok s3"
      using inv by (auto simp: sim_inv_def cancel_ok_def s3_def s2_def s1_def s0_def EventImpl_Cancel_def
          note_action_def IsCancelled_def)
    ultimately show "sim_inv (E - {ev}) s3" by (simp add: sim_inv_def)
  qed
  then have "keeps hz s (Inr ((), E - {ev}, s3))" using l(2) by (rule keeps_Inr [rotated])
  moreover have "Remove spec_scheduler i E s =
      (if ev \<in> E then Inr ((), E - {ev}, s3) else Inl (Sched NsAssert, s0))"
    using i by (simp add: Remove_def Let_def osched_def ev_def [symmetric] flip: s0_def s1_def s2_def s3_def)
  ultimately show ?thesis using mem l(1) by (auto intro: keeps_Inl)
qed

section \<open>Programs\<close>

lemma reply_map_keeps: "keeps hz s m \<Longrightarrow> keeps hz s (reply_map f m)"
  unfolding reply_map_def by (erule keeps_bind) (simp add: keeps_Inr)

lemma handle_keeps:
  assumes "kept hz E s" "hz \<le> 2 ^ 63"
  shows "keeps hz s (handle spec_scheduler r E s)"
  using assms Schedule_keeps [OF assms] ScheduleWithContext_keeps [OF assms] ScheduleDestroy_keeps [OF assms(1)]
    Remove_keeps [OF assms(1)] Cancel_keeps [OF assms(1)]
  by (cases r)
    (simp_all add: reply_map_keeps ScheduleNow_def keeps_Inr longer_eq Stop_def Stop_delay_def
      keeps_longer [OF _ Schedule_keeps])

lemma run_prog_keeps:
  assumes "hz \<le> 2 ^ 63"
  shows "kept hz E s \<Longrightarrow> keeps hz s (run_prog spec_scheduler p E s)"
proof (induction p arbitrary: E s)
  case (Call r k)
  then show ?case using assms by (auto intro!: keeps_bind handle_keeps)
qed (simp add: keeps_Inr longer_eq)

lemma Invoke_keeps:
  assumes "hz \<le> 2 ^ 63" "kept hz E s"
  shows "keeps hz s (Invoke spec_scheduler notify impl E s)"
proof (cases "IsCancelled impl s")
  case False
  define s0 where "s0 = note_action (Notified impl) s"
  have k: "kept hz E s0" unfolding s0_def using assms(2) False by (rule Notified_kept)
  have l: "longer s s0" by (simp add: s0_def longer_note)
  have "keeps hz s (Notify spec_scheduler notify impl E s)"
    unfolding Notify_def Let_def s0_def [symmetric]
    using k l assms(1) keeps_longer [OF l run_prog_keeps [OF assms(1) k]]
    by (auto simp: Stop_def longer_def intro!: keeps_Inr)
  then show ?thesis using False by (simp add: Invoke_def)
qed (simp add: Invoke_def keeps_Inr assms(2))

section \<open>The run loop\<close>

text \<open>The events of the other threads have the time at which they are taken over.\<close>

lemma insert_with_context_keeps:
  assumes "hz \<le> 2 ^ 63" "kept hz E s"
    and "\<And>c d i. (c, d, i) \<in> set es \<Longrightarrow> within hz (trace s) \<Longrightarrow> 0 \<le> sint d"
  shows "keeps hz s (insert_with_context spec_scheduler es E s)"
  using assms(2,3)
proof (induction es arbitrary: E s)
  case (Cons a es)
  obtain c d i where a: "a = (c, d, i)" by (cases a)
  have now: "unat (m_currentTs s) \<le> unat (m_currentTs s + d)" if w: "within hz (trace s)"
  proof -
    have "unat d < 2 ^ 63" using Cons.prems(2) [of c d i] w by (simp add: a nonneg_sint)
    then show ?thesis using kept_ts [OF Cons.prems(1) w] by (simp add: unat_word_ariths)
  qed
  show ?case unfolding a insert_with_context.simps
  proof (rule keeps_bind [OF new_event_keeps [OF Cons.prems(1) now assms(1)]])
    fix x E' s'
    assume n: "longer s s'" "kept hz E' s'"
    show "keeps hz s' (insert_with_context spec_scheduler es E' s')"
      using n Cons.prems(2) longer_within [OF n(1)] by (intro Cons.IH) auto
  qed
qed (simp add: keeps_Inr)

lemma ProcessEventsWithContext_keeps:
  assumes "hz \<le> 2 ^ 63" "kept hz E s"
  shows "keeps hz s (ProcessEventsWithContext spec_scheduler E s)"
proof -
  define s1 where "s1 = s\<lparr>m_eventsWithContext := [], m_eventsWithContextEmpty := True\<rparr>"
  have i: "sim_inv E s1" if "sim_inv E s"
    using that by (auto simp: s1_def sim_inv_defs cur_rank_def IsCancelled_def)
  then have k: "kept hz E s1" using assms(2) by (simp add: s1_def kept_def)
  have "keeps hz s1 (insert_with_context spec_scheduler (m_eventsWithContext s) E s1)"
    using assms k by (intro insert_with_context_keeps) (auto simp: kept_def sim_inv_def others_ok_def s1_def)
  then have "keeps hz s (insert_with_context spec_scheduler (m_eventsWithContext s) E s1)"
    by (rule keeps_longer [rotated]) (simp add: s1_def longer_def)
  then show ?thesis
    using assms(2) unfolding ProcessEventsWithContext_def s1_def [symmetric]
    by (simp add: keeps_Inr)
qed

text \<open>The event that runs is the next one: it becomes the current one.\<close>

lemma next_event:
  assumes "kept hz E s" "E \<noteq> {}" "within hz (trace s)"
  shows "is_next (spec_next E) E" "cur_rank s < rank (spec_next E)" "m_currentTs s \<le> ev_ts (spec_next E)"
proof -
  have i: "sim_inv E s" using assms(1,3) by (simp add: kept_def)
  show n: "is_next (spec_next E) E"
    using sim_inv_finite [OF i] assms(2) sim_inv_uids [OF i] by (rule spec_next_is_next)
  then show l: "cur_rank s < rank (spec_next E)"
    using i by (simp add: is_next_def sim_inv_def queue_ok_def)
  then show "m_currentTs s \<le> ev_ts (spec_next E)"
    unfolding later_iff by (auto simp: word_le_nat_alt)
qed

lemma execute_kept:
  assumes "kept hz E s" "E \<noteq> {}" "ev = spec_next E" "hz \<le> 2 ^ 63"
    and "s' = note_action (Executed ev)
       (s\<lparr>m_unscheduledEvents := m_unscheduledEvents s - 1, m_eventCount := m_eventCount s + 1,
          m_currentTs := ev_ts ev, m_currentContext := ev_context ev, m_currentUid := ev_uid ev\<rparr>)"
  shows "kept hz (E - {ev}) s'"
  unfolding kept_def
proof
  assume "within hz (trace s')"
  then have w: "within hz (trace s)" by (auto simp: assms(5) note_action_def dest: within_Cons)
  have i: "sim_inv E s" using assms(1) w by (simp add: kept_def)
  have ev: "ev \<in> E" "\<forall>x \<in> E. rank ev \<le> rank x" "cur_rank s < rank ev"
    using next_event [OF assms(1,2) w] by (simp_all add: assms(3) is_next_def)
  have sch: "ev \<in> scheduled (trace s)" using i ev(1) by (auto simp: sim_inv_def queue_ok_def)
  have cur: "cur_rank s' = rank ev" by (simp add: assms(5) note_action_def cur_rank_def rank_def)
  have tr: "trace s' = Executed ev # trace s" by (simp add: assms(5) note_action_def)
  have fin: "finite E" using i by (rule sim_inv_finite)
  have after: "rank ev < rank x" if "x \<in> E - {ev}" for x
  proof -
    have "rank x \<noteq> rank ev"
      using that ev(1) uid_inj [OF sim_inv_uids [OF i], of x ev] by (auto simp: rank_eq)
    then show ?thesis using that ev(2) by fastforce
  qed
  have "queue_ok (E - {ev}) s'"
  proof -
    have "unat (ev_ts ev) < hz" using w sch by (auto simp: within_def dest: honest_scheduled)
    moreover have "unat (ev_uid ev) < uid_count (trace s) + 4" "unat (m_uid s) = uid_count (trace s) + 4"
      using i sch by (auto simp: sim_inv_def scheduled_ok_def queue_ok_def)
    moreover have "0 < card E" using fin ev(1) by (auto simp: card_gt_0_iff)
    ultimately show ?thesis
      using i ev(1) fin after assms(4)
      by (auto simp: sim_inv_def queue_ok_def cur tr of_nat_diff) (simp_all add: assms(5) note_action_def)
  qed
  moreover have "scheduled_ok (E - {ev}) s'"
  proof -
    have c: "IsCancelled impl s' \<longleftrightarrow> IsCancelled impl s" for impl
      by (simp add: assms(5) note_action_def IsCancelled_def)
    show ?thesis using i ev(3) by (auto simp: sim_inv_def scheduled_ok_def cur tr c)
  qed
  moreover have "executed_ok (E - {ev}) s'"
    using i ev(1,3) sch by (auto simp: sim_inv_def executed_ok_def cur tr)
  moreover have "others_ok s'" "cancel_ok s'"
    using i by (simp_all add: sim_inv_def others_ok_def cancel_ok_def assms(5) note_action_def IsCancelled_def)
  ultimately show "sim_inv (E - {ev}) s'" by (simp add: sim_inv_def)
qed

lemma ProcessOneEvent_keeps:
  assumes "hz \<le> 2 ^ 63" "kept hz E s" "E \<noteq> {}"
  shows "keeps hz s (ProcessOneEvent spec_scheduler notify E s)"
proof -
  define ev where "ev = spec_next E"
  define s1 where "s1 = note_action (Executed ev)
     (s\<lparr>m_unscheduledEvents := m_unscheduledEvents s - 1, m_eventCount := m_eventCount s + 1,
        m_currentTs := ev_ts ev, m_currentContext := ev_context ev, m_currentUid := ev_uid ev\<rparr>)"
  have k: "kept hz (E - {ev}) s1" using assms(2,3) ev_def assms(1) s1_def by (rule execute_kept)
  have l: "longer s s1" by (simp add: s1_def longer_note)
  have "ProcessOneEvent spec_scheduler notify E s =
      oguard TimeOrder s (m_currentTs s \<le> ev_ts ev)
        (obind (Invoke spec_scheduler notify (ev_impl ev) (E - {ev}) s1) (\<lambda>_. ProcessEventsWithContext spec_scheduler))"
    using assms(3) by (simp add: ProcessOneEvent_def osched_def Let_def s1_def flip: ev_def)
  moreover have "keeps hz s1 (obind (Invoke spec_scheduler notify (ev_impl ev) (E - {ev}) s1)
      (\<lambda>_. ProcessEventsWithContext spec_scheduler))"
    using Invoke_keeps [OF assms(1) k] by (rule keeps_bind) (rule ProcessEventsWithContext_keeps [OF assms(1)])
  ultimately show ?thesis
    using next_event(3) [OF assms(2,3)] l by (auto simp: ev_def intro!: keeps_guard intro: keeps_longer)
qed

lemma other_threads_keeps:
  assumes "hz \<le> 2 ^ 63"
  shows "kept hz E s \<Longrightarrow> keeps hz s (other_threads spec_scheduler cs E s)"
proof (induction cs arbitrary: E s)
  case (Cons a cs)
  obtain c d i where "a = (c, d, i)" by (cases a)
  with Cons assms show ?case by (auto intro!: keeps_bind ScheduleWithContext_keeps)
qed (simp add: keeps_Inr)

text \<open>The other threads do not touch the queue.\<close>

lemma other_threads_queue: "other_threads V cs q s = Inr (x, q', s') \<Longrightarrow> q' = q"
proof (induction cs arbitrary: s)
  case (Cons a cs)
  obtain c d i where "a = (c, d, i)" by (cases a)
  with Cons show ?case by (auto simp: ScheduleWithContext_def Let_def obind_def)
qed simp

lemma run_loop_keeps:
  assumes "hz \<le> 2 ^ 63"
  shows "kept hz E s \<Longrightarrow> keeps hz s (run_loop spec_scheduler notify others n fuel E s)"
proof (induction fuel arbitrary: n E s)
  case (Suc fuel)
  show ?case
  proof (cases "IsFinished spec_scheduler E s")
    case False
    then have "E \<noteq> {}" by (simp add: IsFinished_def)
    then show ?thesis
      using False Suc assms
      by (auto intro!: keeps_bind other_threads_keeps ProcessOneEvent_keeps dest: other_threads_queue)
  qed (simp add: keeps_Inr Suc.prems)
qed (simp add: keeps_Inr keeps_Inl harmless_def kept_trace)

theorem Run_keeps:
  fixes s :: "'w sim"
  assumes "hz \<le> 2 ^ 63" "kept hz E s"
  shows "keeps hz s (Run spec_scheduler notify others fuel E s)"
  unfolding Run_def
proof (intro keeps_bind)
  show "keeps hz s (other_threads spec_scheduler (others 0) E s)"
    using assms by (rule other_threads_keeps)
next
  fix x E' s' assume "kept hz E' s'"
  with assms(1) show "keeps hz s' (ProcessEventsWithContext spec_scheduler E' s')"
    by (rule ProcessEventsWithContext_keeps)
next
  fix x :: unit and E' and s' :: "'w sim" assume k: "kept hz E' s'"
  have "keeps hz (s'\<lparr>m_stop := False\<rparr>) (run_loop spec_scheduler notify others 0 fuel E' (s'\<lparr>m_stop := False\<rparr>))"
    using assms(1) k by (intro run_loop_keeps) simp_all
  then show "keeps hz s' (run_loop spec_scheduler notify others 0 fuel E' (s'\<lparr>m_stop := False\<rparr>))"
    by (rule keeps_longer [OF longer_eq, rotated]) simp
next
  fix x E' s' assume k: "kept hz E' s'"
  then show "keeps hz s' (oguard LostEvents s' (\<not> s_IsEmpty spec_scheduler E' \<or> m_unscheduledEvents s' = 0)
      (Inr ((), E', s')))"
    by (intro keeps_guard keeps_Inr) (auto simp: kept_def sim_inv_def queue_ok_def)
qed

end
