(* ===== verification/SimulatorRefine.thy ===== *)
theory SimulatorRefine
  imports SimulatorSpec
begin

text \<open>
  The simulator on any scheduler that meets the contract of an event list does what it does on the
  specification.
\<close>

section \<open>Traces only grow\<close>

definition ostate :: "('a, 'q, 'w) outcome \<Rightarrow> 'w sim" where
  "ostate m = (case m of Inl (e, s) \<Rightarrow> s | Inr (x, q, s) \<Rightarrow> s)"

definition extends :: "'w sim \<Rightarrow> ('a, 'q, 'w) outcome \<Rightarrow> bool" where
  "extends s m \<longleftrightarrow> longer s (ostate m)"

named_theorems extends_intros \<open>calls extend the trace\<close>

lemma ostate_simps [simp]: "ostate (Inl (e, s)) = s" "ostate (Inr (x, q, s)) = s"
  by (simp_all add: ostate_def)

lemma extends_Inl [extends_intros]: "longer s s' \<Longrightarrow> extends s (Inl (e, s'))"
  by (simp add: extends_def)

lemma extends_Inr [extends_intros]: "longer s s' \<Longrightarrow> extends s (Inr (x, q, s'))"
  by (simp add: extends_def)

lemma extends_longer: "longer s s' \<Longrightarrow> extends s' m \<Longrightarrow> extends s m"
  by (auto simp: extends_def intro: longer_trans)

lemma extends_bind [extends_intros]:
  assumes "extends s m" "\<And>x q s'. extends s' (f x q s')"
  shows "extends s (obind m f)"
proof (cases m)
  case (Inl e)
  then show ?thesis using assms(1) by (cases e) (simp add: obind_def extends_def)
next
  case (Inr y)
  obtain x q s' where y: "y = (x, q, s')" by (cases y)
  have "longer s s'" using assms(1) by (simp add: Inr y extends_def)
  then show ?thesis using assms(2) by (simp add: Inr y obind_def extends_longer)
qed

lemma extends_guard [extends_intros]: "longer s s' \<Longrightarrow> extends s m \<Longrightarrow> extends s (oguard e s' b m)"
  by (simp add: oguard_def extends_Inl)

lemma extends_sched [extends_intros]: "longer s s' \<Longrightarrow> (\<And>x. extends s (f x)) \<Longrightarrow> extends s (osched s' m f)"
  by (simp add: osched_def extends_Inl split: sum.splits)

lemma longer_notes:
  "longer s (note_action a s' \<lparr>m_unscheduledEvents := n\<rparr>) \<longleftrightarrow> longer s (note_action a s')"
  by (simp add: longer_def note_action_def)

lemma new_event_extends [extends_intros]: "extends s (new_event V ts c impl q s)"
  unfolding new_event_def Let_def by (intro extends_intros) (simp_all add: longer_notes longer_note)

lemma absolute_time_extends [extends_intros]: "(\<And>ts. extends s (k ts)) \<Longrightarrow> extends s (absolute_time d s k)"
  unfolding absolute_time_def Let_def by (intro extends_intros longer_refl)

lemma Schedule_extends [extends_intros]: "extends s (Schedule V d impl q s)"
  unfolding Schedule_def by (intro extends_intros longer_refl)

lemma ScheduleWithContext_extends [extends_intros]: "extends s (ScheduleWithContext V b c d impl q s)"
proof -
  define s0 where "s0 = note_action (Calls d) s"
  have "extends s0 (absolute_time d s0 (\<lambda>ts. obind (new_event V ts c impl q s0) (\<lambda>ev q1 s1. Inr ((), q1, s1))))"
    by (intro extends_intros longer_refl)
  moreover have "longer s s0" by (simp add: s0_def longer_note)
  ultimately show ?thesis
    by (simp add: ScheduleWithContext_def Let_def extends_longer flip: s0_def)
      (simp add: extends_def longer_def)
qed

lemma Remove_extends [extends_intros]: "extends s (Remove V i q s)"
  by (auto simp: Remove_def Let_def extends_def longer_def osched_def EventImpl_Cancel_def note_action_def
      split: option.splits sum.splits)

lemma Cancel_longer: "longer s (Cancel i s)"
  by (auto simp: Cancel_def EventImpl_Cancel_def note_action_def longer_def split: option.splits)

lemma reply_map_extends [extends_intros]: "extends s m \<Longrightarrow> extends s (reply_map f m)"
  unfolding reply_map_def by (intro extends_intros longer_refl)

lemma handle_extends [extends_intros]: "extends s (handle V r q s)"
proof (cases r)
  case (ReqScheduleDestroy i)
  then show ?thesis
    by (auto simp: ScheduleDestroy_def Let_def longer_def note_action_def intro!: extends_intros)
next
  case (ReqCancel i)
  then show ?thesis by (simp add: extends_Inr Cancel_longer)
next
  case (ReqStopDelay d i)
  then show ?thesis
    by (auto simp: Stop_delay_def intro!: extends_intros extends_longer [OF longer_eq Schedule_extends])
qed (auto simp: ScheduleNow_def Stop_def intro!: extends_intros longer_eq)

lemma run_prog_extends [extends_intros]: "extends s (run_prog V p q s)"
  by (induction p arbitrary: q s) (auto intro!: extends_intros longer_eq)

lemma Invoke_extends [extends_intros]: "extends s (Invoke V notify impl q s)"
proof -
  define s0 where "s0 = note_action (Notified impl) s"
  have l: "longer s s0" by (simp add: s0_def longer_note)
  moreover have "extends s0 (Inr ((), q, Stop s0))" by (simp add: extends_def longer_def Stop_def)
  moreover have "extends s0 (run_prog V (notify impl (world s0)) q s0)" by (rule run_prog_extends)
  ultimately have "extends s (Notify V notify impl q s)"
    by (simp add: Notify_def Let_def extends_longer flip: s0_def)
  then show ?thesis by (simp add: Invoke_def extends_Inr)
qed

lemma insert_with_context_extends [extends_intros]: "extends s (insert_with_context V es q s)"
  by (induction V es q s rule: insert_with_context.induct) (auto intro!: extends_intros)

lemma ProcessEventsWithContext_extends [extends_intros]: "extends s (ProcessEventsWithContext V q s)"
  by (auto simp: ProcessEventsWithContext_def
      intro!: extends_intros extends_longer [OF longer_eq insert_with_context_extends])

lemma other_threads_extends [extends_intros]: "extends s (other_threads V cs q s)"
  by (induction V cs q s rule: other_threads.induct) (auto intro!: extends_intros)

lemma ProcessOneEvent_extends [extends_intros]: "extends s (ProcessOneEvent V notify q s)"
proof -
  have "extends s (obind (Invoke V notify impl q' (note_action a s')) (\<lambda>_ q2 s2. ProcessEventsWithContext V q2 s2))"
    if "trace s' = trace s" for impl q' a s'
    using longer_note [OF that, of a] by (rule extends_longer) (intro extends_bind Invoke_extends ProcessEventsWithContext_extends)
  then show ?thesis
    by (auto simp: ProcessOneEvent_def Let_def osched_def extends_Inl intro!: extends_guard split: sum.splits)
qed

lemma run_loop_extends [extends_intros]: "extends s (run_loop V notify others n fuel q s)"
  by (induction fuel arbitrary: n q s) (auto intro!: extends_intros)

lemma Run_extends:
  fixes s :: "'w sim"
  shows "extends s (Run V notify others fuel q s)"
proof -
  have "extends s' (run_loop V notify others 0 fuel q' (s'\<lparr>m_stop := False\<rparr>))" for q' and s' :: "'w sim"
    by (rule extends_longer [OF longer_eq run_loop_extends]) simp
  then show ?thesis unfolding Run_def by (intro extends_intros longer_refl)
qed

section \<open>Simulation\<close>

text \<open>The same outcome, with queues that correspond.\<close>

definition matches :: "('q \<Rightarrow> event set \<Rightarrow> 'w sim \<Rightarrow> bool) \<Rightarrow> ('a, 'q, 'w) outcome \<Rightarrow> ('a, event set, 'w) outcome \<Rightarrow> bool" where
  "matches R m M =
     (case (m, M) of
        (Inl e, Inl e') \<Rightarrow> e = e'
      | (Inr (x, q, s), Inr (y, E, s')) \<Rightarrow> x = y \<and> s = s' \<and> R q E s
      | _ \<Rightarrow> False)"

lemma matches_simps [simp]:
  "matches R (Inl e) (Inl e') \<longleftrightarrow> e = e'"
  "matches R (Inr (x, q, s)) (Inr (y, E, s')) \<longleftrightarrow> x = y \<and> s = s' \<and> R q E s"
  by (simp_all add: matches_def)

lemma matches_cases:
  assumes "matches R m M"
  obtains e where "m = Inl e" "M = Inl e"
  | x q E s where "m = Inr (x, q, s)" "M = Inr (x, E, s)" "R q E s"
  using assms by (cases m; cases M) (auto simp: matches_def)

text \<open>It is the same as long as one of the traces stays within its limits.\<close>

definition simulates ::
    "nat \<Rightarrow> ('q \<Rightarrow> event set \<Rightarrow> 'w sim \<Rightarrow> bool) \<Rightarrow> 'w sim \<Rightarrow> ('a, 'q, 'w) outcome \<Rightarrow> ('a, event set, 'w) outcome \<Rightarrow> bool" where
  "simulates hz R s m M \<longleftrightarrow> extends s m \<and> keeps hz s M \<and>
     (matches R m M \<or> (\<not> within hz (trace (ostate m)) \<and> \<not> within hz (trace (ostate M))))"

lemma keeps_extends: "keeps hz s M \<Longrightarrow> extends s M"
  by (auto simp: keeps_def extends_def split: sum.splits)

lemma extends_within: "extends s m \<Longrightarrow> within hz (trace (ostate m)) \<Longrightarrow> within hz (trace s)"
  by (auto simp: extends_def dest: longer_within)

lemma simulates_outside:
  "extends s m \<Longrightarrow> keeps hz s M \<Longrightarrow> \<not> within hz (trace s) \<Longrightarrow> simulates hz R s m M"
  using extends_within [of s m hz] extends_within [OF keeps_extends, of hz s M hz] by (auto simp: simulates_def)

lemma simulates_longer: "longer s s' \<Longrightarrow> simulates hz R s' m M \<Longrightarrow> simulates hz R s m M"
  by (auto simp: simulates_def intro: extends_longer keeps_longer)

lemma simulates_Inr: "longer s s' \<Longrightarrow> kept hz E s' \<Longrightarrow> R q E s' \<Longrightarrow> simulates hz R s (Inr (x, q, s')) (Inr (x, E, s'))"
  by (simp add: simulates_def extends_Inr keeps_Inr)

lemma simulates_Inl: "longer s s' \<Longrightarrow> (within hz (trace s') \<Longrightarrow> harmless e \<and> state_ok s') \<Longrightarrow>
   simulates hz R s (Inl (e, s')) (Inl (e, s'))"
  by (simp add: simulates_def extends_Inl keeps_Inl)

lemma simulates_guard:
  "(b \<Longrightarrow> simulates hz R s m M) \<Longrightarrow> longer s s' \<Longrightarrow>
   (\<not> b \<Longrightarrow> within hz (trace s') \<Longrightarrow> harmless e \<and> state_ok s') \<Longrightarrow>
   simulates hz R s (oguard e s' b m) (oguard e s' b M)"
  by (simp add: oguard_def simulates_Inl)

lemma ostate_bind:
  assumes "\<And>x q s'. extends s' (f x q s')"
  shows "longer (ostate m) (ostate (obind m f))"
proof (cases m)
  case (Inl e)
  then show ?thesis by (cases e) (simp add: obind_def)
next
  case (Inr y)
  obtain x q s' where "y = (x, q, s')" by (cases y)
  then show ?thesis using assms [of s' x q] by (simp add: Inr obind_def extends_def)
qed

lemma simulates_bind:
  assumes m: "simulates hz R s m M"
    and f: "\<And>x q s'. extends s' (f x q s')"
    and F: "\<And>x E s'. extends s' (F x E s')" "\<And>x E s'. M = Inr (x, E, s') \<Longrightarrow> kept hz E s' \<Longrightarrow> keeps hz s' (F x E s')"
    and fF: "\<And>x q E s'. m = Inr (x, q, s') \<Longrightarrow> M = Inr (x, E, s') \<Longrightarrow> R q E s' \<Longrightarrow> kept hz E s' \<Longrightarrow>
      simulates hz R s' (f x q s') (F x E s')"
  shows "simulates hz R s (obind m f) (obind M F)"
proof -
  have k: "keeps hz s (obind M F)" using m F(2) by (auto simp: simulates_def intro: keeps_bind)
  have e: "extends s (obind m f)" using m f by (auto simp: simulates_def intro: extends_bind)
  show ?thesis
  proof (cases "matches R m M")
    case False
    then have "\<not> within hz (trace (ostate (obind m f)))" "\<not> within hz (trace (ostate (obind M F)))"
      using m ostate_bind [of f m, OF f] ostate_bind [of F M, OF F(1)] longer_within
      unfolding simulates_def by blast+
    with k e show ?thesis by (simp add: simulates_def)
  next
    case True
    then show ?thesis
    proof (cases rule: matches_cases)
      case (1 e')
      with m show ?thesis by (cases e') (simp add: obind_def simulates_def extends_def keeps_def)
    next
      case (2 x q E s')
      then have "longer s s'" "kept hz E s'" using m by (simp_all add: simulates_def keeps_def)
      with fF [OF 2] show ?thesis by (simp add: 2 obind_def simulates_longer)
    qed
  qed
qed

section \<open>Any event list\<close>

locale simulator = event_list
begin

abbreviation table :: "'a scheduler" where
  "table \<equiv> \<lparr>s_Insert = insert_event, s_IsEmpty = is_empty, s_PeekNext = peek_next,
      s_RemoveNext = remove_next, s_Remove = remove\<rparr>"

definition rel :: "'a \<Rightarrow> event set \<Rightarrow> 'w sim \<Rightarrow> bool" where
  "rel q E s \<longleftrightarrow> inv q \<and> events q = E \<and> floor q \<le> unat (m_currentTs s)"

lemma rel_start: "rel start {} s"
  by (simp add: rel_def start)

lemma rel_empty: "rel q E s \<Longrightarrow> is_empty q \<longleftrightarrow> E = {}"
  using is_empty [of q] by (auto simp: rel_def)

lemma rel_ts: "rel q E s \<Longrightarrow> m_currentTs s' = m_currentTs s \<Longrightarrow> rel q E s'"
  by (simp add: rel_def)

lemma new_event_simulates:
  assumes "rel q E s" "kept hz E s" "within hz (trace s) \<Longrightarrow> unat (m_currentTs s) \<le> unat ts"
    and "hz \<le> 2 ^ 63" "hz \<le> horizon"
  shows "simulates hz rel s (new_event table ts ctx impl q s) (new_event spec_scheduler ts ctx impl E s)"
proof -
  define ev where "ev = \<lparr>ev_impl = impl, ev_ts = ts, ev_uid = m_uid s, ev_context = ctx\<rparr>"
  define s1 where "s1 = note_action (Scheduled ev) (s\<lparr>m_uid := m_uid s + 1\<rparr>)"
  define s2 where "s2 = s1\<lparr>m_unscheduledEvents := m_unscheduledEvents s + 1\<rparr>"
  have l: "longer s s1" by (simp add: s1_def longer_def note_action_def)
  have n: "new_event V ts ctx impl p s =
    oguard CountOverflow s1 (m_unscheduledEvents s + 1 < 2 ^ 31)
      (osched s1 (s_Insert V ev p) (\<lambda>q1. Inr (ev, q1, s2)))" for V :: "'p scheduler" and p
    by (simp add: new_event_def Let_def flip: ev_def s1_def s2_def)
  have o: "trace (ostate (new_event V ts ctx impl p s)) = trace s1" for V :: "'p scheduler" and p
    by (simp add: n oguard_def osched_def s2_def split: sum.splits)
  have "matches rel (new_event table ts ctx impl q s) (new_event spec_scheduler ts ctx impl E s)"
    if w: "within hz (trace s1)"
  proof -
    have w0: "within hz (trace s)" using l w by (rule longer_within)
    then have i: "sim_inv E s" and t: "unat (m_currentTs s) \<le> unat ts" using assms(2,3) by (simp_all add: kept_def)
    have "unat (m_uid s) = uid_count (trace s) + 4" "E \<subseteq> scheduled (trace s)"
      and u: "\<forall>e \<in> scheduled (trace s). unat (ev_uid e) < uid_count (trace s) + 4"
      using i by (simp_all add: sim_inv_def queue_ok_def scheduled_ok_def)
    then have "m_uid s \<noteq> 0" "m_uid s \<notin> ev_uid ` E" by fastforce+
    moreover have "unat ts < horizon"
      using w assms(5) by (simp add: s1_def note_action_def within_def ev_def)
    ultimately obtain q' where q': "insert_event ev q = Inr q'" "inv q'" "events q' = insert ev E" "floor q' = floor q"
      using insert_event [of q ev] assms(1) t by (auto simp: rel_def ev_def)
    then have "rel q' (insert ev E) s2"
      using assms(1) by (simp add: rel_def s2_def s1_def note_action_def)
    then show ?thesis by (simp add: n oguard_def osched_def q'(1))
  qed
  then show ?thesis
    using new_event_keeps [OF assms(2-4)] new_event_extends by (auto simp: simulates_def o)
qed

lemma time_simulates:
  assumes "rel q E s" "kept hz E s" "hz \<le> 2 ^ 63" "hz \<le> horizon" "within hz (trace s) \<Longrightarrow> 0 \<le> sint delay"
    and f: "\<And>ev q E s'. rel q E s' \<Longrightarrow> kept hz E s' \<Longrightarrow> simulates hz rel s' (f ev q s') (F ev E s')"
      "\<And>x q s'. extends s' (f x q s')" "\<And>x E s'. extends s' (F x E s')"
      "\<And>x E s'. kept hz E s' \<Longrightarrow> keeps hz s' (F x E s')"
  shows "simulates hz rel s
    (absolute_time delay s (\<lambda>ts. obind (new_event table ts ctx impl q s) f))
    (absolute_time delay s (\<lambda>ts. obind (new_event spec_scheduler ts ctx impl E s) F))"
  unfolding absolute_time_def Let_def
proof (rule simulates_guard)
  assume t: "- (2 ^ 63) \<le> sint delay + sint (m_currentTs s) \<and> sint delay + sint (m_currentTs s) < 2 ^ 63"
  then have "within hz (trace s) \<Longrightarrow>
      unat (m_currentTs s) \<le> unat (word_of_int (sint delay + sint (m_currentTs s)) :: u64)"
    using assms(2,5) kept_ts by (intro absolute_time_ok) auto
  then show "simulates hz rel s
      (obind (new_event table (word_of_int (sint delay + sint (m_currentTs s))) ctx impl q s) f)
      (obind (new_event spec_scheduler (word_of_int (sint delay + sint (m_currentTs s))) ctx impl E s) F)"
    using assms(1-4) f by (intro simulates_bind new_event_simulates) auto
qed (simp_all add: harmless_def kept_trace [OF assms(2)])

lemma Schedule_simulates:
  assumes "rel q E s" "kept hz E s" "hz \<le> 2 ^ 63" "hz \<le> horizon"
  shows "simulates hz rel s (Schedule table delay impl q s) (Schedule spec_scheduler delay impl E s)"
  unfolding Schedule_def
  by (intro simulates_guard time_simulates assms simulates_Inr keeps_Inr extends_intros longer_refl)
    (simp_all add: harmless_def kept_trace [OF assms(2)])

lemma ScheduleWithContext_simulates:
  assumes "rel q E s" "kept hz E s" "hz \<le> 2 ^ 63" "hz \<le> horizon"
  shows "simulates hz rel s (ScheduleWithContext table b ctx delay impl q s)
    (ScheduleWithContext spec_scheduler b ctx delay impl E s)"
proof (cases b)
  case True
  define s0 where "s0 = note_action (Calls delay) s"
  have l: "longer s s0" by (simp add: s0_def longer_note)
  have k: "kept hz E s0" unfolding s0_def using assms(2) by (rule kept_note) (simp add: quiet_def)
  have r: "rel q E s0" using assms(1) by (rule rel_ts) (simp add: s0_def note_action_def)
  have d: "within hz (trace s0) \<Longrightarrow> 0 \<le> sint delay" by (simp add: s0_def note_action_def within_def)
  have "simulates hz rel s0
     (absolute_time delay s0 (\<lambda>ts. obind (new_event table ts ctx impl q s0) (\<lambda>ev q1 s1. Inr ((), q1, s1))))
     (absolute_time delay s0 (\<lambda>ts. obind (new_event spec_scheduler ts ctx impl E s0) (\<lambda>ev q1 s1. Inr ((), q1, s1))))"
    by (intro time_simulates r k d assms(3,4) simulates_Inr keeps_Inr extends_intros longer_refl)
  then show ?thesis
    using l True by (simp add: ScheduleWithContext_def Let_def simulates_longer flip: s0_def)
next
  case False
  then show ?thesis
    using ScheduleWithContext_keeps [OF assms(2,3), of b ctx delay impl] assms(1)
      ScheduleWithContext_extends [of s table b ctx delay impl q]
    by (simp add: simulates_def ScheduleWithContext_def Let_def rel_def note_action_def)
qed

lemma Remove_simulates:
  assumes "rel q E s" "kept hz E s"
  shows "simulates hz rel s (Remove table i q s) (Remove spec_scheduler i E s)"
proof (cases "id_uid i = DESTROY \<or> IsExpired i s \<or> id_impl i = None")
  case True
  then show ?thesis
    using Remove_keeps [OF assms(2), of i] Remove_extends [of s table i q] assms(1)
    by (auto simp: simulates_def Remove_def rel_def)
next
  case False
  then obtain impl where i: "id_uid i \<noteq> DESTROY" "\<not> IsExpired i s" "id_impl i = Some impl" by auto
  define ev where "ev = event_of impl i"
  define s0 where "s0 = note_action (RemoveCall ev) s"
  have l: "longer s s0" by (simp add: s0_def longer_note)
  have r: "Remove V i p s = osched s0 (s_Remove V ev p) (\<lambda>q1.
      (let s1 = EventImpl_Cancel impl (note_action (Removed ev) s0) in
       Inr ((), q1, s1\<lparr>m_unscheduledEvents := m_unscheduledEvents s1 - 1\<rparr>)))" for V :: "'p scheduler" and p
    using i by (simp add: Remove_def Let_def flip: ev_def s0_def)
  have x: "extends s0 (Remove V i p s)" for V :: "'p scheduler" and p
    unfolding r Let_def
    by (intro extends_intros longer_refl) (simp add: longer_def EventImpl_Cancel_def note_action_def)
  show ?thesis
  proof (cases "within hz (trace s0)")
    case False
    then show ?thesis
      using Remove_keeps [OF assms(2), of i] extends_longer [OF l x, of table q]
        extends_within [OF x, of hz table q] extends_within [OF x, of hz spec_scheduler E]
      by (auto simp: simulates_def)
  next
    case True
    then have w: "within hz (trace s)" by (rule longer_within [OF l])
    have "ev \<in> scheduled (trace s)"
      using True by (simp add: s0_def note_action_def within_def scheduled_def)
    then have "ev \<in> E"
      using assms(2) w not_expired [OF i]
      unfolding ev_def by (intro sim_inv_waiting [of E s]) (simp_all add: kept_def event_of_def)
    then obtain q' where "remove ev q = Inr q'" "inv q'" "events q' = E - {ev}" "floor q' = floor q"
      using remove [of q ev] assms(1) by (auto simp: rel_def)
    then have "matches rel (Remove table i q s) (Remove spec_scheduler i E s)"
      using \<open>ev \<in> E\<close> assms(1)
      by (simp add: r osched_def Let_def rel_def s0_def EventImpl_Cancel_def note_action_def)
    then show ?thesis
      using Remove_keeps [OF assms(2), of i] Remove_extends by (simp add: simulates_def)
  qed
qed

lemma reply_map_simulates: "simulates hz rel s m M \<Longrightarrow> simulates hz rel s (reply_map f m) (reply_map f M)"
  unfolding reply_map_def
  by (rule simulates_bind) (simp_all add: simulates_Inr keeps_Inr extends_Inr)

lemma handle_simulates:
  assumes "rel q E s" "kept hz E s" "hz \<le> 2 ^ 63" "hz \<le> horizon"
  shows "simulates hz rel s (handle table r q s) (handle spec_scheduler r E s)"
proof (cases r)
  case (ReqScheduleDestroy impl)
  then show ?thesis
    using handle_keeps [OF assms(2,3), of r] handle_extends [of s table r q] assms(1)
    by (simp add: simulates_def reply_map_def obind_def ScheduleDestroy_def Let_def rel_def note_action_def)
next
  case (ReqStopDelay delay impl)
  have "simulates hz rel (s\<lparr>stop_events := impl # stop_events s\<rparr>)
    (Stop_delay table delay impl q s) (Stop_delay spec_scheduler delay impl E s)"
    unfolding Stop_delay_def using assms by (intro Schedule_simulates) (simp_all add: rel_def)
  then have "simulates hz rel s (Stop_delay table delay impl q s) (Stop_delay spec_scheduler delay impl E s)"
    by (rule simulates_longer [OF longer_eq, rotated]) simp
  with ReqStopDelay show ?thesis by (simp add: reply_map_simulates)
next
  case (ReqCancel i)
  have "rel q E (Cancel i s)"
    using assms(1) by (rule rel_ts) (simp add: Cancel_def EventImpl_Cancel_def note_action_def split: option.splits)
  with ReqCancel Cancel_keeps [OF assms(2)] show ?thesis by (simp add: simulates_Inr)
next
  case ReqStop
  have "rel q E (Stop s)" using assms(1) by (rule rel_ts) (simp add: Stop_def)
  then show ?thesis using ReqStop assms(2) by (intro simulates_Inr | simp add: Stop_def longer_eq simulates_Inr)+
qed (simp_all add: reply_map_simulates Schedule_simulates [OF assms] ScheduleWithContext_simulates [OF assms]
    ScheduleNow_def Remove_simulates simulates_Inr assms(1,2))

lemma run_prog_simulates:
  assumes "hz \<le> 2 ^ 63" "hz \<le> horizon"
  shows "rel q E s \<Longrightarrow> kept hz E s \<Longrightarrow> simulates hz rel s (run_prog table p q s) (run_prog spec_scheduler p E s)"
proof (induction p arbitrary: q E s)
  case (Done w)
  have "rel q E (s\<lparr>world := w\<rparr>)" using Done(1) by (rule rel_ts) simp
  then show ?case using Done(2) by (simp add: simulates_Inr longer_eq)
next
  case (Call r k)
  show ?case unfolding run_prog.simps
    by (rule simulates_bind [OF handle_simulates [OF Call.prems assms]])
      (auto intro: Call.IH run_prog_keeps assms(1) extends_intros)
qed

lemma Invoke_simulates:
  assumes "hz \<le> 2 ^ 63" "hz \<le> horizon" "rel q E s" "kept hz E s"
  shows "simulates hz rel s (Invoke table notify impl q s) (Invoke spec_scheduler notify impl E s)"
proof (cases "IsCancelled impl s")
  case False
  define s0 where "s0 = note_action (Notified impl) s"
  have k: "kept hz E s0" unfolding s0_def using assms(4) False by (rule Notified_kept)
  have r: "rel q E s0" using assms(3) by (rule rel_ts) (simp add: s0_def note_action_def)
  have r': "rel q E (Stop s0)" using r by (rule rel_ts) (simp add: Stop_def)
  have l: "longer s s0" by (simp add: s0_def longer_note)
  have "simulates hz rel s0 (Inr ((), q, Stop s0)) (Inr ((), E, Stop s0))"
    using k r' by (intro simulates_Inr) (simp_all add: Stop_def longer_eq)
  then have "simulates hz rel s (Notify table notify impl q s) (Notify spec_scheduler notify impl E s)"
    using simulates_longer [OF l run_prog_simulates [OF assms(1,2) r k]]
      simulates_longer [OF l, of hz rel "Inr ((), q, Stop s0)" "Inr ((), E, Stop s0)"]
    by (simp add: Notify_def Let_def flip: s0_def)
  then show ?thesis using False by (simp add: Invoke_def)
qed (simp add: Invoke_def simulates_Inr assms(3,4))

lemma insert_with_context_simulates:
  assumes "hz \<le> 2 ^ 63" "hz \<le> horizon" "rel q E s" "kept hz E s"
    and "\<And>c d i. (c, d, i) \<in> set es \<Longrightarrow> within hz (trace s) \<Longrightarrow> 0 \<le> sint d"
  shows "simulates hz rel s (insert_with_context table es q s) (insert_with_context spec_scheduler es E s)"
  using assms(3-5)
proof (induction es arbitrary: q E s)
  case (Cons a es)
  obtain c d i where a: "a = (c, d, i)" by (cases a)
  have now: "unat (m_currentTs s) \<le> unat (m_currentTs s + d)" if w: "within hz (trace s)"
  proof -
    have "unat d < 2 ^ 63" using Cons.prems(3) [of c d i] w by (simp add: a nonneg_sint)
    then show ?thesis using kept_ts [OF Cons.prems(2) w] by (simp add: unat_word_ariths)
  qed
  note n = new_event_simulates [OF Cons.prems(1,2) now assms(1,2)]
  have l: "longer s s'" if "new_event spec_scheduler ts c i E s = Inr (x, E', s')" for ts x E' s'
    using new_event_extends [of s spec_scheduler ts c i E] that by (simp add: extends_def)
  show ?case unfolding a insert_with_context.simps
  proof (rule simulates_bind [OF n])
    fix x E' s'
    assume e: "new_event spec_scheduler (m_currentTs s + d) c i E s = Inr (x, E', s')" and k: "kept hz E' s'"
    then show "keeps hz s' (insert_with_context spec_scheduler es E' s')"
      using Cons.prems(3) longer_within [OF l [OF e]] by (intro insert_with_context_keeps assms(1)) auto
    fix q' assume "rel q' E' s'"
    with k show "simulates hz rel s' (insert_with_context table es q' s') (insert_with_context spec_scheduler es E' s')"
      using Cons.prems(3) longer_within [OF l [OF e]] by (intro Cons.IH) auto
  qed (assumption | intro extends_intros)+
qed (simp add: simulates_Inr)

lemma ProcessEventsWithContext_simulates:
  assumes "hz \<le> 2 ^ 63" "hz \<le> horizon" "rel q E s" "kept hz E s"
  shows "simulates hz rel s (ProcessEventsWithContext table q s) (ProcessEventsWithContext spec_scheduler E s)"
proof -
  define s1 where "s1 = s\<lparr>m_eventsWithContext := [], m_eventsWithContextEmpty := True\<rparr>"
  have i: "sim_inv E s1" if "sim_inv E s"
    using that by (auto simp: s1_def sim_inv_defs cur_rank_def IsCancelled_def)
  then have k: "kept hz E s1" using assms(4) by (simp add: s1_def kept_def)
  have r: "rel q E s1" using assms(3) by (rule rel_ts) (simp add: s1_def)
  have "simulates hz rel s1 (insert_with_context table (m_eventsWithContext s) q s1)
    (insert_with_context spec_scheduler (m_eventsWithContext s) E s1)"
    using assms(1,2,4) k r by (intro insert_with_context_simulates) (auto simp: kept_def sim_inv_def others_ok_def s1_def)
  then have "simulates hz rel s (insert_with_context table (m_eventsWithContext s) q s1)
    (insert_with_context spec_scheduler (m_eventsWithContext s) E s1)"
    by (rule simulates_longer [rotated]) (simp add: s1_def longer_def)
  then show ?thesis
    using assms(3,4) unfolding ProcessEventsWithContext_def s1_def [symmetric] by (simp add: simulates_Inr)
qed

lemma remove_next_spec:
  assumes "rel q E s" "E \<noteq> {}"
  obtains q' where "remove_next q = Inr (spec_next E, q')" "inv q'" "events q' = E - {spec_next E}"
    "floor q' \<le> unat (ev_ts (spec_next E))"
proof -
  have u: "uids_distinct E" using events [of q] assms(1) by (simp add: rel_def)
  obtain e q' where e: "remove_next q = Inr (e, q')" "is_next e E" "inv q'" "events q' = E - {e}"
    "floor q' \<le> unat (ev_ts e)"
    using remove_next [of q] assms by (auto simp: rel_def)
  have "spec_next E = e" using u e(2) by (rule spec_next_eq)
  with e that show thesis by simp
qed

lemma ProcessOneEvent_simulates:
  assumes "hz \<le> 2 ^ 63" "hz \<le> horizon" "rel q E s" "kept hz E s" "E \<noteq> {}"
  shows "simulates hz rel s (ProcessOneEvent table notify q s) (ProcessOneEvent spec_scheduler notify E s)"
proof -
  define ev where "ev = spec_next E"
  define s1 where "s1 = note_action (Executed ev)
     (s\<lparr>m_unscheduledEvents := m_unscheduledEvents s - 1, m_eventCount := m_eventCount s + 1,
        m_currentTs := ev_ts ev, m_currentContext := ev_context ev, m_currentUid := ev_uid ev\<rparr>)"
  have k: "kept hz (E - {ev}) s1" using assms(4,5) ev_def assms(1) s1_def by (rule execute_kept)
  obtain q' where q': "remove_next q = Inr (ev, q')" "inv q'" "events q' = E - {ev}" "floor q' \<le> unat (ev_ts ev)"
    using remove_next_spec [OF assms(3,5)] unfolding ev_def by blast
  have r: "rel q' (E - {ev}) s1" using q' by (simp add: rel_def s1_def note_action_def)
  have l: "longer s s1" by (simp add: s1_def longer_note)
  have "simulates hz rel s1
      (obind (Invoke table notify (ev_impl ev) q' s1) (\<lambda>_. ProcessEventsWithContext table))
      (obind (Invoke spec_scheduler notify (ev_impl ev) (E - {ev}) s1) (\<lambda>_. ProcessEventsWithContext spec_scheduler))"
    by (rule simulates_bind [OF Invoke_simulates [OF assms(1,2) r k]])
      (auto intro: ProcessEventsWithContext_simulates ProcessEventsWithContext_keeps assms(1,2) extends_intros)
  moreover have "ProcessOneEvent table notify q s = oguard TimeOrder s (m_currentTs s \<le> ev_ts ev)
      (obind (Invoke table notify (ev_impl ev) q' s1) (\<lambda>_. ProcessEventsWithContext table))"
    by (simp add: ProcessOneEvent_def osched_def Let_def q'(1) flip: s1_def)
  moreover have "ProcessOneEvent spec_scheduler notify E s = oguard TimeOrder s (m_currentTs s \<le> ev_ts ev)
      (obind (Invoke spec_scheduler notify (ev_impl ev) (E - {ev}) s1) (\<lambda>_. ProcessEventsWithContext spec_scheduler))"
    using assms(5) by (simp add: ProcessOneEvent_def osched_def Let_def s1_def flip: ev_def)
  ultimately show ?thesis
    using next_event(3) [OF assms(4,5)] l by (auto simp: ev_def intro!: simulates_guard intro: simulates_longer)
qed

lemma other_threads_simulates:
  assumes "hz \<le> 2 ^ 63" "hz \<le> horizon"
  shows "rel q E s \<Longrightarrow> kept hz E s \<Longrightarrow> simulates hz rel s (other_threads table cs q s) (other_threads spec_scheduler cs E s)"
proof (induction cs arbitrary: q E s)
  case (Cons a cs)
  obtain c d i where a: "a = (c, d, i)" by (cases a)
  show ?case unfolding a other_threads.simps
    by (rule simulates_bind [OF ScheduleWithContext_simulates [OF Cons.prems assms]])
      (auto intro: Cons.IH other_threads_keeps assms(1) extends_intros)
qed (simp add: simulates_Inr)

lemma run_loop_simulates:
  assumes "hz \<le> 2 ^ 63" "hz \<le> horizon"
  shows "rel q E s \<Longrightarrow> kept hz E s \<Longrightarrow>
    simulates hz rel s (run_loop table notify others n fuel q s) (run_loop spec_scheduler notify others n fuel E s)"
proof (induction fuel arbitrary: n q E s)
  case 0
  then show ?case
    using rel_empty [OF 0(1)]
    by (cases "E = {}") (simp_all add: IsFinished_def simulates_Inr simulates_Inl harmless_def kept_trace)
next
  case (Suc fuel)
  have f: "IsFinished table q s \<longleftrightarrow> IsFinished spec_scheduler E s"
    using rel_empty [OF Suc.prems(1)] by (simp add: IsFinished_def)
  have one: "simulates hz rel s'
      (obind (ProcessOneEvent table notify q' s') (\<lambda>_. run_loop table notify others (Suc n) fuel))
      (obind (ProcessOneEvent spec_scheduler notify E s') (\<lambda>_. run_loop spec_scheduler notify others (Suc n) fuel))"
    if "rel q' E s'" "kept hz E s'" "E \<noteq> {}" for q' s'
    by (rule simulates_bind [OF ProcessOneEvent_simulates [OF assms that]])
      (auto intro: Suc.IH run_loop_keeps assms(1) extends_intros)
  have keep: "keeps hz s' (obind (ProcessOneEvent spec_scheduler notify E s') (\<lambda>_. run_loop spec_scheduler notify others (Suc n) fuel))"
    if "kept hz E s'" "E \<noteq> {}" for s'
    using ProcessOneEvent_keeps [OF assms(1) that] by (rule keeps_bind) (rule run_loop_keeps [OF assms(1)])
  have "simulates hz rel s
      (obind (other_threads table (others (Suc n)) q s) (\<lambda>_ q0 s0.
        obind (ProcessOneEvent table notify q0 s0) (\<lambda>_. run_loop table notify others (Suc n) fuel)))
      (obind (other_threads spec_scheduler (others (Suc n)) E s) (\<lambda>_ q0 s0.
        obind (ProcessOneEvent spec_scheduler notify q0 s0) (\<lambda>_. run_loop spec_scheduler notify others (Suc n) fuel)))"
    if "E \<noteq> {}"
  proof (rule simulates_bind [OF other_threads_simulates [OF assms Suc.prems]])
    fix x E' s'
    assume "other_threads spec_scheduler (others (Suc n)) E s = Inr (x, E', s')" "kept hz E' s'"
    then show "keeps hz s' (obind (ProcessOneEvent spec_scheduler notify E' s') (\<lambda>_. run_loop spec_scheduler notify others (Suc n) fuel))"
      using other_threads_queue keep that by metis
  next
    fix x q' E' s'
    assume "other_threads spec_scheduler (others (Suc n)) E s = Inr (x, E', s')" "rel q' E' s'" "kept hz E' s'"
    then show "simulates hz rel s'
      (obind (ProcessOneEvent table notify q' s') (\<lambda>_. run_loop table notify others (Suc n) fuel))
      (obind (ProcessOneEvent spec_scheduler notify E' s') (\<lambda>_. run_loop spec_scheduler notify others (Suc n) fuel))"
      using other_threads_queue one that by metis
  qed (intro extends_intros)+
  then show ?case
    using Suc.prems by (auto simp: f simulates_Inr) (simp add: IsFinished_def)
qed

theorem Run_simulates:
  assumes "hz \<le> 2 ^ 63" "hz \<le> horizon" "rel q E s" "kept hz E s"
  shows "simulates hz rel s (Run table notify others fuel q s) (Run spec_scheduler notify others fuel E s)"
proof -
  have final: "simulates hz rel s' (oguard LostEvents s' (is_empty q' \<longrightarrow> m_unscheduledEvents s' = 0) (Inr ((), q', s')))
      (oguard LostEvents s' (E' = {} \<longrightarrow> m_unscheduledEvents s' = 0) (Inr ((), E', s')))"
    if "rel q' E' s'" "kept hz E' s'" for q' E' and s' :: "'b sim"
    using that rel_empty [OF that(1)]
    by (simp, intro simulates_guard simulates_Inr) (auto simp: kept_def sim_inv_def queue_ok_def)
  have final_keeps: "keeps hz s' (oguard LostEvents s' (E' = {} \<longrightarrow> m_unscheduledEvents s' = 0) (Inr ((), E', s')))"
    if "kept hz E' s'" for E' and s' :: "'b sim"
    using that by (intro keeps_guard keeps_Inr) (auto simp: kept_def sim_inv_def queue_ok_def)
  define rest where "rest = (\<lambda>V :: 'a scheduler. \<lambda>(_ :: unit) q1 (s1 :: 'b sim).
    obind (run_loop V notify others 0 fuel q1 (s1\<lparr>m_stop := False\<rparr>)) (\<lambda>_ q2 s2.
      oguard LostEvents s2 (\<not> s_IsEmpty V q2 \<or> m_unscheduledEvents s2 = 0) (Inr ((), q2, s2))))"
  define Rest where "Rest = (\<lambda>(_ :: unit) q1 (s1 :: 'b sim).
    obind (run_loop spec_scheduler notify others 0 fuel q1 (s1\<lparr>m_stop := False\<rparr>)) (\<lambda>_ q2 s2.
      oguard LostEvents s2 (\<not> s_IsEmpty spec_scheduler q2 \<or> m_unscheduledEvents s2 = 0) (Inr ((), q2, s2))))"
  have ext: "extends s' (rest V x q' s')" "extends s' (Rest x E' s')" for V x q' E' s'
    unfolding rest_def Rest_def
    by (intro extends_longer [of s' "s'\<lparr>m_stop := False\<rparr>"] extends_intros longer_refl longer_eq; simp)+
  have rest: "simulates hz rel s' (rest table x q' s') (Rest x E' s')" if "rel q' E' s'" "kept hz E' s'" for x q' E' s'
  proof -
    have "simulates hz rel (s'\<lparr>m_stop := False\<rparr>) (rest table x q' s') (Rest x E' s')"
      unfolding rest_def Rest_def
      using that by (intro simulates_bind run_loop_simulates assms(1,2) extends_intros longer_refl)
        (auto simp: rel_def final final_keeps)
    then show ?thesis by (rule simulates_longer [OF longer_eq, rotated]) simp
  qed
  have Rest: "keeps hz s' (Rest x E' s')" if "kept hz E' s'" for x E' s'
  proof -
    have "keeps hz (s'\<lparr>m_stop := False\<rparr>) (Rest x E' s')"
      unfolding Rest_def using that by (intro keeps_bind run_loop_keeps assms(1)) (auto simp: final_keeps)
    then show ?thesis by (rule keeps_longer [OF longer_eq, rotated]) simp
  qed
  have tail: "simulates hz rel s' (obind (ProcessEventsWithContext table q' s') (rest table))
      (obind (ProcessEventsWithContext spec_scheduler E' s') Rest)" if "rel q' E' s'" "kept hz E' s'" for q' E' s'
    by (rule simulates_bind [OF ProcessEventsWithContext_simulates [OF assms(1,2) that]]) (simp_all add: ext rest Rest)
  have "simulates hz rel s
     (obind (other_threads table (others 0) q s) (\<lambda>_ q0 s0. obind (ProcessEventsWithContext table q0 s0) (rest table)))
     (obind (other_threads spec_scheduler (others 0) E s) (\<lambda>_ q0 s0. obind (ProcessEventsWithContext spec_scheduler q0 s0) Rest))"
  proof (rule simulates_bind [OF other_threads_simulates [OF assms]])
    fix x :: unit and E' and s' :: "'b sim" assume "kept hz E' s'"
    then show "keeps hz s' (obind (ProcessEventsWithContext spec_scheduler E' s') Rest)"
      by (intro keeps_bind ProcessEventsWithContext_keeps assms(1) Rest)
  qed (auto intro!: extends_intros ext tail)
  then show ?thesis by (simp add: Run_def rest_def Rest_def)
qed

text \<open>A simulation from the start.\<close>

lemma start_kept: "kept hz {} (DefaultSimulatorImpl w)"
  by (simp add: kept_def sim_inv_start)

lemma Run_start_simulates:
  "hz \<le> 2 ^ 63 \<Longrightarrow> hz \<le> horizon \<Longrightarrow>
   simulates hz rel (DefaultSimulatorImpl w) (Run table notify others fuel start (DefaultSimulatorImpl w))
     (Run spec_scheduler notify others fuel {} (DefaultSimulatorImpl w))"
  by (intro Run_simulates rel_start start_kept)

end

section \<open>The end of a simulation\<close>

text \<open>What is seen of an outcome: whether it failed, and the state of the simulator.\<close>

definition result :: "('a, 'q, 'w) outcome \<Rightarrow> sim_error option \<times> 'w sim" where
  "result m = (case m of Inl (e, s) \<Rightarrow> (Some e, s) | Inr (x, q, s) \<Rightarrow> (None, s))"

lemma result_simps [simp]: "result (Inl (e, s)) = (Some e, s)" "result (Inr (x, q, s)) = (None, s)"
  by (simp_all add: result_def)

lemma snd_result: "snd (result m) = ostate m"
  by (simp add: result_def ostate_def split: sum.split)

lemma simulates_result: "simulates hz R s m M \<Longrightarrow> within hz (trace (ostate m)) \<Longrightarrow> result m = result M"
  unfolding simulates_def by (auto elim: matches_cases)

lemma simulates_ok:
  assumes "simulates hz R s m M" "within hz (trace (ostate m))"
  shows "(fst (result m) = None \<or> harmless (the (fst (result m)))) \<and> state_ok (ostate m)"
proof -
  have "result m = result M" using assms by (rule simulates_result)
  moreover from this have "within hz (trace (ostate M))" using assms(2) by (metis snd_result)
  then have "(fst (result M) = None \<or> harmless (the (fst (result M)))) \<and> state_ok (ostate M)"
    using assms(1) by (auto simp: simulates_def keeps_def kept_trace split: sum.splits)
  ultimately show ?thesis by (metis snd_result)
qed

context simulator
begin

lemma Run_ok:
  assumes "hz \<le> 2 ^ 63" "hz \<le> horizon"
    and "within hz (trace (ostate (Run table notify others fuel start (DefaultSimulatorImpl w))))"
  shows "(fst (result (Run table notify others fuel start (DefaultSimulatorImpl w))) = None \<or>
      harmless (the (fst (result (Run table notify others fuel start (DefaultSimulatorImpl w)))))) \<and>
    state_ok (ostate (Run table notify others fuel start (DefaultSimulatorImpl w)))"
  using Run_start_simulates [OF assms(1,2)] assms(3) by (rule simulates_ok)

lemma Run_result:
  assumes "hz \<le> 2 ^ 63" "hz \<le> horizon"
    and "within hz (trace (ostate (Run spec_scheduler notify others fuel {} (DefaultSimulatorImpl w)))) \<or>
      within hz (trace (ostate (Run table notify others fuel start (DefaultSimulatorImpl w))))"
  shows "result (Run table notify others fuel start (DefaultSimulatorImpl w)) =
    result (Run spec_scheduler notify others fuel {} (DefaultSimulatorImpl w))"
  using Run_start_simulates [OF assms(1,2), of w notify others fuel] assms(3)
  unfolding simulates_def by (auto elim: matches_cases)

end

section \<open>Fuel\<close>

text \<open>Only the run loop is out of fuel, and then an event ran for each unit of it.\<close>

definition no_fuel :: "('a, 'q, 'w) outcome \<Rightarrow> bool" where
  "no_fuel m \<longleftrightarrow> (\<forall>s. m \<noteq> Inl (OutOfFuel, s))"

named_theorems no_fuel_intros

lemma no_fuel_Inr [no_fuel_intros]: "no_fuel (Inr x)"
  by (simp add: no_fuel_def)

lemma no_fuel_bind [no_fuel_intros]: "no_fuel m \<Longrightarrow> (\<And>x q s. no_fuel (f x q s)) \<Longrightarrow> no_fuel (obind m f)"
  by (auto simp: no_fuel_def obind_def split: sum.splits)

lemma no_fuel_guard [no_fuel_intros]: "e \<noteq> OutOfFuel \<Longrightarrow> no_fuel m \<Longrightarrow> no_fuel (oguard e s b m)"
  by (simp add: no_fuel_def oguard_def)

lemma no_fuel_sched [no_fuel_intros]: "(\<And>x. no_fuel (f x)) \<Longrightarrow> no_fuel (osched s m f)"
  by (simp add: no_fuel_def osched_def split: sum.splits)

lemma new_event_no_fuel [no_fuel_intros]: "no_fuel (new_event V ts c impl q s)"
  unfolding new_event_def Let_def by (intro no_fuel_intros) simp

lemma absolute_time_no_fuel [no_fuel_intros]: "(\<And>ts. no_fuel (k ts)) \<Longrightarrow> no_fuel (absolute_time d s k)"
  unfolding absolute_time_def Let_def by (intro no_fuel_intros) simp

lemma Schedule_no_fuel [no_fuel_intros]: "no_fuel (Schedule V d impl q s)"
  unfolding Schedule_def by (intro no_fuel_intros) simp

lemma ScheduleWithContext_no_fuel [no_fuel_intros]: "no_fuel (ScheduleWithContext V b c d impl q s)"
  unfolding ScheduleWithContext_def Let_def by (cases b) (simp_all add: no_fuel_intros)

lemma Remove_no_fuel [no_fuel_intros]: "no_fuel (Remove V i q s)"
  by (auto simp: Remove_def Let_def no_fuel_intros split: option.split)

lemma handle_no_fuel [no_fuel_intros]: "no_fuel (handle V r q s)"
  by (cases r) (simp_all add: reply_map_def ScheduleNow_def ScheduleDestroy_def Stop_delay_def Let_def no_fuel_intros)

lemma run_prog_no_fuel [no_fuel_intros]: "no_fuel (run_prog V p q s)"
  by (induction p arbitrary: q s) (simp_all add: no_fuel_intros)

lemma Invoke_no_fuel [no_fuel_intros]: "no_fuel (Invoke V notify impl q s)"
  by (simp add: Invoke_def Notify_def Let_def no_fuel_intros)

lemma insert_with_context_no_fuel [no_fuel_intros]: "no_fuel (insert_with_context V es q s)"
  by (induction V es q s rule: insert_with_context.induct) (simp_all add: no_fuel_intros)

lemma ProcessEventsWithContext_no_fuel [no_fuel_intros]: "no_fuel (ProcessEventsWithContext V q s)"
  by (simp add: ProcessEventsWithContext_def no_fuel_intros)

lemma other_threads_no_fuel [no_fuel_intros]: "no_fuel (other_threads V cs q s)"
  by (induction V cs q s rule: other_threads.induct) (simp_all add: no_fuel_intros)

lemma ProcessOneEvent_no_fuel [no_fuel_intros]: "no_fuel (ProcessOneEvent V notify q s)"
  unfolding ProcessOneEvent_def Let_def by (auto simp: split_beta intro!: no_fuel_intros)

definition ran :: "'w sim \<Rightarrow> nat" where
  "ran s = length (executed (trace s))"

lemma executed_append: "executed (u @ t) = executed u @ executed t"
  by (induction u rule: executed.induct) auto

lemma longer_ran: "longer s s' \<Longrightarrow> ran s \<le> ran s'"
  by (auto simp: longer_def ran_def executed_append)

lemma obind_fuel:
  assumes "obind m f = Inl (OutOfFuel, s')" "no_fuel m"
  obtains x q s where "m = Inr (x, q, s)" "f x q s = Inl (OutOfFuel, s')"
  using assms by (cases m) (auto simp: obind_def no_fuel_def split: prod.splits)

lemma ProcessOneEvent_ran:
  assumes "ProcessOneEvent V notify q s = Inr (x, q', s')"
  shows "ran s < ran s'"
proof -
  obtain ev q1 where ev: "s_RemoveNext V q = Inr (ev, q1)"
    using assms by (cases "s_RemoveNext V q") (auto simp: ProcessOneEvent_def osched_def)
  define s1 where "s1 = note_action (Executed ev)
     (s\<lparr>m_unscheduledEvents := m_unscheduledEvents s - 1, m_eventCount := m_eventCount s + 1,
        m_currentTs := ev_ts ev, m_currentContext := ev_context ev, m_currentUid := ev_uid ev\<rparr>)"
  have "obind (Invoke V notify (ev_impl ev) q1 s1) (\<lambda>_ q2 s2. ProcessEventsWithContext V q2 s2) = Inr (x, q', s')"
    using assms by (simp add: ProcessOneEvent_def osched_def ev oguard_def Let_def s1_def split: if_splits)
  moreover have "extends s1 (obind (Invoke V notify (ev_impl ev) q1 s1) (\<lambda>_ q2 s2. ProcessEventsWithContext V q2 s2))"
    by (intro extends_intros)
  ultimately have "longer s1 s'" by (simp add: extends_def)
  then have "ran s1 \<le> ran s'" by (rule longer_ran)
  then show ?thesis by (simp add: s1_def ran_def note_action_def)
qed

lemma run_loop_fuel:
  "run_loop V notify others n fuel q s = Inl (OutOfFuel, s') \<Longrightarrow> ran s + fuel \<le> ran s'"
proof (induction fuel arbitrary: n q s)
  case 0
  then show ?case by (simp split: if_splits)
next
  case (Suc fuel)
  then have "obind (other_threads V (others (Suc n)) q s) (\<lambda>_ q0 s0.
          obind (ProcessOneEvent V notify q0 s0) (\<lambda>_ q1 s1. run_loop V notify others (Suc n) fuel q1 s1)) = Inl (OutOfFuel, s')"
    by (simp split: if_splits)
  then obtain x0 q0 s0 where 0: "other_threads V (others (Suc n)) q s = Inr (x0, q0, s0)"
    "obind (ProcessOneEvent V notify q0 s0) (\<lambda>_ q1 s1. run_loop V notify others (Suc n) fuel q1 s1) = Inl (OutOfFuel, s')"
    by (rule obind_fuel) (intro no_fuel_intros)
  from 0(2) obtain x1 q1 s1 where 1: "ProcessOneEvent V notify q0 s0 = Inr (x1, q1, s1)"
    "run_loop V notify others (Suc n) fuel q1 s1 = Inl (OutOfFuel, s')"
    by (rule obind_fuel) (intro no_fuel_intros)
  have "extends s (other_threads V (others (Suc n)) q s)" by (rule other_threads_extends)
  then have "ran s \<le> ran s0" by (simp add: 0 extends_def longer_ran)
  moreover have "ran s0 < ran s1" using 1(1) by (rule ProcessOneEvent_ran)
  moreover have "ran s1 + fuel \<le> ran s'" using 1(2) by (rule Suc.IH)
  ultimately show ?case by simp
qed

lemma Run_fuel: "Run V notify others fuel q s = Inl (OutOfFuel, s') \<Longrightarrow> fuel \<le> ran s'"
  unfolding Run_def
  by (erule obind_fuel, intro no_fuel_intros)+
    (auto simp: obind_def oguard_def dest: run_loop_fuel split: sum.splits if_splits)

section \<open>Another scheduler\<close>

text \<open>\<open>SetScheduler\<close> moves the events from one contract to the other.\<close>

locale scheduler_change =
  source: event_queue s_start s_insert s_empty s_peek s_next s_inv s_events s_floor s_horizon +
  target: event_queue t_start t_insert t_empty t_peek t_next t_inv t_events t_floor t_horizon
  for s_start :: 's and s_insert s_empty s_peek s_next s_inv s_events s_floor s_horizon
    and t_start :: 't and t_insert t_empty t_peek t_next t_inv t_events t_floor t_horizon
begin

lemma moves:
  assumes "s_IsEmpty S = s_empty" "s_RemoveNext S = s_next" "s_Insert T = t_insert"
  shows "s_inv q \<Longrightarrow> t_inv p \<Longrightarrow> uids_distinct (s_events q \<union> t_events p) \<Longrightarrow> s_events q \<inter> t_events p = {} \<Longrightarrow>
    (\<And>e. e \<in> s_events q \<Longrightarrow> ev_uid e \<noteq> 0 \<and> t_floor p \<le> unat (ev_ts e) \<and> unat (ev_ts e) < t_horizon) \<Longrightarrow>
    card (s_events q) \<le> fuel \<Longrightarrow>
    \<exists>p'. SetScheduler S T fuel q p = Inr p' \<and> t_inv p' \<and> t_events p' = s_events q \<union> t_events p"
proof (induction fuel arbitrary: q p)
  case 0
  then have "s_events q = {}" using source.events [of q] by auto
  then show ?case using 0 source.is_empty [of q] by (simp add: assms(1))
next
  case (Suc fuel)
  show ?case
  proof (cases "s_events q = {}")
    case True
    then show ?thesis using Suc.prems source.is_empty [of q] by (simp add: assms(1))
  next
    case False
    then obtain e q1 where 1: "s_next q = Inr (e, q1)" "is_next e (s_events q)" "s_inv q1" "s_events q1 = s_events q - {e}"
      using source.remove_next [OF Suc.prems(1)] by blast
    have e: "e \<in> s_events q" using 1(2) by (simp add: is_next_def)
    have "ev_uid e \<notin> ev_uid ` t_events p"
    proof
      assume "ev_uid e \<in> ev_uid ` t_events p"
      then obtain x where "x \<in> t_events p" "ev_uid e = ev_uid x" by auto
      then have "e = x" using e by (intro uid_inj [OF Suc.prems(3)]) simp_all
      with \<open>x \<in> t_events p\<close> e Suc.prems(4) show False by auto
    qed
    then obtain p1 where 2: "t_insert e p = Inr p1" "t_inv p1" "t_events p1 = insert e (t_events p)" "t_floor p1 = t_floor p"
      using target.insert_event [OF Suc.prems(2)] Suc.prems(5) [OF e] by blast
    have u: "s_events q1 \<union> t_events p1 = s_events q \<union> t_events p" using e by (auto simp: 1(4) 2(3))
    have "uids_distinct (s_events q1 \<union> t_events p1)" using Suc.prems(3) by (simp only: u)
    moreover have "card (s_events q1) \<le> fuel"
      using Suc.prems(6) e source.events [OF Suc.prems(1)] by (simp add: 1(4))
    ultimately have "\<exists>p'. SetScheduler S T fuel q1 p1 = Inr p' \<and> t_inv p' \<and> t_events p' = s_events q1 \<union> t_events p1"
      using Suc.prems(4,5) by (intro Suc.IH [OF 1(3) 2(2)]) (auto simp: 1(4) 2(3,4))
    then show ?thesis
      using 1(1) 2(1) False source.is_empty [OF Suc.prems(1)] by (simp add: assms u)
  qed
qed

end

end
