(* ===== verification/SimpleSchedulers.thy ===== *)
theory SimpleSchedulers
  imports Scheduler
begin

text \<open>
  The three schedulers on library containers: \<open>ListScheduler\<close> (a sorted \<open>std::list\<close>),
  \<open>MapScheduler\<close> (a \<open>std::map\<close> from keys, kept as the list of its entries in order) and
  \<open>PriorityQueueScheduler\<close> (a \<open>std::priority_queue\<close>).  Sources: \<open>src/src/core/model/list-scheduler.cc\<close>,
  \<open>map-scheduler.cc\<close>, \<open>priority-queue-scheduler.cc\<close>.
\<close>

section \<open>\<open>ListScheduler\<close>\<close>

fun list_Insert :: "event \<Rightarrow> event list \<Rightarrow> event list" where
  "list_Insert ev [] = [ev]"
| "list_Insert ev (i # r) = (if key_less ev i then ev # i # r else i # list_Insert ev r)"

definition list_IsEmpty :: "event list \<Rightarrow> bool" where
  "list_IsEmpty q \<longleftrightarrow> q = []"

definition list_PeekNext :: "event list \<Rightarrow> event res" where
  "list_PeekNext q = (case q of [] \<Rightarrow> Inl UndefinedBehaviour | e # _ \<Rightarrow> Inr e)"

definition list_RemoveNext :: "event list \<Rightarrow> (event \<times> event list) res" where
  "list_RemoveNext q = (case q of [] \<Rightarrow> Inl UndefinedBehaviour | e # es \<Rightarrow> Inr (e, es))"

fun list_Remove :: "event \<Rightarrow> event list \<Rightarrow> event list res" where
  "list_Remove ev [] = Inl NsAssert"
| "list_Remove ev (i # r) =
     (if ev_uid i = ev_uid ev then rguard NsAssert (ev_impl ev = ev_impl i) (Inr r)
      else rbind (list_Remove ev r) (\<lambda>q. Inr (i # q)))"

section \<open>\<open>MapScheduler\<close>\<close>

fun map_Insert :: "event \<Rightarrow> event list \<Rightarrow> event list res" where
  "map_Insert ev [] = Inr [ev]"
| "map_Insert ev (i # r) =
     (if key_less ev i then Inr (ev # i # r)
      else if key_less i ev then rbind (map_Insert ev r) (\<lambda>q. Inr (i # q))
      else Inl NsAssert)"

definition map_IsEmpty :: "event list \<Rightarrow> bool" where
  "map_IsEmpty q \<longleftrightarrow> q = []"

definition map_PeekNext :: "event list \<Rightarrow> event res" where
  "map_PeekNext q = (case q of [] \<Rightarrow> Inl NsAssert | e # _ \<Rightarrow> Inr e)"

definition map_RemoveNext :: "event list \<Rightarrow> (event \<times> event list) res" where
  "map_RemoveNext q = (case q of [] \<Rightarrow> Inl NsAssert | e # es \<Rightarrow> Inr (e, es))"

definition map_Remove :: "event \<Rightarrow> event list \<Rightarrow> event list res" where
  "map_Remove ev q =
     (case List.find (\<lambda>i. \<not> key_less i ev \<and> \<not> key_less ev i) q of
        None \<Rightarrow> Inl UndefinedBehaviour
      | Some i \<Rightarrow> rguard NsAssert (ev_impl i = ev_impl ev) (Inr (remove1 i q)))"

section \<open>\<open>PriorityQueueScheduler\<close>\<close>

text \<open>
  \<open>top\<close> is an element that is not greater than any other; the elements are kept in the order of
  their insertion, which matters only between events with the same key.
\<close>

definition pq_top :: "event list \<Rightarrow> event res" where
  "pq_top q =
     (case List.find (\<lambda>e. list_all (\<lambda>x. \<not> key_greater e x) q) q of
        None \<Rightarrow> Inl UndefinedBehaviour | Some e \<Rightarrow> Inr e)"

definition pq_Insert :: "event \<Rightarrow> event list \<Rightarrow> event list" where
  "pq_Insert ev q = q @ [ev]"

definition pq_IsEmpty :: "event list \<Rightarrow> bool" where
  "pq_IsEmpty q \<longleftrightarrow> q = []"

definition pq_PeekNext :: "event list \<Rightarrow> event res" where
  "pq_PeekNext q = pq_top q"

definition pq_RemoveNext :: "event list \<Rightarrow> (event \<times> event list) res" where
  "pq_RemoveNext q = rbind (pq_top q) (\<lambda>e. Inr (e, remove1 e q))"

fun pq_remove :: "event \<Rightarrow> event list \<Rightarrow> bool \<times> event list" where
  "pq_remove ev [] = (False, [])"
| "pq_remove ev (i # r) =
     (if key_equal i ev then (True, r) else (let (b, q) = pq_remove ev r in (b, i # q)))"

definition pq_Remove :: "event \<Rightarrow> event list \<Rightarrow> event list" where
  "pq_Remove ev q = snd (pq_remove ev q)"

section \<open>Sorted lists of events\<close>

text \<open>The events are in the order of their keys, and their unique ids differ.\<close>

definition sorted_events :: "event list \<Rightarrow> bool" where
  "sorted_events q \<longleftrightarrow> sorted_wrt (\<lambda>a b. rank a < rank b) q \<and> uids_distinct (set q)"

lemma uids_distinct_Cons:
  "e \<notin> E \<Longrightarrow> uids_distinct (insert e E) \<longleftrightarrow> uids_distinct E \<and> ev_uid e \<notin> ev_uid ` E"
  by (auto simp: uids_distinct_def)

lemma sorted_events_uids: "sorted_events q \<Longrightarrow> uids_distinct (set q)"
  by (simp add: sorted_events_def)

lemma sorted_events_Nil [simp]: "sorted_events []"
  by (simp add: sorted_events_def uids_distinct_def)

lemma sorted_events_tl: "sorted_events (e # q) \<Longrightarrow> sorted_events q"
  by (auto simp: sorted_events_def intro: uids_distinct_mono)

lemma sorted_events_hd: "sorted_events (e # q) \<Longrightarrow> is_next e (set (e # q)) \<and> set q = set (e # q) - {e}"
  by (auto simp: sorted_events_def is_next_def intro: less_imp_le)

lemma rank_neq: "ev_uid e \<notin> ev_uid ` E \<Longrightarrow> x \<in> E \<Longrightarrow> rank e \<noteq> rank x"
  by (auto simp: rank_eq)

lemma list_Insert_sorted:
  assumes "sorted_events q" "ev_uid e \<notin> ev_uid ` set q"
  shows "sorted_events (list_Insert e q) \<and> set (list_Insert e q) = insert e (set q)"
proof -
  have set: "set (list_Insert e q) = insert e (set q)"
    by (induction e q rule: list_Insert.induct) auto
  have "sorted_wrt (\<lambda>a b. rank a < rank b) (list_Insert e q)"
    using assms
  proof (induction e q rule: list_Insert.induct)
    case (2 ev i r)
    have set: "set (list_Insert ev r) = insert ev (set r)"
      by (induction ev r rule: list_Insert.induct) auto
    have "rank ev \<noteq> rank i" using 2(3) by (auto simp: rank_eq)
    then show ?case
      using 2 set sorted_events_tl [OF 2(2)] by (auto simp: key_less_rank sorted_events_def)
  qed simp
  with set assms show ?thesis by (simp add: sorted_events_def uids_distinct_insert)
qed

lemma map_Insert_list: "ev_uid e \<notin> ev_uid ` set q \<Longrightarrow> map_Insert e q = Inr (list_Insert e q)"
  by (induction e q rule: map_Insert.induct) (auto simp: key_less_rank rank_eq)

lemma sorted_wrt_remove1: "sorted_wrt R q \<Longrightarrow> sorted_wrt R (remove1 e q)"
  by (induction q) (auto dest: notin_set_remove1)

lemma sorted_events_remove1:
  assumes "sorted_events q" "e \<in> set q"
  shows "sorted_events (remove1 e q) \<and> set (remove1 e q) = set q - {e}"
proof -
  have "distinct q"
    using assms(1) unfolding sorted_events_def by (induction q) (auto dest: uids_distinct_tl)
  then have "set (remove1 e q) = set q - {e}" by (rule set_remove1_eq)
  then show ?thesis
    using assms(1) by (auto simp: sorted_events_def sorted_wrt_remove1 intro: uids_distinct_mono)
qed

lemma list_Remove_eq: "uids_distinct (set q) \<Longrightarrow> e \<in> set q \<Longrightarrow> list_Remove e q = Inr (remove1 e q)"
proof (induction q)
  case (Cons i r)
  show ?case
  proof (cases "ev_uid i = ev_uid e")
    case True
    then have "i = e" using uid_inj [OF Cons.prems(1), of i e] Cons.prems(2) by simp
    then show ?thesis by simp
  next
    case False
    then have "e \<in> set r" using Cons.prems(2) by auto
    with False Cons show ?thesis by (auto dest: uids_distinct_tl)
  qed
qed simp

lemma find_unique: "x \<in> set q \<Longrightarrow> P x \<Longrightarrow> (\<And>y. y \<in> set q \<Longrightarrow> P y \<Longrightarrow> y = x) \<Longrightarrow> List.find P q = Some x"
proof (induction q)
  case (Cons a q)
  show ?case
  proof (cases "P a")
    case True
    then have "a = x" by (intro Cons.prems(3)) simp_all
    with True show ?thesis by simp
  next
    case False
    then have "x \<in> set q" using Cons.prems(1,2) by auto
    then have "List.find P q = Some x"
      by (rule Cons.IH [OF _ Cons.prems(2)]) (rule Cons.prems(3), simp_all)
    with False show ?thesis by simp
  qed
qed simp

lemma map_Remove_eq: "uids_distinct (set q) \<Longrightarrow> e \<in> set q \<Longrightarrow> map_Remove e q = Inr (remove1 e q)"
proof -
  assume e: "uids_distinct (set q)" "e \<in> set q"
  have "List.find (\<lambda>i. \<not> key_less i e \<and> \<not> key_less e i) q = Some e"
    using e uid_inj [OF e(1) _ e(2)] rank_eq by (intro find_unique) (auto simp: key_less_rank)
  then show ?thesis by (simp add: map_Remove_def)
qed

lemma pq_remove_eq: "uids_distinct (set q) \<Longrightarrow> e \<in> set q \<Longrightarrow> pq_remove e q = (True, remove1 e q)"
proof (induction q)
  case (Cons i r)
  show ?case
  proof (cases "ev_uid i = ev_uid e")
    case True
    then have "i = e" using uid_inj [OF Cons.prems(1), of i e] Cons.prems(2) by simp
    then show ?thesis by (simp add: key_equal_def)
  next
    case False
    then have "e \<in> set r" using Cons.prems(2) by auto
    with False Cons show ?thesis by (auto simp: key_equal_def dest: uids_distinct_tl)
  qed
qed simp

lemma pq_top_next:
  assumes "q \<noteq> []" "uids_distinct (set q)"
  shows "\<exists>e. pq_top q = Inr e \<and> is_next e (set q)"
proof -
  obtain e where e: "e \<in> set q" "\<forall>x \<in> set q. rank e \<le> rank x"
    using ex_min_if_finite [of "rank ` set q"] assms(1) by (auto simp: not_less)
  have "List.find (\<lambda>e. list_all (\<lambda>x. \<not> key_greater e x) q) q = Some e"
    using e next_unique [OF assms(2)]
    by (intro find_unique) (auto simp: list_all_iff key_greater_rank not_less is_next_def)
  with e show ?thesis by (auto simp: pq_top_def is_next_def)
qed

section \<open>The contract holds\<close>

definition pq_inv :: "event list \<Rightarrow> bool" where
  "pq_inv q \<longleftrightarrow> distinct q \<and> uids_distinct (set q)"

interpretation list_scheduler: event_list "[]" "\<lambda>e q. Inr (list_Insert e q)" list_IsEmpty list_PeekNext
    list_RemoveNext sorted_events set "\<lambda>_. 0" "2 ^ 64" list_Remove
proof
  fix q :: "event list" and e
  assume q: "sorted_events q" "set q \<noteq> {}"
  then obtain a r where q': "q = a # r" by (cases q) auto
  show "\<exists>e. list_PeekNext q = Inr e \<and> is_next e (set q)"
    "\<exists>e q'. list_RemoveNext q = Inr (e, q') \<and> is_next e (set q) \<and> sorted_events q' \<and> set q' = set q - {e} \<and>
      0 \<le> unat (ev_ts e)"
    using sorted_events_hd sorted_events_tl q by (auto simp: q' list_PeekNext_def list_RemoveNext_def)
qed (simp_all add: list_IsEmpty_def list_Insert_sorted list_Remove_eq sorted_events_remove1
     sorted_events_uids)

interpretation map_scheduler: event_list "[]" map_Insert map_IsEmpty map_PeekNext
    map_RemoveNext sorted_events set "\<lambda>_. 0" "2 ^ 64" map_Remove
proof
  fix q :: "event list" and e
  assume q: "sorted_events q" "set q \<noteq> {}"
  then obtain a r where q': "q = a # r" by (cases q) auto
  show "\<exists>e. map_PeekNext q = Inr e \<and> is_next e (set q)"
    "\<exists>e q'. map_RemoveNext q = Inr (e, q') \<and> is_next e (set q) \<and> sorted_events q' \<and> set q' = set q - {e} \<and>
      0 \<le> unat (ev_ts e)"
    using sorted_events_hd sorted_events_tl q by (auto simp: q' map_PeekNext_def map_RemoveNext_def)
qed (simp_all add: map_IsEmpty_def map_Insert_list list_Insert_sorted map_Remove_eq sorted_events_remove1
     sorted_events_uids)

interpretation pq_scheduler: event_list "[]" "\<lambda>e q. Inr (pq_Insert e q)" pq_IsEmpty pq_PeekNext
    pq_RemoveNext pq_inv set "\<lambda>_. 0" "2 ^ 64" "\<lambda>e q. Inr (pq_Remove e q)"
proof
  fix q :: "event list"
  assume q: "pq_inv q" "set q \<noteq> {}"
  then obtain e where e: "pq_top q = Inr e" "is_next e (set q)"
    using pq_top_next [of q] by (auto simp: pq_inv_def)
  then show "\<exists>e. pq_PeekNext q = Inr e \<and> is_next e (set q)" by (simp add: pq_PeekNext_def)
  have "pq_inv (remove1 e q)" "set (remove1 e q) = set q - {e}"
    using q(1) by (auto simp: pq_inv_def intro: uids_distinct_mono)
  with e show "\<exists>e q'. pq_RemoveNext q = Inr (e, q') \<and> is_next e (set q) \<and> pq_inv q' \<and> set q' = set q - {e} \<and>
      0 \<le> unat (ev_ts e)"
    by (simp add: pq_RemoveNext_def)
qed (auto simp: pq_IsEmpty_def pq_Insert_def pq_Remove_def pq_remove_eq pq_inv_def uids_distinct_insert
     intro: uids_distinct_mono, auto simp: uids_distinct_def)

end
