(* ===== verification/HeapScheduler.thy ===== *)
theory HeapScheduler
  imports SimpleSchedulers "HOL-Library.Multiset"
begin

text \<open>
  \<open>HeapScheduler\<close> (\<open>src/src/core/model/heap-scheduler.h\<close>, \<open>heap-scheduler.cc\<close>): a binary heap in a
  vector whose first place is not used.  The reads of the loops are in range by the tests before
  them; \<open>Exch\<close> asserts its range, and the first event of an empty heap is undefined.
\<close>

section \<open>Operations\<close>

definition empty_event :: event where
  "empty_event = \<lparr>ev_impl = 0, ev_ts = 0, ev_uid = 0, ev_context = 0\<rparr>"

definition HeapScheduler :: "event list" where
  "HeapScheduler = [empty_event]"

definition Parent :: "nat \<Rightarrow> nat" where "Parent i = i div 2"
definition LeftChild :: "nat \<Rightarrow> nat" where "LeftChild i = i * 2"
definition RightChild :: "nat \<Rightarrow> nat" where "RightChild i = i * 2 + 1"
definition Root :: nat where "Root = 1"
definition IsRoot :: "nat \<Rightarrow> bool" where "IsRoot i \<longleftrightarrow> i = Root"
definition Last :: "event list \<Rightarrow> nat" where "Last h = length h - 1"
definition IsBottom :: "event list \<Rightarrow> nat \<Rightarrow> bool" where "IsBottom h i \<longleftrightarrow> length h \<le> i"

definition swapped :: "nat \<Rightarrow> nat \<Rightarrow> event list \<Rightarrow> event list" where
  "swapped a b h = h[a := h ! b, b := h ! a]"

definition Exch :: "nat \<Rightarrow> nat \<Rightarrow> event list \<Rightarrow> (event list \<Rightarrow> 'a res) \<Rightarrow> 'a res" where
  "Exch a b h k = rguard NsAssert (b < length h \<and> a < length h) (k (swapped a b h))"

definition IsLessStrictly :: "event list \<Rightarrow> nat \<Rightarrow> nat \<Rightarrow> bool" where
  "IsLessStrictly h a b = key_less (h ! a) (h ! b)"

definition Smallest :: "event list \<Rightarrow> nat \<Rightarrow> nat \<Rightarrow> nat" where
  "Smallest h a b = (if IsLessStrictly h a b then a else b)"

definition heap_IsEmpty :: "event list \<Rightarrow> bool" where
  "heap_IsEmpty h \<longleftrightarrow> length h = 1"

lemmas heap_simps = Parent_def LeftChild_def RightChild_def Root_def IsRoot_def Last_def IsBottom_def
  IsLessStrictly_def key_less_rank

lemma Smallest_in: "Smallest h a b \<in> {a, b}"
  by (simp add: Smallest_def)

lemma length_swapped [simp]: "length (swapped a b h) = length h"
  by (simp add: swapped_def)

function bottom_up :: "event list \<Rightarrow> nat \<Rightarrow> event list res" where
  "bottom_up h i =
     (if \<not> IsRoot i \<and> IsLessStrictly h i (Parent i)
      then rguard NsAssert (Parent i < length h \<and> i < length h) (bottom_up (swapped i (Parent i) h) (Parent i))
      else Inr h)"
  by pat_completeness auto

termination bottom_up
proof (relation "measure snd")
  fix h :: "event list" and i
  assume "\<not> IsRoot i \<and> IsLessStrictly h i (Parent i)"
  then have "0 < i" by (cases "i = 0") (auto simp: heap_simps)
  then show "((swapped i (Parent i) h, Parent i), (h, i)) \<in> measure snd" by (simp add: Parent_def)
qed simp

text \<open>The loop returns to the same state when it exchanges an element with itself, at place 0 only.\<close>

function top_down :: "event list \<Rightarrow> nat \<Rightarrow> event list res" where
  "top_down h i =
     (if \<not> IsBottom h (RightChild i) then
        (let tmp = Smallest h (LeftChild i) (RightChild i) in
         if IsLessStrictly h i tmp then Inr h
         else if tmp = i then Inl Diverges
         else rguard NsAssert (tmp < length h \<and> i < length h) (top_down (swapped i tmp h) tmp))
      else if IsBottom h i then Inr h
      else if IsBottom h (LeftChild i) then Inr h
      else if IsLessStrictly h i (LeftChild i) then Inr h
      else Exch i (LeftChild i) h Inr)"
  by pat_completeness auto

termination top_down
proof (relation "measure (\<lambda>(h, i). length h - i)")
  fix h :: "event list" and i tmp
  assume "\<not> IsBottom h (RightChild i)" "tmp = Smallest h (LeftChild i) (RightChild i)" "tmp \<noteq> i"
  moreover have "tmp = i * 2 \<or> tmp = i * 2 + 1"
    using Smallest_in [of h "LeftChild i" "RightChild i"] calculation(2) by (auto simp: heap_simps)
  ultimately have "i < tmp" "tmp < length h" by (auto simp: heap_simps)
  then show "((swapped i tmp h, tmp), (h, i)) \<in> measure (\<lambda>(h, i). length h - i)" by simp
qed simp

declare bottom_up.simps [simp del] top_down.simps [simp del]

definition heap_Insert :: "event \<Rightarrow> event list \<Rightarrow> event list res" where
  "heap_Insert ev h = (let h1 = h @ [ev] in bottom_up h1 (Last h1))"

definition heap_PeekNext :: "event list \<Rightarrow> event res" where
  "heap_PeekNext h = (if Root < length h then Inr (h ! Root) else Inl UndefinedBehaviour)"

definition heap_RemoveNext :: "event list \<Rightarrow> (event \<times> event list) res" where
  "heap_RemoveNext h =
     (if Root < length h then
        Exch Root (Last h) h (\<lambda>h1. rbind (top_down (butlast h1) Root) (\<lambda>h2. Inr (h ! Root, h2)))
      else Inl UndefinedBehaviour)"

definition heap_Remove :: "event \<Rightarrow> event list \<Rightarrow> event list res" where
  "heap_Remove ev h =
     (case List.find (\<lambda>i. ev_uid ev = ev_uid (h ! i)) [1..<length h] of
        None \<Rightarrow> Inl NsAssert
      | Some i \<Rightarrow>
          rguard NsAssert (ev_impl (h ! i) = ev_impl ev)
            (Exch i (Last h) h (\<lambda>h1. top_down (butlast h1) i)))"

section \<open>The order of the heap\<close>

text \<open>No element is before its parent; the places that may break this while the loops run.\<close>

definition is_heap :: "event list \<Rightarrow> bool" where
  "is_heap h \<longleftrightarrow> (\<forall>j. 1 < j \<and> j < length h \<longrightarrow> rank (h ! (j div 2)) \<le> rank (h ! j))"

definition swim :: "event list \<Rightarrow> nat \<Rightarrow> bool" where
  "swim h i \<longleftrightarrow> 1 \<le> i \<and> i < length h \<and>
     (\<forall>j. 1 < j \<and> j < length h \<and> j \<noteq> i \<longrightarrow> rank (h ! (j div 2)) \<le> rank (h ! j)) \<and>
     (\<forall>j. 1 < i \<and> j div 2 = i \<and> j < length h \<longrightarrow> rank (h ! (i div 2)) \<le> rank (h ! j))"

definition sink :: "event list \<Rightarrow> nat \<Rightarrow> bool" where
  "sink h i \<longleftrightarrow> 1 \<le> i \<and>
     (\<forall>j. 1 < j \<and> j < length h \<and> j div 2 \<noteq> i \<longrightarrow> rank (h ! (j div 2)) \<le> rank (h ! j)) \<and>
     (\<forall>j. 1 < i \<and> j div 2 = i \<and> j < length h \<longrightarrow> rank (h ! (i div 2)) \<le> rank (h ! j))"

lemma heap_min:
  assumes "is_heap h" "1 \<le> i" "i < length h"
  shows "rank (h ! 1) \<le> rank (h ! i)"
  using assms(2,3)
proof (induction i rule: less_induct)
  case (less i)
  show ?case
  proof (cases "i = 1")
    case False
    then have "rank (h ! (i div 2)) \<le> rank (h ! i)"
      using assms(1) less.prems by (simp add: is_heap_def)
    moreover have "rank (h ! 1) \<le> rank (h ! (i div 2))"
      using False less.prems by (intro less.IH) auto
    ultimately show ?thesis by simp
  qed simp
qed

lemma nth_swapped:
  "a < length h \<Longrightarrow> b < length h \<Longrightarrow> swapped a b h ! j = (if j = b then h ! a else if j = a then h ! b else h ! j)"
  by (simp add: swapped_def nth_list_update)

lemma mset_swapped: "a < length h \<Longrightarrow> b < length h \<Longrightarrow> mset (swapped a b h) = mset h"
  unfolding swapped_def by (simp add: mset_swap)

text \<open>The same elements, with the unused place 0 as it was.\<close>

definition same_elements :: "event list \<Rightarrow> event list \<Rightarrow> bool" where
  "same_elements h h' \<longleftrightarrow> mset h' = mset h \<and> h' ! 0 = h ! 0"

lemma same_elements_swapped:
  "1 \<le> a \<Longrightarrow> 1 \<le> b \<Longrightarrow> a < length h \<Longrightarrow> b < length h \<Longrightarrow> same_elements h (swapped a b h)"
  by (auto simp: same_elements_def mset_swapped nth_swapped)

lemma same_elements_trans: "same_elements h h' \<Longrightarrow> same_elements h' h'' \<Longrightarrow> same_elements h h''"
  by (simp add: same_elements_def)

lemma swim_step:
  assumes "swim h i" "i \<noteq> 1" "rank (h ! i) < rank (h ! (i div 2))"
  shows "swim (swapped i (i div 2) h) (i div 2)"
proof -
  define p where "p = i div 2"
  have ip: "1 \<le> p" "p < i" "i < length h" "p < length h"
    using assms(1,2) by (auto simp: swim_def p_def)
  note nth = nth_swapped [OF ip(3,4)]
  have up: "rank (h ! (j div 2)) \<le> rank (h ! j)" if "1 < j" "j < length h" "j \<noteq> i" for j
    using assms(1) that by (simp add: swim_def)
  have below: "rank (h ! p) \<le> rank (h ! j)" if "j div 2 = i" "j < length h" for j
    using assms(1,2) that ip by (auto simp: swim_def p_def)
  have "rank (swapped i p h ! (j div 2)) \<le> rank (swapped i p h ! j)" if j: "1 < j" "j < length h" "j \<noteq> p" for j
  proof -
    consider "j = i" | "j div 2 = i" | "j \<noteq> i" "j div 2 = p" | "j \<noteq> i" "j div 2 \<noteq> i" "j div 2 \<noteq> p" by blast
    then show ?thesis
    proof cases
      case 1
      then show ?thesis using assms(3) by (simp add: nth flip: p_def)
    next
      case 2
      then have "j \<noteq> i" using j by auto
      with 2 show ?thesis using below [OF 2 j(2)] j ip by (simp add: nth)
    next
      case 3
      then have "rank (h ! p) \<le> rank (h ! j)" using up [OF j(1,2)] by simp
      with 3(1) j(3) assms(3) show ?thesis by (simp add: nth 3(2) flip: p_def)
    next
      case 4
      then show ?thesis using up [OF j(1,2)] j by (simp add: nth)
    qed
  qed
  moreover have "rank (swapped i p h ! (p div 2)) \<le> rank (swapped i p h ! j)"
    if j: "1 < p" "j div 2 = p" "j < length h" for j
  proof -
    have pp: "rank (h ! (p div 2)) \<le> rank (h ! p)" using up [of p] j ip by simp
    have n: "p div 2 \<noteq> i" "p div 2 \<noteq> p" "j \<noteq> p" "1 < j" using j ip by auto
    show ?thesis
    proof (cases "j = i")
      case True
      with pp n show ?thesis by (simp add: nth)
    next
      case False
      then have "rank (h ! p) \<le> rank (h ! j)" using up [OF n(4) j(3)] j(2) by simp
      with False pp n show ?thesis by (simp add: nth)
    qed
  qed
  ultimately show ?thesis
    using ip by (simp add: swim_def flip: p_def)
qed

lemma bottom_up_ok:
  "swim h i \<Longrightarrow> \<exists>h'. bottom_up h i = Inr h' \<and> is_heap h' \<and> same_elements h h' \<and> length h' = length h"
proof (induction h i rule: bottom_up.induct)
  case (1 h i)
  have i: "1 \<le> i" "i < length h" using 1(2) by (simp_all add: swim_def)
  show ?case
  proof (cases "\<not> IsRoot i \<and> IsLessStrictly h i (Parent i)")
    case True
    then have lt: "i \<noteq> 1" "rank (h ! i) < rank (h ! (i div 2))" by (auto simp: heap_simps)
    have p: "1 \<le> i div 2" "i div 2 < length h" using i lt(1) by auto
    obtain h' where "bottom_up (swapped i (Parent i) h) (Parent i) = Inr h'" "is_heap h'"
      "same_elements (swapped i (Parent i) h) h'" "length h' = length h"
      using 1(1) [OF True] swim_step [OF 1(2) lt] by (auto simp: Parent_def)
    moreover have "same_elements h (swapped i (Parent i) h)"
      using i p by (simp add: same_elements_swapped Parent_def)
    ultimately show ?thesis
      using True i p same_elements_trans by (auto simp: bottom_up.simps [of h i] Parent_def)
  next
    case False
    then have "i = 1 \<or> rank (h ! (i div 2)) \<le> rank (h ! i)" by (auto simp: heap_simps)
    then have "is_heap h" using 1(2) by (auto simp: swim_def is_heap_def)
    then show ?thesis using False by (auto simp: bottom_up.simps [of h i] same_elements_def)
  qed
qed

lemma sink_step:
  assumes "sink h i" "tmp div 2 = i" "tmp < length h" "rank (h ! tmp) \<le> rank (h ! i)"
    and smallest: "\<And>j. j div 2 = i \<Longrightarrow> j < length h \<Longrightarrow> rank (h ! tmp) \<le> rank (h ! j)"
  shows "sink (swapped i tmp h) tmp"
proof -
  have ip: "1 \<le> i" "i < tmp" "i < length h"
    using assms(1-3) by (auto simp: sink_def)
  note nth = nth_swapped [OF ip(3) assms(3)]
  have up: "rank (h ! (j div 2)) \<le> rank (h ! j)" if "1 < j" "j < length h" "j div 2 \<noteq> i" for j
    using assms(1) that by (simp add: sink_def)
  have above: "rank (h ! (i div 2)) \<le> rank (h ! j)" if "1 < i" "j div 2 = i" "j < length h" for j
    using assms(1) that by (simp add: sink_def)
  have "rank (swapped i tmp h ! (j div 2)) \<le> rank (swapped i tmp h ! j)"
    if j: "1 < j" "j < length h" "j div 2 \<noteq> tmp" for j
  proof -
    consider "j = tmp" | "j \<noteq> tmp" "j div 2 = i" | "j = i" | "j \<noteq> tmp" "j \<noteq> i" "j div 2 \<noteq> i" by blast
    then show ?thesis
    proof cases
      case 1
      then show ?thesis using assms(2,4) ip by (simp add: nth)
    next
      case 2
      then show ?thesis using smallest [OF 2(2) j(2)] j ip by (auto simp: nth)
    next
      case 3
      then have "i div 2 \<noteq> i" "i div 2 \<noteq> tmp" using ip by auto
      with 3 show ?thesis using above [OF _ assms(2,3)] j ip by (auto simp: nth)
    next
      case 4
      then show ?thesis using up j by (simp add: nth)
    qed
  qed
  moreover have "rank (swapped i tmp h ! (tmp div 2)) \<le> rank (swapped i tmp h ! j)"
    if j: "j div 2 = tmp" "j < length h" for j
    using up [of j] j assms(2) ip by (auto simp: nth)
  ultimately show ?thesis
    using ip by (simp add: sink_def)
qed

lemma children: "j div 2 = i \<longleftrightarrow> j = i * 2 \<or> j = i * 2 + (1 :: nat)"
  by auto

lemma Smallest_rank: "rank (h ! Smallest h a b) \<le> rank (h ! a)" "rank (h ! Smallest h a b) \<le> rank (h ! b)"
  by (simp_all add: Smallest_def IsLessStrictly_def key_less_rank)

lemma sink_done: "sink h i \<Longrightarrow> (\<And>j. j div 2 = i \<Longrightarrow> 1 < j \<Longrightarrow> j < length h \<Longrightarrow> rank (h ! i) \<le> rank (h ! j)) \<Longrightarrow> is_heap h"
  by (auto simp: sink_def is_heap_def)

lemma top_down_ok:
  "sink h i \<Longrightarrow> \<exists>h'. top_down h i = Inr h' \<and> is_heap h' \<and> same_elements h h' \<and> length h' = length h"
proof (induction h i rule: top_down.induct)
  case (1 h i)
  have i: "1 \<le> i" using 1(2) by (simp add: sink_def)
  show ?case
  proof (cases "IsBottom h (RightChild i)")
    case False
    define tmp where "tmp = Smallest h (LeftChild i) (RightChild i)"
    have tmp: "tmp div 2 = i" "tmp < length h" "tmp \<noteq> i" "i < length h"
      using Smallest_in [of h "LeftChild i" "RightChild i"] False i by (auto simp: tmp_def heap_simps)
    have small: "rank (h ! tmp) \<le> rank (h ! j)" if "j div 2 = i" for j
      using that Smallest_rank [of h] unfolding children tmp_def LeftChild_def RightChild_def by auto
    show ?thesis
    proof (cases "IsLessStrictly h i tmp")
      case True
      then have "is_heap h"
        using small by (intro sink_done [OF 1(2)]) (fastforce simp: IsLessStrictly_def key_less_rank)
      with True False show ?thesis
        by (auto simp: top_down.simps [of h i] same_elements_def Let_def simp flip: tmp_def)
    next
      case less: False
      then have "rank (h ! tmp) \<le> rank (h ! i)" by (simp add: IsLessStrictly_def key_less_rank)
      then have "sink (swapped i tmp h) tmp"
        using sink_step [OF 1(2) tmp(1,2)] small by blast
      then obtain h' where "top_down (swapped i tmp h) tmp = Inr h'" "is_heap h'"
        "same_elements (swapped i tmp h) h'" "length h' = length h"
        using 1(1) [OF False tmp_def less tmp(3)] by auto
      moreover have "same_elements h (swapped i tmp h)"
        using i tmp by (intro same_elements_swapped) auto
      ultimately show ?thesis
        using False less tmp same_elements_trans
        by (auto simp: top_down.simps [of h i] Let_def simp flip: tmp_def)
    qed
  next
    case True
    show ?thesis
    proof (cases "IsBottom h (LeftChild i) \<or> IsLessStrictly h i (LeftChild i)")
      case stop: True
      then have "is_heap h"
        using True by (intro sink_done [OF 1(2)]) (auto simp: children heap_simps)
      moreover have "top_down h i = Inr h"
        using True stop by (auto simp: top_down.simps [of h i])
      ultimately show ?thesis by (simp add: same_elements_def)
    next
      case swap: False
      then have l: "i * 2 < length h" "i < length h" "rank (h ! (i * 2)) \<le> rank (h ! i)"
        using i by (auto simp: heap_simps)
      have small: "rank (h ! (i * 2)) \<le> rank (h ! j)" if "j div 2 = i" "j < length h" for j
        using that True unfolding children by (auto simp: heap_simps)
      have "sink (swapped i (i * 2) h) (i * 2)"
        using sink_step [OF 1(2) _ l(1,3) small] by simp
      then have "is_heap (swapped i (i * 2) h)"
        using True i by (intro sink_done) (auto simp: children heap_simps)
      moreover have "top_down h i = Inr (swapped i (i * 2) h)"
        using True swap l by (auto simp: top_down.simps [of h i] Exch_def LeftChild_def IsBottom_def)
      moreover have "same_elements h (swapped i (i * 2) h)"
        using i l by (intro same_elements_swapped) auto
      ultimately show ?thesis by simp
    qed
  qed
qed

section \<open>The contract holds\<close>

definition heap_events :: "event list \<Rightarrow> event set" where
  "heap_events h = set (tl h)"

definition heap_inv :: "event list \<Rightarrow> bool" where
  "heap_inv h \<longleftrightarrow> h \<noteq> [] \<and> is_heap h \<and> distinct (tl h) \<and> uids_distinct (heap_events h)"

lemma same_elements_tl:
  assumes "same_elements h h'" "h \<noteq> []"
  shows "h' \<noteq> [] \<and> mset (tl h') = mset (tl h)"
proof -
  obtain a r where h: "h = a # r" using assms(2) by (cases h) auto
  obtain b s where h': "h' = b # s" using assms by (cases h') (auto simp: same_elements_def)
  from assms(1) show ?thesis by (auto simp: h h' same_elements_def)
qed

lemma heap_inv_same:
  assumes "same_elements h h'" "h \<noteq> []" "is_heap h'" "distinct (tl h)" "uids_distinct (heap_events h)"
  shows "heap_inv h' \<and> heap_events h' = heap_events h"
proof -
  have "mset (tl h') = mset (tl h)" "h' \<noteq> []" using same_elements_tl [OF assms(1,2)] by simp_all
  moreover from this have "set (tl h') = set (tl h)" "distinct (tl h') = distinct (tl h)"
    using mset_eq_setD mset_eq_imp_distinct_iff by blast+
  ultimately show ?thesis using assms by (simp add: heap_inv_def heap_events_def)
qed

lemma heap_Insert_ok:
  assumes "heap_inv h" "ev_uid e \<notin> ev_uid ` heap_events h"
  shows "\<exists>h'. heap_Insert e h = Inr h' \<and> heap_inv h' \<and> heap_events h' = insert e (heap_events h)"
proof -
  have h: "h \<noteq> []" "is_heap h" "distinct (tl h)" "uids_distinct (heap_events h)"
    using assms(1) by (simp_all add: heap_inv_def)
  have "swim (h @ [e]) (length h)"
    unfolding swim_def
  proof (intro conjI allI impI)
    show "1 \<le> length h" using h(1) by (cases h) simp_all
    fix j assume "1 < j \<and> j < length (h @ [e]) \<and> j \<noteq> length h"
    then have "1 < j" "j < length h" "j div 2 < length h" by auto
    then show "rank ((h @ [e]) ! (j div 2)) \<le> rank ((h @ [e]) ! j)"
      using h(2) by (simp add: nth_append is_heap_def)
  qed auto
  then obtain h' where h': "bottom_up (h @ [e]) (length h) = Inr h'" "is_heap h'" "same_elements (h @ [e]) h'"
    using bottom_up_ok by blast
  have ev: "heap_events (h @ [e]) = insert e (heap_events h)"
    using h(1) by (simp add: heap_events_def)
  have "e \<notin> heap_events h" using assms(2) by auto
  then have "distinct (tl (h @ [e]))" using h by (simp add: heap_events_def)
  moreover have "uids_distinct (heap_events (h @ [e]))"
    unfolding ev using h(4) assms(2) by (rule uids_distinct_insert)
  ultimately have "heap_inv h' \<and> heap_events h' = heap_events (h @ [e])"
    by (intro heap_inv_same [OF h'(3) _ h'(2)]) simp_all
  with h'(1) ev show ?thesis by (simp add: heap_Insert_def Last_def)
qed

lemma heap_root: "heap_inv h \<Longrightarrow> heap_events h \<noteq> {} \<Longrightarrow> 1 < length h \<and> is_next (h ! 1) (heap_events h)"
proof -
  assume h: "heap_inv h" "heap_events h \<noteq> {}"
  then obtain a b r where h': "h = a # b # r"
    by (cases h; cases "tl h") (auto simp: heap_inv_def heap_events_def)
  have "rank (h ! 1) \<le> rank x" if x: "x \<in> heap_events h" for x
  proof -
    obtain i where "i < length (tl h)" "x = tl h ! i"
      using x by (auto simp: heap_events_def in_set_conv_nth)
    then have "Suc i < length h" "x = h ! Suc i" by (auto simp: h')
    then show ?thesis using heap_min [of h "Suc i"] h(1) by (simp add: heap_inv_def)
  qed
  then show ?thesis by (auto simp: is_next_def h' heap_events_def)
qed

lemma butlast_swapped:
  assumes "1 \<le> i" "i < length h"
  shows "mset (tl (butlast (swapped i (length h - 1) h))) = mset (tl h) - {#h ! i#}"
    "butlast (swapped i (length h - 1) h) \<noteq> []"
proof -
  define g where "g = swapped i (length h - 1) h"
  have g: "length g = length h" "mset g = mset h" "g ! 0 = h ! 0" "last g = h ! i" "g \<noteq> []"
    using assms by (auto simp: g_def mset_swapped nth_swapped last_conv_nth simp flip: length_greater_0_conv)
  have len: "2 \<le> length h" using assms by simp
  have l: "g = butlast g @ [h ! i]" using g by (metis append_butlast_last_id)
  obtain a r where b: "butlast g = a # r" using len g(1) by (cases "butlast g") (auto dest: arg_cong [of _ _ length])
  obtain c s where h: "h = c # s" using len by (cases h) auto
  have "a = c" using g(3) l b h by (metis append_Cons nth_Cons_0)
  moreover have "mset h = mset (butlast g) + {#h ! i#}" using g(2) l by (metis mset_append mset_single_iff_right)
  ultimately show "mset (tl (butlast g)) = mset (tl h) - {#h ! i#}" "butlast g \<noteq> []"
    by (simp_all add: b h)
qed

lemma heap_RemoveNext_ok:
  assumes "heap_inv h" "heap_events h \<noteq> {}"
  shows "\<exists>h'. heap_RemoveNext h = Inr (h ! 1, h') \<and> heap_inv h' \<and> heap_events h' = heap_events h - {h ! 1}"
proof -
  define g where "g = butlast (swapped 1 (length h - 1) h)"
  have len: "1 < length h" using heap_root assms by blast
  have h: "is_heap h" "distinct (tl h)" "uids_distinct (heap_events h)"
    using assms(1) by (simp_all add: heap_inv_def)
  have g: "mset (tl g) = mset (tl h) - {#h ! 1#}" "g \<noteq> []"
    unfolding g_def using butlast_swapped len by simp_all
  have nth: "g ! j = h ! j" if "1 < j" "j < length g" for j
    using that len by (simp add: g_def nth_butlast nth_swapped)
  have "sink g 1"
    unfolding sink_def
  proof (intro conjI allI impI)
    fix j assume j: "1 < j \<and> j < length g \<and> j div 2 \<noteq> 1"
    then have "1 < j div 2" by auto
    then show "rank (g ! (j div 2)) \<le> rank (g ! j)"
      using j nth h(1) by (auto simp: is_heap_def g_def)
  qed simp_all
  then obtain h' where h': "top_down g 1 = Inr h'" "is_heap h'" "same_elements g h'"
    using top_down_ok by blast
  have tl: "mset (tl g) = mset (remove1 (h ! 1) (tl h))" by (simp add: g(1))
  have "distinct (tl g)" using mset_eq_imp_distinct_iff [OF tl] h(2) by simp
  moreover have ev: "heap_events g = heap_events h - {h ! 1}"
    using mset_eq_setD [OF tl] h(2) by (simp add: heap_events_def)
  moreover have "uids_distinct (heap_events g)"
    unfolding ev using h(3) by (rule uids_distinct_mono) auto
  ultimately have "heap_inv h' \<and> heap_events h' = heap_events h - {h ! 1}"
    using heap_inv_same [OF h'(3) g(2) h'(2)] by simp
  moreover have "heap_RemoveNext h = Inr (h ! 1, h')"
    using h'(1) len
    by (simp add: heap_RemoveNext_def Exch_def Root_def Last_def g_def rguard_def flip: One_nat_def)
  ultimately show ?thesis by simp
qed

interpretation heap_scheduler: event_queue HeapScheduler heap_Insert heap_IsEmpty heap_PeekNext
    heap_RemoveNext heap_inv heap_events "\<lambda>_. 0" "2 ^ 64"
proof
  show "heap_inv HeapScheduler" "heap_events HeapScheduler = {}"
    by (simp_all add: HeapScheduler_def heap_inv_def heap_events_def is_heap_def uids_distinct_def)
next
  fix q assume q: "heap_inv q"
  then show "heap_IsEmpty q \<longleftrightarrow> heap_events q = {}"
    by (cases q) (auto simp: heap_IsEmpty_def heap_inv_def heap_events_def)
  show "finite (heap_events q) \<and> uids_distinct (heap_events q)"
    using q by (simp add: heap_inv_def heap_events_def)
next
  fix q assume q: "heap_inv q" "heap_events q \<noteq> {}"
  then show "\<exists>e. heap_PeekNext q = Inr e \<and> is_next e (heap_events q)"
    using heap_root by (simp add: heap_PeekNext_def Root_def)
  show "\<exists>e q'. heap_RemoveNext q = Inr (e, q') \<and> is_next e (heap_events q) \<and> heap_inv q' \<and>
      heap_events q' = heap_events q - {e} \<and> 0 \<le> unat (ev_ts e)"
    using heap_RemoveNext_ok [OF q] heap_root [OF q] by auto
qed (simp_all add: heap_Insert_ok)

section \<open>\<open>Remove\<close>\<close>

text \<open>
  \<open>Remove\<close> puts the last event into the place of the removed one and only moves it down.  The
  removed event is gone and the others stay, but the order of the heap holds only when the moved
  event is not before the parent of that place.
\<close>

lemma top_down_elements:
  "1 \<le> i \<Longrightarrow> \<exists>h'. top_down h i = Inr h' \<and> same_elements h h'"
proof (induction h i rule: top_down.induct)
  case (1 h i)
  show ?case
  proof (cases "IsBottom h (RightChild i)")
    case False
    define tmp where "tmp = Smallest h (LeftChild i) (RightChild i)"
    have tmp: "1 \<le> tmp" "tmp < length h" "tmp \<noteq> i" "i < length h"
      using Smallest_in [of h "LeftChild i" "RightChild i"] False 1(2) by (auto simp: tmp_def heap_simps)
    show ?thesis
    proof (cases "IsLessStrictly h i tmp")
      case True
      with False show ?thesis
        by (auto simp: top_down.simps [of h i] same_elements_def Let_def simp flip: tmp_def)
    next
      case less: False
      obtain h' where "top_down (swapped i tmp h) tmp = Inr h'" "same_elements (swapped i tmp h) h'"
        using 1(1) [OF False tmp_def less tmp(3) tmp(1)] by auto
      moreover have "same_elements h (swapped i tmp h)"
        using 1(2) tmp by (intro same_elements_swapped) auto
      ultimately show ?thesis
        using False less tmp same_elements_trans
        by (auto simp: top_down.simps [of h i] Let_def simp flip: tmp_def)
    qed
  next
    case True
    then show ?thesis
      using 1(2) same_elements_swapped [of i "LeftChild i" h]
      by (auto simp: top_down.simps [of h i] same_elements_def Exch_def LeftChild_def IsBottom_def not_le)
  qed
qed

lemma heap_Remove_events:
  assumes "heap_inv h" "e \<in> heap_events h"
  shows "\<exists>h'. heap_Remove e h = Inr h' \<and> h' \<noteq> [] \<and> mset (tl h') = mset (tl h) - {#e#}"
proof -
  have u: "uids_distinct (set (tl h))" and d: "distinct (tl h)" and "h \<noteq> []"
    using assms(1) by (simp_all add: heap_inv_def heap_events_def)
  then obtain a r where h: "h = a # r" by (cases h) auto
  obtain k where k: "k < length r" "r ! k = e"
    using assms(2) by (auto simp: h heap_events_def in_set_conv_nth)
  have "y = Suc k" if "y \<in> set [1..<length h]" "ev_uid e = ev_uid (h ! y)" for y
  proof -
    have "y - 1 < length r" "h ! y = r ! (y - 1)" using that(1) by (auto simp: h nth_Cons')
    then have "r ! (y - 1) = e"
      using uid_inj [OF u, of "r ! (y - 1)" e] that(2) assms(2) by (simp add: h heap_events_def)
    then show ?thesis
      using d k \<open>y - 1 < length r\<close> that(1) by (auto simp: h nth_eq_iff_index_eq)
  qed
  then have f: "List.find (\<lambda>i. ev_uid e = ev_uid (h ! i)) [1..<length h] = Some (Suc k)"
    using k by (intro find_unique) (auto simp: h)
  define g where "g = butlast (swapped (Suc k) (length h - 1) h)"
  obtain h' where h': "top_down g (Suc k) = Inr h'" "same_elements g h'"
    using top_down_elements [of "Suc k"] by auto
  have g: "mset (tl g) = mset (tl h) - {#e#}" "g \<noteq> []"
    using butlast_swapped [of "Suc k" h] k by (simp_all add: g_def h)
  have "heap_Remove e h = Inr h'"
    using f k h' by (simp add: heap_Remove_def Exch_def Last_def h g_def)
  then show ?thesis using same_elements_tl [OF h'(2) g(2)] g(1) by simp
qed

text \<open>The place of a removed event is found, and the last event is moved down from it.\<close>

lemma heap_Remove_at:
  assumes "heap_inv h" "1 \<le> i" "i < length h"
  shows "heap_Remove (h ! i) h = top_down (butlast (swapped i (length h - 1) h)) i"
proof -
  have u: "uids_distinct (set (tl h))" and d: "distinct (tl h)"
    using assms(1) by (simp_all add: heap_inv_def heap_events_def)
  obtain a r where h: "h = a # r" using assms(3) by (cases h) auto
  have "y = i" if "y \<in> set [1..<length h]" "ev_uid (h ! i) = ev_uid (h ! y)" for y
  proof -
    have y: "1 \<le> y" "y - 1 < length r" "i - 1 < length r" using that(1) assms(2,3) by (auto simp: h)
    then have "h ! y = r ! (y - 1)" "h ! i = r ! (i - 1)" using assms(2) by (simp_all add: h nth_Cons')
    then have "r ! (i - 1) = r ! (y - 1)"
      using uid_inj [OF u, of "r ! (i - 1)" "r ! (y - 1)"] that(2) y by (simp add: h)
    then have "i - 1 = y - 1" using d y by (simp add: h nth_eq_iff_index_eq)
    with y(1) assms(2) show ?thesis by linarith
  qed
  then have "List.find (\<lambda>j. ev_uid (h ! i) = ev_uid (h ! j)) [1..<length h] = Some i"
    using assms(2,3) by (intro find_unique) auto
  moreover have "length h - 1 < length h" using assms(3) by linarith
  ultimately show ?thesis
    using assms(3) by (simp only: heap_Remove_def Exch_def Last_def option.case rguard_def simp_thms if_True)
qed

lemma heap_below:
  assumes "is_heap h" "1 \<le> i" "j div 2 = i" "j < length h"
  shows "rank (h ! i) \<le> rank (h ! j)"
  using assms by (auto simp: is_heap_def)

text \<open>Nothing moves when the moved event is before all that is below its new place.\<close>

lemma top_down_stops:
  assumes "1 \<le> i" "\<And>j. j div 2 = i \<Longrightarrow> j < length h \<Longrightarrow> rank (h ! i) < rank (h ! j)"
  shows "top_down h i = Inr h"
proof -
  have "IsLessStrictly h i (Smallest h (LeftChild i) (RightChild i))" if "\<not> IsBottom h (RightChild i)"
    using that Smallest_in [of h "LeftChild i" "RightChild i"] assms(2) [of "i * 2"] assms(2) [of "i * 2 + 1"]
    by (auto simp: heap_simps)
  moreover have "IsLessStrictly h i (LeftChild i)" if "\<not> IsBottom h (LeftChild i)"
    using that assms(2) [of "i * 2"] by (simp add: heap_simps)
  ultimately show ?thesis
    by (auto simp: top_down.simps [of h i] Let_def)
qed

text \<open>When the order holds above the place, it holds everywhere afterwards.\<close>

lemma sink_removed:
  assumes "is_heap h" "1 \<le> i" "i < length h - 1" "i = 1 \<or> rank (h ! (i div 2)) \<le> rank (last h)"
  shows "sink (butlast (swapped i (length h - 1) h)) i"
proof -
  define g where "g = butlast (swapped i (length h - 1) h)"
  have nth: "g ! j = (if j = i then last h else h ! j)" if "j < length h - 1" for j
    using that assms(2,3) by (simp add: g_def nth_butlast nth_swapped last_conv_nth flip: length_greater_0_conv)
  have len: "length g = length h - 1" by (simp add: g_def)
  have up: "rank (h ! (j div 2)) \<le> rank (h ! j)" if "1 < j" "j < length h" for j
    using assms(1) that by (simp add: is_heap_def)
  have "rank (g ! (j div 2)) \<le> rank (g ! j)" if "1 < j" "j < length g" "j div 2 \<noteq> i" for j
    using that up [of j] assms(4) by (auto simp: nth len)
  moreover have "rank (g ! (i div 2)) \<le> rank (g ! j)" if "1 < i" "j div 2 = i" "j < length g" for j
  proof -
    have "rank (h ! (i div 2)) \<le> rank (h ! i)" "rank (h ! i) \<le> rank (h ! j)"
      using up [of i] up [of j] that assms(3) by (auto simp: len)
    moreover have "j \<noteq> i" "i div 2 \<noteq> i" "i div 2 < length h - 1" using that assms(2,3) by auto
    ultimately show ?thesis using that by (simp add: nth len)
  qed
  ultimately show ?thesis
    using assms(2) unfolding g_def [symmetric] sink_def by blast
qed

text \<open>
  \<open>Remove\<close> takes the event out and keeps the others; it keeps the order exactly when the last
  event is not before the parent of the place into which it is put.
\<close>

lemma heap_Remove_exact:
  assumes "heap_inv h" "1 \<le> i" "i < length h"
  shows "\<exists>h'. heap_Remove (h ! i) h = Inr h' \<and> mset (tl h') = mset (tl h) - {#h ! i#} \<and>
    (is_heap h' \<longleftrightarrow> i = 1 \<or> i = length h - 1 \<or> rank (h ! (i div 2)) \<le> rank (last h))"
proof -
  define g where "g = butlast (swapped i (length h - 1) h)"
  have heap: "is_heap h" using assms(1) by (simp add: heap_inv_def)
  have mem: "h ! i \<in> heap_events h"
    using assms(2,3) by (cases h) (auto simp: heap_events_def nth_Cons')
  obtain h' where h': "heap_Remove (h ! i) h = Inr h'" "mset (tl h') = mset (tl h) - {#h ! i#}"
    using heap_Remove_events [OF assms(1) mem] by blast
  have run: "top_down g i = Inr h'"
    using heap_Remove_at [OF assms] h'(1) by (simp add: g_def)
  have len: "length g = length h - 1" by (simp add: g_def)
  have nth: "g ! j = (if j = i then last h else h ! j)" if "j < length h - 1" for j
    using that assms(3) by (auto simp: g_def nth_butlast nth_swapped last_conv_nth simp flip: length_greater_0_conv)
  consider "i = length h - 1" | "i < length h - 1" "i = 1 \<or> rank (h ! (i div 2)) \<le> rank (last h)"
    | "i < length h - 1" "i \<noteq> 1" "rank (last h) < rank (h ! (i div 2))"
    using assms(3) by linarith
  then have "is_heap h' \<longleftrightarrow> i = 1 \<or> i = length h - 1 \<or> rank (h ! (i div 2)) \<le> rank (last h)"
  proof cases
    case 1
    have "h' = g" using run top_down_stops [of i g] assms(2) 1 by (auto simp: len)
    then have "is_heap h'" using heap 1 by (auto simp: is_heap_def nth len)
    with 1 show ?thesis by simp
  next
    case 2
    then have "sink g i" unfolding g_def by (intro sink_removed heap assms(2)) simp_all
    then have "is_heap h'" using top_down_ok [of g i] run by auto
    with 2 show ?thesis by simp
  next
    case 3
    have "rank (h ! (i div 2)) \<le> rank (h ! i)" using heap 3(1,2) assms(2) by (simp add: is_heap_def)
    then have "rank (last h) < rank (h ! j)" if "j div 2 = i" "j < length h" for j
      using heap_below [OF heap assms(2) that] 3(3) by linarith
    then have "rank (g ! i) < rank (g ! j)" if "j div 2 = i" "j < length g" for j
      using that 3(1) assms(2) by (auto simp: nth len)
    then have "h' = g" using run top_down_stops [of i g] assms(2) by simp
    moreover have "rank (g ! i) < rank (g ! (i div 2))"
      using 3 assms(2) by (simp add: nth)
    ultimately have "\<not> is_heap h'"
      using 3(1,2) assms(2) by (auto simp: is_heap_def len not_le intro!: exI [of _ i])
    with 3 show ?thesis by simp
  qed
  with h' show ?thesis by blast
qed

end
