(* ===== verification/CalendarScheduler.thy ===== *)
theory CalendarScheduler
  imports Scheduler
begin

text \<open>
  \<open>CalendarScheduler\<close> (\<open>src/src/core/model/calendar-scheduler.cc\<close>): a calendar queue.  Day \<open>d\<close> holds the
  events with \<open>ts div width = d\<close> and is kept in bucket \<open>d mod nBuckets\<close>; the number of buckets and
  the width of a day follow the number of the events and their distances.
\<close>

section \<open>State and buckets\<close>

record calendar =
  m_buckets :: "event list list"
  m_nBuckets :: u32
  m_width :: u64
  m_lastBucket :: u32
  m_bucketTop :: u64
  m_lastPrio :: u64
  m_qSize :: u32
  m_reverse :: bool

text \<open>\<open>SetReverse\<close> chooses these three.\<close>

definition NextEvent :: "bool \<Rightarrow> event list \<Rightarrow> event" where
  "NextEvent r b = (if r then last b else hd b)"

definition Order :: "bool \<Rightarrow> event \<Rightarrow> event \<Rightarrow> bool" where
  "Order r a b = (if r then key_greater a b else key_less a b)"

definition Pop :: "bool \<Rightarrow> event list \<Rightarrow> event list" where
  "Pop r b = (if r then butlast b else tl b)"

definition Hash :: "calendar \<Rightarrow> u64 \<Rightarrow> u32" where
  "Hash c ts = ucast ((ts div m_width c) mod ucast (m_nBuckets c))"

definition Init :: "u32 \<Rightarrow> u64 \<Rightarrow> u64 \<Rightarrow> calendar \<Rightarrow> calendar" where
  "Init nBuckets width startPrio c =
     (let c1 = c\<lparr>m_buckets := replicate (unat nBuckets) [], m_nBuckets := nBuckets, m_width := width,
                 m_lastPrio := startPrio\<rparr> in
      c1\<lparr>m_lastBucket := Hash c1 startPrio, m_bucketTop := (startPrio div width + 1) * width\<rparr>)"

definition CalendarScheduler :: "bool \<Rightarrow> calendar" where
  "CalendarScheduler r =
     (Init 2 1 0 \<lparr>m_buckets = [], m_nBuckets = 0, m_width = 0, m_lastBucket = 0, m_bucketTop = 0, m_lastPrio = 0,
                  m_qSize = 0, m_reverse = r\<rparr>)\<lparr>m_qSize := 0\<rparr>"

text \<open>The access to a bucket; past the end of the array it is undefined.\<close>

definition bucket_at :: "calendar \<Rightarrow> u32 \<Rightarrow> (event list \<Rightarrow> 'a res) \<Rightarrow> 'a res" where
  "bucket_at c i k = (if unat i < length (m_buckets c) then k (m_buckets c ! unat i) else Inl UndefinedBehaviour)"

definition set_bucket :: "u32 \<Rightarrow> event list \<Rightarrow> calendar \<Rightarrow> calendar" where
  "set_bucket i b c = c\<lparr>m_buckets := (m_buckets c)[unat i := b]\<rparr>"

section \<open>Operations\<close>

fun bucket_insert :: "bool \<Rightarrow> event \<Rightarrow> event list \<Rightarrow> event list" where
  "bucket_insert r ev [] = [ev]"
| "bucket_insert r ev (i # b) = (if Order r ev i then ev # i # b else i # bucket_insert r ev b)"

definition DoInsert :: "event \<Rightarrow> calendar \<Rightarrow> calendar res" where
  "DoInsert ev c =
     (let bucket = Hash c (ev_ts ev) in
      bucket_at c bucket (\<lambda>b. Inr (set_bucket bucket (bucket_insert (m_reverse c) ev b) c)))"

definition calendar_IsEmpty :: "calendar \<Rightarrow> bool" where
  "calendar_IsEmpty c \<longleftrightarrow> m_qSize c = 0"

text \<open>
  The loop of \<open>PeekNext\<close> and \<open>DoRemoveNext\<close> over the buckets from \<open>m_lastBucket\<close> on: the first event
  that lies in the day of its bucket, or the earliest event of all.
\<close>

datatype scan_result = Found u32 u64 event | Earliest event "u32 option"

primrec scan :: "nat \<Rightarrow> calendar \<Rightarrow> u32 \<Rightarrow> u64 \<Rightarrow> event \<Rightarrow> u32 option \<Rightarrow> scan_result res" where
  "scan 0 c i btop m mb = Inl Diverges"
| "scan (Suc fuel) c i btop m mb =
     bucket_at c i (\<lambda>b.
       let continue = (\<lambda>m mb.
             let i' = (i + 1) mod m_nBuckets c in
             if i' \<noteq> m_lastBucket c then scan fuel c i' (btop + m_width c) m mb else Inr (Earliest m mb)) in
       if b \<noteq> [] then
         (let ev = NextEvent (m_reverse c) b in
          if ev_ts ev < btop then Inr (Found i btop ev)
          else if key_less ev m then continue ev (Some i)
          else continue m mb)
       else continue m mb)"

definition calendar_PeekNext :: "calendar \<Rightarrow> event res" where
  "calendar_PeekNext c =
     rguard NsAssert (\<not> calendar_IsEmpty c)
       (rbind (scan (unat (m_nBuckets c)) c (m_lastBucket c) (m_bucketTop c)
                 \<lparr>ev_impl = 0, ev_ts = 0xffffffffffffffff, ev_uid = 0xffffffff, ev_context = 0\<rparr> None)
         (\<lambda>r. case r of Found i btop ev \<Rightarrow> Inr ev | Earliest m mb \<Rightarrow> Inr m))"

definition DoRemoveNext :: "calendar \<Rightarrow> (event \<times> calendar) res" where
  "DoRemoveNext c =
     rguard NsAssert (\<not> calendar_IsEmpty c)
       (rbind (scan (unat (m_nBuckets c)) c (m_lastBucket c) (m_bucketTop c)
                 \<lparr>ev_impl = 0, ev_ts = 0xffffffffffffffff, ev_uid = 0, ev_context = 0xffffffff\<rparr> None)
         (\<lambda>r. case r of
            Found i btop ev \<Rightarrow>
              bucket_at c i (\<lambda>b. Inr (ev, set_bucket i (Pop (m_reverse c) b)
                (c\<lparr>m_lastBucket := i, m_lastPrio := ev_ts ev, m_bucketTop := btop\<rparr>)))
          | Earliest m mb \<Rightarrow>
              (case mb of
                 None \<Rightarrow> Inl UndefinedBehaviour
               | Some i \<Rightarrow>
                   bucket_at c i (\<lambda>b.
                     if b = [] then Inl UndefinedBehaviour
                     else Inr (NextEvent (m_reverse c) b, set_bucket i (Pop (m_reverse c) b)
                       (c\<lparr>m_lastPrio := ev_ts m, m_lastBucket := Hash c (ev_ts m),
                          m_bucketTop := (ev_ts m div m_width c + 1) * m_width c\<rparr>))))))"

primrec gather :: "nat \<Rightarrow> calendar \<Rightarrow> (event list \<times> calendar) res" where
  "gather 0 c = Inr ([], c)"
| "gather (Suc n) c = rbind (DoRemoveNext c) (\<lambda>(ev, c1). rbind (gather n c1) (\<lambda>(evs, c2). Inr (ev # evs, c2)))"

fun insert_all :: "event list \<Rightarrow> calendar \<Rightarrow> calendar res" where
  "insert_all [] c = Inr c"
| "insert_all (ev # evs) c = rbind (DoInsert ev c) (insert_all evs)"

fun separation :: "(u64 \<Rightarrow> bool) \<Rightarrow> event list \<Rightarrow> u64 \<Rightarrow> u64" where
  "separation P (cur # nxt # evs) tot =
     (let diff = ev_ts nxt - ev_ts cur in
      separation P (nxt # evs) (if P diff then tot + diff else tot))"
| "separation P evs tot = tot"

definition nSamples :: "u32 \<Rightarrow> u32" where
  "nSamples q = (let n = (if q \<le> 5 then q else 5 + q div 10) in if n > 25 then 25 else n)"

definition CalculateNewWidth :: "calendar \<Rightarrow> (u64 \<times> calendar) res" where
  "CalculateNewWidth c =
     (if m_qSize c < 2 then Inr (1, c)
      else
        (let n = nSamples (m_qSize c) in
         rbind (gather (unat n) c) (\<lambda>(samples, c1).
           rbind (insert_all samples c1) (\<lambda>c2.
             let c3 = c2\<lparr>m_lastBucket := m_lastBucket c, m_bucketTop := m_bucketTop c, m_lastPrio := m_lastPrio c\<rparr>;
                 twiceAvg = separation (\<lambda>_. True) samples 0 div ucast (n - 1) * 2;
                 tot = separation (\<lambda>diff. diff \<le> twiceAvg) samples 0 in
             Inr (max (tot * 3) 1, c3)))))"

definition DoResize :: "u32 \<Rightarrow> u64 \<Rightarrow> calendar \<Rightarrow> calendar res" where
  "DoResize newSize newWidth c = insert_all (concat (m_buckets c)) (Init newSize newWidth (m_lastPrio c) c)"

definition Resize :: "u32 \<Rightarrow> calendar \<Rightarrow> calendar res" where
  "Resize newSize c = rbind (CalculateNewWidth c) (\<lambda>(newWidth, c1). DoResize newSize newWidth c1)"

definition ResizeUp :: "calendar \<Rightarrow> calendar res" where
  "ResizeUp c =
     (if m_qSize c > m_nBuckets c * 2 \<and> m_nBuckets c < 32768 then Resize (m_nBuckets c * 2) c else Inr c)"

definition ResizeDown :: "calendar \<Rightarrow> calendar res" where
  "ResizeDown c = (if m_qSize c < m_nBuckets c div 2 then Resize (m_nBuckets c div 2) c else Inr c)"

definition calendar_Insert :: "event \<Rightarrow> calendar \<Rightarrow> calendar res" where
  "calendar_Insert ev c = rbind (DoInsert ev c) (\<lambda>c1. ResizeUp (c1\<lparr>m_qSize := m_qSize c1 + 1\<rparr>))"

definition calendar_RemoveNext :: "calendar \<Rightarrow> (event \<times> calendar) res" where
  "calendar_RemoveNext c =
     rguard NsAssert (\<not> calendar_IsEmpty c)
       (rbind (DoRemoveNext c) (\<lambda>(ev, c1).
          rbind (ResizeDown (c1\<lparr>m_qSize := m_qSize c1 - 1\<rparr>)) (\<lambda>c2. Inr (ev, c2))))"

fun bucket_remove :: "event \<Rightarrow> event list \<Rightarrow> event list res" where
  "bucket_remove ev [] = Inl NsAssert"
| "bucket_remove ev (i # b) =
     (if ev_uid i = ev_uid ev then rguard NsAssert (ev_impl ev = ev_impl i) (Inr b)
      else rbind (bucket_remove ev b) (\<lambda>b'. Inr (i # b')))"

definition calendar_Remove :: "event \<Rightarrow> calendar \<Rightarrow> calendar res" where
  "calendar_Remove ev c =
     rguard NsAssert (\<not> calendar_IsEmpty c)
       (let bucket = Hash c (ev_ts ev) in
        bucket_at c bucket (\<lambda>b.
          rbind (bucket_remove ev b) (\<lambda>b'.
            ResizeDown ((set_bucket bucket b' c)\<lparr>m_qSize := m_qSize c - 1\<rparr>))))"

end
