(* ===== verification/CalendarQueue.thy ===== *)
theory CalendarQueue
  imports CalendarScheduler SimpleSchedulers
begin

text \<open>
  The calendar queue meets the contract of an event list, for events before \<open>2 ^ 46\<close> time units (19
  hours in nanoseconds): up to there the end of the last day that the search visits does not wrap.
\<close>

section \<open>Buckets\<close>

lemma Order_rank: "Order r a b \<longleftrightarrow> (if r then rank b < rank a else rank a < rank b)"
  by (simp add: Order_def key_less_rank key_greater_rank)

abbreviation sorted_bucket :: "bool \<Rightarrow> event list \<Rightarrow> bool" where
  "sorted_bucket r \<equiv> sorted_wrt (Order r)"

lemma bucket_insert_set: "set (bucket_insert r e b) = insert e (set b)"
  by (induction r e b rule: bucket_insert.induct) auto

lemma bucket_insert_sorted:
  "sorted_bucket r b \<Longrightarrow> (\<And>x. x \<in> set b \<Longrightarrow> rank x \<noteq> rank e) \<Longrightarrow> sorted_bucket r (bucket_insert r e b)"
proof (induction r e b rule: bucket_insert.induct)
  case (2 r ev i b)
  have "rank i \<noteq> rank ev" "sorted_bucket r b" "\<forall>x \<in> set b. Order r i x" using 2(2,3) by auto
  show ?case
  proof (cases "Order r ev i")
    case True
    then have "\<forall>x \<in> set b. Order r ev x"
      using \<open>\<forall>x \<in> set b. Order r i x\<close> by (cases r) (auto simp: Order_rank)
    with True \<open>\<forall>x \<in> set b. Order r i x\<close> \<open>sorted_bucket r b\<close> show ?thesis by simp
  next
    case False
    then have "Order r i ev" using \<open>rank i \<noteq> rank ev\<close> by (cases r) (auto simp: Order_rank)
    moreover have "sorted_bucket r (bucket_insert r ev b)"
      using 2(1) [OF False \<open>sorted_bucket r b\<close>] 2(3) by simp
    ultimately show ?thesis
      using False \<open>\<forall>x \<in> set b. Order r i x\<close> by (simp add: bucket_insert_set)
  qed
qed simp

lemma sorted_bucket_distinct: "sorted_bucket r b \<Longrightarrow> distinct b"
  by (induction b) (auto simp: Order_rank split: if_splits)

lemma bucket_split: "b \<noteq> [] \<Longrightarrow> (if r then b = Pop r b @ [NextEvent r b] else b = NextEvent r b # Pop r b)"
  by (simp add: Pop_def NextEvent_def)

lemma bucket_next:
  assumes "sorted_bucket r b" "b \<noteq> []"
  shows "is_next (NextEvent r b) (set b)" "sorted_bucket r (Pop r b)" "set (Pop r b) = set b - {NextEvent r b}"
proof -
  have d: "distinct b" using assms(1) by (rule sorted_bucket_distinct)
  have "is_next (NextEvent r b) (set b) \<and> sorted_bucket r (Pop r b) \<and> set (Pop r b) = set b - {NextEvent r b}"
  proof (cases r)
    case True
    then obtain xs x where b: "b = xs @ [x]" using assms(2) by (cases b rule: rev_cases) auto
    show ?thesis
      using True assms(1) d
      by (auto simp: b Pop_def NextEvent_def is_next_def sorted_wrt_append Order_rank intro: less_imp_le)
  next
    case False
    then obtain x xs where b: "b = x # xs" using assms(2) by (cases b) auto
    show ?thesis
      using False assms(1) d by (auto simp: b Pop_def NextEvent_def is_next_def Order_rank intro: less_imp_le)
  qed
  then show "is_next (NextEvent r b) (set b)" "sorted_bucket r (Pop r b)" "set (Pop r b) = set b - {NextEvent r b}"
    by simp_all
qed

lemma bucket_remove_list: "bucket_remove e b = list_Remove e b"
  by (induction e b rule: bucket_remove.induct) simp_all

section \<open>The shape of a calendar\<close>

definition all_events :: "calendar \<Rightarrow> event set" where
  "all_events c = (\<Union>b \<in> set (m_buckets c). set b)"

definition day :: "calendar \<Rightarrow> event \<Rightarrow> nat" where
  "day c e = unat (ev_ts e) div unat (m_width c)"

definition place :: "calendar \<Rightarrow> event \<Rightarrow> nat" where
  "place c e = day c e mod unat (m_nBuckets c)"

text \<open>Each event is in the bucket of its day.\<close>

definition sizes_ok :: "calendar \<Rightarrow> bool" where
  "sizes_ok c \<longleftrightarrow> length (m_buckets c) = unat (m_nBuckets c) \<and> 1 \<le> unat (m_nBuckets c) \<and>
     unat (m_nBuckets c) \<le> 65536 \<and> 1 \<le> unat (m_width c) \<and> unat (m_width c) \<le> 3 * 2 ^ 46"

definition core :: "calendar \<Rightarrow> bool" where
  "core c \<longleftrightarrow> sizes_ok c \<and>
     (\<forall>i < unat (m_nBuckets c). sorted_bucket (m_reverse c) (m_buckets c ! i) \<and>
        (\<forall>e \<in> set (m_buckets c ! i). place c e = i)) \<and>
     uids_distinct (all_events c) \<and>
     (\<forall>e \<in> all_events c. ev_uid e \<noteq> 0 \<and> unat (ev_ts e) < 2 ^ 46)"

text \<open>The search starts in the day of the last event that was removed.\<close>

definition cursor :: "calendar \<Rightarrow> bool" where
  "cursor c \<longleftrightarrow> unat (m_lastPrio c) < 2 ^ 46 \<and>
     unat (m_lastBucket c) = unat (m_lastPrio c) div unat (m_width c) mod unat (m_nBuckets c) \<and>
     unat (m_bucketTop c) = (unat (m_lastPrio c) div unat (m_width c) + 1) * unat (m_width c) \<and>
     (\<forall>e \<in> all_events c. unat (m_lastPrio c) \<le> unat (ev_ts e))"

lemma core_sizes: "core c \<Longrightarrow> sizes_ok c"
  by (simp add: core_def)

lemma place_less: "sizes_ok c \<Longrightarrow> place c e < length (m_buckets c)"
  by (simp add: sizes_ok_def place_def)

lemma finite_all_events: "finite (all_events c)"
  by (simp add: all_events_def)

lemma all_events_nth: "all_events c = (\<Union>i < length (m_buckets c). set (m_buckets c ! i))"
proof -
  have "set (m_buckets c) = (\<lambda>i. m_buckets c ! i) ` {..<length (m_buckets c)}"
    by (auto simp: set_conv_nth)
  then show ?thesis by (simp add: all_events_def)
qed

lemma in_all_events: "core c \<Longrightarrow> e \<in> all_events c \<longleftrightarrow> e \<in> set (m_buckets c ! place c e)"
  using place_less [of c e] by (auto simp: all_events_nth core_def sizes_ok_def)

lemma unat_Hash:
  assumes "sizes_ok c"
  shows "unat (Hash c ts) = unat ts div unat (m_width c) mod unat (m_nBuckets c)"
proof -
  define r where "r = unat ts div unat (m_width c) mod unat (m_nBuckets c)"
  have "r < unat (m_nBuckets c)" using assms by (simp add: r_def sizes_ok_def)
  then have "r < 2 ^ 32" using u32_bound [of "m_nBuckets c"] by simp
  have "unat (ucast (m_nBuckets c) :: u64) = unat (m_nBuckets c)"
    using u32_bound [of "m_nBuckets c"] by (simp add: unsigned_ucast_eq take_bit_nat_eq_self)
  then have "unat ((ts div m_width c) mod ucast (m_nBuckets c)) = r"
    by (simp add: unat_div unat_mod r_def)
  then show ?thesis
    using \<open>r < 2 ^ 32\<close> by (simp add: Hash_def unsigned_ucast_eq take_bit_nat_eq_self flip: r_def)
qed

lemma Hash_place: "sizes_ok c \<Longrightarrow> unat (Hash c (ev_ts e)) = place c e"
  by (simp add: unat_Hash place_def day_def)

lemma bucket_at_ok: "unat i < length (m_buckets c) \<Longrightarrow> bucket_at c i k = k (m_buckets c ! unat i)"
  by (simp add: bucket_at_def)

lemma place_buckets [simp]: "place (c\<lparr>m_buckets := bs\<rparr>) = place c" "place (c\<lparr>m_lastBucket := x\<rparr>) = place c"
  "place (c\<lparr>m_bucketTop := y\<rparr>) = place c" "place (c\<lparr>m_lastPrio := z\<rparr>) = place c" "place (c\<lparr>m_qSize := q\<rparr>) = place c"
  by (auto simp: place_def day_def)

lemma core_fields [simp]:
  "core (c\<lparr>m_lastBucket := x\<rparr>) \<longleftrightarrow> core c" "core (c\<lparr>m_bucketTop := y\<rparr>) \<longleftrightarrow> core c"
  "core (c\<lparr>m_lastPrio := z\<rparr>) \<longleftrightarrow> core c" "core (c\<lparr>m_qSize := q\<rparr>) \<longleftrightarrow> core c"
  by (simp_all add: core_def sizes_ok_def all_events_def)

lemma all_events_fields [simp]:
  "all_events (c\<lparr>m_lastBucket := x\<rparr>) = all_events c" "all_events (c\<lparr>m_bucketTop := y\<rparr>) = all_events c"
  "all_events (c\<lparr>m_lastPrio := z\<rparr>) = all_events c" "all_events (c\<lparr>m_qSize := q\<rparr>) = all_events c"
  by (simp_all add: all_events_def)

lemma cursor_qSize [simp]: "cursor (c\<lparr>m_qSize := q\<rparr>) \<longleftrightarrow> cursor c"
  by (simp add: cursor_def)

text \<open>A bucket gets other events of its days.\<close>

lemma set_bucket_core:
  assumes "core c" "unat i < unat (m_nBuckets c)" "sorted_bucket (m_reverse c) b"
    and "\<And>e. e \<in> set b \<Longrightarrow> place c e = unat i \<and> ev_uid e \<noteq> 0 \<and> unat (ev_ts e) < 2 ^ 46"
    and "E = {e \<in> all_events c. place c e \<noteq> unat i} \<union> set b" "uids_distinct E"
  shows "core (set_bucket i b c) \<and> all_events (set_bucket i b c) = E"
proof -
  define c' where "c' = set_bucket i b c"
  have bs: "m_buckets c' = (m_buckets c)[unat i := b]" by (simp add: c'_def set_bucket_def)
  have f: "m_nBuckets c' = m_nBuckets c" "m_width c' = m_width c" "m_reverse c' = m_reverse c" "place c' = place c"
    by (simp_all add: c'_def set_bucket_def)
  have len: "length (m_buckets c) = unat (m_nBuckets c)" using assms(1) by (simp add: core_def sizes_ok_def)
  have nth: "m_buckets c' ! j = (if j = unat i then b else m_buckets c ! j)" if "j < unat (m_nBuckets c)" for j
    using that assms(2) len by (simp add: bs)
  have "e \<in> all_events c' \<longleftrightarrow> e \<in> E" for e
  proof -
    have "e \<in> all_events c' \<longleftrightarrow> (\<exists>j < unat (m_nBuckets c). e \<in> set (m_buckets c' ! j))"
      using len by (auto simp: all_events_nth bs)
    also have "\<dots> \<longleftrightarrow> e \<in> set b \<or> (\<exists>j < unat (m_nBuckets c). j \<noteq> unat i \<and> e \<in> set (m_buckets c ! j))"
      using nth assms(2) by (auto split: if_splits)
    also have "\<dots> \<longleftrightarrow> e \<in> E"
      using assms(1,5) len by (auto simp: all_events_nth core_def)
    finally show ?thesis .
  qed
  then have E: "all_events c' = E" by auto
  have "core c'"
    using assms nth len by (auto simp: core_def sizes_ok_def f E bs)
  with E show ?thesis by (simp add: c'_def)
qed

definition same_settings :: "calendar \<Rightarrow> calendar \<Rightarrow> bool" where
  "same_settings c c' \<longleftrightarrow> m_nBuckets c' = m_nBuckets c \<and> m_width c' = m_width c \<and> m_qSize c' = m_qSize c \<and>
     m_reverse c' = m_reverse c"

lemma DoInsert_ok:
  assumes "core c" "ev_uid e \<noteq> 0" "ev_uid e \<notin> ev_uid ` all_events c" "unat (ev_ts e) < 2 ^ 46"
  shows "\<exists>bs. DoInsert e c = Inr (c\<lparr>m_buckets := bs\<rparr>) \<and> core (c\<lparr>m_buckets := bs\<rparr>) \<and>
    all_events (c\<lparr>m_buckets := bs\<rparr>) = insert e (all_events c)"
proof -
  define i where "i = Hash c (ev_ts e)"
  define b where "b = bucket_insert (m_reverse c) e (m_buckets c ! unat i)"
  have s: "sizes_ok c" using assms(1) by (rule core_sizes)
  have i: "unat i = place c e" "unat i < length (m_buckets c)" "unat i < unat (m_nBuckets c)"
    using s Hash_place [OF s] place_less [OF s, of e] by (simp_all add: i_def sizes_ok_def)
  have sub: "set (m_buckets c ! unat i) \<subseteq> all_events c" using i(2) by (auto simp: all_events_nth)
  have old: "sorted_bucket (m_reverse c) (m_buckets c ! unat i)" "\<forall>x \<in> set (m_buckets c ! unat i). place c x = unat i"
    using assms(1) i(3) by (simp_all add: core_def)
  have "rank x \<noteq> rank e" if "x \<in> set (m_buckets c ! unat i)" for x
    using that sub rank_neq [OF assms(3), of x] by auto
  then have "sorted_bucket (m_reverse c) b" unfolding b_def using old(1) by (intro bucket_insert_sorted)
  moreover have "insert e (all_events c) = {e \<in> all_events c. place c e \<noteq> unat i} \<union> set b"
    using sub in_all_events [OF assms(1)] by (auto simp: b_def bucket_insert_set i(1))
  moreover have "uids_distinct (insert e (all_events c))"
    using assms(1,3) by (simp add: core_def uids_distinct_insert)
  moreover have "place c x = unat i \<and> ev_uid x \<noteq> 0 \<and> unat (ev_ts x) < 2 ^ 46" if "x \<in> set b" for x
    using that assms old(2) sub i(1) by (auto simp: b_def bucket_insert_set core_def)
  ultimately have "core (set_bucket i b c) \<and> all_events (set_bucket i b c) = insert e (all_events c)"
    using assms(1) i(3) by (intro set_bucket_core) auto
  moreover have "DoInsert e c = Inr (set_bucket i b c)"
    using i(2) by (simp add: DoInsert_def Let_def bucket_at_ok b_def flip: i_def)
  ultimately show ?thesis by (auto simp: set_bucket_def)
qed

lemma insert_all_ok:
  "core c \<Longrightarrow> uids_distinct (set es \<union> all_events c) \<Longrightarrow> distinct es \<Longrightarrow> set es \<inter> all_events c = {} \<Longrightarrow>
   (\<And>e. e \<in> set es \<Longrightarrow> ev_uid e \<noteq> 0 \<and> unat (ev_ts e) < 2 ^ 46) \<Longrightarrow>
   \<exists>bs. insert_all es c = Inr (c\<lparr>m_buckets := bs\<rparr>) \<and> core (c\<lparr>m_buckets := bs\<rparr>) \<and>
     all_events (c\<lparr>m_buckets := bs\<rparr>) = set es \<union> all_events c"
proof (induction es arbitrary: c)
  case Nil
  have "c = c\<lparr>m_buckets := m_buckets c\<rparr>" by simp
  with Nil show ?case by (metis insert_all.simps(1) list.set(1) sup_bot_left)
next
  case (Cons e es)
  have "ev_uid e \<notin> ev_uid ` all_events c"
  proof
    assume "ev_uid e \<in> ev_uid ` all_events c"
    then obtain x where x: "x \<in> all_events c" "ev_uid e = ev_uid x" by auto
    then have "e = x" by (intro uid_inj [OF Cons.prems(2)]) simp_all
    with x Cons.prems(4) show False by auto
  qed
  then obtain bs where bs: "DoInsert e c = Inr (c\<lparr>m_buckets := bs\<rparr>)" "core (c\<lparr>m_buckets := bs\<rparr>)"
    "all_events (c\<lparr>m_buckets := bs\<rparr>) = insert e (all_events c)"
    using DoInsert_ok [OF Cons.prems(1), of e] Cons.prems(5) [of e] by auto
  have u: "set es \<union> insert e (all_events c) = set (e # es) \<union> all_events c" by auto
  obtain bs' where "insert_all es (c\<lparr>m_buckets := bs\<rparr>) = Inr (c\<lparr>m_buckets := bs\<rparr>\<lparr>m_buckets := bs'\<rparr>)"
    "core (c\<lparr>m_buckets := bs\<rparr>\<lparr>m_buckets := bs'\<rparr>)"
    "all_events (c\<lparr>m_buckets := bs\<rparr>\<lparr>m_buckets := bs'\<rparr>) = set es \<union> insert e (all_events c)"
    using Cons.IH [OF bs(2)] Cons.prems unfolding bs(3) u by auto
  then show ?case using bs(1) u by auto
qed

section \<open>The search\<close>

text \<open>The first day of the search, and the events in the first \<open>j\<close> buckets from there.\<close>

definition first_day :: "calendar \<Rightarrow> nat" where
  "first_day c = unat (m_lastPrio c) div unat (m_width c)"

definition visited :: "calendar \<Rightarrow> nat \<Rightarrow> event set" where
  "visited c j = {e \<in> all_events c. \<exists>l < j. place c e = (first_day c + l) mod unat (m_nBuckets c)}"

text \<open>The earliest event so far and its bucket.\<close>

definition tracks :: "calendar \<Rightarrow> event set \<Rightarrow> event \<Rightarrow> u32 option \<Rightarrow> bool" where
  "tracks c V m mb \<longleftrightarrow>
     (mb = None \<and> V = {} \<and> (\<forall>e \<in> all_events c. rank e < rank m)) \<or>
     (\<exists>b. mb = Some b \<and> is_next m V \<and> unat b = place c m)"

lemma day_rank: "day c a < day c b \<Longrightarrow> rank a < rank b"
proof -
  assume "day c a < day c b"
  then have "unat (ev_ts a) < unat (ev_ts b)"
    unfolding day_def by (metis div_le_mono not_less)
  then show ?thesis by (simp add: rank_less)
qed

lemma bucket_events:
  assumes "core c" "j < unat (m_nBuckets c)"
  shows "set (m_buckets c ! j) = {e \<in> all_events c. place c e = j}"
  using assms in_all_events [OF assms(1)] by (auto simp: core_def all_events_nth sizes_ok_def)

lemma visited_Suc:
  "visited c (Suc j) = visited c j \<union> {e \<in> all_events c. place c e = (first_day c + j) mod unat (m_nBuckets c)}"
  by (auto simp: visited_def less_Suc_eq)

lemma visited_all:
  assumes "\<And>e. e \<in> all_events c \<Longrightarrow> first_day c \<le> day c e" "0 < unat (m_nBuckets c)"
  shows "visited c (unat (m_nBuckets c)) = all_events c"
proof -
  have "\<exists>l < unat (m_nBuckets c). place c e = (first_day c + l) mod unat (m_nBuckets c)" if "e \<in> all_events c" for e
    using assms that
    by (intro exI [of _ "(day c e - first_day c) mod unat (m_nBuckets c)"]) (simp add: place_def mod_add_right_eq)
  then show ?thesis by (auto simp: visited_def)
qed

lemma tracks_bucket:
  assumes "tracks c V m mb" "is_next ev B" "B \<subseteq> all_events c" "unat i = place c ev"
  shows "key_less ev m \<Longrightarrow> tracks c (V \<union> B) ev (Some i)" "\<not> key_less ev m \<Longrightarrow> tracks c (V \<union> B) m mb"
proof -
  have ev: "ev \<in> B" "ev \<in> all_events c" using assms(2,3) by (auto simp: is_next_def)
  consider "mb = None" "V = {}" "\<forall>e \<in> all_events c. rank e < rank m"
    | b where "mb = Some b" "is_next m V" "unat b = place c m"
    using assms(1) by (auto simp: tracks_def)
  then have "(key_less ev m \<longrightarrow> tracks c (V \<union> B) ev (Some i)) \<and> (\<not> key_less ev m \<longrightarrow> tracks c (V \<union> B) m mb)"
  proof cases
    case 1
    then show ?thesis using assms(2,4) ev(2) by (simp add: tracks_def key_less_rank)
  next
    case 2
    have "is_next ev (V \<union> B)" if "rank ev < rank m"
      using that 2(2) assms(2) unfolding is_next_def by (auto intro: order_trans [OF less_imp_le])
    moreover have "is_next m (V \<union> B)" if "rank m \<le> rank ev"
      using that 2(2) assms(2) unfolding is_next_def by (auto intro: order_trans)
    ultimately show ?thesis using 2(1,3) assms(4) by (auto simp: tracks_def key_less_rank not_less)
  qed
  then show "key_less ev m \<Longrightarrow> tracks c (V \<union> B) ev (Some i)" "\<not> key_less ev m \<Longrightarrow> tracks c (V \<union> B) m mb"
    by simp_all
qed

text \<open>A bucket on its day: its first event is the next one, or no event is on that day.\<close>

lemma first_of_day:
  assumes "core c" "\<And>e. e \<in> all_events c \<Longrightarrow> k \<le> day c e" "B = m_buckets c ! (k mod unat (m_nBuckets c))"
  shows "B \<noteq> [] \<Longrightarrow> unat (ev_ts (NextEvent (m_reverse c) B)) < (k + 1) * unat (m_width c) \<Longrightarrow>
      is_next (NextEvent (m_reverse c) B) (all_events c) \<and> day c (NextEvent (m_reverse c) B) = k"
    and "B = [] \<or> \<not> unat (ev_ts (NextEvent (m_reverse c) B)) < (k + 1) * unat (m_width c) \<Longrightarrow>
      e \<in> all_events c \<Longrightarrow> Suc k \<le> day c e"
proof -
  have n: "0 < unat (m_nBuckets c)" "0 < unat (m_width c)" using assms(1) by (simp_all add: core_def sizes_ok_def)
  have B: "set B = {e \<in> all_events c. place c e = k mod unat (m_nBuckets c)}"
    unfolding assms(3) using n(1) by (intro bucket_events assms(1)) simp
  have nxt: "is_next (NextEvent (m_reverse c) B) (set B)" if "B \<noteq> []"
    using assms(1) n(1) that unfolding assms(3) core_def by (intro bucket_next) auto
  have inB: "x \<in> set B" if "x \<in> all_events c" "day c x = k" for x
    using that unfolding B place_def by simp
  have iff: "unat (ev_ts x) < (k + 1) * unat (m_width c) \<longleftrightarrow> day c x < k + 1" for x
    unfolding day_def using n(2) by (simp add: div_less_iff_less_mult)
  { assume b: "B \<noteq> []" "unat (ev_ts (NextEvent (m_reverse c) B)) < (k + 1) * unat (m_width c)"
    define ev where "ev = NextEvent (m_reverse c) B"
    have ev: "ev \<in> all_events c" "\<forall>x \<in> set B. rank ev \<le> rank x"
      using nxt [OF b(1)] by (auto simp: is_next_def ev_def B)
    have d: "day c ev = k" using b(2) iff assms(2) [OF ev(1)] by (simp add: ev_def)
    have "rank ev \<le> rank x" if x: "x \<in> all_events c" for x
    proof (cases "day c x = k")
      case True
      with x show ?thesis using inB ev(2) by simp
    next
      case False
      then have "day c ev < day c x" using assms(2) [OF x] d by simp
      then show ?thesis by (intro less_imp_le day_rank)
    qed
    with ev(1) d show "is_next (NextEvent (m_reverse c) B) (all_events c) \<and> day c (NextEvent (m_reverse c) B) = k"
      by (simp add: is_next_def ev_def) }
  { assume b: "B = [] \<or> \<not> unat (ev_ts (NextEvent (m_reverse c) B)) < (k + 1) * unat (m_width c)" and e: "e \<in> all_events c"
    show "Suc k \<le> day c e"
    proof (rule ccontr)
      assume "\<not> Suc k \<le> day c e"
      then have d: "day c e = k" using assms(2) [OF e] by simp
      then have "e \<in> set B" using inB e by simp
      then have "B \<noteq> []" by auto
      with \<open>e \<in> set B\<close> have "rank (NextEvent (m_reverse c) B) \<le> rank e"
        using nxt by (simp add: is_next_def)
      then have "day c (NextEvent (m_reverse c) B) \<le> k"
        using day_rank [of c e] d by (metis not_less)
      then show False using \<open>B \<noteq> []\<close> b iff by auto
    qed }
qed

lemma scan_next:
  assumes "core c" "cursor c" "j < unat (m_nBuckets c)"
    and "unat i = (first_day c + j) mod unat (m_nBuckets c)"
    and "unat bt = (first_day c + j + 1) * unat (m_width c)"
  shows "unat ((i + 1) mod m_nBuckets c) = (first_day c + Suc j) mod unat (m_nBuckets c)"
    and "unat (bt + m_width c) = (first_day c + Suc j + 1) * unat (m_width c)"
    and "(i + 1) mod m_nBuckets c \<noteq> m_lastBucket c \<longleftrightarrow> Suc j \<noteq> unat (m_nBuckets c)"
proof -
  define n where "n = unat (m_nBuckets c)"
  define w where "w = unat (m_width c)"
  have s: "1 \<le> n" "n \<le> 65536" "1 \<le> w" "w \<le> 3 * 2 ^ 46"
    using assms(1) by (simp_all add: core_def sizes_ok_def n_def w_def)
  have "unat i < n" using assms(4) s(1) by (simp add: n_def)
  then have "unat (i + 1) = unat i + 1" using s(2) by (simp add: unat_word_ariths)
  then show nxt: "unat ((i + 1) mod m_nBuckets c) = (first_day c + Suc j) mod unat (m_nBuckets c)"
    using assms(4) by (simp add: unat_mod mod_Suc_eq)
  have "first_day c * w \<le> unat (m_lastPrio c)" by (simp add: first_day_def w_def)
  moreover have "unat (m_lastPrio c) < 2 ^ 46" using assms(2) by (simp add: cursor_def)
  moreover have "(j + 2) * w \<le> 65537 * (3 * 2 ^ 46)"
  proof (rule mult_mono)
    show "j + 2 \<le> 65537" using assms(3) s(2) unfolding n_def by linarith
  qed (use s(4) in simp_all)
  moreover have "(first_day c + j + 2) * w = first_day c * w + (j + 2) * w" by (simp add: distrib_right)
  ultimately have "(first_day c + j + 2) * w < 2 ^ 64" by simp
  moreover have sum: "unat bt + w = (first_day c + j + 2) * w" using assms(5) by (simp add: w_def)
  ultimately have "unat (bt + m_width c) = unat bt + w"
    unfolding unat_word_ariths w_def by (intro mod_less) simp
  then show "unat (bt + m_width c) = (first_day c + Suc j + 1) * unat (m_width c)"
    using sum by (simp add: w_def)
  have "unat (m_lastBucket c) = first_day c mod n" using assms(2) by (simp add: cursor_def first_day_def n_def)
  then have "(i + 1) mod m_nBuckets c = m_lastBucket c \<longleftrightarrow> (first_day c + Suc j) mod n = first_day c mod n"
    using nxt by (simp add: word_unat_eq_iff n_def)
  also have "\<dots> \<longleftrightarrow> n dvd Suc j"
    by (simp add: mod_eq_dvd_iff_nat del: add_Suc_right)
  also have "\<dots> \<longleftrightarrow> Suc j = n" using assms(3) by (auto simp: n_def dest: dvd_imp_le)
  finally show "(i + 1) mod m_nBuckets c \<noteq> m_lastBucket c \<longleftrightarrow> Suc j \<noteq> unat (m_nBuckets c)"
    by (simp add: n_def)
qed

definition scan_good :: "calendar \<Rightarrow> scan_result \<Rightarrow> bool" where
  "scan_good c r =
     (case r of
        Found i bt e \<Rightarrow> is_next e (all_events c) \<and> unat i = place c e \<and> unat bt = (day c e + 1) * unat (m_width c)
      | Earliest m mb \<Rightarrow> tracks c (all_events c) m mb)"

lemma scan_ok:
  assumes "core c" "cursor c"
  shows "fuel = unat (m_nBuckets c) - j \<Longrightarrow> j < unat (m_nBuckets c) \<Longrightarrow>
    unat i = (first_day c + j) mod unat (m_nBuckets c) \<Longrightarrow>
    unat bt = (first_day c + j + 1) * unat (m_width c) \<Longrightarrow>
    (\<And>e. e \<in> all_events c \<Longrightarrow> first_day c + j \<le> day c e) \<Longrightarrow> tracks c (visited c j) m mb \<Longrightarrow>
    \<exists>r. scan fuel c i bt m mb = Inr r \<and> scan_good c r"
proof (induction fuel arbitrary: j i bt m mb)
  case 0
  then show ?case by simp
next
  case (Suc fuel)
  define n where "n = unat (m_nBuckets c)"
  define B where "B = m_buckets c ! unat i"
  define ev where "ev = NextEvent (m_reverse c) B"
  define i' where "i' = (i + 1) mod m_nBuckets c"
  have n: "0 < n" "length (m_buckets c) = n" using assms(1) by (simp_all add: core_def sizes_ok_def n_def)
  have i: "unat i < length (m_buckets c)" using n Suc.prems(3) by (simp add: n_def)
  have at: "bucket_at c i k = k B" for k :: "event list \<Rightarrow> 'b res"
    using i by (simp add: bucket_at_ok B_def)
  have B: "B = m_buckets c ! ((first_day c + j) mod n)" using Suc.prems(3) by (simp add: B_def n_def)
  note day = first_of_day [OF assms(1) Suc.prems(5) B [unfolded n_def], folded ev_def]
  note nxt = scan_next [OF assms Suc.prems(2-4), folded i'_def]
  have set_B: "set B = {e \<in> all_events c. place c e = (first_day c + j) mod n}"
    unfolding B using n by (intro bucket_events assms(1)) (simp add: n_def)
  have continue: "\<exists>r. (if i' \<noteq> m_lastBucket c then scan fuel c i' (bt + m_width c) m' mb' else Inr (Earliest m' mb')) = Inr r \<and> scan_good c r"
    if days: "\<And>e. e \<in> all_events c \<Longrightarrow> first_day c + Suc j \<le> day c e" and t: "tracks c (visited c (Suc j)) m' mb'" for m' mb'
  proof (cases "Suc j = n")
    case True
    have "first_day c \<le> day c e" if "e \<in> all_events c" for e using days [OF that] by simp
    then have "visited c (Suc j) = all_events c"
      unfolding True n_def using n(1) by (intro visited_all) (auto simp: n_def)
    with t show ?thesis using nxt(3) True by (simp add: scan_good_def n_def)
  next
    case False
    then have "Suc j < unat (m_nBuckets c)" using Suc.prems(2) by (simp add: n_def)
    moreover have "fuel = unat (m_nBuckets c) - Suc j" using Suc.prems(1) by simp
    ultimately have "\<exists>r. scan fuel c i' (bt + m_width c) m' mb' = Inr r \<and> scan_good c r"
      by (intro Suc.IH [OF _ _ nxt(1) nxt(2) days t])
    then show ?thesis using nxt(3) False by (simp add: n_def)
  qed
  have vis: "visited c (Suc j) = visited c j \<union> set B" by (simp add: visited_Suc set_B n_def)
  show ?case
  proof (cases "B = []")
    case True
    then have t: "tracks c (visited c (Suc j)) m mb" using Suc.prems(6) by (simp add: vis)
    show ?thesis
      using continue [OF _ t] day(2) True by (simp add: at Let_def flip: i'_def)
  next
    case False
    have "is_next ev (set B)"
      unfolding ev_def using assms(1) n False unfolding B core_def by (intro bucket_next) (auto simp: n_def)
    then have "ev \<in> all_events c" "unat i = place c ev"
      using set_B Suc.prems(3) by (auto simp: is_next_def n_def)
    show ?thesis
    proof (cases "ev_ts ev < bt")
      case True
      then have "unat (ev_ts ev) < (first_day c + j + 1) * unat (m_width c)"
        using Suc.prems(4) by (simp add: word_less_nat_alt)
      then have "scan_good c (Found i bt ev)"
        using day(1) [OF _ False] Suc.prems(4) \<open>unat i = place c ev\<close> by (simp add: scan_good_def)
      with True False show ?thesis by (simp add: at Let_def flip: ev_def)
    next
      case late: False
      then have "\<not> unat (ev_ts ev) < (first_day c + j + 1) * unat (m_width c)"
        using Suc.prems(4) by (simp add: word_less_nat_alt)
      then have days: "\<And>e. e \<in> all_events c \<Longrightarrow> first_day c + Suc j \<le> day c e" using day(2) by simp
      have "set B \<subseteq> all_events c" using set_B by auto
      note t = tracks_bucket [OF Suc.prems(6) \<open>is_next ev (set B)\<close> this \<open>unat i = place c ev\<close>, folded vis]
      show ?thesis
        using continue [OF days t(1)] continue [OF days t(2)] late False
        by (cases "key_less ev m") (simp_all add: at Let_def flip: i'_def ev_def)
    qed
  qed
qed

section \<open>Taking the next event\<close>

lemma first_day_le: "cursor c \<Longrightarrow> e \<in> all_events c \<Longrightarrow> first_day c \<le> day c e"
  by (simp add: cursor_def first_day_def day_def div_le_mono)

lemma scan_start:
  assumes "core c" "cursor c" "\<And>e. e \<in> all_events c \<Longrightarrow> rank e < rank m"
  shows "\<exists>r. scan (unat (m_nBuckets c)) c (m_lastBucket c) (m_bucketTop c) m None = Inr r \<and> scan_good c r"
proof (rule scan_ok [OF assms(1,2), where j = 0])
  show "0 < unat (m_nBuckets c)" using assms(1) by (simp add: core_def sizes_ok_def)
  show "tracks c (visited c 0) m None" using assms(3) by (simp add: tracks_def visited_def)
qed (use assms(2) first_day_le in \<open>auto simp: cursor_def first_day_def\<close>)

text \<open>The keys that the two loops start with are after all events.\<close>

lemma max_rank:
  assumes "core c" "e \<in> all_events c" "ev_ts m = 0xffffffffffffffff"
  shows "rank e < rank m"
proof -
  have "unat (ev_ts e) < 2 ^ 46" using assms(1,2) by (simp add: core_def)
  then show ?thesis using assms(3) by (simp add: rank_less)
qed

lemma PeekNext_ok:
  assumes "core c" "cursor c" "all_events c \<noteq> {}" "m_qSize c \<noteq> 0"
  shows "\<exists>e. calendar_PeekNext c = Inr e \<and> is_next e (all_events c)"
proof -
  obtain r where "scan (unat (m_nBuckets c)) c (m_lastBucket c) (m_bucketTop c)
      \<lparr>ev_impl = 0, ev_ts = 0xffffffffffffffff, ev_uid = 0xffffffff, ev_context = 0\<rparr> None = Inr r" "scan_good c r"
    using scan_start [OF assms(1,2)] max_rank [OF assms(1)] by (metis event.select_convs(2))
  then show ?thesis
    using assms(3,4) by (cases r) (auto simp: calendar_PeekNext_def calendar_IsEmpty_def scan_good_def tracks_def)
qed

lemma pop_core:
  assumes "core c" "is_next e (all_events c)" "unat i = place c e"
  shows "NextEvent (m_reverse c) (m_buckets c ! unat i) = e" "m_buckets c ! unat i \<noteq> []"
    "core (set_bucket i (Pop (m_reverse c) (m_buckets c ! unat i)) c)"
    "all_events (set_bucket i (Pop (m_reverse c) (m_buckets c ! unat i)) c) = all_events c - {e}"
proof -
  define b where "b = m_buckets c ! unat i"
  have i: "unat i < unat (m_nBuckets c)" using assms(1,3) by (simp add: core_def sizes_ok_def place_def)
  have b: "set b = {x \<in> all_events c. place c x = unat i}" unfolding b_def using assms(1) i by (rule bucket_events)
  have sb: "sorted_bucket (m_reverse c) b" using assms(1) i by (simp add: core_def b_def)
  have e: "e \<in> set b" using assms(2,3) by (auto simp: b is_next_def)
  then show ne: "m_buckets c ! unat i \<noteq> []" by (auto simp: b_def)
  then have nxt: "is_next (NextEvent (m_reverse c) b) (set b)" "sorted_bucket (m_reverse c) (Pop (m_reverse c) b)"
    "set (Pop (m_reverse c) b) = set b - {NextEvent (m_reverse c) b}"
    using bucket_next [OF sb] by (simp_all add: b_def)
  have u: "uids_distinct (all_events c)" using assms(1) by (simp add: core_def)
  have "uids_distinct (set b)" using u by (rule uids_distinct_mono) (auto simp: b)
  moreover have "is_next e (set b)" using assms(2) e by (auto simp: is_next_def b)
  ultimately have eq: "NextEvent (m_reverse c) b = e" using nxt(1) next_unique by blast
  then show "NextEvent (m_reverse c) (m_buckets c ! unat i) = e" by (simp add: b_def)
  have "core (set_bucket i (Pop (m_reverse c) b) c) \<and> all_events (set_bucket i (Pop (m_reverse c) b) c) = all_events c - {e}"
  proof (rule set_bucket_core [OF assms(1) i nxt(2)])
    show "all_events c - {e} = {x \<in> all_events c. place c x \<noteq> unat i} \<union> set (Pop (m_reverse c) b)"
      using assms(3) by (auto simp: nxt(3) eq b)
    show "uids_distinct (all_events c - {e})" using u by (rule uids_distinct_mono) auto
    show "place c x = unat i \<and> ev_uid x \<noteq> 0 \<and> unat (ev_ts x) < 2 ^ 46" if "x \<in> set (Pop (m_reverse c) b)" for x
      using that assms(1) by (auto simp: nxt(3) b core_def)
  qed
  then show "core (set_bucket i (Pop (m_reverse c) (m_buckets c ! unat i)) c)"
    "all_events (set_bucket i (Pop (m_reverse c) (m_buckets c ! unat i)) c) = all_events c - {e}"
    by (simp_all add: b_def)
qed

text \<open>The day of an event ends before the end of the clock.\<close>

lemma unat_day_end:
  assumes "sizes_ok c" "unat ts < 2 ^ 46"
  shows "unat ((ts div m_width c + 1) * m_width c) = (unat ts div unat (m_width c) + 1) * unat (m_width c)"
proof -
  have w: "unat (m_width c) \<le> 3 * 2 ^ 46" using assms(1) by (simp add: sizes_ok_def)
  define p where "p = unat ts div unat (m_width c) * unat (m_width c)"
  have "p \<le> unat ts" by (simp add: p_def)
  moreover have "(unat ts div unat (m_width c) + 1) * unat (m_width c) = p + unat (m_width c)"
    by (simp add: p_def)
  ultimately have "(unat ts div unat (m_width c) + 1) * unat (m_width c) < 2 ^ 64"
    using assms(2) w by simp
  moreover have "unat (ts div m_width c + 1) = unat ts div unat (m_width c) + 1"
  proof -
    define d where "d = unat ts div unat (m_width c)"
    have "d \<le> unat ts" by (simp add: d_def)
    moreover have "unat (ts div m_width c) = d" by (simp add: d_def unat_div)
    ultimately show ?thesis using assms(2) by (simp add: unat_word_ariths flip: d_def)
  qed
  ultimately show ?thesis by (simp add: unat_word_ariths(2))
qed

lemma DoRemoveNext_ok:
  assumes "core c" "cursor c" "all_events c \<noteq> {}" "m_qSize c \<noteq> 0"
  obtains e c' where "DoRemoveNext c = Inr (e, c')" "is_next e (all_events c)" "core c'" "cursor c'"
    "all_events c' = all_events c - {e}" "m_lastPrio c' = ev_ts e" "same_settings c c'"
proof -
  obtain r where r: "scan (unat (m_nBuckets c)) c (m_lastBucket c) (m_bucketTop c)
      \<lparr>ev_impl = 0, ev_ts = 0xffffffffffffffff, ev_uid = 0, ev_context = 0xffffffff\<rparr> None = Inr r" "scan_good c r"
    using scan_start [OF assms(1,2)] max_rank [OF assms(1)] by (metis event.select_convs(2))
  have s: "sizes_ok c" using assms(1) by (rule core_sizes)
  define taken where "taken = (\<lambda>(i :: u32) lb bt ts. set_bucket i (Pop (m_reverse c) (m_buckets c ! unat i))
    (c\<lparr>m_lastBucket := lb, m_lastPrio := ts, m_bucketTop := bt\<rparr>))"
  have good: "core (taken i lb bt (ev_ts e)) \<and> cursor (taken i lb bt (ev_ts e)) \<and>
      all_events (taken i lb bt (ev_ts e)) = all_events c - {e} \<and> m_lastPrio (taken i lb bt (ev_ts e)) = ev_ts e \<and>
      same_settings c (taken i lb bt (ev_ts e))"
    if e: "is_next e (all_events c)" "unat i = place c e" "unat lb = place c e"
      "unat bt = (day c e + 1) * unat (m_width c)" for i lb bt e
  proof -
    have t: "taken i lb bt (ev_ts e) = (set_bucket i (Pop (m_reverse c) (m_buckets c ! unat i)) c)
      \<lparr>m_lastBucket := lb, m_lastPrio := ev_ts e, m_bucketTop := bt\<rparr>"
      by (simp add: taken_def set_bucket_def)
    have "core (taken i lb bt (ev_ts e))" "all_events (taken i lb bt (ev_ts e)) = all_events c - {e}"
      unfolding t using pop_core [OF assms(1) e(1,2)] by simp_all
    moreover have "unat (ev_ts e) < 2 ^ 46" using assms(1) e(1) by (simp add: core_def is_next_def)
    moreover have "\<forall>x \<in> all_events c. unat (ev_ts e) \<le> unat (ev_ts x)"
      using e(1) rank_ts by (auto simp: is_next_def)
    ultimately show ?thesis
      using e by (auto simp: cursor_def same_settings_def taken_def set_bucket_def place_def day_def)
  qed
  have len: "length (m_buckets c) = unat (m_nBuckets c)" using s by (simp add: sizes_ok_def)
  show thesis
  proof (cases r)
    case (Found i bt e)
    then have e: "is_next e (all_events c)" "unat i = place c e" "unat bt = (day c e + 1) * unat (m_width c)"
      using r(2) by (simp_all add: scan_good_def)
    have i: "unat i < length (m_buckets c)" using place_less [OF s] e(2) by simp
    have "DoRemoveNext c = Inr (e, taken i i bt (ev_ts e))"
      using r(1) Found i assms(4) by (simp add: DoRemoveNext_def calendar_IsEmpty_def bucket_at_ok taken_def)
    then show thesis using good [OF e(1,2,2,3)] e(1) that by blast
  next
    case (Earliest e mb)
    then obtain i where i: "mb = Some i" "is_next e (all_events c)" "unat i = place c e"
      using r(2) assms(3) by (auto simp: scan_good_def tracks_def)
    have il: "unat i < length (m_buckets c)" using place_less [OF s] i(3) by simp
    have ts: "unat (ev_ts e) < 2 ^ 46" using assms(1) i(2) by (simp add: core_def is_next_def)
    have "DoRemoveNext c = Inr (e, taken i (Hash c (ev_ts e)) ((ev_ts e div m_width c + 1) * m_width c) (ev_ts e))"
      using r(1) Earliest i(1) il assms(4) pop_core(1,2) [OF assms(1) i(2,3)]
      by (simp add: DoRemoveNext_def calendar_IsEmpty_def bucket_at_ok taken_def set_bucket_def)
    moreover have "unat ((ev_ts e div m_width c + 1) * m_width c) = (day c e + 1) * unat (m_width c)"
      using unat_day_end [OF s ts] by (simp add: day_def)
    ultimately show thesis using good [OF i(2,3) Hash_place [OF s]] i(2) that by blast
  qed
qed

section \<open>Samples and widths\<close>

lemma same_settings_trans: "same_settings a b \<Longrightarrow> same_settings b c \<Longrightarrow> same_settings a c"
  by (simp add: same_settings_def)

lemma gather_ok:
  "core c \<Longrightarrow> cursor c \<Longrightarrow> m_qSize c \<noteq> 0 \<Longrightarrow> n \<le> card (all_events c) \<Longrightarrow>
   \<exists>es c'. gather n c = Inr (es, c') \<and> length es = n \<and> distinct es \<and> core c' \<and>
     set es \<subseteq> all_events c \<and> all_events c' = all_events c - set es \<and> same_settings c c' \<and>
     sorted_wrt (\<lambda>a b. unat (ev_ts a) \<le> unat (ev_ts b)) es"
proof (induction n arbitrary: c)
  case 0
  then show ?case by (simp add: same_settings_def)
next
  case (Suc n)
  have ne: "all_events c \<noteq> {}" using Suc.prems(4) by auto
  obtain e c1 where 1: "DoRemoveNext c = Inr (e, c1)" "is_next e (all_events c)" "core c1" "cursor c1"
    "all_events c1 = all_events c - {e}" "m_lastPrio c1 = ev_ts e" "same_settings c c1"
    using Suc.prems(1,2) ne Suc.prems(3) by (rule DoRemoveNext_ok)
  have "e \<in> all_events c" using 1(2) by (simp add: is_next_def)
  then have "n \<le> card (all_events c1)" using Suc.prems(4) by (simp add: 1(5) finite_all_events)
  moreover have "m_qSize c1 \<noteq> 0" using 1(7) Suc.prems(3) by (simp add: same_settings_def)
  ultimately obtain es c' where 2: "gather n c1 = Inr (es, c')" "length es = n" "distinct es" "core c'"
    "set es \<subseteq> all_events c1" "all_events c' = all_events c1 - set es" "same_settings c1 c'"
    "sorted_wrt (\<lambda>a b. unat (ev_ts a) \<le> unat (ev_ts b)) es"
    using Suc.IH [OF 1(3,4)] by blast
  have "unat (ev_ts e) \<le> unat (ev_ts x)" if "x \<in> set es" for x
    using that 2(5) 1(2,5) rank_ts [of e x] by (auto simp: is_next_def)
  then show ?case
    using 1 2 \<open>e \<in> all_events c\<close> same_settings_trans [OF 1(7) 2(7)] by auto
qed

text \<open>The distances that are added up are those between the events: together, at most their span.\<close>

lemma separation_bound:
  "sorted_wrt (\<lambda>a b. unat (ev_ts a) \<le> unat (ev_ts b)) es \<Longrightarrow> (\<And>e. e \<in> set es \<Longrightarrow> unat (ev_ts e) < k) \<Longrightarrow>
   es \<noteq> [] \<Longrightarrow> unat acc + k \<le> 2 ^ 64 + unat (ev_ts (hd es)) \<Longrightarrow>
   unat (separation P es acc) \<le> unat acc + (k - unat (ev_ts (hd es)))"
proof (induction P es acc rule: separation.induct)
  case (1 P cur nxt evs acc)
  define diff where "diff = ev_ts nxt - ev_ts cur"
  define acc' where "acc' = (if P diff then acc + diff else acc)"
  have le: "unat (ev_ts cur) \<le> unat (ev_ts nxt)" "unat (ev_ts nxt) < k" using 1(2,3) by auto
  have d: "unat diff = unat (ev_ts nxt) - unat (ev_ts cur)"
    unfolding diff_def using le(1) by (simp add: unat_sub word_le_nat_alt)
  have "unat acc + unat diff < 2 ^ 64" using 1(5) le d by simp
  then have "unat (acc + diff) = unat acc + unat diff" by (simp add: unat_word_ariths)
  then have a: "unat acc' \<le> unat acc + unat diff" by (simp add: acc'_def)
  have "unat acc' + k \<le> 2 ^ 64 + unat (ev_ts nxt)" using a d le 1(5) by simp
  then have "unat (separation P (nxt # evs) acc') \<le> unat acc' + (k - unat (ev_ts nxt))"
    unfolding acc'_def diff_def using 1(1) [OF refl] 1(2,3) by simp
  then have "unat (separation P (nxt # evs) acc') \<le> unat acc + (k - unat (ev_ts cur))"
    using a d le by simp
  then show ?case unfolding separation.simps Let_def acc'_def diff_def list.sel .
qed simp_all

lemma width_bound:
  assumes "sorted_wrt (\<lambda>a b. unat (ev_ts a) \<le> unat (ev_ts b)) es" "\<And>e. e \<in> set es \<Longrightarrow> unat (ev_ts e) < 2 ^ 46"
  shows "1 \<le> unat (max (separation P es 0 * 3) 1) \<and> unat (max (separation P es 0 * 3) 1) \<le> 3 * 2 ^ 46"
proof -
  have "unat (separation P es 0) \<le> 2 ^ 46"
  proof (cases "es = []")
    case False
    have "unat (separation P es 0) \<le> unat (0 :: u64) + (2 ^ 46 - unat (ev_ts (hd es)))"
      using assms False by (intro separation_bound) auto
    then show ?thesis by simp
  qed simp
  then have "unat (separation P es 0 * 3) \<le> 3 * 2 ^ 46" by (simp add: unat_word_ariths)
  then show ?thesis by (auto simp: max_def word_le_nat_alt)
qed

lemma nSamples_le: "2 \<le> unat q \<Longrightarrow> unat (nSamples q) \<le> unat q"
proof -
  assume q: "2 \<le> unat q"
  have d: "unat (q div 10) = unat q div 10" by (simp add: unat_div)
  have "unat (5 + q div 10) = 5 + unat q div 10"
    using u32_bound [of q] d by (simp add: unat_word_ariths)
  then show ?thesis using q by (auto simp: nSamples_def Let_def word_less_nat_alt word_le_nat_alt)
qed

section \<open>Resizing\<close>

definition counted :: "calendar \<Rightarrow> bool" where
  "counted c \<longleftrightarrow> unat (m_qSize c) = card (all_events c)"

definition calendar_inv :: "bool \<Rightarrow> calendar \<Rightarrow> bool" where
  "calendar_inv r c \<longleftrightarrow> core c \<and> cursor c \<and> counted c \<and> m_reverse c = r"

lemma CalculateNewWidth_ok:
  assumes "core c" "cursor c" "counted c"
  shows "\<exists>w bs. CalculateNewWidth c = Inr (w, c\<lparr>m_buckets := bs\<rparr>) \<and> core (c\<lparr>m_buckets := bs\<rparr>) \<and>
    all_events (c\<lparr>m_buckets := bs\<rparr>) = all_events c \<and> 1 \<le> unat w \<and> unat w \<le> 3 * 2 ^ 46"
proof (cases "m_qSize c < 2")
  case True
  then have "CalculateNewWidth c = Inr (1, c\<lparr>m_buckets := m_buckets c\<rparr>)"
    by (simp add: CalculateNewWidth_def)
  with assms(1) show ?thesis by (intro exI [of _ 1] exI [of _ "m_buckets c"]) simp
next
  case False
  then have q: "2 \<le> unat (m_qSize c)" by (simp add: word_less_nat_alt)
  then have "m_qSize c \<noteq> 0" by auto
  moreover have "unat (nSamples (m_qSize c)) \<le> card (all_events c)"
    using nSamples_le [OF q] assms(3) by (simp add: counted_def)
  ultimately obtain es c1 where 1: "gather (unat (nSamples (m_qSize c))) c = Inr (es, c1)" "distinct es" "core c1"
    "set es \<subseteq> all_events c" "all_events c1 = all_events c - set es" "same_settings c c1"
    "sorted_wrt (\<lambda>a b. unat (ev_ts a) \<le> unat (ev_ts b)) es"
    using gather_ok [OF assms(1,2)] by blast
  have u: "set es \<union> all_events c1 = all_events c" using 1(4,5) by auto
  have ev: "ev_uid e \<noteq> 0 \<and> unat (ev_ts e) < 2 ^ 46" if "e \<in> set es" for e
    using that 1(4) assms(1) by (auto simp: core_def)
  have "uids_distinct (set es \<union> all_events c1)" using assms(1) by (simp add: u core_def)
  then obtain bs where 2: "insert_all es c1 = Inr (c1\<lparr>m_buckets := bs\<rparr>)" "core (c1\<lparr>m_buckets := bs\<rparr>)"
    "all_events (c1\<lparr>m_buckets := bs\<rparr>) = all_events c"
    using insert_all_ok [OF 1(3) _ 1(2)] 1(5) ev u by auto
  have c: "(c1\<lparr>m_buckets := bs\<rparr>)\<lparr>m_lastBucket := m_lastBucket c, m_bucketTop := m_bucketTop c, m_lastPrio := m_lastPrio c\<rparr> =
    c\<lparr>m_buckets := bs\<rparr>"
    using 1(6) by (cases c; cases c1) (simp add: same_settings_def)
  have "core (c\<lparr>m_buckets := bs\<rparr>)" "all_events (c\<lparr>m_buckets := bs\<rparr>) = all_events c"
    unfolding c [symmetric] using 2 by simp_all
  moreover have "\<exists>P. CalculateNewWidth c = Inr (max (separation P es 0 * 3) 1, c\<lparr>m_buckets := bs\<rparr>)"
    using False 1(1) 2(1) c by (auto simp: CalculateNewWidth_def Let_def)
  ultimately show ?thesis using width_bound [OF 1(7)] ev by blast
qed

lemma distinct_concat_place:
  "(\<And>i. i < length bs \<Longrightarrow> distinct (bs ! i) \<and> (\<forall>e \<in> set (bs ! i). f e = k + i)) \<Longrightarrow> distinct (concat bs)"
proof (induction bs arbitrary: k)
  case (Cons b bs)
  have tl: "distinct (bs ! i) \<and> (\<forall>e \<in> set (bs ! i). f e = Suc k + i)" if "i < length bs" for i
    using Cons.prems [of "Suc i"] that by simp
  have "f e = k" if "e \<in> set b" for e using Cons.prems [of 0] that by simp
  moreover have "k < f e" if "e \<in> set (concat bs)" for e
    using that tl by (fastforce simp: in_set_conv_nth [of _ bs])
  ultimately have "set b \<inter> set (concat bs) = {}" by fastforce
  moreover have "distinct b" using Cons.prems [of 0] by simp
  ultimately show ?case using Cons.IH [OF tl] by simp
qed simp

lemma DoResize_ok:
  assumes "core c" "cursor c" "1 \<le> unat n" "unat n \<le> 65536" "1 \<le> unat w" "unat w \<le> 3 * 2 ^ 46"
  shows "\<exists>c'. DoResize n w c = Inr c' \<and> core c' \<and> cursor c' \<and> all_events c' = all_events c \<and>
    m_qSize c' = m_qSize c \<and> m_reverse c' = m_reverse c \<and> m_lastPrio c' = m_lastPrio c"
proof -
  define c0 where "c0 = Init n w (m_lastPrio c) c"
  have e0: "all_events c0 = {}" by (auto simp: c0_def Init_def Let_def all_events_def)
  have f: "m_nBuckets c0 = n" "m_width c0 = w" "m_lastPrio c0 = m_lastPrio c" "m_qSize c0 = m_qSize c"
    "m_reverse c0 = m_reverse c" "m_buckets c0 = replicate (unat n) []"
    "m_lastBucket c0 = Hash c0 (m_lastPrio c)" "m_bucketTop c0 = (m_lastPrio c div w + 1) * w"
    by (simp_all add: c0_def Init_def Let_def Hash_def)
  have s0: "sizes_ok c0" using assms(3-6) by (simp add: sizes_ok_def f)
  have core0: "core c0" using s0 by (simp add: core_def f e0 uids_distinct_def)
  have lp: "unat (m_lastPrio c) < 2 ^ 46" using assms(2) by (simp add: cursor_def)
  have d: "distinct (concat (m_buckets c))"
  proof -
    have "distinct (m_buckets c ! i) \<and> (\<forall>e \<in> set (m_buckets c ! i). place c e = 0 + i)"
      if "i < length (m_buckets c)" for i
      using assms(1) that sorted_bucket_distinct by (auto simp: core_def sizes_ok_def)
    then show ?thesis by (rule distinct_concat_place)
  qed
  have "set (concat (m_buckets c)) = all_events c" by (auto simp: all_events_def)
  then obtain bs where bs: "insert_all (concat (m_buckets c)) c0 = Inr (c0\<lparr>m_buckets := bs\<rparr>)"
    "core (c0\<lparr>m_buckets := bs\<rparr>)" "all_events (c0\<lparr>m_buckets := bs\<rparr>) = all_events c"
    using insert_all_ok [OF core0 _ d] assms(1) e0 by (auto simp: core_def)
  have "cursor (c0\<lparr>m_buckets := bs\<rparr>)"
    using assms(2) bs(3) lp unat_Hash [OF s0, of "m_lastPrio c"] unat_day_end [OF s0 lp]
    by (simp add: cursor_def f)
  with bs show ?thesis by (simp add: DoResize_def f flip: c0_def)
qed

lemma Resize_ok:
  assumes "calendar_inv r c" "1 \<le> unat n" "unat n \<le> 65536"
  shows "\<exists>c'. Resize n c = Inr c' \<and> calendar_inv r c' \<and> all_events c' = all_events c \<and> m_lastPrio c' = m_lastPrio c"
proof -
  have c: "core c" "cursor c" "counted c" "m_reverse c = r" using assms(1) by (simp_all add: calendar_inv_def)
  obtain w bs where w: "CalculateNewWidth c = Inr (w, c\<lparr>m_buckets := bs\<rparr>)" "core (c\<lparr>m_buckets := bs\<rparr>)"
    "all_events (c\<lparr>m_buckets := bs\<rparr>) = all_events c" "1 \<le> unat w" "unat w \<le> 3 * 2 ^ 46"
    using CalculateNewWidth_ok [OF c(1-3)] by blast
  have "cursor (c\<lparr>m_buckets := bs\<rparr>)" using c(2) w(3) by (simp add: cursor_def)
  then obtain c' where "DoResize n w (c\<lparr>m_buckets := bs\<rparr>) = Inr c'" "core c'" "cursor c'"
    "all_events c' = all_events c" "m_qSize c' = m_qSize c" "m_reverse c' = r" "m_lastPrio c' = m_lastPrio c"
    using DoResize_ok [OF w(2) _ assms(2,3) w(4,5)] w(3) c(4) by auto
  then show ?thesis using w(1) c(3) by (simp add: Resize_def calendar_inv_def counted_def)
qed

lemma nBuckets_ok: "calendar_inv r c \<Longrightarrow> 1 \<le> unat (m_nBuckets c) \<and> unat (m_nBuckets c) \<le> 65536"
  by (simp add: calendar_inv_def core_def sizes_ok_def)

lemma ResizeUp_ok:
  assumes "calendar_inv r c"
  shows "\<exists>c'. ResizeUp c = Inr c' \<and> calendar_inv r c' \<and> all_events c' = all_events c \<and> m_lastPrio c' = m_lastPrio c"
proof (cases "m_qSize c > m_nBuckets c * 2 \<and> m_nBuckets c < 32768")
  case True
  then have "unat (m_nBuckets c) < 32768" by (simp add: word_less_nat_alt)
  then have "unat (m_nBuckets c * 2) = unat (m_nBuckets c) * 2" by (simp add: unat_word_ariths)
  with \<open>unat (m_nBuckets c) < 32768\<close> nBuckets_ok [OF assms] show ?thesis
    using True Resize_ok [OF assms, of "m_nBuckets c * 2"] by (simp add: ResizeUp_def)
next
  case False
  then show ?thesis using assms by (auto simp: ResizeUp_def)
qed

lemma ResizeDown_ok:
  assumes "calendar_inv r c"
  shows "\<exists>c'. ResizeDown c = Inr c' \<and> calendar_inv r c' \<and> all_events c' = all_events c \<and> m_lastPrio c' = m_lastPrio c"
proof (cases "m_qSize c < m_nBuckets c div 2")
  case True
  have d: "unat (m_nBuckets c div 2) = unat (m_nBuckets c) div 2" by (simp add: unat_div)
  then have "1 \<le> unat (m_nBuckets c div 2)" using True by (simp add: word_less_nat_alt)
  moreover have "unat (m_nBuckets c div 2) \<le> 65536"
    unfolding d using nBuckets_ok [OF assms] div_le_dividend le_trans by blast
  ultimately show ?thesis using True Resize_ok [OF assms] by (simp add: ResizeDown_def)
next
  case False
  then show ?thesis using assms by (auto simp: ResizeDown_def)
qed

section \<open>The contract holds\<close>

text \<open>The unique ids differ and are not 0, so the count of the events does not wrap.\<close>

lemma card_uids:
  assumes "uids_distinct E" "\<And>e. e \<in> E \<Longrightarrow> ev_uid e \<noteq> 0"
  shows "card E < 2 ^ 32"
proof -
  have "card E = card (ev_uid ` E)" using assms(1) by (simp add: uids_distinct_def card_image)
  also have "\<dots> \<le> card (UNIV - {0 :: u32})" using assms(2) by (intro card_mono) auto
  also have "\<dots> < 2 ^ 32" by (simp add: card_Diff_singleton card_word)
  finally show ?thesis .
qed

lemma calendar_empty: "calendar_inv r c \<Longrightarrow> calendar_IsEmpty c \<longleftrightarrow> all_events c = {}"
  by (auto simp: calendar_inv_def counted_def calendar_IsEmpty_def word_unat_eq_iff card_eq_0_iff finite_all_events)

lemma calendar_Insert_ok:
  assumes "calendar_inv r c" "ev_uid e \<noteq> 0" "ev_uid e \<notin> ev_uid ` all_events c"
    and "unat (m_lastPrio c) \<le> unat (ev_ts e)" "unat (ev_ts e) < 2 ^ 46"
  shows "\<exists>c'. calendar_Insert e c = Inr c' \<and> calendar_inv r c' \<and> all_events c' = insert e (all_events c) \<and>
    m_lastPrio c' = m_lastPrio c"
proof -
  have c: "core c" "cursor c" "counted c" "m_reverse c = r" using assms(1) by (simp_all add: calendar_inv_def)
  obtain bs where bs: "DoInsert e c = Inr (c\<lparr>m_buckets := bs\<rparr>)" "core (c\<lparr>m_buckets := bs\<rparr>)"
    "all_events (c\<lparr>m_buckets := bs\<rparr>) = insert e (all_events c)"
    using DoInsert_ok [OF c(1) assms(2,3,5)] by blast
  define c1 where "c1 = c\<lparr>m_buckets := bs, m_qSize := m_qSize c + 1\<rparr>"
  have a: "all_events c1 = insert e (all_events c)" using bs(3) by (simp add: c1_def)
  have "e \<notin> all_events c" using assms(3) by auto
  then have card: "card (all_events c1) = Suc (card (all_events c))" by (simp add: a finite_all_events)
  have "core c1" using bs(2) by (simp add: c1_def)
  then have "card (all_events c1) < 2 ^ 32" by (intro card_uids) (simp_all add: core_def)
  then have "unat (m_qSize c + 1) = unat (m_qSize c) + 1"
    using card c(3) by (simp add: counted_def unat_word_ariths)
  then have "counted c1" using c(3) card by (simp add: counted_def c1_def a)
  moreover have "cursor c1" using c(2) a assms(4) by (simp add: cursor_def c1_def)
  ultimately have "calendar_inv r c1" using \<open>core c1\<close> c(4) by (simp add: calendar_inv_def c1_def)
  then obtain c' where "ResizeUp c1 = Inr c'" "calendar_inv r c'" "all_events c' = all_events c1"
    "m_lastPrio c' = m_lastPrio c1"
    using ResizeUp_ok by blast
  then show ?thesis using bs(1) a by (simp add: calendar_Insert_def c1_def)
qed

lemma calendar_RemoveNext_ok:
  assumes "calendar_inv r c" "all_events c \<noteq> {}"
  shows "\<exists>e c'. calendar_RemoveNext c = Inr (e, c') \<and> is_next e (all_events c) \<and> calendar_inv r c' \<and>
    all_events c' = all_events c - {e} \<and> m_lastPrio c' = ev_ts e"
proof -
  have c: "core c" "cursor c" "counted c" "m_reverse c = r" using assms(1) by (simp_all add: calendar_inv_def)
  have q: "m_qSize c \<noteq> 0" using calendar_empty [OF assms(1)] assms(2) by (simp add: calendar_IsEmpty_def)
  obtain e c1 where 1: "DoRemoveNext c = Inr (e, c1)" "is_next e (all_events c)" "core c1" "cursor c1"
    "all_events c1 = all_events c - {e}" "m_lastPrio c1 = ev_ts e" "same_settings c c1"
    using c(1,2) assms(2) q by (rule DoRemoveNext_ok)
  define c2 where "c2 = c1\<lparr>m_qSize := m_qSize c1 - 1\<rparr>"
  have "e \<in> all_events c" using 1(2) by (simp add: is_next_def)
  then have "card (all_events c1) = card (all_events c) - 1" by (simp add: 1(5) finite_all_events)
  moreover have "unat (m_qSize c1 - 1) = unat (m_qSize c) - 1"
    using 1(7) q by (simp add: same_settings_def unat_minus_one)
  ultimately have "counted c2" using c(3) by (simp add: counted_def c2_def)
  then have "calendar_inv r c2"
    using 1(3,4,7) c(4) by (simp add: calendar_inv_def c2_def same_settings_def)
  then obtain c' where "ResizeDown c2 = Inr c'" "calendar_inv r c'" "all_events c' = all_events c2"
    "m_lastPrio c' = m_lastPrio c2"
    using ResizeDown_ok by blast
  then show ?thesis
    using 1 calendar_empty [OF assms(1)] assms(2) by (simp add: calendar_RemoveNext_def c2_def)
qed

lemma calendar_Remove_ok:
  assumes "calendar_inv r c" "e \<in> all_events c"
  shows "\<exists>c'. calendar_Remove e c = Inr c' \<and> calendar_inv r c' \<and> all_events c' = all_events c - {e} \<and>
    m_lastPrio c' = m_lastPrio c"
proof -
  have c: "core c" "cursor c" "counted c" "m_reverse c = r" using assms(1) by (simp_all add: calendar_inv_def)
  have s: "sizes_ok c" using c(1) by (rule core_sizes)
  define i where "i = Hash c (ev_ts e)"
  define b where "b = m_buckets c ! unat i"
  have i: "unat i = place c e" "unat i < length (m_buckets c)" "unat i < unat (m_nBuckets c)"
    using s Hash_place [OF s] place_less [OF s, of e] by (simp_all add: i_def sizes_ok_def)
  have b: "set b = {x \<in> all_events c. place c x = unat i}" unfolding b_def using c(1) i(3) by (rule bucket_events)
  have u: "uids_distinct (all_events c)" using c(1) by (simp add: core_def)
  then have "uids_distinct (set b)" by (rule uids_distinct_mono) (auto simp: b)
  moreover have "e \<in> set b" using assms(2) i(1) by (simp add: b)
  ultimately have r: "bucket_remove e b = Inr (remove1 e b)"
    by (simp add: bucket_remove_list list_Remove_eq)
  have sb: "sorted_bucket (m_reverse c) b" using c(1) i(3) by (simp add: core_def b_def)
  have "distinct b" using sb by (rule sorted_bucket_distinct)
  then have set1: "set (remove1 e b) = set b - {e}" by simp
  have 1: "core (set_bucket i (remove1 e b) c) \<and> all_events (set_bucket i (remove1 e b) c) = all_events c - {e}"
  proof (rule set_bucket_core [OF c(1) i(3)])
    show "sorted_bucket (m_reverse c) (remove1 e b)" using sb by (rule sorted_wrt_remove1)
    show "all_events c - {e} = {x \<in> all_events c. place c x \<noteq> unat i} \<union> set (remove1 e b)"
      using i(1) by (auto simp: set1 b)
    show "uids_distinct (all_events c - {e})" using u by (rule uids_distinct_mono) auto
    show "place c x = unat i \<and> ev_uid x \<noteq> 0 \<and> unat (ev_ts x) < 2 ^ 46" if "x \<in> set (remove1 e b)" for x
      using that c(1) by (auto simp: set1 b core_def)
  qed
  define c2 where "c2 = (set_bucket i (remove1 e b) c)\<lparr>m_qSize := m_qSize c - 1\<rparr>"
  have ne: "all_events c \<noteq> {}" using assms(2) by auto
  then have q: "m_qSize c \<noteq> 0" using calendar_empty [OF assms(1)] by (simp add: calendar_IsEmpty_def)
  have "card (all_events c - {e}) = card (all_events c) - 1" using assms(2) by (simp add: finite_all_events)
  then have "counted c2" using 1 c(3) q by (simp add: counted_def c2_def unat_minus_one)
  moreover have "cursor c2"
    using 1 c(2) by (auto simp: cursor_def c2_def) (simp_all add: set_bucket_def)
  ultimately have "calendar_inv r c2" using 1 c(4) by (simp add: calendar_inv_def c2_def) (simp add: set_bucket_def)
  then obtain c' where "ResizeDown c2 = Inr c'" "calendar_inv r c'" "all_events c' = all_events c2"
    "m_lastPrio c' = m_lastPrio c2"
    using ResizeDown_ok by blast
  moreover have "all_events c2 = all_events c - {e}" "m_lastPrio c2 = m_lastPrio c"
    using 1 by (simp_all add: c2_def) (simp add: set_bucket_def)
  ultimately show ?thesis
    using calendar_empty [OF assms(1)] ne r i(2)
    by (simp add: calendar_Remove_def Let_def bucket_at_ok flip: i_def b_def c2_def)
qed

lemma calendar_start: "calendar_inv r (CalendarScheduler r)" "all_events (CalendarScheduler r) = {}"
  "m_lastPrio (CalendarScheduler r) = 0"
proof -
  have "core (CalendarScheduler r)"
    by (simp add: CalendarScheduler_def Init_def Let_def core_def sizes_ok_def all_events_def uids_distinct_def)
  moreover show a: "all_events (CalendarScheduler r) = {}"
    by (simp add: CalendarScheduler_def Init_def Let_def all_events_def)
  moreover show "m_lastPrio (CalendarScheduler r) = 0"
    by (simp add: CalendarScheduler_def Init_def Let_def)
  moreover have "cursor (CalendarScheduler r)"
    using a by (simp add: cursor_def) (simp add: CalendarScheduler_def Init_def Let_def Hash_def)
  ultimately show "calendar_inv r (CalendarScheduler r)"
    by (simp add: calendar_inv_def counted_def) (simp add: CalendarScheduler_def Init_def Let_def)
qed

interpretation calendar_scheduler: event_list "CalendarScheduler r" calendar_Insert calendar_IsEmpty calendar_PeekNext
    calendar_RemoveNext "calendar_inv r" all_events "\<lambda>c. unat (m_lastPrio c)" "2 ^ 46" calendar_Remove
  for r
proof
  fix q assume q: "calendar_inv r q"
  then show "finite (all_events q) \<and> uids_distinct (all_events q)"
    by (simp add: finite_all_events calendar_inv_def core_def)
  assume "all_events q \<noteq> {}"
  then show "\<exists>e. calendar_PeekNext q = Inr e \<and> is_next e (all_events q)"
    using q calendar_empty [OF q] by (intro PeekNext_ok) (simp_all add: calendar_inv_def calendar_IsEmpty_def)
  show "\<exists>e q'. calendar_RemoveNext q = Inr (e, q') \<and> is_next e (all_events q) \<and> calendar_inv r q' \<and>
      all_events q' = all_events q - {e} \<and> unat (m_lastPrio q') \<le> unat (ev_ts e)"
    using calendar_RemoveNext_ok [OF q \<open>all_events q \<noteq> {}\<close>] by fastforce
next
  fix q and e :: event
  assume "calendar_inv r q" "ev_uid e \<noteq> 0" "ev_uid e \<notin> ev_uid ` all_events q"
    "unat (m_lastPrio q) \<le> unat (ev_ts e)" "unat (ev_ts e) < 2 ^ 46"
  then show "\<exists>q'. calendar_Insert e q = Inr q' \<and> calendar_inv r q' \<and> all_events q' = insert e (all_events q) \<and>
      unat (m_lastPrio q') = unat (m_lastPrio q)"
    using calendar_Insert_ok by (metis (no_types))
next
  fix q and e :: event
  assume "calendar_inv r q" "e \<in> all_events q"
  then show "\<exists>q'. calendar_Remove e q = Inr q' \<and> calendar_inv r q' \<and> all_events q' = all_events q - {e} \<and>
      unat (m_lastPrio q') = unat (m_lastPrio q)"
    using calendar_Remove_ok by (metis (no_types))
qed (simp_all add: calendar_start calendar_empty)

end
