(* ===== verification/SimulatorProperties.thy ===== *)
theory SimulatorProperties
  imports SimulatorRefine HeapScheduler CalendarQueue
begin

text \<open>
  The properties of the simulation core: the simulator on each of its schedulers (their tables of
  operations and the interpretations of \<open>simulator\<close> on them), the agreement of the schedulers, the
  end of the run loop, the change of the scheduler, the binary heap, and the life of an event.
\<close>

definition list_table :: "event list scheduler" where
  "list_table = \<lparr>s_Insert = \<lambda>e q. Inr (list_Insert e q), s_IsEmpty = list_IsEmpty, s_PeekNext = list_PeekNext,
     s_RemoveNext = list_RemoveNext, s_Remove = list_Remove\<rparr>"

definition map_table :: "event list scheduler" where
  "map_table = \<lparr>s_Insert = map_Insert, s_IsEmpty = map_IsEmpty, s_PeekNext = map_PeekNext,
     s_RemoveNext = map_RemoveNext, s_Remove = map_Remove\<rparr>"

definition pq_table :: "event list scheduler" where
  "pq_table = \<lparr>s_Insert = \<lambda>e q. Inr (pq_Insert e q), s_IsEmpty = pq_IsEmpty, s_PeekNext = pq_PeekNext,
     s_RemoveNext = pq_RemoveNext, s_Remove = \<lambda>e q. Inr (pq_Remove e q)\<rparr>"

definition heap_table :: "event list scheduler" where
  "heap_table = \<lparr>s_Insert = heap_Insert, s_IsEmpty = heap_IsEmpty, s_PeekNext = heap_PeekNext,
     s_RemoveNext = heap_RemoveNext, s_Remove = heap_Remove\<rparr>"

interpretation list_sim: simulator "[]" "\<lambda>e q. Inr (list_Insert e q)" list_IsEmpty list_PeekNext
    list_RemoveNext sorted_events set "\<lambda>_. 0" "2 ^ 64" list_Remove
 ..

interpretation map_sim: simulator "[]" map_Insert map_IsEmpty map_PeekNext
    map_RemoveNext sorted_events set "\<lambda>_. 0" "2 ^ 64" map_Remove ..

interpretation pq_sim: simulator "[]" "\<lambda>e q. Inr (pq_Insert e q)" pq_IsEmpty pq_PeekNext
    pq_RemoveNext pq_inv set "\<lambda>_. 0" "2 ^ 64" "\<lambda>e q. Inr (pq_Remove e q)" ..

interpretation calendar_sim: simulator "CalendarScheduler r" calendar_Insert calendar_IsEmpty calendar_PeekNext
    calendar_RemoveNext "calendar_inv r" all_events "\<lambda>c. unat (m_lastPrio c)" "2 ^ 46" calendar_Remove for r ..

interpretation map_to_calendar: scheduler_change "[]" map_Insert map_IsEmpty map_PeekNext map_RemoveNext sorted_events set
    "\<lambda>_. 0" "2 ^ 64" "CalendarScheduler r" calendar_Insert calendar_IsEmpty calendar_PeekNext calendar_RemoveNext
    "calendar_inv r" all_events "\<lambda>c. unat (m_lastPrio c)" "2 ^ 46" for r ..

definition calendar_table :: "calendar scheduler" where
  "calendar_table = \<lparr>s_Insert = calendar_Insert, s_IsEmpty = calendar_IsEmpty, s_PeekNext = calendar_PeekNext,
     s_RemoveNext = calendar_RemoveNext, s_Remove = calendar_Remove\<rparr>"

text \<open>
  A simulation for the witnesses: event 0 schedules two more and keeps the identity of the first;
  event 1, of the same time, removes it; event 2 never runs.
\<close>

definition demo :: "nat \<Rightarrow> event_id \<Rightarrow> event_id prog" where
  "demo impl w =
     (if impl = 0 then
        Call (ReqSchedule 20 2) (\<lambda>r.
          Call (ReqSchedule 5 1) (\<lambda>_. Done (case r of RId i \<Rightarrow> i | _ \<Rightarrow> w)))
      else if impl = 1 then Call (ReqRemove w) (\<lambda>_. Done w)
      else Done w)"

definition demo_others :: "nat \<Rightarrow> (u32 \<times> u64 \<times> nat) list" where
  "demo_others n = (if n = 0 then [(7, 3, 0)] else [])"

text \<open>
  C6. A simulation on the default scheduler never fails an assertion of the simulator or of the
  scheduler, however the code of the events, other threads and the scheduler interact: the next
  event is never in the past, no event is lost, \<open>Remove\<close> finds its event.  The events run in
  strictly increasing order of time and unique id, all of them were scheduled, none of them was
  removed before, and nothing runs after its cancellation.
\<close>

theorem simulation_safe:
  assumes "within (2 ^ 63) (trace (ostate (Run map_table notify others fuel [] (DefaultSimulatorImpl w))))"
  shows "fst (result (Run map_table notify others fuel [] (DefaultSimulatorImpl w)))
      \<in> {None, Some NegativeDelay, Some TimeOverflow, Some OutOfFuel} \<and>
    trace_ok (trace (ostate (Run map_table notify others fuel [] (DefaultSimulatorImpl w))))"
  using map_sim.Run_ok [OF _ _ assms [unfolded map_table_def]]
  by (auto simp: map_table_def harmless_def state_ok_def)

lemma demo_trace: "trace (ostate (Run map_table demo demo_others 10 [] (DefaultSimulatorImpl EventId))) =
  [Cancelled 2,
   Removed \<lparr>ev_impl = 2, ev_ts = 23, ev_uid = 5, ev_context = 7\<rparr>,
   RemoveCall \<lparr>ev_impl = 2, ev_ts = 23, ev_uid = 5, ev_context = 7\<rparr>,
   Notified 1, Executed \<lparr>ev_impl = 1, ev_ts = 8, ev_uid = 6, ev_context = 7\<rparr>,
   Scheduled \<lparr>ev_impl = 1, ev_ts = 8, ev_uid = 6, ev_context = 7\<rparr>,
   Scheduled \<lparr>ev_impl = 2, ev_ts = 23, ev_uid = 5, ev_context = 7\<rparr>,
   Notified 0, Executed \<lparr>ev_impl = 0, ev_ts = 3, ev_uid = 4, ev_context = 7\<rparr>,
   Scheduled \<lparr>ev_impl = 0, ev_ts = 3, ev_uid = 4, ev_context = 7\<rparr>, Calls 3]"
  by code_simp

lemma demo_within: "within (2 ^ 63) (trace (ostate (Run map_table demo demo_others 10 [] (DefaultSimulatorImpl EventId))))"
  unfolding demo_trace by (simp add: within_def)

theorem simulation_safe_witness:
  "fst (result (Run map_table demo demo_others 10 [] (DefaultSimulatorImpl EventId)))
      \<in> {None, Some NegativeDelay, Some TimeOverflow, Some OutOfFuel} \<and>
    trace_ok (trace (ostate (Run map_table demo demo_others 10 [] (DefaultSimulatorImpl EventId)))) \<and>
    map ev_ts (executed (trace (ostate (Run map_table demo demo_others 10 [] (DefaultSimulatorImpl EventId))))) = [8, 3]"
  using simulation_safe [OF demo_within] by (simp add: demo_trace)

text \<open>
  C7. The scheduler does not matter: the sorted list, the map and the priority queue run the same
  events at the same times and end in the same state of the simulator.
\<close>

theorem schedulers_agree:
  assumes "within (2 ^ 63) (trace (ostate (Run map_table notify others fuel [] (DefaultSimulatorImpl w))))"
  shows "result (Run list_table notify others fuel [] (DefaultSimulatorImpl w)) =
      result (Run map_table notify others fuel [] (DefaultSimulatorImpl w)) \<and>
    result (Run pq_table notify others fuel [] (DefaultSimulatorImpl w)) =
      result (Run map_table notify others fuel [] (DefaultSimulatorImpl w))"
proof -
  note m = map_sim.Run_result [OF _ _ disjI2 [OF assms [unfolded map_table_def]], folded map_table_def]
  have "within (2 ^ 63) (trace (ostate (Run spec_scheduler notify others fuel {} (DefaultSimulatorImpl w))))"
    using m assms by (simp add: flip: snd_result)
  note l = list_sim.Run_result [OF _ _ disjI1 [OF this], folded list_table_def]
    and p = pq_sim.Run_result [OF _ _ disjI1 [OF this], folded pq_table_def]
  show ?thesis using l p m by simp
qed

theorem schedulers_agree_witness:
  "result (Run list_table demo demo_others 10 [] (DefaultSimulatorImpl EventId)) =
      result (Run map_table demo demo_others 10 [] (DefaultSimulatorImpl EventId)) \<and>
    result (Run pq_table demo demo_others 10 [] (DefaultSimulatorImpl EventId)) =
      result (Run map_table demo demo_others 10 [] (DefaultSimulatorImpl EventId))"
  by (rule schedulers_agree [OF demo_within])

text \<open>
  C8. The calendar queue, in either order of its buckets and through all its resizings, gives the
  same simulation as the map as long as the events are before \<open>2 ^ 46\<close>.
\<close>

theorem calendar_agrees:
  assumes "within (2 ^ 46) (trace (ostate (Run map_table notify others fuel [] (DefaultSimulatorImpl w))))"
  shows "result (Run calendar_table notify others fuel (CalendarScheduler r) (DefaultSimulatorImpl w)) =
    result (Run map_table notify others fuel [] (DefaultSimulatorImpl w))"
proof -
  note m = map_sim.Run_result [OF _ _ disjI2 [OF assms [unfolded map_table_def]], folded map_table_def]
  have "within (2 ^ 46) (trace (ostate (Run spec_scheduler notify others fuel {} (DefaultSimulatorImpl w))))"
    using m assms by (simp add: flip: snd_result)
  note c = calendar_sim.Run_result [OF _ _ disjI1 [OF this], folded calendar_table_def]
  show ?thesis using c m by simp
qed

lemma demo_within_46: "within (2 ^ 46) (trace (ostate (Run map_table demo demo_others 10 [] (DefaultSimulatorImpl EventId))))"
  unfolding demo_trace by (simp add: within_def)

theorem calendar_agrees_witness:
  "result (Run calendar_table demo demo_others 10 (CalendarScheduler True) (DefaultSimulatorImpl EventId)) =
    result (Run map_table demo demo_others 10 [] (DefaultSimulatorImpl EventId))"
  by (rule calendar_agrees [OF demo_within_46])

lemma rank_distinct: "sorted_wrt (\<lambda>a b. rank b < rank a) es \<Longrightarrow> distinct es"
  by (induction es) auto

text \<open>
  C9. The run loop ends when the events end.  A run that is out of fuel has run at least one event
  for each unit of it, and no run executes more events than were scheduled; so a simulation that
  schedules fewer events than the fuel is never out of fuel.
\<close>

theorem simulation_ends:
  assumes "within (2 ^ 63) (trace (ostate (Run map_table notify others fuel [] (DefaultSimulatorImpl w))))"
  shows "(fst (result (Run map_table notify others fuel [] (DefaultSimulatorImpl w))) = Some OutOfFuel \<longrightarrow>
      fuel \<le> length (executed (trace (ostate (Run map_table notify others fuel [] (DefaultSimulatorImpl w)))))) \<and>
    length (executed (trace (ostate (Run map_table notify others fuel [] (DefaultSimulatorImpl w))))) \<le>
      card (scheduled (trace (ostate (Run map_table notify others fuel [] (DefaultSimulatorImpl w))))) \<and>
    (card (scheduled (trace (ostate (Run map_table notify others fuel [] (DefaultSimulatorImpl w))))) < fuel \<longrightarrow>
      fst (result (Run map_table notify others fuel [] (DefaultSimulatorImpl w))) \<noteq> Some OutOfFuel)"
proof -
  define m where "m = Run map_table notify others fuel [] (DefaultSimulatorImpl w)"
  have "trace_ok (trace (ostate m))"
    using map_sim.Run_ok [OF _ _ assms(1) [unfolded map_table_def], folded map_table_def]
    by (simp add: state_ok_def flip: m_def)
  then have "distinct (executed (trace (ostate m)))" "set (executed (trace (ostate m))) \<subseteq> scheduled (trace (ostate m))"
    by (auto simp: trace_ok_def dest: rank_distinct)
  then have some: "length (executed (trace (ostate m))) \<le> card (scheduled (trace (ostate m)))"
    by (metis card_mono distinct_card finite_scheduled)
  have all: "fuel \<le> length (executed (trace (ostate m)))" if out: "fst (result m) = Some OutOfFuel"
  proof -
    obtain s where "m = Inl (OutOfFuel, s)" using out by (cases m) auto
    then show ?thesis
      using Run_fuel [of map_table notify others fuel "[]" "DefaultSimulatorImpl w" s] by (simp add: ran_def flip: m_def)
  qed
  show ?thesis unfolding m_def [symmetric] using some all by linarith
qed

theorem simulation_ends_witness:
  "fst (result (Run map_table demo demo_others 10 [] (DefaultSimulatorImpl EventId))) \<noteq> Some OutOfFuel \<and>
   length (executed (trace (ostate (Run map_table demo demo_others 10 [] (DefaultSimulatorImpl EventId))))) \<le> 3"
proof -
  have c: "card (scheduled (trace (ostate (Run map_table demo demo_others 10 [] (DefaultSimulatorImpl EventId))))) = 3"
    unfolding demo_trace by (simp add: card_insert_if)
  show ?thesis using simulation_ends [OF demo_within] unfolding c by simp
qed

text \<open>
  A change of the scheduler keeps the events: moved from the map into an empty calendar queue,
  exactly the same events wait.
\<close>

theorem scheduler_change_keeps_events:
  assumes "sorted_events q" "\<And>e. e \<in> set q \<Longrightarrow> ev_uid e \<noteq> 0 \<and> unat (ev_ts e) < 2 ^ 46" "length q \<le> fuel"
  shows "\<exists>c. SetScheduler map_table calendar_table fuel q (CalendarScheduler r) = Inr c \<and>
    calendar_inv r c \<and> all_events c = set q"
proof -
  have "card (set q) \<le> fuel" using card_length assms(3) by (rule le_trans)
  then show ?thesis
    using map_to_calendar.moves
      [where S = map_table and T = calendar_table and q = q and p = "CalendarScheduler r" and r = r and fuel = fuel] assms
    by (simp add: map_table_def calendar_table_def calendar_start sorted_events_uids)
qed

theorem scheduler_change_keeps_events_witness:
  "\<exists>c. SetScheduler map_table calendar_table 1
      [\<lparr>ev_impl = 1, ev_ts = 4, ev_uid = 9, ev_context = 0\<rparr>] (CalendarScheduler False) = Inr c \<and>
    calendar_inv False c \<and> all_events c = {\<lparr>ev_impl = 1, ev_ts = 4, ev_uid = 9, ev_context = 0\<rparr>}"
  using scheduler_change_keeps_events
    [of "[\<lparr>ev_impl = 1, ev_ts = 4, ev_uid = 9, ev_context = 0\<rparr>]" 1 False]
  by (simp add: sorted_events_def uids_distinct_def)

text \<open>
  C10. Every sequence of \<open>Insert\<close>, \<open>PeekNext\<close> and \<open>RemoveNext\<close> on the binary heap returns what the
  specification says, the earliest event of those inserted and not yet taken, and never fails.
\<close>

theorem heap_scheduler_refines:
  assumes "spec_run (2 ^ 64) ops {} 0 out" "\<And>e. QRemove e \<notin> set ops"
  shows "queue_run heap_Insert heap_PeekNext heap_RemoveNext heap_Remove ops HeapScheduler = Inr out"
  using heap_scheduler.run_refines [OF assms(1), of HeapScheduler heap_Remove] heap_scheduler.start assms(2) by simp

definition demo_event :: "nat \<Rightarrow> u64 \<Rightarrow> event" where
  "demo_event n t = \<lparr>ev_impl = n, ev_ts = t, ev_uid = of_nat n + 4, ev_context = 0\<rparr>"

lemma heap_scheduler_refines_witness:
  "queue_run heap_Insert heap_PeekNext heap_RemoveNext heap_Remove
     [QInsert (demo_event 0 7), QInsert (demo_event 1 3), QPeek, QNext, QNext] HeapScheduler =
   Inr [demo_event 1 3, demo_event 1 3, demo_event 0 7]"
proof (rule heap_scheduler_refines)
  show "spec_run (2 ^ 64) [QInsert (demo_event 0 7), QInsert (demo_event 1 3), QPeek, QNext, QNext] {} 0
      [demo_event 1 3, demo_event 1 3, demo_event 0 7]"
    by (intro spec_run.intros) (auto simp: demo_event_def is_next_def rank_def)
qed auto

section \<open>The order of the heap after \<open>Remove\<close>\<close>

text \<open>Seven events are inserted and event 3 is removed; then a simulation that does the same.\<close>

definition heap_example :: "queue_op list" where
  "heap_example =
     map (\<lambda>n. QInsert (demo_event n ([1, 10, 2, 11, 12, 20, 4] ! n))) [0..<7] @
     [QRemove (demo_event 3 11), QNext, QNext, QNext, QNext]"

fun schedule_all :: "(u64 \<times> nat) list \<Rightarrow> event_id list \<Rightarrow> (event_id list \<Rightarrow> 'w prog) \<Rightarrow> 'w prog" where
  "schedule_all [] ids k = k ids"
| "schedule_all ((d, n) # ds) ids k =
     Call (ReqSchedule d n) (\<lambda>r. schedule_all ds (ids @ (case r of RId i \<Rightarrow> [i] | _ \<Rightarrow> [])) k)"

definition heap_demo :: "nat \<Rightarrow> unit \<Rightarrow> unit prog" where
  "heap_demo impl w =
     (if impl = 0
      then schedule_all [(1, 1), (10, 2), (2, 3), (11, 4), (12, 5), (20, 6), (4, 7)] []
             (\<lambda>ids. Call (ReqRemove (ids ! 3)) (\<lambda>_. Done w))
      else Done w)"

definition heap_others :: "nat \<Rightarrow> (u32 \<times> u64 \<times> nat) list" where
  "heap_others n = (if n = 0 then [(0, 0, 0)] else [])"

text \<open>
  C11. \<open>Remove\<close> on the binary heap: it never fails on an event of the heap, takes exactly that event
  out and keeps all others, but it keeps the order of the heap only in the cases listed: the removed
  event was the first or the last of the vector, or the last event, which is put into its place and
  then only moved down, is not before the parent of that place.  In every other case the heap that
  is left is out of order.
\<close>

theorem heap_remove_order:
  assumes "heap_inv h" "1 \<le> i" "i < length h"
  shows "\<exists>h'. heap_Remove (h ! i) h = Inr h' \<and> mset (tl h') = mset (tl h) - {#h ! i#} \<and>
    (is_heap h' \<longleftrightarrow> i = 1 \<or> i = length h - 1 \<or> \<not> key_less (last h) (h ! Parent i))"
  using heap_Remove_exact [OF assms] by (simp add: key_less_rank not_less Parent_def)

definition heap_of_seven :: "event list" where
  "heap_of_seven = empty_event # map (\<lambda>n. demo_event n ([1, 10, 2, 11, 12, 20, 4] ! n)) [0..<7]"

lemma heap_of_seven_inv: "heap_inv heap_of_seven"
proof -
  have len: "length heap_of_seven = 8" by code_simp
  have "list_all (\<lambda>j. \<not> key_less (heap_of_seven ! j) (heap_of_seven ! (j div 2))) [2..<8]"
    by code_simp
  then have "\<forall>j\<in>set [2..<8]. rank (heap_of_seven ! (j div 2)) \<le> rank (heap_of_seven ! j)"
    unfolding list_all_iff key_less_rank not_less .
  then have "is_heap heap_of_seven"
    unfolding is_heap_def len set_upt atLeastLessThan_iff Ball_def by (simp add: Suc_le_eq)
  moreover have "distinct (map ev_uid (tl heap_of_seven))" by code_simp
  moreover have "heap_of_seven \<noteq> []" by code_simp
  ultimately show ?thesis
    by (simp add: heap_inv_def heap_events_def uids_distinct_def distinct_map)
qed

theorem heap_remove_order_witness:
  "\<exists>h'. heap_Remove (heap_of_seven ! 4) heap_of_seven = Inr h' \<and>
    mset (tl h') = mset (tl heap_of_seven) - {#heap_of_seven ! 4#} \<and> \<not> is_heap h'"
proof -
  have "length heap_of_seven = 8" "key_less (last heap_of_seven) (heap_of_seven ! Parent 4)"
    by code_simp+
  then show ?thesis
    using heap_remove_order [OF heap_of_seven_inv, of 4] by simp
qed

text \<open>
  In a simulation: an event that removes another one makes the next event be in the past, which
  the run loop asserts not to happen; on the map the same simulation runs to its end.
\<close>

lemma heap_demo_time_order:
  "rbind (queue_run heap_Insert heap_PeekNext heap_RemoveNext heap_Remove heap_example HeapScheduler)
     (\<lambda>es. Inr (map ev_ts es)) = Inr [1, 2, 10, 4] \<and>
   fst (result (Run heap_table heap_demo heap_others 20 HeapScheduler (DefaultSimulatorImpl ()))) = Some TimeOrder \<and>
   fst (result (Run map_table heap_demo heap_others 20 [] (DefaultSimulatorImpl ()))) = None"
  by (intro conjI; code_simp)

section \<open>The life of an event\<close>

lemma Cancel_expires: "IsExpired (id_of e) (Cancel (id_of e) s)"
  by (auto simp: Cancel_def id_of_def IsExpired_def EventImpl_Cancel_def note_action_def IsCancelled_def)

text \<open>
  The event that \<open>Schedule\<close> makes lies the delay ahead of the current time without wrap-around, and
  \<open>Cancel\<close> makes it expired.
\<close>

lemma Schedule_pending:
  assumes "Schedule V delay impl q s = Inr (i, q', s')"
    and "m_currentTs s < 2 ^ 63" "m_currentUid s < m_uid s" "m_uid s \<noteq> DESTROY" "\<not> IsCancelled impl s"
  shows "\<not> IsExpired i s' \<and> GetDelayLeft i s' = delay \<and> uint (id_ts i) = uint (m_currentTs s) + uint delay \<and>
    IsExpired i (Cancel i s') \<and> GetDelayLeft i (Cancel i s') = 0 \<and> Cancel i (Cancel i s') = Cancel i s'"
proof -
  define ts where "ts = m_currentTs s + delay"
  have delay: "0 \<le> sint delay" and bound: "sint delay + sint (m_currentTs s) < 2 ^ 63"
    and i: "i = \<lparr>id_impl = Some impl, id_ts = ts, id_context = m_currentContext s, id_uid = m_uid s\<rparr>"
    and s': "m_currentTs s' = m_currentTs s" "m_currentUid s' = m_currentUid s" "m_cancel s' = m_cancel s"
    using assms(1)
    by (auto simp: Schedule_def absolute_time_def oguard_def new_event_def osched_def obind_def id_of_def GetContext_def
        note_action_def ts_def Let_def add.commute wi_hom_add split: if_splits sum.splits)
  have cur: "sint (m_currentTs s) = uint (m_currentTs s)" and del: "sint delay = uint delay"
    using assms(2) delay by (simp_all add: sint_pos nonneg_sint word_less_nat_alt)
  have no_wrap: "uint ts = uint (m_currentTs s) + uint delay"
    using bound unfolding cur del ts_def by (subst uint_add_lem [symmetric]) simp_all
  then have "\<not> ts < m_currentTs s" by (simp add: word_less_def)
  moreover have "\<not> m_uid s \<le> m_currentUid s" using assms(3) by simp
  ultimately have pending: "\<not> IsExpired i s'"
    using assms(4,5) by (simp add: IsExpired_def i s' IsCancelled_def)
  then have "Cancel i s' = EventImpl_Cancel impl s'" by (simp add: Cancel_def i)
  moreover have expired: "IsExpired i (EventImpl_Cancel impl s')"
    using assms(4) by (simp add: IsExpired_def i EventImpl_Cancel_def IsCancelled_def note_action_def)
  ultimately show ?thesis
    using pending no_wrap by (simp add: GetDelayLeft_def i s' ts_def Cancel_def)
qed

lemma Schedule_pending_example:
  "\<exists>i q s. Schedule map_table 5 1 [] (DefaultSimulatorImpl ()) = Inr (i, q, s) \<and> GetDelayLeft i s = 5 \<and>
    IsExpired i (Cancel i s)"
proof -
  have sint5: "sint (5 :: u64) = 5" by code_simp
  have "\<exists>x. Schedule map_table 5 1 [] (DefaultSimulatorImpl ()) = Inr x"
    by (simp add: Schedule_def absolute_time_def oguard_def new_event_def osched_def obind_def DefaultSimulatorImpl_def
        map_table_def note_action_def Let_def sint5)
  then obtain i q s where run: "Schedule map_table 5 1 [] (DefaultSimulatorImpl ()) = Inr (i, q, s)" by auto
  from Schedule_pending [OF this] show ?thesis
    using run by (auto simp: DefaultSimulatorImpl_def IsCancelled_def INVALID_def VALID_def DESTROY_def)
qed

text \<open>
  C12. The life of an event, in every state of every simulation: an event that was scheduled is
  expired exactly when it has run or its \<open>EventImpl\<close> was cancelled (by \<open>Cancel\<close> or by \<open>Remove\<close>), so it
  is pending until its own turn and expired from then on, also among the events of one time; while
  it is pending, \<open>GetDelayLeft\<close> is the time from now to its time, without wrap-around, and 0
  afterwards; and \<open>Cancel\<close> ends it.  (The simulation ends where its fuel does or where its programs
  stop it, so the final states of all simulations are all the states an event can be asked in.)
\<close>

theorem event_expires_when_run:
  assumes "within (2 ^ 63) (trace (ostate (Run map_table notify others fuel [] (DefaultSimulatorImpl w))))"
    and "s = ostate (Run map_table notify others fuel [] (DefaultSimulatorImpl w))"
    and "Scheduled e \<in> set (trace s)"
  shows "(IsExpired (id_of e) s \<longleftrightarrow> Executed e \<in> set (trace s) \<or> Cancelled (ev_impl e) \<in> set (trace s)) \<and>
    uint (GetDelayLeft (id_of e) s) =
      (if Executed e \<in> set (trace s) \<or> Cancelled (ev_impl e) \<in> set (trace s) then 0
       else uint (ev_ts e) - uint (m_currentTs s)) \<and>
    IsExpired (id_of e) (Cancel (id_of e) s)"
proof -
  have "state_ok s"
    using map_sim.Run_ok [OF _ _ assms(1) [unfolded map_table_def], folded map_table_def] assms(2) by simp
  then have "(IsExpired (id_of e) s \<longleftrightarrow> e \<in> set (executed (trace s)) \<or> Cancelled (ev_impl e) \<in> set (trace s)) \<and>
     uint (GetDelayLeft (id_of e) s) =
       (if IsExpired (id_of e) s then 0 else uint (ev_ts e) - uint (m_currentTs s))"
    using assms(3) by (simp add: state_ok_def expiry_ok_def scheduled_def)
  then show ?thesis using Cancel_expires [of e s] by (simp add: executed_set)
qed

theorem event_expires_when_run_witness:
  "IsExpired (id_of \<lparr>ev_impl = 1, ev_ts = 8, ev_uid = 6, ev_context = 7\<rparr>)
      (ostate (Run map_table demo demo_others 10 [] (DefaultSimulatorImpl EventId))) \<and>
   \<not> IsExpired (id_of \<lparr>ev_impl = 1, ev_ts = 8, ev_uid = 6, ev_context = 7\<rparr>)
      (ostate (Run map_table demo demo_others 1 [] (DefaultSimulatorImpl EventId))) \<and>
   uint (GetDelayLeft (id_of \<lparr>ev_impl = 1, ev_ts = 8, ev_uid = 6, ev_context = 7\<rparr>)
      (ostate (Run map_table demo demo_others 1 [] (DefaultSimulatorImpl EventId)))) = 5"
proof -
  have t: "trace (ostate (Run map_table demo demo_others 1 [] (DefaultSimulatorImpl EventId))) =
    [Scheduled \<lparr>ev_impl = 1, ev_ts = 8, ev_uid = 6, ev_context = 7\<rparr>,
     Scheduled \<lparr>ev_impl = 2, ev_ts = 23, ev_uid = 5, ev_context = 7\<rparr>,
     Notified 0, Executed \<lparr>ev_impl = 0, ev_ts = 3, ev_uid = 4, ev_context = 7\<rparr>,
     Scheduled \<lparr>ev_impl = 0, ev_ts = 3, ev_uid = 4, ev_context = 7\<rparr>, Calls 3]"
    "m_currentTs (ostate (Run map_table demo demo_others 1 [] (DefaultSimulatorImpl EventId))) = 3"
    by code_simp+
  have w: "within (2 ^ 63) (trace (ostate (Run map_table demo demo_others 1 [] (DefaultSimulatorImpl EventId))))"
    unfolding t by (simp add: within_def)
  show ?thesis
    using event_expires_when_run [OF demo_within refl, of "\<lparr>ev_impl = 1, ev_ts = 8, ev_uid = 6, ev_context = 7\<rparr>"]
      event_expires_when_run [OF w refl, of "\<lparr>ev_impl = 1, ev_ts = 8, ev_uid = 6, ev_context = 7\<rparr>"]
    unfolding demo_trace t by simp
qed

end
