(* ===== verification/Buffer.thy ===== *)
theory Buffer
  imports Prelude
begin

text \<open>
  \<open>Buffer\<close> (\<open>src/src/network/model/buffer.h\<close>, \<open>buffer.cc\<close>): the bytes of a packet.  Buffers are
  small objects that point into blocks of memory which they share; a block counts its buffers and
  remembers the dirty range, outside of which nobody has data.  In the middle of a buffer there may be
  a zero area, which takes no memory; offsets behind it are virtual offsets.

  A byte of fresh memory has no value, \<open>None\<close>.  Offsets are natural numbers; where the 32-bit sums of
  the source would wrap around, the outcome is \<open>SizeOverflow\<close>.
\<close>

section \<open>Memory\<close>

type_synonym cell = "u8 option"

record block =
  d_count :: nat
  d_size :: nat
  d_dirtyStart :: nat
  d_dirtyEnd :: nat
  d_bytes :: "cell list"

text \<open>The blocks by their addresses, and the static members; the free list is made on first use.\<close>

record memory =
  h_block :: "nat \<Rightarrow> block"
  h_next :: nat
  g_freeList :: "nat list option"
  g_maxSize :: nat
  g_recommendedStart :: nat

definition no_block :: block where
  "no_block = \<lparr>d_count = 0, d_size = 0, d_dirtyStart = 0, d_dirtyEnd = 0, d_bytes = []\<rparr>"

definition start_memory :: memory where
  "start_memory = \<lparr>h_block = (\<lambda>_. no_block), h_next = 0, g_freeList = None, g_maxSize = 0, g_recommendedStart = 0\<rparr>"

definition on_block :: "nat \<Rightarrow> (block \<Rightarrow> block) \<Rightarrow> memory \<Rightarrow> memory" where
  "on_block k f H = H\<lparr>h_block := (h_block H)(k := f (h_block H k))\<rparr>"

definition ALLOC_OVER_PROVISION :: nat where "ALLOC_OVER_PROVISION = 100"

definition fits32 :: "nat \<Rightarrow> 'a res \<Rightarrow> 'a res" where
  "fits32 n m = rguard SizeOverflow (n < 4294967296) m"

definition Allocate :: "nat \<Rightarrow> memory \<Rightarrow> (nat \<times> memory) res" where
  "Allocate reqSize H =
     (let reqSize = (if reqSize = 0 then 1 else reqSize) + ALLOC_OVER_PROVISION; k = h_next H in
      fits32 reqSize
        (Inr (k, H\<lparr>h_block := (h_block H)(k := \<lparr>d_count = 1, d_size = reqSize, d_dirtyStart = 0, d_dirtyEnd = 0,
                                            d_bytes = replicate reqSize None\<rparr>), h_next := Suc k\<rparr>)))"

definition Deallocate :: "nat \<Rightarrow> memory \<Rightarrow> memory res" where
  "Deallocate k H = rguard NsAssert (d_count (h_block H k) = 0) (Inr (on_block k (\<lambda>_. no_block) H))"

definition Recycle :: "nat \<Rightarrow> memory \<Rightarrow> memory res" where
  "Recycle k H =
     rguard NsAssert (d_count (h_block H k) = 0)
       (case g_freeList H of
          None \<Rightarrow> Inl NsAssert
        | Some fl \<Rightarrow>
            let H1 = H\<lparr>g_maxSize := max (g_maxSize H) (d_size (h_block H k))\<rparr> in
            if d_size (h_block H k) < g_maxSize H1 \<or> 1000 < length fl then Deallocate k H1
            else Inr (H1\<lparr>g_freeList := Some (fl @ [k])\<rparr>))"

text \<open>The loop of \<open>Create\<close> takes blocks off the back of the free list; \<open>ks\<close> is the list from the back.\<close>

fun create_loop :: "nat \<Rightarrow> nat list \<Rightarrow> memory \<Rightarrow> (nat \<times> memory) res" where
  "create_loop dataSize [] H = Allocate dataSize (H\<lparr>g_freeList := Some []\<rparr>)"
| "create_loop dataSize (k # ks) H =
     (if dataSize \<le> d_size (h_block H k)
      then Inr (k, on_block k (d_count_update (\<lambda>_. 1)) (H\<lparr>g_freeList := Some (rev ks)\<rparr>))
      else rbind (Deallocate k H) (create_loop dataSize ks))"

definition Create :: "nat \<Rightarrow> memory \<Rightarrow> (nat \<times> memory) res" where
  "Create dataSize H =
     (case g_freeList H of
        None \<Rightarrow> Allocate dataSize (H\<lparr>g_freeList := Some []\<rparr>)
      | Some fl \<Rightarrow> create_loop dataSize (rev fl) H)"

text \<open>A buffer lets go of a block; the block is recycled with its last buffer.\<close>

definition Unref :: "nat \<Rightarrow> memory \<Rightarrow> memory res" where
  "Unref k H =
     (let H1 = on_block k (\<lambda>d. d\<lparr>d_count := d_count d - 1\<rparr>) H in
      if d_count (h_block H1 k) = 0 then Recycle k H1 else Inr H1)"

text \<open>\<open>memcpy\<close> from and to a block; outside of it the behaviour is undefined.\<close>

definition read_bytes :: "nat \<Rightarrow> nat \<Rightarrow> nat \<Rightarrow> memory \<Rightarrow> cell list res" where
  "read_bytes k a n H =
     (let bs = d_bytes (h_block H k) in
      rguard UndefinedBehaviour (n = 0 \<or> a + n \<le> length bs) (Inr (take n (drop a bs))))"

definition overwrite :: "nat \<Rightarrow> 'a list \<Rightarrow> 'a list \<Rightarrow> 'a list" where
  "overwrite a xs bs = take a bs @ xs @ drop (a + length xs) bs"

definition write_bytes :: "nat \<Rightarrow> nat \<Rightarrow> cell list \<Rightarrow> memory \<Rightarrow> memory res" where
  "write_bytes k a xs H =
     rguard UndefinedBehaviour (xs = [] \<or> a + length xs \<le> length (d_bytes (h_block H k)))
       (Inr (if xs = [] then H else on_block k (\<lambda>d. d\<lparr>d_bytes := overwrite a xs (d_bytes d)\<rparr>) H))"

section \<open>Buffers\<close>

record buffer =
  b_data :: nat
  b_maxZeroAreaStart :: nat
  b_zeroAreaStart :: nat
  b_zeroAreaEnd :: nat
  b_start :: nat
  b_end :: nat

definition zero_size :: "buffer \<Rightarrow> nat" where
  "zero_size b = b_zeroAreaEnd b - b_zeroAreaStart b"

definition GetInternalSize :: "buffer \<Rightarrow> nat" where
  "GetInternalSize b = (b_zeroAreaStart b - b_start b) + (b_end b - b_zeroAreaEnd b)"

definition GetInternalEnd :: "buffer \<Rightarrow> nat" where
  "GetInternalEnd b = b_end b - zero_size b"

definition Buffer_GetSize :: "buffer \<Rightarrow> nat" where
  "Buffer_GetSize b = b_end b - b_start b"

text \<open>The check that the source has switched off (\<open>#if 0\<close>); every operation asserts it.\<close>

definition CheckInternalState :: "buffer \<Rightarrow> memory \<Rightarrow> bool" where
  "CheckInternalState b H =
     (let d = h_block H (b_data b);
          offsetsOk = (b_start b \<le> b_zeroAreaStart b \<and> b_zeroAreaStart b \<le> b_zeroAreaEnd b \<and> b_zeroAreaEnd b \<le> b_end b);
          dirtyOk = (d_dirtyStart d \<le> b_start b \<and> b_end b \<le> d_dirtyEnd d);
          internalSizeOk = (GetInternalEnd b \<le> d_size d \<and> b_start b \<le> d_size d \<and> b_zeroAreaStart b \<le> d_size d) in
      0 < d_count d \<and> offsetsOk \<and> dirtyOk \<and> internalSizeOk)"

definition set_dirty :: "nat \<Rightarrow> nat \<Rightarrow> nat \<Rightarrow> memory \<Rightarrow> memory" where
  "set_dirty k a e H = on_block k (\<lambda>d. d\<lparr>d_dirtyStart := a, d_dirtyEnd := e\<rparr>) H"

definition Initialize :: "nat \<Rightarrow> memory \<Rightarrow> (buffer \<times> memory) res" where
  "Initialize zeroSize H =
     rbind (Create 0 H) (\<lambda>(k, H1).
       let s = min (d_size (h_block H1 k)) (g_recommendedStart H1); e = s + zeroSize in
       fits32 e (Inr (\<lparr>b_data = k, b_maxZeroAreaStart = s, b_zeroAreaStart = s, b_zeroAreaEnd = e,
                      b_start = s, b_end = e\<rparr>, set_dirty k s e H1)))"

definition Buffer_copy :: "buffer \<Rightarrow> memory \<Rightarrow> buffer \<times> memory" where
  "Buffer_copy b H =
     (b\<lparr>b_maxZeroAreaStart := b_zeroAreaStart b\<rparr>, on_block (b_data b) (\<lambda>d. d\<lparr>d_count := d_count d + 1\<rparr>) H)"

definition recommend :: "buffer \<Rightarrow> memory \<Rightarrow> memory" where
  "recommend b H = H\<lparr>g_recommendedStart := max (g_recommendedStart H) (b_maxZeroAreaStart b)\<rparr>"

text \<open>\<open>operator=\<close>, and the destructor.\<close>

definition Buffer_assign :: "buffer \<Rightarrow> buffer \<Rightarrow> memory \<Rightarrow> (buffer \<times> memory) res" where
  "Buffer_assign b other H =
     rbind (if b_data b \<noteq> b_data other
            then rbind (Unref (b_data b) H) (\<lambda>H1. Inr (on_block (b_data other) (\<lambda>d. d\<lparr>d_count := d_count d + 1\<rparr>) H1))
            else Inr H) (\<lambda>H2.
       Inr (other, recommend b H2))"

definition Buffer_destroy :: "buffer \<Rightarrow> memory \<Rightarrow> memory res" where
  "Buffer_destroy b H = Unref (b_data b) (recommend b H)"

definition note_start :: "buffer \<Rightarrow> buffer" where
  "note_start b = b\<lparr>b_maxZeroAreaStart := max (b_maxZeroAreaStart b) (b_zeroAreaStart b)\<rparr>"

text \<open>The offsets of a buffer whose start is moved to \<open>p\<close>.\<close>

definition moved_to :: "nat \<Rightarrow> nat \<Rightarrow> buffer \<Rightarrow> buffer" where
  "moved_to k p b =
     b\<lparr>b_data := k, b_zeroAreaStart := b_zeroAreaStart b - b_start b + p,
       b_zeroAreaEnd := b_zeroAreaEnd b - b_start b + p, b_end := b_end b - b_start b + p, b_start := p\<rparr>"

text \<open>A new block with the data of a buffer at offset \<open>p\<close> and room for \<open>n\<close> more bytes.\<close>

definition reallocate :: "nat \<Rightarrow> nat \<Rightarrow> buffer \<Rightarrow> memory \<Rightarrow> (buffer \<times> memory) res" where
  "reallocate n p b H =
     (let newSize = GetInternalSize b + n in
      fits32 newSize
        (rbind (Create newSize H) (\<lambda>(k, H1).
         rbind (read_bytes (b_data b) (b_start b) (GetInternalSize b) H1) (\<lambda>xs.
         rbind (write_bytes k p xs H1) (\<lambda>H2.
         rbind (Unref (b_data b) H2) (\<lambda>H3. Inr (moved_to k p b, H3)))))))"

definition AddAtStart :: "nat \<Rightarrow> buffer \<Rightarrow> memory \<Rightarrow> (buffer \<times> memory) res" where
  "AddAtStart n b H =
     (let d = h_block H (b_data b); isDirty = (1 < d_count d \<and> d_dirtyStart d < b_start b) in
      rbind
        (if n \<le> b_start b \<and> \<not> isDirty then
           rguard NsAssert (d_count d = 1 \<or> b_start b = d_dirtyStart d)
             (let b1 = b\<lparr>b_start := b_start b - n\<rparr> in
              Inr (b1, on_block (b_data b) (\<lambda>d. d\<lparr>d_dirtyStart := b_start b1\<rparr>) H))
         else
           rbind (reallocate n n b H) (\<lambda>(b1, H1).
             let b2 = b1\<lparr>b_start := 0\<rparr> in
             fits32 (b_end b2) (Inr (b2, set_dirty (b_data b2) (b_start b2) (b_end b2) H1))))
        (\<lambda>(b', H'). Inr (note_start b', H')))"

definition AddAtEnd :: "nat \<Rightarrow> buffer \<Rightarrow> memory \<Rightarrow> (buffer \<times> memory) res" where
  "AddAtEnd n b H =
     (let d = h_block H (b_data b); isDirty = (1 < d_count d \<and> b_end b < d_dirtyEnd d) in
      fits32 (GetInternalEnd b + n)
       (rbind
        (if GetInternalEnd b + n \<le> d_size d \<and> \<not> isDirty then
           rguard NsAssert (d_count d = 1 \<or> b_end b = d_dirtyEnd d)
             (let b1 = b\<lparr>b_end := b_end b + n\<rparr> in
              fits32 (b_end b1) (Inr (b1, on_block (b_data b) (\<lambda>d. d\<lparr>d_dirtyEnd := b_end b1\<rparr>) H)))
         else
           rbind (reallocate n 0 b H) (\<lambda>(b1, H1).
             let b2 = b1\<lparr>b_end := b_end b1 + n\<rparr> in
             fits32 (b_end b2) (Inr (b2, set_dirty (b_data b2) (b_start b2) (b_end b2) H1))))
        (\<lambda>(b', H'). Inr (note_start b', H'))))"

definition Buffer_RemoveAtStart :: "nat \<Rightarrow> buffer \<Rightarrow> buffer res" where
  "Buffer_RemoveAtStart n b =
     (let newStart = b_start b + n in
      fits32 newStart
       (rbind
        (if newStart \<le> b_zeroAreaStart b then Inr (b\<lparr>b_start := newStart\<rparr>)
         else if newStart \<le> b_zeroAreaEnd b then
           (let delta = newStart - b_zeroAreaStart b in
            Inr (b\<lparr>b_start := b_zeroAreaStart b, b_zeroAreaEnd := b_zeroAreaEnd b - delta, b_end := b_end b - delta\<rparr>))
         else if newStart \<le> b_end b then
           rguard NsAssert (n \<le> b_end b)
             (let s = newStart - zero_size b in
              Inr (b\<lparr>b_start := s, b_end := b_end b - zero_size b, b_zeroAreaStart := s, b_zeroAreaEnd := s\<rparr>))
         else
           (let e = b_end b - zero_size b in
            Inr (b\<lparr>b_start := e, b_end := e, b_zeroAreaStart := e, b_zeroAreaEnd := e\<rparr>)))
        (\<lambda>b'. Inr (note_start b'))))"

definition Buffer_RemoveAtEnd :: "nat \<Rightarrow> buffer \<Rightarrow> buffer" where
  "Buffer_RemoveAtEnd n b =
     (let newEnd = b_end b - min n (b_end b - b_start b) in
      note_start
        (if b_zeroAreaEnd b < newEnd then b\<lparr>b_end := newEnd\<rparr>
         else if b_zeroAreaStart b < newEnd then b\<lparr>b_end := newEnd, b_zeroAreaEnd := newEnd\<rparr>
         else if b_start b < newEnd then b\<lparr>b_end := newEnd, b_zeroAreaEnd := newEnd, b_zeroAreaStart := newEnd\<rparr>
         else b\<lparr>b_end := b_start b, b_zeroAreaEnd := b_start b, b_zeroAreaStart := b_start b\<rparr>))"

text \<open>The argument of the second removal is computed in 32 bits.\<close>

definition Buffer_CreateFragment :: "nat \<Rightarrow> nat \<Rightarrow> buffer \<Rightarrow> memory \<Rightarrow> (buffer \<times> memory) res" where
  "Buffer_CreateFragment start len b H =
     (let (tmp, H1) = Buffer_copy b H in
      fits32 (start + len)
        (rbind (Buffer_RemoveAtStart start tmp) (\<lambda>tmp1.
           Inr (Buffer_RemoveAtEnd (nat ((int (Buffer_GetSize b) - int (start + len)) mod 2 ^ 32)) tmp1, H1))))"

section \<open>Iterators\<close>

record iterator =
  it_zeroStart :: nat
  it_zeroEnd :: nat
  it_dataStart :: nat
  it_dataEnd :: nat
  it_current :: nat
  it_data :: nat

definition Construct :: "buffer \<Rightarrow> nat \<Rightarrow> iterator" where
  "Construct b cur = \<lparr>it_zeroStart = b_zeroAreaStart b, it_zeroEnd = b_zeroAreaEnd b, it_dataStart = b_start b,
     it_dataEnd = b_end b, it_current = cur, it_data = b_data b\<rparr>"

definition Begin :: "buffer \<Rightarrow> iterator" where "Begin b = Construct b (b_start b)"
definition End :: "buffer \<Rightarrow> iterator" where "End b = Construct b (b_end b)"

definition it_zero_size :: "iterator \<Rightarrow> nat" where "it_zero_size i = it_zeroEnd i - it_zeroStart i"

definition it_Next :: "nat \<Rightarrow> iterator \<Rightarrow> iterator res" where
  "it_Next delta i = rguard NsAssert (it_current i + delta \<le> it_dataEnd i) (Inr (i\<lparr>it_current := it_current i + delta\<rparr>))"

definition it_Prev :: "nat \<Rightarrow> iterator \<Rightarrow> iterator res" where
  "it_Prev delta i = rguard NsAssert (delta \<le> it_current i) (Inr (i\<lparr>it_current := it_current i - delta\<rparr>))"

definition CheckNoZero :: "nat \<Rightarrow> nat \<Rightarrow> iterator \<Rightarrow> bool" where
  "CheckNoZero s e i \<longleftrightarrow> \<not> (s < it_dataStart i \<or> it_dataEnd i < e \<or>
     (it_zeroStart i < e \<and> s < it_zeroEnd i \<and> it_zeroEnd i \<noteq> it_zeroStart i \<and> s \<noteq> e))"

definition Check :: "nat \<Rightarrow> iterator \<Rightarrow> bool" where
  "Check n i \<longleftrightarrow> it_dataStart i \<le> n \<and> \<not> (it_zeroStart i \<le> n \<and> n < it_zeroEnd i) \<and> n \<le> it_dataEnd i"

definition it_WriteU8 :: "u8 \<Rightarrow> iterator \<Rightarrow> memory \<Rightarrow> (iterator \<times> memory) res" where
  "it_WriteU8 x i H =
     rguard NsAssert (Check (it_current i) i)
       (rbind (write_bytes (it_data i)
                 (if it_current i < it_zeroStart i then it_current i else it_current i - it_zero_size i) [Some x] H)
         (\<lambda>H'. Inr (i\<lparr>it_current := it_current i + 1\<rparr>, H')))"

definition it_WriteU8_len :: "u8 \<Rightarrow> nat \<Rightarrow> iterator \<Rightarrow> memory \<Rightarrow> (iterator \<times> memory) res" where
  "it_WriteU8_len x len i H =
     rguard NsAssert (CheckNoZero (it_current i) (it_current i + len) i)
       (rbind (write_bytes (it_data i)
                 (if it_current i \<le> it_zeroStart i then it_current i else it_current i - it_zero_size i)
                 (replicate len (Some x)) H)
         (\<lambda>H'. Inr (i\<lparr>it_current := it_current i + len\<rparr>, H')))"

text \<open>\<open>Write\<close> of an array; the second argument of its check is the number of bytes, not their end.\<close>

definition it_Write :: "cell list \<Rightarrow> iterator \<Rightarrow> memory \<Rightarrow> (iterator \<times> memory) res" where
  "it_Write xs i H =
     rguard NsAssert (CheckNoZero (it_current i) (length xs) i)
       (rbind (write_bytes (it_data i)
                 (if it_current i \<le> it_zeroStart i then it_current i else it_current i - it_zero_size i) xs H)
         (\<lambda>H'. Inr (i\<lparr>it_current := it_current i + length xs\<rparr>, H')))"

text \<open>
  \<open>Write\<close> of a range of another buffer, in three steps: before, inside and behind the zero area of
  that buffer.  The zero area of the destination plays no part in the destination address.
\<close>

definition it_Write_iter :: "iterator \<Rightarrow> iterator \<Rightarrow> iterator \<Rightarrow> memory \<Rightarrow> (iterator \<times> memory) res" where
  "it_Write_iter s e i H =
     rguard NsAssert (it_data s = it_data e \<and> it_current s \<le> it_current e \<and> it_zeroStart s = it_zeroStart e \<and>
       it_zeroEnd s = it_zeroEnd e \<and> it_data i \<noteq> it_data s)
     (let n = it_current e - it_current s in
      rguard NsAssert (CheckNoZero (it_current i) (it_current i + n) i)
      (let n1 = (if it_current s \<le> it_zeroStart s then min n (it_zeroStart s - it_current s) else 0) in
       rbind (read_bytes (it_data s) (it_current s) n1 H) (\<lambda>xs1.
       rbind (write_bytes (it_data i) (it_current i) xs1 H) (\<lambda>H1.
       let c1 = it_current s + n1; p1 = it_current i + n1; m1 = n - n1;
           n2 = (if c1 \<le> it_zeroEnd s then min m1 (it_zeroEnd s - c1) else 0) in
       rbind (write_bytes (it_data i) p1 (replicate n2 (Some 0)) H1) (\<lambda>H2.
       let c2 = c1 + n2; p2 = p1 + n2; m2 = m1 - n2; n3 = min m2 (it_dataEnd s - c2) in
       rbind (read_bytes (it_data s) (c2 - it_zero_size s) n3 H2) (\<lambda>xs3.
       rbind (write_bytes (it_data i) p2 xs3 H2) (\<lambda>H3.
       Inr (i\<lparr>it_current := p2 + n3\<rparr>, H3))))))))"

definition it_PeekU8 :: "iterator \<Rightarrow> memory \<Rightarrow> cell res" where
  "it_PeekU8 i H =
     rguard NsAssert (it_dataStart i \<le> it_current i \<and> it_current i < it_dataEnd i)
       (if it_current i < it_zeroStart i then
          rbind (read_bytes (it_data i) (it_current i) 1 H) (\<lambda>xs. Inr (hd xs))
        else if it_current i < it_zeroEnd i then Inr (Some 0)
        else rbind (read_bytes (it_data i) (it_current i - it_zero_size i) 1 H) (\<lambda>xs. Inr (hd xs)))"

text \<open>A value is computed from bytes, so they must have been written.\<close>

definition it_ReadU8 :: "iterator \<Rightarrow> memory \<Rightarrow> (u8 \<times> iterator) res" where
  "it_ReadU8 i H =
     rbind (it_PeekU8 i H) (\<lambda>c.
       case c of None \<Rightarrow> Inl UndefinedBehaviour | Some x \<Rightarrow> Inr (x, i\<lparr>it_current := it_current i + 1\<rparr>))"

fun it_Read :: "nat \<Rightarrow> iterator \<Rightarrow> memory \<Rightarrow> (u8 list \<times> iterator) res" where
  "it_Read 0 i H = Inr ([], i)"
| "it_Read (Suc n) i H =
     rbind (it_ReadU8 i H) (\<lambda>(x, i1). rbind (it_Read n i1 H) (\<lambda>(xs, i2). Inr (x # xs, i2)))"

definition big_endian :: "u8 list \<Rightarrow> u32" where
  "big_endian xs = foldl (\<lambda>v x. push_bit 8 v OR ucast x) 0 xs"

definition it_SlowReadNtoh :: "nat \<Rightarrow> iterator \<Rightarrow> memory \<Rightarrow> (u32 \<times> iterator) res" where
  "it_SlowReadNtoh n i H = rbind (it_Read n i H) (\<lambda>(xs, i'). Inr (big_endian xs, i'))"

text \<open>\<open>ReadNtohU16\<close> (\<open>n = 2\<close>) and \<open>ReadNtohU32\<close> (\<open>n = 4\<close>): two fast cases without a check of the end.\<close>

definition it_ReadNtoh :: "nat \<Rightarrow> iterator \<Rightarrow> memory \<Rightarrow> (u32 \<times> iterator) res" where
  "it_ReadNtoh n i H =
     (let fast = (\<lambda>p. rbind (read_bytes (it_data i) p n H) (\<lambda>xs.
            if list_all (\<lambda>c. c \<noteq> None) xs then Inr (big_endian (map the xs), i\<lparr>it_current := it_current i + n\<rparr>)
            else Inl UndefinedBehaviour)) in
      if it_current i + n \<le> it_zeroStart i then fast (it_current i)
      else if it_zeroEnd i \<le> it_current i then fast (it_current i - it_zero_size i)
      else it_SlowReadNtoh n i H)"

section \<open>Copies and concatenation\<close>

definition CreateFullCopy :: "buffer \<Rightarrow> memory \<Rightarrow> (buffer \<times> memory) res" where
  "CreateFullCopy b H =
     (if zero_size b \<noteq> 0 then
        rbind (Initialize 0 H) (\<lambda>(t, H1).
        rbind (AddAtStart (zero_size b) t H1) (\<lambda>(t1, H2).
        rbind (it_WriteU8_len 0 (zero_size b) (Begin t1) H2) (\<lambda>(_, H3).
        let dataStart = b_zeroAreaStart b - b_start b in
        rbind (AddAtStart dataStart t1 H3) (\<lambda>(t2, H4).
        rbind (read_bytes (b_data b) (b_start b) dataStart H4) (\<lambda>xs.
        rbind (it_Write xs (Begin t2) H4) (\<lambda>(_, H5).
        let dataEnd = b_end b - b_zeroAreaEnd b in
        rbind (AddAtEnd dataEnd t2 H5) (\<lambda>(t3, H6).
        rbind (it_Prev dataEnd (End t3)) (\<lambda>i.
        rbind (read_bytes (b_data b) (b_zeroAreaStart b) dataEnd H6) (\<lambda>ys.
        rbind (it_Write ys i H6) (\<lambda>(_, H7). Inr (t3, H7)))))))))))
      else Inr (Buffer_copy b H))"

text \<open>\<open>*this = CreateFullCopy ()\<close>: the temporary object is assigned and destroyed.\<close>

definition TransformIntoRealBuffer :: "buffer \<Rightarrow> memory \<Rightarrow> (buffer \<times> memory) res" where
  "TransformIntoRealBuffer b H =
     rbind (CreateFullCopy b H) (\<lambda>(t, H1).
     rbind (Buffer_assign b t H1) (\<lambda>(b', H2).
     rbind (Buffer_destroy t H2) (\<lambda>H3. Inr (b', H3))))"

text \<open>When two zero areas meet, they become one.\<close>

definition adjacent_zeros :: "buffer \<Rightarrow> buffer \<Rightarrow> memory \<Rightarrow> bool" where
  "adjacent_zeros b other H \<longleftrightarrow>
     d_count (h_block H (b_data b)) = 1 \<and>
     (b_end b = b_zeroAreaEnd b \<or> b_zeroAreaStart b = b_zeroAreaEnd b) \<and>
     b_end b = d_dirtyEnd (h_block H (b_data b)) \<and> b_start other = b_zeroAreaStart other \<and> 0 < zero_size other"

definition AddAtEnd_Buffer :: "buffer \<Rightarrow> buffer \<Rightarrow> memory \<Rightarrow> (buffer \<times> memory) res" where
  "AddAtEnd_Buffer other b H =
     (if adjacent_zeros b other H then
        let b1 = (if b_zeroAreaStart b = b_zeroAreaEnd b then b\<lparr>b_zeroAreaStart := b_end b\<rparr> else b);
            e = b_end b1 + zero_size other;
            b2 = b1\<lparr>b_zeroAreaEnd := e, b_end := e\<rparr>;
            H1 = on_block (b_data b) (\<lambda>d. d\<lparr>d_dirtyEnd := e\<rparr>) H;
            endData = b_end other - b_zeroAreaEnd other in
        fits32 e
         (rbind (AddAtEnd endData b2 H1) (\<lambda>(b3, H2).
          rbind (it_Prev endData (End b3)) (\<lambda>dst.
          rbind (it_Prev endData (End other)) (\<lambda>src.
          rbind (it_Write_iter src (End other) dst H2) (\<lambda>(_, H3). Inr (b3, H3))))))
      else
        rbind (TransformIntoRealBuffer b H) (\<lambda>(b1, H1).
        rbind (AddAtEnd (Buffer_GetSize other) b1 H1) (\<lambda>(b2, H2).
        rbind (it_Prev (Buffer_GetSize other) (End b2)) (\<lambda>dst.
        rbind (it_Write_iter (Begin other) (End other) dst H2) (\<lambda>(_, H3). Inr (b2, H3))))))"

end
