(* ===== verification/BufferSharing.thy ===== *)
theory BufferSharing
  imports Buffer "HOL-Library.Multiset"
begin

text \<open>
  Buffers that share blocks.  The invariant \<open>live_ok\<close> of a memory and the list of its live buffers: the
  counts are right, the dirty range covers every buffer of a block, and a buffer that reaches the end
  of the dirty range has no data of another buffer behind its own.  Each operation of a buffer keeps
  the invariant, does to the contents of its buffer what it promises, and leaves the contents of all
  others alone.
\<close>

section \<open>The allocator\<close>

text \<open>\<open>cnt\<close> is the number of buffers that each block should have.\<close>

definition mem_ok :: "memory \<Rightarrow> (nat \<Rightarrow> nat) \<Rightarrow> bool" where
  "mem_ok H cnt \<longleftrightarrow>
     (\<forall>k. d_count (h_block H k) = cnt k \<and> length (d_bytes (h_block H k)) = d_size (h_block H k)) \<and>
     (\<forall>k. h_next H \<le> k \<longrightarrow> cnt k = 0) \<and>
     (\<forall>fl. g_freeList H = Some fl \<longrightarrow> distinct fl \<and> (\<forall>k \<in> set fl. k < h_next H \<and> cnt k = 0)) \<and>
     ((\<exists>k. cnt k \<noteq> 0) \<longrightarrow> g_freeList H \<noteq> None)"

lemma on_block_sel [simp]:
  "h_block (on_block k f H) = (h_block H)(k := f (h_block H k))" "h_next (on_block k f H) = h_next H"
  "g_freeList (on_block k f H) = g_freeList H" "g_maxSize (on_block k f H) = g_maxSize H"
  "g_recommendedStart (on_block k f H) = g_recommendedStart H"
  by (simp_all add: on_block_def)

lemma no_block_sel [simp]: "d_count no_block = 0" "d_size no_block = 0" "d_bytes no_block = []"
  by (simp_all add: no_block_def)

lemma Allocate_ok:
  assumes "mem_ok H cnt" "g_freeList H = Some fl" "Allocate n H = Inr (k, H')"
  shows "cnt k = 0 \<and> mem_ok H' (cnt(k := 1)) \<and> n \<le> d_size (h_block H' k) \<and>
    (\<forall>j. cnt j \<noteq> 0 \<longrightarrow> h_block H' j = h_block H j)"
  using assms by (auto simp: Allocate_def mem_ok_def Let_def ALLOC_OVER_PROVISION_def fits32_def rguard_eq_Inr) (metis less_SucI)

lemma Allocate_cases:
  obtains "Allocate n H = Inl SizeOverflow" | k H' where "Allocate n H = Inr (k, H')"
proof (cases "Allocate n H")
  case (Inl e)
  then have "e = SizeOverflow" by (auto simp: Allocate_def Let_def fits32_def rguard_def split: if_splits)
  then show thesis using that(1) Inl by simp
next
  case (Inr x)
  then show thesis using that(2) by (cases x) simp
qed

lemma Deallocate_ok:
  assumes "mem_ok H cnt" "cnt k = 0"
  shows "Deallocate k H = Inr (on_block k (\<lambda>_. no_block) H)" "mem_ok (on_block k (\<lambda>_. no_block) H) cnt"
  using assms by (auto simp: Deallocate_def mem_ok_def)

lemma mem_ok_free: "mem_ok H cnt \<Longrightarrow> distinct fl \<Longrightarrow> \<forall>k \<in> set fl. k < h_next H \<and> cnt k = 0 \<Longrightarrow>
    mem_ok (H\<lparr>g_freeList := Some fl\<rparr>) cnt"
  by (simp add: mem_ok_def)

lemma create_loop_ok:
  assumes "mem_ok H cnt" "distinct ks" "\<forall>k \<in> set ks. k < h_next H \<and> cnt k = 0"
  shows "create_loop n ks H = Inl SizeOverflow \<or> (\<exists>k H'. create_loop n ks H = Inr (k, H') \<and> cnt k = 0 \<and> mem_ok H' (cnt(k := 1)) \<and>
    n \<le> d_size (h_block H' k) \<and> (\<forall>j. cnt j \<noteq> 0 \<longrightarrow> h_block H' j = h_block H j))"
  using assms
proof (induction ks arbitrary: H)
  case Nil
  have ok: "mem_ok (H\<lparr>g_freeList := Some []\<rparr>) cnt" using Nil(1) by (simp add: mem_ok_free)
  show ?case
  proof (rule Allocate_cases [of n "H\<lparr>g_freeList := Some []\<rparr>"])
    fix k H' assume alloc: "Allocate n (H\<lparr>g_freeList := Some []\<rparr>) = Inr (k, H')"
    from Allocate_ok [OF ok _ alloc] have "cnt k = 0 \<and> mem_ok H' (cnt(k := 1)) \<and> n \<le> d_size (h_block H' k) \<and>
      (\<forall>j. cnt j \<noteq> 0 \<longrightarrow> h_block H' j = h_block H j)" by simp
    moreover have "create_loop n [] H = Inr (k, H')" using alloc by simp
    ultimately show ?case by blast
  qed simp
next
  case (Cons k ks)
  show ?case
  proof (cases "n \<le> d_size (h_block H k)")
    case True
    then show ?thesis
      using Cons.prems by (auto simp: mem_ok_def)
  next
    case False
    let ?H = "on_block k (\<lambda>_. no_block) H"
    have "mem_ok ?H cnt" "\<forall>j \<in> set ks. j < h_next ?H \<and> cnt j = 0"
      using Cons.prems Deallocate_ok [of H cnt k] by auto
    moreover have "h_block ?H j = h_block H j" if "cnt j \<noteq> 0" for j
      using that Cons.prems(3) by auto
    ultimately show ?thesis
      using False Cons.prems(2,3) Deallocate_ok(1) [OF Cons.prems(1), of k] Cons.IH [of ?H] by auto
  qed
qed

lemma Create_ok:
  assumes "mem_ok H cnt"
  obtains "Create n H = Inl SizeOverflow"
  | k H' where "Create n H = Inr (k, H')" "cnt k = 0" "mem_ok H' (cnt(k := 1))" "n \<le> d_size (h_block H' k)"
    "\<And>j. cnt j \<noteq> 0 \<Longrightarrow> h_block H' j = h_block H j"
proof (cases "g_freeList H")
  case None
  then have "Create n H = create_loop n [] H" by (simp add: Create_def)
  with create_loop_ok [OF assms, of "[]" n] that show ?thesis by auto
next
  case (Some fl)
  then have "distinct (rev fl)" "\<forall>k \<in> set (rev fl). k < h_next H \<and> cnt k = 0"
    using assms by (auto simp: mem_ok_def)
  moreover have "Create n H = create_loop n (rev fl) H" using Some by (simp add: Create_def)
  ultimately show ?thesis using create_loop_ok [OF assms, of "rev fl" n] that by auto
qed

lemma Unref_ok:
  assumes "mem_ok H cnt" "cnt k \<noteq> 0"
  obtains H' where "Unref k H = Inr H'" "mem_ok H' (cnt(k := cnt k - 1))"
    "\<And>j. j \<noteq> k \<Longrightarrow> h_block H' j = h_block H j"
    "1 < cnt k \<Longrightarrow> h_block H' k = (h_block H k)\<lparr>d_count := cnt k - 1\<rparr>"
proof (cases "cnt k = 1")
  case False
  let ?H = "on_block k (\<lambda>d. d\<lparr>d_count := d_count d - 1\<rparr>) H"
  have count: "d_count (h_block H k) = cnt k" using assms(1) by (simp add: mem_ok_def)
  show ?thesis
  proof (rule that)
    show "Unref k H = Inr ?H" using False assms(2) count by (simp add: Unref_def Let_def)
    show "mem_ok ?H (cnt(k := cnt k - 1))" using assms unfolding mem_ok_def by (auto; blast)
  qed (use count in simp_all)
next
  case True
  let ?H = "on_block k (\<lambda>d. d\<lparr>d_count := d_count d - 1\<rparr>) H"
  have ok: "mem_ok ?H (cnt(k := 0))" "d_count (h_block ?H k) = 0"
    using assms True by (auto simp: mem_ok_def)
  obtain fl where fl: "g_freeList H = Some fl" using assms by (auto simp: mem_ok_def)
  then have "distinct fl" "\<forall>j \<in> set fl. j < h_next H \<and> cnt j = 0" using assms(1) by (auto simp: mem_ok_def)
  moreover have "k < h_next H" using assms by (auto simp: mem_ok_def not_le)
  ultimately have fl2: "distinct (fl @ [k])" "\<forall>j \<in> set (fl @ [k]). j < h_next H \<and> (cnt(k := 0)) j = 0"
    using True by auto
  define H1 where "H1 = ?H\<lparr>g_maxSize := max (g_maxSize ?H) (d_size (h_block ?H k))\<rparr>"
  have ok1: "mem_ok H1 (cnt(k := 0))" using ok(1) by (simp add: H1_def mem_ok_def)
  have blocks: "h_block H1 = h_block ?H" "h_next H1 = h_next H" by (simp_all add: H1_def)
  have run: "Unref k H = (if d_size (h_block H k) < g_maxSize H1 \<or> 1000 < length fl then Deallocate k H1
      else Inr (H1\<lparr>g_freeList := Some (fl @ [k])\<rparr>))"
    using ok(2) fl by (simp add: Unref_def Recycle_def H1_def Let_def)
  show ?thesis
  proof (cases "d_size (h_block H k) < g_maxSize H1 \<or> 1000 < length fl")
    case T: True
    then show ?thesis
      using that [of "on_block k (\<lambda>_. no_block) H1"] run Deallocate_ok [OF ok1, of k] True blocks by auto
  next
    case F: False
    then show ?thesis
      using that [of "H1\<lparr>g_freeList := Some (fl @ [k])\<rparr>"] run mem_ok_free [OF ok1 fl2(1)] fl2(2) True blocks by auto
  qed
qed

section \<open>The invariant\<close>

definition uses :: "buffer multiset \<Rightarrow> nat \<Rightarrow> nat" where
  "uses B = count (image_mset b_data B)"

definition buf_ok :: "block \<Rightarrow> buffer \<Rightarrow> bool" where
  "buf_ok d b \<longleftrightarrow> b_start b \<le> b_zeroAreaStart b \<and> b_zeroAreaStart b \<le> b_zeroAreaEnd b \<and> b_zeroAreaEnd b \<le> b_end b \<and>
     d_dirtyStart d \<le> b_start b \<and> b_end b \<le> d_dirtyEnd d \<and> GetInternalEnd b \<le> d_size d \<and> b_end b < 4294967296"

definition live_ok :: "memory \<Rightarrow> buffer multiset \<Rightarrow> bool" where
  "live_ok H B \<longleftrightarrow> mem_ok H (uses B) \<and> (\<forall>b \<in># B. buf_ok (h_block H (b_data b)) b) \<and>
     (\<forall>b \<in># B. \<forall>c \<in># B. b_data c = b_data b \<longrightarrow> b_end b = d_dirtyEnd (h_block H (b_data b)) \<longrightarrow>
        GetInternalEnd c \<le> GetInternalEnd b)"

text \<open>The bytes of a buffer; a byte nobody wrote is \<open>None\<close>.\<close>

definition piece :: "nat \<Rightarrow> nat \<Rightarrow> 'a list \<Rightarrow> 'a list" where
  "piece a e xs = take (e - a) (drop a xs)"

definition block_contents :: "block \<Rightarrow> buffer \<Rightarrow> cell list" where
  "block_contents d b = piece (b_start b) (b_zeroAreaStart b) (d_bytes d) @ replicate (zero_size b) (Some 0) @
     piece (b_zeroAreaStart b) (GetInternalEnd b) (d_bytes d)"

definition contents :: "memory \<Rightarrow> buffer \<Rightarrow> cell list" where
  "contents H b = block_contents (h_block H (b_data b)) b"

definition frame :: "memory \<Rightarrow> memory \<Rightarrow> buffer multiset \<Rightarrow> bool" where
  "frame H H' B \<longleftrightarrow> (\<forall>c \<in># B. contents H' c = contents H c)"

text \<open>The outcome of an operation: \<open>SizeOverflow\<close> or a result with the property.\<close>

definition yields :: "'a res \<Rightarrow> ('a \<Rightarrow> bool) \<Rightarrow> bool" where
  "yields m P = (case m of Inl e \<Rightarrow> e = SizeOverflow | Inr x \<Rightarrow> P x)"

lemma yields_simps [simp]: "yields (Inr x) P = P x" "yields (Inl e) P \<longleftrightarrow> e = SizeOverflow"
  by (simp_all add: yields_def)

lemma yields_bind: "yields m P \<Longrightarrow> (\<And>x. m = Inr x \<Longrightarrow> P x \<Longrightarrow> yields (f x) Q) \<Longrightarrow> yields (rbind m f) Q"
  by (cases m) simp_all

lemma yields_mono: "yields m P \<Longrightarrow> (\<And>x. P x \<Longrightarrow> Q x) \<Longrightarrow> yields m Q"
  by (cases m) simp_all

lemma yields_fits32: "(n < 4294967296 \<Longrightarrow> yields m P) \<Longrightarrow> yields (fits32 n m) P"
  by (simp add: fits32_def rguard_def)

lemma yields_guard: "b \<Longrightarrow> yields m P \<Longrightarrow> yields (rguard e b m) P"
  by (simp add: rguard_def)

lemma frame_refl [simp]: "frame H H B"
  by (simp add: frame_def)

lemma frame_trans: "frame H1 H2 B \<Longrightarrow> frame H2 H3 B \<Longrightarrow> frame H1 H3 B"
  by (simp add: frame_def)

lemma frame_add [simp]: "frame H H' (add_mset b B) \<longleftrightarrow> contents H' b = contents H b \<and> frame H H' B"
  by (auto simp: frame_def)

lemma uses_add: "uses (add_mset b B) = (uses B)(b_data b := Suc (uses B (b_data b)))"
  by (auto simp: uses_def)

lemma uses_0: "uses B k = 0 \<longleftrightarrow> (\<forall>c \<in># B. b_data c \<noteq> k)"
  by (auto simp: uses_def count_eq_zero_iff)

lemma uses_member: "c \<in># B \<Longrightarrow> uses B (b_data c) \<noteq> 0"
  by (auto simp: uses_0)

lemma mem_ok_update:
  assumes "mem_ok H cnt" "\<And>d. d_count (f d) = d_count d"
    "length (d_bytes (f (h_block H k))) = d_size (f (h_block H k))"
  shows "mem_ok (on_block k f H) cnt"
  using assms by (auto simp: mem_ok_def)

lemma mem_ok_more [simp]: "mem_ok (H\<lparr>g_recommendedStart := r\<rparr>) cnt = mem_ok H cnt"
  by (simp add: mem_ok_def)

lemma mem_ok_D:
  assumes "mem_ok H cnt"
  shows "d_count (h_block H k) = cnt k" "length (d_bytes (h_block H k)) = d_size (h_block H k)"
  using assms by (auto simp: mem_ok_def)

text \<open>
  How a step may change the blocks of the other buffers: not at all but for the count, or (in the block
  of the buffer at work) by more dirt and by bytes outside of their data.
\<close>

definition same_data :: "block \<Rightarrow> block \<Rightarrow> bool" where
  "same_data d d' \<longleftrightarrow> d_size d' = d_size d \<and> d_dirtyStart d' = d_dirtyStart d \<and> d_dirtyEnd d' = d_dirtyEnd d \<and>
     d_bytes d' = d_bytes d"

lemma same_data_refl [simp]: "same_data d d"
  by (simp add: same_data_def)

lemma same_data_trans: "same_data d1 d2 \<Longrightarrow> same_data d2 d3 \<Longrightarrow> same_data d1 d3"
  by (simp add: same_data_def)

lemma same_data_count [simp]: "same_data d (d\<lparr>d_count := n\<rparr>)"
  by (simp add: same_data_def)

lemma same_data_D: "same_data d d' \<Longrightarrow> buf_ok d' b = buf_ok d b" "same_data d d' \<Longrightarrow> block_contents d' b = block_contents d b"
  by (simp_all add: same_data_def buf_ok_def block_contents_def)

lemma frame_same: "\<forall>c \<in># B. same_data (h_block H (b_data c)) (h_block H' (b_data c)) \<Longrightarrow> frame H H' B"
  by (auto simp: frame_def contents_def dest: same_data_D(2))

text \<open>The other buffers stay, and the buffer at work has its block to itself.\<close>

lemma live_others:
  assumes "live_ok H B0" "set_mset B \<subseteq> set_mset B0" "\<forall>c \<in># B. same_data (h_block H (b_data c)) (h_block H' (b_data c))" "c \<in># B"
  shows "buf_ok (h_block H' (b_data c)) c" "\<And>e. e \<in># B \<Longrightarrow> b_data e = b_data c \<Longrightarrow>
    b_end c = d_dirtyEnd (h_block H' (b_data c)) \<Longrightarrow> GetInternalEnd e \<le> GetInternalEnd c"
proof -
  have c: "c \<in># B0" using assms(2,4) by (rule subsetD)
  have same: "same_data (h_block H (b_data c)) (h_block H' (b_data c))" using assms(3,4) by simp
  show "buf_ok (h_block H' (b_data c)) c" using assms(1) c same_data_D(1) [OF same] by (simp add: live_ok_def)
  fix e assume e: "e \<in># B" "b_data e = b_data c" "b_end c = d_dirtyEnd (h_block H' (b_data c))"
  have "e \<in># B0" using assms(2) e(1) by (rule subsetD)
  moreover have "b_end c = d_dirtyEnd (h_block H (b_data c))" using e(3) same by (simp add: same_data_def)
  ultimately show "GetInternalEnd e \<le> GetInternalEnd c" using assms(1) c e(2) unfolding live_ok_def by blast
qed

lemma live_less:
  assumes "live_ok H B0" "set_mset B \<subseteq> set_mset B0" "mem_ok H' (uses B)" "\<forall>c \<in># B. same_data (h_block H (b_data c)) (h_block H' (b_data c))"
  shows "live_ok H' B"
  unfolding live_ok_def using assms(3) live_others [OF assms(1,2,4)] by blast

lemma live_alone:
  assumes "live_ok H B0" "set_mset B \<subseteq> set_mset B0" and mem: "mem_ok H' (uses (add_mset b B))"
    and own: "\<forall>c \<in># B. b_data c \<noteq> b_data b" and same: "\<forall>c \<in># B. same_data (h_block H (b_data c)) (h_block H' (b_data c))"
    and ok: "buf_ok (h_block H' (b_data b)) b"
  shows "live_ok H' (add_mset b B)"
proof -
  note others = live_others [OF assms(1,2) same]
  have "\<forall>x \<in># add_mset b B. buf_ok (h_block H' (b_data x)) x" using ok others(1) by simp
  moreover have "GetInternalEnd y \<le> GetInternalEnd x" if "x \<in># add_mset b B" "y \<in># add_mset b B" "b_data y = b_data x"
    "b_end x = d_dirtyEnd (h_block H' (b_data x))" for x y
    using that own others(2) [of x y] by (cases "x = b"; cases "y = b") auto
  ultimately show ?thesis unfolding live_ok_def using mem by blast
qed

lemma live_D:
  assumes "live_ok H (add_mset b B)"
  shows "buf_ok (h_block H (b_data b)) b" "mem_ok H (uses (add_mset b B))" "d_count (h_block H (b_data b)) = Suc (uses B (b_data b))"
    "length (d_bytes (h_block H (b_data b))) = d_size (h_block H (b_data b))"
  using assms mem_ok_D [of H "uses (add_mset b B)" "b_data b"] by (simp_all add: live_ok_def uses_add)

lemma alone_if_count_1:
  assumes "live_ok H (add_mset b B)" "d_count (h_block H (b_data b)) = 1" "c \<in># B"
  shows "b_data c \<noteq> b_data b"
  using live_D(3) [OF assms(1)] assms(2,3) by (auto simp: uses_0)

theorem live_CheckInternalState:
  assumes "live_ok H B" "b \<in># B"
  shows "CheckInternalState b H"
proof -
  obtain B' where B: "B = add_mset b B'" using assms(2) by (meson mset_add)
  show ?thesis
    using live_D(1,3) [of H b B'] assms(1) unfolding B
    by (auto simp: CheckInternalState_def Let_def buf_ok_def GetInternalEnd_def zero_size_def)
qed

text \<open>A buffer inside of another: the same block, fewer bytes.\<close>

definition within :: "buffer \<Rightarrow> buffer \<Rightarrow> bool" where
  "within b' b \<longleftrightarrow> b_data b' = b_data b \<and> b_start b \<le> b_start b' \<and> b_start b' \<le> b_zeroAreaStart b' \<and>
     b_zeroAreaStart b' \<le> b_zeroAreaEnd b' \<and> b_zeroAreaEnd b' \<le> b_end b' \<and> b_end b' \<le> b_end b \<and>
     GetInternalEnd b' \<le> GetInternalEnd b \<and> (b_end b' = b_end b \<longrightarrow> GetInternalEnd b' = GetInternalEnd b)"

lemma live_within:
  assumes live_ok: "live_ok H (add_mset b B0)" and inside: "within b' b" and mem: "mem_ok H' (uses (add_mset b' B))"
    and sub: "set_mset B \<subseteq> set_mset (add_mset b B0)" and same: "\<And>c. c \<in># add_mset b' B \<Longrightarrow> same_data (h_block H (b_data c)) (h_block H' (b_data c))"
  shows "live_ok H' (add_mset b' B)"
proof -
  let ?B = "add_mset b B0"
  have same_B: "\<forall>c \<in># B. same_data (h_block H (b_data c)) (h_block H' (b_data c))" using same by simp
  note others = live_others [OF live_ok sub same_B]
  have k: "b_data b' = b_data b" and own: "same_data (h_block H (b_data b)) (h_block H' (b_data b))"
    using inside same [of b'] by (simp_all add: within_def)
  have "buf_ok (h_block H (b_data b)) b'"
    using live_D(1) [OF live_ok] inside by (auto simp: buf_ok_def within_def)
  then have "\<forall>x \<in># add_mset b' B. buf_ok (h_block H' (b_data x)) x"
    using others(1) same_data_D(1) [OF own] k by simp
  moreover have "GetInternalEnd y \<le> GetInternalEnd x" if x: "x \<in># add_mset b' B" and y: "y \<in># add_mset b' B"
    and eq: "b_data y = b_data x" "b_end x = d_dirtyEnd (h_block H' (b_data x))" for x y
  proof -
    have old: "GetInternalEnd v \<le> GetInternalEnd u" if "u \<in># ?B" "v \<in># ?B" "b_data v = b_data u"
      "b_end u = d_dirtyEnd (h_block H (b_data u))" for u v
      using live_ok that unfolding live_ok_def by blast
    have in_old: "u \<in># ?B" if "u \<in># add_mset b' B" "u \<noteq> b'" for u using that sub by auto
    have dirty: "b_end x = d_dirtyEnd (h_block H (b_data x))"
      using eq(2) same [OF x] by (simp add: same_data_def)
    have b: "b \<in># ?B" by simp
    have small: "GetInternalEnd b' \<le> GetInternalEnd b" using inside by (simp add: within_def)
    show ?thesis
    proof (cases "x = b'")
      case True
      have "b_end b \<le> d_dirtyEnd (h_block H (b_data b))" "b_end b' \<le> b_end b"
        using live_D(1) [OF live_ok] inside by (simp_all add: buf_ok_def within_def)
      then have "b_end b' = b_end b" "b_end b = d_dirtyEnd (h_block H (b_data b))" using dirty True k by simp_all
      moreover from this have "GetInternalEnd b' = GetInternalEnd b" using inside by (simp add: within_def)
      ultimately show ?thesis
        using old [OF b in_old [OF y]] eq(1) True k by (cases "y = b'") auto
    next
      case False
      then show ?thesis
        using old [OF in_old [OF x False] in_old [OF y]] old [OF in_old [OF x False] b] eq(1) dirty small k
        by (cases "y = b'") auto
    qed
  qed
  ultimately show ?thesis unfolding live_ok_def using mem by blast
qed

end
