(* ===== verification/BufferOps.thy ===== *)
theory BufferOps
  imports BufferSharing
begin

text \<open>
  What the operations of a buffer do to its bytes, and that they do nothing to the others: copies, the
  assignment and the destructor, the two ends, the removals and the writes into fresh room.
\<close>

section \<open>Pieces of a block\<close>

lemma length_piece [simp]: "e \<le> length xs \<Longrightarrow> length (piece a e xs) = e - a"
  by (simp add: piece_def)

lemma piece_same [simp]: "piece a a xs = []"
  by (simp add: piece_def)

lemma piece_append: "a \<le> m \<Longrightarrow> m \<le> e \<Longrightarrow> piece a e xs = piece a m xs @ piece m e xs"
  unfolding piece_def using take_add [of "m - a" "e - m" "drop a xs"] by (simp add: add.commute)

lemma piece_split_at: "a \<le> m \<Longrightarrow> m \<le> e \<Longrightarrow> e \<le> length xs \<Longrightarrow> piece a m xs = take (m - a) (piece a e xs)"
  by (simp add: piece_def min_def)

lemma piece_rest: "a \<le> m \<Longrightarrow> m \<le> e \<Longrightarrow> e \<le> length xs \<Longrightarrow> piece m e xs = drop (m - a) (piece a e xs)"
  by (simp add: piece_def drop_take)

lemma length_overwrite [simp]: "a + length xs \<le> length bs \<Longrightarrow> length (overwrite a xs bs) = length bs"
  by (simp add: overwrite_def)

lemma piece_overwrite_at: "a + length xs \<le> length bs \<Longrightarrow> piece a (a + length xs) (overwrite a xs bs) = xs"
  by (simp add: overwrite_def piece_def)

lemma piece_overwrite_out:
  assumes "e \<le> a \<or> a + length xs \<le> s" "a + length xs \<le> length bs"
  shows "piece s e (overwrite a xs bs) = piece s e bs"
  using assms(1)
proof
  assume "e \<le> a"
  then show ?thesis
    using assms(2) by (cases "s \<le> e") (simp_all add: overwrite_def piece_def min_def drop_take)
next
  assume "a + length xs \<le> s"
  then show ?thesis using assms(2) by (simp add: overwrite_def piece_def min_def)
qed

section \<open>Copies, the assignment and the destructor\<close>

lemma mem_ok_share:
  assumes "mem_ok H cnt" "cnt k \<noteq> 0"
  shows "mem_ok (on_block k (\<lambda>d. d\<lparr>d_count := d_count d + 1\<rparr>) H) (cnt(k := Suc (cnt k)))"
  using assms unfolding mem_ok_def by (auto; blast)

lemma block_contents_cong:
  "b_start b' = b_start b \<Longrightarrow> b_zeroAreaStart b' = b_zeroAreaStart b \<Longrightarrow> b_zeroAreaEnd b' = b_zeroAreaEnd b \<Longrightarrow>
   b_end b' = b_end b \<Longrightarrow> block_contents d b' = block_contents d b"
  by (simp add: block_contents_def GetInternalEnd_def zero_size_def)

lemma copy_ok:
  assumes "live_ok H (add_mset b B)" "Buffer_copy b H = (c, H')"
  shows "live_ok H' (add_mset c (add_mset b B))" "contents H' c = contents H b" "frame H H' (add_mset b B)"
    "b_data c = b_data b" "zero_size c = zero_size b" "b_start c = b_start b" "b_end c = b_end b"
    "b_zeroAreaStart c = b_zeroAreaStart b" "b_zeroAreaEnd c = b_zeroAreaEnd b"
proof -
  have c: "c = b\<lparr>b_maxZeroAreaStart := b_zeroAreaStart b\<rparr>"
    and H': "H' = on_block (b_data b) (\<lambda>d. d\<lparr>d_count := d_count d + 1\<rparr>) H"
    using assms(2) by (simp_all add: Buffer_copy_def)
  have same: "same_data (h_block H k) (h_block H' k)" for k by (simp add: H')
  show sel: "b_data c = b_data b" "zero_size c = zero_size b" "b_start c = b_start b" "b_end c = b_end b"
    "b_zeroAreaStart c = b_zeroAreaStart b" "b_zeroAreaEnd c = b_zeroAreaEnd b" by (simp_all add: c zero_size_def)
  have "mem_ok H' (uses (add_mset c (add_mset b B)))"
    using mem_ok_share [OF live_D(2) [OF assms(1)], of "b_data b"] by (simp add: H' uses_add sel)
  moreover have "within c b"
    using live_D(1) [OF assms(1)] by (simp add: within_def sel GetInternalEnd_def buf_ok_def)
  ultimately show "live_ok H' (add_mset c (add_mset b B))" using live_within [OF assms(1)] same by simp
  show "contents H' c = contents H b"
    using block_contents_cong [OF sel(3,5,6,4)] same_data_D(2) [OF same] by (simp add: contents_def sel)
  show "frame H H' (add_mset b B)" by (rule frame_same) (simp add: same)
qed

lemma Unref_uses:
  assumes "mem_ok H (uses (add_mset b B))"
  obtains H' where "Unref (b_data b) H = Inr H'" "mem_ok H' (uses B)"
    "\<And>c. c \<in># B \<Longrightarrow> same_data (h_block H (b_data c)) (h_block H' (b_data c))"
proof -
  let ?cnt = "uses (add_mset b B)"
  have "?cnt (b_data b) \<noteq> 0" by (simp add: uses_add)
  from Unref_ok [OF assms this] obtain H' where H': "Unref (b_data b) H = Inr H'"
    "mem_ok H' (?cnt(b_data b := ?cnt (b_data b) - 1))" "\<And>j. j \<noteq> b_data b \<Longrightarrow> h_block H' j = h_block H j"
    "1 < ?cnt (b_data b) \<Longrightarrow> h_block H' (b_data b) = (h_block H (b_data b))\<lparr>d_count := ?cnt (b_data b) - 1\<rparr>" by blast
  have "?cnt(b_data b := ?cnt (b_data b) - 1) = uses B" by (simp add: uses_add)
  moreover have "same_data (h_block H (b_data c)) (h_block H' (b_data c))" if "c \<in># B" for c
    using H'(3) [of "b_data c"] H'(4) uses_member [OF that] by (cases "b_data c = b_data b") (simp_all add: uses_add)
  ultimately show ?thesis using that [OF H'(1)] H'(2) by simp
qed

lemma recommend_sel [simp]: "h_block (recommend b H) = h_block H" "mem_ok (recommend b H) cnt = mem_ok H cnt"
  by (simp_all add: recommend_def)

lemma destroy_ok:
  assumes "live_ok H (add_mset b B)"
  shows "\<exists>H'. Buffer_destroy b H = Inr H' \<and> live_ok H' B \<and> frame H H' B"
proof -
  have "mem_ok (recommend b H) (uses (add_mset b B))" using live_D(2) [OF assms] by simp
  from Unref_uses [OF this] obtain H' where H': "Unref (b_data b) (recommend b H) = Inr H'" "mem_ok H' (uses B)"
    "\<And>c. c \<in># B \<Longrightarrow> same_data (h_block H (b_data c)) (h_block H' (b_data c))" by auto
  then have "live_ok H' B" using live_less [OF assms, of B H'] by auto
  moreover have "frame H H' B" by (rule frame_same) (use H'(3) in blast)
  ultimately show ?thesis using H'(1) by (auto simp: Buffer_destroy_def)
qed

lemma live_member:
  assumes "live_ok H B" "b \<in># B"
  obtains B' where "B = add_mset b B'" "live_ok H (add_mset b B')"
  using assms by (metis mset_add)

lemma assign_ok:
  assumes "live_ok H (add_mset b B)" "c \<in># B"
  shows "\<exists>H'. Buffer_assign b c H = Inr (c, H') \<and> live_ok H' (add_mset c B) \<and> frame H H' B"
proof (cases "b_data b = b_data c")
  case True
  let ?H = "recommend b H"
  obtain B' where B: "B = add_mset c B'" using assms(2) by (meson mset_add)
  have live_ok: "live_ok H (add_mset c (add_mset b B'))" using assms(1) unfolding B by (simp add: add_mset_commute)
  have "mem_ok ?H (uses (add_mset c B))" using live_D(2) [OF assms(1)] True by (simp add: uses_add)
  moreover have "within c c" using live_D(1) [OF live_ok] by (simp add: within_def buf_ok_def)
  ultimately have "live_ok ?H (add_mset c B)" using live_within [OF live_ok, of c ?H B] unfolding B by auto
  moreover have "frame H ?H B" by (rule frame_same) simp
  ultimately show ?thesis using True by (simp add: Buffer_assign_def)
next
  case False
  obtain H1 where H1: "Unref (b_data b) H = Inr H1" "mem_ok H1 (uses B)"
    "\<And>e. e \<in># B \<Longrightarrow> same_data (h_block H (b_data e)) (h_block H1 (b_data e))"
    using Unref_uses [OF live_D(2) [OF assms(1)]] by blast
  define H2 where "H2 = recommend b (on_block (b_data c) (\<lambda>d. d\<lparr>d_count := d_count d + 1\<rparr>) H1)"
  have same: "same_data (h_block H (b_data e)) (h_block H2 (b_data e))" if "e \<in># B" for e
    using H1(3) [OF that] by (auto simp: H2_def same_data_def)
  obtain B' where B: "B = add_mset c B'" using assms(2) by (meson mset_add)
  have live_ok: "live_ok H (add_mset c (add_mset b B'))" using assms(1) unfolding B by (simp add: add_mset_commute)
  have "mem_ok H2 (uses (add_mset c B))"
    using mem_ok_share [OF H1(2) uses_member [OF assms(2)]] by (simp add: H2_def uses_add)
  moreover have "within c c" using live_D(1) [OF live_ok] by (simp add: within_def buf_ok_def)
  moreover have "set_mset B \<subseteq> set_mset (add_mset c (add_mset b B'))" unfolding B by auto
  moreover have "\<And>e. e \<in># add_mset c B \<Longrightarrow> same_data (h_block H (b_data e)) (h_block H2 (b_data e))"
    using same assms(2) by auto
  ultimately have "live_ok H2 (add_mset c B)" by (intro live_within [OF live_ok])
  moreover have "frame H H2 B" by (rule frame_same) (use same in blast)
  ultimately show ?thesis using False H1(1) by (simp add: Buffer_assign_def H2_def)
qed

lemma Initialize_ok:
  assumes "live_ok H B"
  shows "yields (Initialize z H) (\<lambda>(b, H'). live_ok H' (add_mset b B) \<and> frame H H' B \<and> contents H' b = replicate z (Some 0) \<and>
     zero_size b = z \<and> uses B (b_data b) = 0)"
proof -
  have mem: "mem_ok H (uses B)" using assms by (simp add: live_ok_def)
  show ?thesis
  proof (rule Create_ok [OF mem, of 0])
    assume "Create 0 H = Inl SizeOverflow"
    then show ?thesis by (simp add: Initialize_def)
  next
    fix k H1 assume H1: "Create 0 H = Inr (k, H1)" "uses B k = 0" "mem_ok H1 ((uses B)(k := 1))"
      "\<And>j. uses B j \<noteq> 0 \<Longrightarrow> h_block H1 j = h_block H j"
    define s where "s = min (d_size (h_block H1 k)) (g_recommendedStart H1)"
    define b where "b = \<lparr>b_data = k, b_maxZeroAreaStart = s, b_zeroAreaStart = s, b_zeroAreaEnd = s + z, b_start = s, b_end = s + z\<rparr>"
    let ?H = "set_dirty k s (s + z) H1"
    have run: "Initialize z H = fits32 (s + z) (Inr (b, ?H))"
      by (simp add: Initialize_def H1(1) b_def s_def Let_def)
    have b: "zero_size b = z" "b_data b = k" by (simp_all add: b_def zero_size_def)
    have mem2: "mem_ok ?H (uses (add_mset b B))"
      unfolding set_dirty_def by (rule mem_ok_update) (use H1(2,3) b(2) mem_ok_D [OF H1(3)] in \<open>simp_all add: uses_add\<close>)
    have own: "\<forall>c \<in># B. b_data c \<noteq> b_data b" using H1(2) b(2) by (simp add: uses_0)
    have same: "\<forall>c \<in># B. same_data (h_block H (b_data c)) (h_block ?H (b_data c))"
      using H1(4) own uses_member b(2) by (auto simp: set_dirty_def)
    have "contents ?H b = replicate z (Some 0)"
      by (simp add: contents_def block_contents_def b) (simp add: b_def GetInternalEnd_def zero_size_def)
    moreover have "live_ok ?H (add_mset b B)" if "s + z < 4294967296"
      by (rule live_alone [OF assms _ mem2 own same])
        (use that b in \<open>auto simp: buf_ok_def set_dirty_def GetInternalEnd_def s_def b_def zero_size_def\<close>)
    moreover have "frame H ?H B" using same by (rule frame_same)
    ultimately show ?thesis unfolding run using b H1(2) by (intro yields_fits32) simp
  qed
qed

section \<open>Removals\<close>

text \<open>The three parts of the bytes of a buffer.\<close>

lemma contents_parts:
  assumes "buf_ok d b" "length (d_bytes d) = d_size d"
  obtains A C where "block_contents d b = A @ replicate (zero_size b) (Some 0) @ C"
    "A = piece (b_start b) (b_zeroAreaStart b) (d_bytes d)" "C = piece (b_zeroAreaStart b) (GetInternalEnd b) (d_bytes d)"
    "length A = b_zeroAreaStart b - b_start b" "length C = b_end b - b_zeroAreaEnd b"
    "length (block_contents d b) = Buffer_GetSize b"
proof -
  have "b_zeroAreaStart b \<le> length (d_bytes d)" "GetInternalEnd b \<le> length (d_bytes d)"
    "b_zeroAreaStart b \<le> GetInternalEnd b" "GetInternalEnd b - b_zeroAreaStart b = b_end b - b_zeroAreaEnd b"
    "b_zeroAreaStart b - b_start b + (zero_size b + (GetInternalEnd b - b_zeroAreaStart b)) = b_end b - b_start b"
    using assms by (auto simp: buf_ok_def GetInternalEnd_def zero_size_def)
  moreover from this have "length (piece (b_start b) (b_zeroAreaStart b) (d_bytes d)) = b_zeroAreaStart b - b_start b"
    "length (piece (b_zeroAreaStart b) (GetInternalEnd b) (d_bytes d)) = b_end b - b_zeroAreaEnd b"
    using length_piece by metis+
  ultimately show ?thesis by (intro that) (simp_all del: length_piece add: block_contents_def Buffer_GetSize_def)
qed

lemma length_contents: "live_ok H (add_mset b B) \<Longrightarrow> length (contents H b) = Buffer_GetSize b"
  using live_D [of H b B] contents_parts [of "h_block H (b_data b)" b] unfolding contents_def by metis

lemma piece_drop: "a + n \<le> e \<Longrightarrow> piece (a + n) e xs = drop n (piece a e xs)"
  by (simp add: piece_def drop_take add.commute)

lemma piece_take: "a + n \<le> e \<Longrightarrow> piece a (a + n) xs = take n (piece a e xs)"
  by (simp add: piece_def min_def)

lemma note_start_sel [simp]:
  "b_data (note_start b) = b_data b" "b_start (note_start b) = b_start b" "b_end (note_start b) = b_end b"
  "b_zeroAreaStart (note_start b) = b_zeroAreaStart b" "b_zeroAreaEnd (note_start b) = b_zeroAreaEnd b"
  "GetInternalEnd (note_start b) = GetInternalEnd b" "zero_size (note_start b) = zero_size b"
  "buf_ok d (note_start b) = buf_ok d b" "block_contents d (note_start b) = block_contents d b"
  "within (note_start b) c = within b c" "contents H (note_start b) = contents H b"
  by (simp_all add: note_start_def GetInternalEnd_def zero_size_def buf_ok_def block_contents_def within_def contents_def)

lemma RemoveAtStart_contents:
  assumes ok: "buf_ok d b" and len: "length (d_bytes d) = d_size d"
  shows "yields (Buffer_RemoveAtStart n b) (\<lambda>b'. within b' b \<and> block_contents d b' = drop n (block_contents d b))"
proof -
  obtain A C where parts: "block_contents d b = A @ replicate (zero_size b) (Some 0) @ C"
    "A = piece (b_start b) (b_zeroAreaStart b) (d_bytes d)" "C = piece (b_zeroAreaStart b) (GetInternalEnd b) (d_bytes d)"
    "length A = b_zeroAreaStart b - b_start b" "length C = b_end b - b_zeroAreaEnd b"
    "length (block_contents d b) = Buffer_GetSize b" by (rule contents_parts [OF assms])
  define p where "p = b_start b + n"
  have le: "b_start b \<le> b_zeroAreaStart b" "b_zeroAreaStart b \<le> b_zeroAreaEnd b" "b_zeroAreaEnd b \<le> b_end b"
    using ok by (simp_all add: buf_ok_def)
  define P where "P b' \<longleftrightarrow> within b' b \<and> block_contents d b' = drop n (block_contents d b)" for b'
  have P_note: "P (note_start b') = P b'" for b' by (simp add: P_def)
  let ?x = "p - b_zeroAreaStart b"
  let ?s = "p - zero_size b"
  let ?e = "b_end b - zero_size b"
  have run: "Buffer_RemoveAtStart n b = fits32 p (rbind
      (if p \<le> b_zeroAreaStart b then Inr (b\<lparr>b_start := p\<rparr>)
       else if p \<le> b_zeroAreaEnd b then
         Inr (b\<lparr>b_start := b_zeroAreaStart b, b_zeroAreaEnd := b_zeroAreaEnd b - ?x, b_end := b_end b - ?x\<rparr>)
       else if p \<le> b_end b then
         rguard NsAssert (n \<le> b_end b)
           (Inr (b\<lparr>b_start := ?s, b_end := b_end b - zero_size b, b_zeroAreaStart := ?s, b_zeroAreaEnd := ?s\<rparr>))
       else Inr (b\<lparr>b_start := ?e, b_end := ?e, b_zeroAreaStart := ?e, b_zeroAreaEnd := ?e\<rparr>))
      (\<lambda>b'. Inr (note_start b')))"
    by (simp only: Buffer_RemoveAtStart_def Let_def p_def)
  have len_A: "p = b_zeroAreaStart b + y \<Longrightarrow> n = length A + y" for y using parts(4) le p_def by linarith
  have 1: "P (b\<lparr>b_start := p\<rparr>)" if "p \<le> b_zeroAreaStart b"
  proof -
    have "piece p (b_zeroAreaStart b) (d_bytes d) = drop n A"
      using piece_drop [of "b_start b" n "b_zeroAreaStart b" "d_bytes d"] that by (simp add: parts(2) p_def)
    then have "block_contents d (b\<lparr>b_start := p\<rparr>) = drop n (block_contents d b)"
      using that parts(4) unfolding parts(1)
      by (simp add: block_contents_def zero_size_def GetInternalEnd_def parts(3) p_def)
    then show ?thesis using le that by (simp add: P_def within_def GetInternalEnd_def zero_size_def p_def)
  qed
  have 2: "P (b\<lparr>b_start := b_zeroAreaStart b, b_zeroAreaEnd := b_zeroAreaEnd b - ?x, b_end := b_end b - ?x\<rparr>)"
    if "b_zeroAreaStart b < p" "p \<le> b_zeroAreaEnd b"
  proof -
    let ?b = "b\<lparr>b_start := b_zeroAreaStart b, b_zeroAreaEnd := b_zeroAreaEnd b - ?x, b_end := b_end b - ?x\<rparr>"
    have x: "GetInternalEnd ?b = GetInternalEnd b" "zero_size ?b = zero_size b - ?x" "?x \<le> zero_size b"
      using that le by (auto simp: GetInternalEnd_def zero_size_def)
    moreover have n: "n = length A + ?x" using len_A [of ?x] that by linarith
    moreover have "p - (b_zeroAreaStart b + zero_size b) = 0" using x(3) by linarith
    ultimately have "block_contents d ?b = drop n (block_contents d b)"
      unfolding parts(1) n by (simp add: block_contents_def parts(3))
    moreover have "b_start ?b = b_zeroAreaStart b" "b_zeroAreaStart ?b = b_zeroAreaStart b" "b_data ?b = b_data b"
      "b_zeroAreaEnd ?b = b_zeroAreaEnd b - ?x" "b_end ?b = b_end b - ?x" by simp_all
    moreover have "b_zeroAreaStart b \<le> b_zeroAreaEnd b - ?x" "b_end b - ?x < b_end b" using that le by linarith+
    ultimately show ?thesis using le(1) unfolding P_def within_def x(1)
      by (metis diff_le_mono le(3) nat_less_le order_refl)
  qed
  have 3: "P (b\<lparr>b_start := ?s, b_end := b_end b - zero_size b, b_zeroAreaStart := ?s, b_zeroAreaEnd := ?s\<rparr>)"
    if "b_zeroAreaEnd b < p" "p \<le> b_end b"
  proof -
    let ?b = "b\<lparr>b_start := ?s, b_end := b_end b - zero_size b, b_zeroAreaStart := ?s, b_zeroAreaEnd := ?s\<rparr>"
    define x where "x = p - b_zeroAreaEnd b"
    have x: "b_zeroAreaStart b + x = ?s" "b_zeroAreaStart b + x \<le> GetInternalEnd b" "n = length A + (zero_size b + x)"
      using that le len_A [of "zero_size b + x"] by (auto simp: GetInternalEnd_def zero_size_def x_def)
    have i: "GetInternalEnd ?b = GetInternalEnd b" "zero_size ?b = 0" by (simp_all add: GetInternalEnd_def zero_size_def)
    then have "block_contents d ?b = drop n (block_contents d b)"
      using piece_drop [OF x(2), of "d_bytes d"] x(1) unfolding parts(1) x(3) by (simp add: block_contents_def parts(3))
    moreover have "within ?b b" using that le i x(1,2) by (auto simp: within_def GetInternalEnd_def zero_size_def)
    ultimately show ?thesis by (simp add: P_def)
  qed
  have 4: "P (b\<lparr>b_start := ?e, b_end := ?e, b_zeroAreaStart := ?e, b_zeroAreaEnd := ?e\<rparr>)" if "b_end b < p"
  proof -
    let ?b = "b\<lparr>b_start := ?e, b_end := ?e, b_zeroAreaStart := ?e, b_zeroAreaEnd := ?e\<rparr>"
    have "block_contents d ?b = []" by (simp add: block_contents_def GetInternalEnd_def zero_size_def)
    moreover have "length (block_contents d b) \<le> n" using that parts(6) by (simp add: Buffer_GetSize_def p_def)
    moreover have "within ?b b" using le by (auto simp: within_def GetInternalEnd_def zero_size_def)
    ultimately show ?thesis by (simp add: P_def)
  qed
  have "n \<le> b_end b" if "p \<le> b_end b" using that by (simp add: p_def)
  with 1 2 3 4 have "yields (Buffer_RemoveAtStart n b) P"
    unfolding run by (intro yields_fits32) (simp add: P_note not_le)
  then show ?thesis unfolding P_def .
qed

lemma RemoveAtEnd_contents:
  assumes ok: "buf_ok d b" and len: "length (d_bytes d) = d_size d"
  shows "within (Buffer_RemoveAtEnd n b) b"
    "block_contents d (Buffer_RemoveAtEnd n b) = take (Buffer_GetSize b - n) (block_contents d b)"
proof -
  obtain A C where parts: "block_contents d b = A @ replicate (zero_size b) (Some 0) @ C"
    "A = piece (b_start b) (b_zeroAreaStart b) (d_bytes d)" "C = piece (b_zeroAreaStart b) (GetInternalEnd b) (d_bytes d)"
    "length A = b_zeroAreaStart b - b_start b" "length C = b_end b - b_zeroAreaEnd b"
    "length (block_contents d b) = Buffer_GetSize b" by (rule contents_parts [OF assms])
  have le: "b_start b \<le> b_zeroAreaStart b" "b_zeroAreaStart b \<le> b_zeroAreaEnd b" "b_zeroAreaEnd b \<le> b_end b"
    using ok by (simp_all add: buf_ok_def)
  define e where "e = b_end b - min n (b_end b - b_start b)"
  have run: "Buffer_RemoveAtEnd n b = note_start
      (if b_zeroAreaEnd b < e then b\<lparr>b_end := e\<rparr>
       else if b_zeroAreaStart b < e then b\<lparr>b_end := e, b_zeroAreaEnd := e\<rparr>
       else if b_start b < e then b\<lparr>b_end := e, b_zeroAreaEnd := e, b_zeroAreaStart := e\<rparr>
       else b\<lparr>b_end := b_start b, b_zeroAreaEnd := b_start b, b_zeroAreaStart := b_start b\<rparr>)"
    by (simp only: Buffer_RemoveAtEnd_def Let_def e_def)
  have e: "b_start b \<le> e" "e \<le> b_end b" "Buffer_GetSize b - n = e - b_start b"
    using le by (auto simp: e_def Buffer_GetSize_def)
  consider "b_zeroAreaEnd b < e" | "e \<le> b_zeroAreaEnd b" "b_zeroAreaStart b < e"
    | "e \<le> b_zeroAreaStart b" "b_start b < e" | "e = b_start b" using e(1) by linarith
  then have "within (Buffer_RemoveAtEnd n b) b \<and>
    block_contents d (Buffer_RemoveAtEnd n b) = take (e - b_start b) (block_contents d b)"
  proof cases
    case 1
    let ?b = "b\<lparr>b_end := e\<rparr>"
    define x where "x = e - b_zeroAreaEnd b"
    have x: "GetInternalEnd ?b = b_zeroAreaStart b + x" "b_zeroAreaStart b + x \<le> GetInternalEnd b"
      "e - b_start b = length A + zero_size b + x" "zero_size ?b = zero_size b"
      using 1 le e parts(4) by (auto simp: GetInternalEnd_def zero_size_def x_def)
    have "block_contents d ?b = take (e - b_start b) (block_contents d b)"
      using x(1,4) piece_take [OF x(2), of "d_bytes d"] unfolding parts(1) x(3) by (simp add: block_contents_def parts(2,3))
    moreover have "within ?b b" using le e 1 x by (auto simp: within_def GetInternalEnd_def)
    ultimately show ?thesis using 1 by (simp add: run)
  next
    case 2
    let ?b = "b\<lparr>b_end := e, b_zeroAreaEnd := e\<rparr>"
    have x: "GetInternalEnd ?b = b_zeroAreaStart b" "zero_size ?b = e - b_zeroAreaStart b" "zero_size ?b \<le> zero_size b"
      "e - b_start b = length A + zero_size ?b"
      using 2 le e parts(4) by (auto simp: GetInternalEnd_def zero_size_def)
    then have "block_contents d ?b = take (e - b_start b) (block_contents d b)"
      unfolding parts(1) x(4) by (simp add: block_contents_def parts(2))
    moreover have "within ?b b" using le e 2 x by (auto simp: within_def GetInternalEnd_def zero_size_def)
    ultimately show ?thesis using 2 by (simp add: run)
  next
    case 3
    let ?b = "b\<lparr>b_end := e, b_zeroAreaEnd := e, b_zeroAreaStart := e\<rparr>"
    have x: "GetInternalEnd ?b = e" "zero_size ?b = 0" "b_start b + (e - b_start b) \<le> b_zeroAreaStart b"
      using 3 e by (auto simp: GetInternalEnd_def zero_size_def)
    then have "block_contents d ?b = take (e - b_start b) (block_contents d b)"
      using piece_take [OF x(3), of "d_bytes d"] e(1) parts(4) unfolding parts(1) by (simp add: block_contents_def parts(2))
    moreover have "within ?b b" using le e 3 by (auto simp: within_def GetInternalEnd_def zero_size_def)
    ultimately show ?thesis using 3 le by (simp add: run)
  next
    case 4
    let ?b = "b\<lparr>b_end := b_start b, b_zeroAreaEnd := b_start b, b_zeroAreaStart := b_start b\<rparr>"
    have "block_contents d ?b = []" by (simp add: block_contents_def GetInternalEnd_def zero_size_def)
    moreover have "within ?b b" using le e 4 by (auto simp: within_def GetInternalEnd_def zero_size_def)
    ultimately show ?thesis using 4 le by (simp add: run)
  qed
  then show "within (Buffer_RemoveAtEnd n b) b"
    "block_contents d (Buffer_RemoveAtEnd n b) = take (Buffer_GetSize b - n) (block_contents d b)"
    using e(3) by simp_all
qed

lemma inside_ok:
  assumes "live_ok H (add_mset b B)" "within b' b"
  shows "live_ok H (add_mset b' B)"
proof -
  have "b_data b' = b_data b" using assms(2) by (simp add: within_def)
  then have "mem_ok H (uses (add_mset b' B))" using live_D(2) [OF assms(1)] by (simp add: uses_add)
  then show ?thesis by (rule live_within [OF assms]) auto
qed

lemma RemoveAtStart_ok:
  assumes "live_ok H (add_mset b B)"
  shows "yields (Buffer_RemoveAtStart n b) (\<lambda>b'. live_ok H (add_mset b' B) \<and> contents H b' = drop n (contents H b))"
  using RemoveAtStart_contents [OF live_D(1,4) [OF assms], of n]
  by (rule yields_mono) (use inside_ok [OF assms] in \<open>simp add: contents_def within_def\<close>)

lemma RemoveAtEnd_ok:
  assumes "live_ok H (add_mset b B)"
  shows "live_ok H (add_mset (Buffer_RemoveAtEnd n b) B)"
    "contents H (Buffer_RemoveAtEnd n b) = take (length (contents H b) - n) (contents H b)"
proof -
  note r = RemoveAtEnd_contents [OF live_D(1,4) [OF assms], of n]
  show "live_ok H (add_mset (Buffer_RemoveAtEnd n b) B)" by (rule inside_ok [OF assms r(1)])
  have "b_data (Buffer_RemoveAtEnd n b) = b_data b" using r(1) by (simp add: within_def)
  then show "contents H (Buffer_RemoveAtEnd n b) = take (length (contents H b) - n) (contents H b)"
    using r(2) length_contents [OF assms] by (simp add: contents_def)
qed

text \<open>A fragment that does not fit into the buffer is empty: the wrap-around removes everything.\<close>

definition fragment :: "nat \<Rightarrow> nat \<Rightarrow> 'a list \<Rightarrow> 'a list" where
  "fragment start len xs = (if start + len \<le> length xs then take len (drop start xs) else [])"

lemma GetSize_bound: "live_ok H (add_mset b B) \<Longrightarrow> Buffer_GetSize b < 4294967296"
  using live_D(1) [of H b B] by (auto simp: buf_ok_def Buffer_GetSize_def)

lemma fragment_arith:
  fixes size s l :: nat
  assumes "size < 4294967296" "s + l < 4294967296"
  shows "take (size - s - nat ((int size - int (s + l)) mod 2 ^ 32)) xs = (if s + l \<le> size then take l xs else [])"
proof (cases "s + l \<le> size")
  case True
  then have "(int size - int (s + l)) mod 2 ^ 32 = int (size - (s + l))"
    using assms by (subst mod_pos_pos_trivial) auto
  then have "size - s - nat ((int size - int (s + l)) mod 2 ^ 32) = l" using True by linarith
  then show ?thesis using True by (simp only: if_True)
next
  case False
  have "(int size - int (s + l)) mod 2 ^ 32 = (int size - int (s + l) + 2 ^ 32) mod 2 ^ 32" by (rule mod_add_self2 [symmetric])
  also have "\<dots> = int size - int (s + l) + 2 ^ 32" using assms False by (subst mod_pos_pos_trivial) auto
  finally show ?thesis using assms False by auto
qed

lemma CreateFragment_ok:
  assumes "live_ok H (add_mset b B)"
  shows "yields (Buffer_CreateFragment s l b H) (\<lambda>(c, H'). live_ok H' (add_mset c (add_mset b B)) \<and> frame H H' (add_mset b B) \<and>
     contents H' c = fragment s l (contents H b))"
proof -
  obtain t H1 where t: "Buffer_copy b H = (t, H1)" by fastforce
  note copy = copy_ok [OF assms t]
  let ?n = "nat ((int (Buffer_GetSize b) - int (s + l)) mod 2 ^ 32)"
  have size: "length (contents H b) = Buffer_GetSize b" by (rule length_contents [OF assms])
  have cut: "take (Buffer_GetSize b - s - ?n) (drop s (contents H b)) = fragment s l (contents H b)" if "s + l < 4294967296"
    using fragment_arith [OF GetSize_bound [OF assms] that, of "drop s (contents H b)"] size by (simp add: fragment_def)
  show ?thesis
    unfolding Buffer_CreateFragment_def t Let_def prod.case
  proof (intro yields_fits32 yields_bind [OF RemoveAtStart_ok [OF copy(1), of s]], simp only: yields_simps prod.case, elim conjE)
    fix c assume fits: "s + l < 4294967296" and c: "live_ok H1 (add_mset c (add_mset b B))" "contents H1 c = drop s (contents H1 t)"
    note r = RemoveAtEnd_ok [OF c(1), of ?n]
    have "contents H1 (Buffer_RemoveAtEnd ?n c) = fragment s l (contents H b)"
      using r(2) c(2) copy(2) size cut [OF fits] by simp
    with r(1) copy(3) show "live_ok H1 (add_mset (Buffer_RemoveAtEnd ?n c) (add_mset b B)) \<and> frame H H1 (add_mset b B) \<and>
        contents H1 (Buffer_RemoveAtEnd ?n c) = fragment s l (contents H b)" by blast
  qed
qed

end
