(* ===== verification/BufferGrowth.thy ===== *)
theory BufferGrowth
  imports BufferOps
begin

text \<open>
  Room at the two ends of a buffer, in its block or in a new one, and the bytes written there.  Fresh
  room belongs to the buffer alone: \<open>front_free\<close> and \<open>back_free\<close> say that no other live buffer of the
  block has data in it, and a write into it changes no other buffer.
\<close>

section \<open>The new block\<close>

lemma mem_ok_write:
  assumes "mem_ok H cnt" "a + length xs \<le> d_size (h_block H k)"
  shows "write_bytes k a xs H = Inr (if xs = [] then H else on_block k (\<lambda>d. d\<lparr>d_bytes := overwrite a xs (d_bytes d)\<rparr>) H)"
    "mem_ok (if xs = [] then H else on_block k (\<lambda>d. d\<lparr>d_bytes := overwrite a xs (d_bytes d)\<rparr>) H) cnt"
proof -
  have len: "length (d_bytes (h_block H k)) = d_size (h_block H k)" by (rule mem_ok_D(2) [OF assms(1)])
  then show "write_bytes k a xs H = Inr (if xs = [] then H else on_block k (\<lambda>d. d\<lparr>d_bytes := overwrite a xs (d_bytes d)\<rparr>) H)"
    using assms(2) by (simp add: write_bytes_def)
  show "mem_ok (if xs = [] then H else on_block k (\<lambda>d. d\<lparr>d_bytes := overwrite a xs (d_bytes d)\<rparr>) H) cnt"
    using mem_ok_update [OF assms(1), of "\<lambda>d. d\<lparr>d_bytes := overwrite a xs (d_bytes d)\<rparr>" k] assms(1,2) len by simp
qed

lemma overwrite_Nil [simp]: "a \<le> length bs \<Longrightarrow> overwrite a [] bs = bs"
  by (simp add: overwrite_def)

text \<open>The data of a buffer without its zero area.\<close>

definition raw :: "block \<Rightarrow> buffer \<Rightarrow> cell list" where
  "raw d b = piece (b_start b) (GetInternalEnd b) (d_bytes d)"

lemma block_contents_raw:
  assumes "b_start b \<le> b_zeroAreaStart b" "b_zeroAreaStart b \<le> b_zeroAreaEnd b" "b_zeroAreaEnd b \<le> b_end b"
    "GetInternalEnd b \<le> length (d_bytes d)"
  shows "block_contents d b = take (b_zeroAreaStart b - b_start b) (raw d b) @ replicate (zero_size b) (Some 0) @
    drop (b_zeroAreaStart b - b_start b) (raw d b)"
proof -
  have "b_zeroAreaStart b \<le> GetInternalEnd b" using assms by (simp add: GetInternalEnd_def zero_size_def)
  then show ?thesis
    using piece_split_at [OF assms(1), of "GetInternalEnd b" "d_bytes d"] piece_rest [OF assms(1), of "GetInternalEnd b" "d_bytes d"]
      assms(4) by (simp add: block_contents_def raw_def)
qed

lemma moved_to_sel:
  assumes "b_start b \<le> b_zeroAreaStart b" "b_zeroAreaStart b \<le> b_zeroAreaEnd b" "b_zeroAreaEnd b \<le> b_end b"
  shows "b_data (moved_to k p b) = k" "b_start (moved_to k p b) = p" "zero_size (moved_to k p b) = zero_size b"
    "b_zeroAreaStart (moved_to k p b) = p + (b_zeroAreaStart b - b_start b)"
    "GetInternalEnd (moved_to k p b) = p + GetInternalSize b"
    "b_end (moved_to k p b) = p + Buffer_GetSize b"
    "b_zeroAreaEnd (moved_to k p b) = p + (b_zeroAreaStart b - b_start b) + zero_size b"
  using assms by (auto simp: moved_to_def zero_size_def GetInternalEnd_def GetInternalSize_def Buffer_GetSize_def)

lemma GetInternalSize_bounds:
  assumes "buf_ok d b"
  shows "b_start b + GetInternalSize b = GetInternalEnd b" "b_zeroAreaStart b - b_start b \<le> GetInternalSize b"
    "GetInternalSize b \<le> d_size d" "Buffer_GetSize b = GetInternalSize b + zero_size b"
  using assms by (auto simp: buf_ok_def GetInternalSize_def GetInternalEnd_def zero_size_def Buffer_GetSize_def)

lemma reallocate_ok:
  assumes live_ok: "live_ok H (add_mset b B)" and p: "p \<le> n"
  shows "yields (reallocate n p b H) (\<lambda>(b1, H1). \<exists>k. b1 = moved_to k p b \<and> mem_ok H1 (uses (add_mset b1 B)) \<and>
     (\<forall>c \<in># B. b_data c \<noteq> k \<and> same_data (h_block H (b_data c)) (h_block H1 (b_data c))) \<and>
     GetInternalSize b + n \<le> d_size (h_block H1 k) \<and>
     piece p (p + GetInternalSize b) (d_bytes (h_block H1 k)) = raw (h_block H (b_data b)) b)"
proof -
  let ?B = "add_mset b B"
  let ?d = "h_block H (b_data b)"
  have ok: "buf_ok ?d b" and mem: "mem_ok H (uses ?B)" and len: "length (d_bytes ?d) = d_size ?d"
    using live_D [OF live_ok] by blast+
  have le: "b_start b \<le> b_zeroAreaStart b" "b_zeroAreaStart b \<le> b_zeroAreaEnd b" "b_zeroAreaEnd b \<le> b_end b"
    using ok by (simp_all add: buf_ok_def)
  note gs = GetInternalSize_bounds [OF ok]
  show ?thesis
  proof (rule Create_ok [OF mem, of "GetInternalSize b + n"])
    assume "Create (GetInternalSize b + n) H = Inl SizeOverflow"
    then show ?thesis by (simp add: reallocate_def Let_def yields_fits32)
  next
    fix k H1 assume H1: "Create (GetInternalSize b + n) H = Inr (k, H1)" "uses ?B k = 0" "mem_ok H1 ((uses ?B)(k := 1))"
      "GetInternalSize b + n \<le> d_size (h_block H1 k)" "\<And>j. uses ?B j \<noteq> 0 \<Longrightarrow> h_block H1 j = h_block H j"
    have k: "k \<noteq> b_data b" "\<forall>c \<in># B. b_data c \<noteq> k" using H1(2) by (auto simp: uses_0)
    let ?xs = "raw ?d b"
    have fit: "GetInternalEnd b \<le> length (d_bytes ?d)" using ok len by (simp add: buf_ok_def)
    have len_xs: "length ?xs = GetInternalSize b"
      using length_piece [OF fit, of "b_start b"] gs(1) by (simp add: raw_def)
    have block: "h_block H1 (b_data b) = ?d" using H1(5) by (simp add: uses_add)
    have read: "read_bytes (b_data b) (b_start b) (GetInternalSize b) H1 = Inr ?xs"
      using gs(2-4) fit by (simp add: read_bytes_def block raw_def piece_def gs(1) [symmetric])
    have room: "p + length ?xs \<le> d_size (h_block H1 k)" using len_xs H1(4) p by simp
    define H2 where "H2 = (if ?xs = [] then H1 else on_block k (\<lambda>d. d\<lparr>d_bytes := overwrite p ?xs (d_bytes d)\<rparr>) H1)"
    have wr: "write_bytes k p ?xs H1 = Inr H2" and mem2: "mem_ok H2 ((uses ?B)(k := 1))"
      using mem_ok_write [OF H1(3) room] by (simp_all only: H2_def)
    let ?b = "moved_to k p b"
    note sel = moved_to_sel [OF le, of k p]
    have "(uses ?B)(k := 1) = uses (add_mset b (add_mset ?b B))"
      using H1(2) k(1) by (auto simp: uses_add sel)
    then obtain H3 where H3: "Unref (b_data b) H2 = Inr H3" "mem_ok H3 (uses (add_mset ?b B))"
      "\<And>c. c \<in># add_mset ?b B \<Longrightarrow> same_data (h_block H2 (b_data c)) (h_block H3 (b_data c))"
      using Unref_uses mem2 by metis
    have len1: "length (d_bytes (h_block H1 k)) = d_size (h_block H1 k)" by (rule mem_ok_D(2) [OF H1(3)])
    have bytes: "d_bytes (h_block H2 k) = overwrite p ?xs (d_bytes (h_block H1 k))" "d_size (h_block H2 k) = d_size (h_block H1 k)"
      using room len1 by (simp_all add: H2_def)
    have at_k: "same_data (h_block H2 k) (h_block H3 k)" using H3(3) [of ?b] by (simp add: sel)
    have others: "same_data (h_block H (b_data c)) (h_block H3 (b_data c))" if "c \<in># B" for c
    proof -
      have "h_block H1 (b_data c) = h_block H (b_data c)" using H1(5) [of "b_data c"] uses_member [OF that] by (simp add: uses_add)
      moreover have "h_block H2 (b_data c) = h_block H1 (b_data c)" using k(2) that by (simp add: H2_def)
      ultimately show ?thesis using H3(3) [of c] that by simp
    qed
    have "piece p (p + GetInternalSize b) (d_bytes (h_block H3 k)) = ?xs"
      using at_k bytes(1) piece_overwrite_at [of p ?xs "d_bytes (h_block H1 k)"] room len1 len_xs by (simp add: same_data_def)
    moreover have "GetInternalSize b + n \<le> d_size (h_block H3 k)" using H1(4) bytes(2) at_k by (simp add: same_data_def)
    ultimately have "\<exists>k'. ?b = moved_to k' p b \<and> mem_ok H3 (uses (add_mset ?b B)) \<and>
       (\<forall>c \<in># B. b_data c \<noteq> k' \<and> same_data (h_block H (b_data c)) (h_block H3 (b_data c))) \<and>
       GetInternalSize b + n \<le> d_size (h_block H3 k') \<and>
       piece p (p + GetInternalSize b) (d_bytes (h_block H3 k')) = ?xs"
      using H3(2) others k(2) by (intro exI [of _ k] conjI) auto
    moreover have "reallocate n p b H = fits32 (GetInternalSize b + n) (Inr (?b, H3))"
      by (simp add: reallocate_def Let_def H1(1) read wr H3(1))
    ultimately show ?thesis by (simp add: yields_fits32)
  qed
qed

lemma moved_contents:
  assumes ok: "buf_ok d b" "length (d_bytes d) = d_size d" and room: "p + GetInternalSize b \<le> length (d_bytes d')"
    and raw: "piece p (p + GetInternalSize b) (d_bytes d') = raw d b"
  shows "block_contents d' (moved_to k p b) = block_contents d b"
proof -
  have le: "b_start b \<le> b_zeroAreaStart b" "b_zeroAreaStart b \<le> b_zeroAreaEnd b" "b_zeroAreaEnd b \<le> b_end b"
    "GetInternalEnd b \<le> length (d_bytes d)" using ok by (simp_all add: buf_ok_def)
  note sel = moved_to_sel [OF le(1-3), of k p]
  have "raw d' (moved_to k p b) = raw d b" using raw by (simp add: raw_def sel)
  moreover have "b_zeroAreaEnd (moved_to k p b) \<le> b_end (moved_to k p b)"
    using GetInternalSize_bounds [OF ok(1)] by (simp add: sel)
  ultimately show ?thesis
    using block_contents_raw [OF le] block_contents_raw [of "moved_to k p b" d'] room by (simp add: sel)
qed

section \<open>Room at the front\<close>

lemma contents_front:
  assumes "n \<le> b_start b" "b_start b \<le> b_zeroAreaStart b"
  shows "block_contents d (b\<lparr>b_start := b_start b - n\<rparr>) = piece (b_start b - n) (b_start b) (d_bytes d) @ block_contents d b"
  using assms piece_append [of "b_start b - n" "b_start b" "b_zeroAreaStart b" "d_bytes d"]
  by (simp add: block_contents_def zero_size_def GetInternalEnd_def)

lemma contents_back:
  assumes "b_zeroAreaStart b \<le> b_zeroAreaEnd b" "b_zeroAreaEnd b \<le> b_end b"
  shows "block_contents d (b\<lparr>b_end := b_end b + n\<rparr>) = block_contents d b @ piece (GetInternalEnd b) (GetInternalEnd b + n) (d_bytes d)"
proof -
  have i: "GetInternalEnd (b\<lparr>b_end := b_end b + n\<rparr>) = GetInternalEnd b + n" "b_zeroAreaStart b \<le> GetInternalEnd b"
    using assms by (simp_all add: GetInternalEnd_def zero_size_def)
  show ?thesis
    using piece_append [OF i(2), of "GetInternalEnd b + n" "d_bytes d"] by (simp add: block_contents_def i(1)) (simp add: zero_size_def)
qed

definition front_free :: "nat \<Rightarrow> buffer \<Rightarrow> buffer multiset \<Rightarrow> bool" where
  "front_free n b B \<longleftrightarrow> b_start b + n \<le> b_zeroAreaStart b \<and> (\<forall>c \<in># B. b_data c = b_data b \<longrightarrow> b_start b + n \<le> b_start c)"

definition back_free :: "nat \<Rightarrow> buffer \<Rightarrow> buffer multiset \<Rightarrow> bool" where
  "back_free n b B \<longleftrightarrow> b_zeroAreaEnd b + n \<le> b_end b \<and>
     (\<forall>c \<in># B. b_data c = b_data b \<longrightarrow> GetInternalEnd c + n \<le> GetInternalEnd b)"

text \<open>The buffer kept its block, or it has one of its own.\<close>

definition stays :: "buffer \<Rightarrow> buffer \<Rightarrow> buffer multiset \<Rightarrow> bool" where
  "stays b b' B \<longleftrightarrow> b_data b' = b_data b \<or> (\<forall>c \<in># B. b_data c \<noteq> b_data b')"

text \<open>A change in one block, seen by the buffers there.\<close>

lemma live_same_block:
  assumes live: "live_ok H (add_mset b B)" and k: "b_data b' = b_data b" and mem: "mem_ok H' (uses (add_mset b' B))"
    and others: "\<And>c. c \<in># B \<Longrightarrow> b_data c \<noteq> b_data b \<Longrightarrow> h_block H' (b_data c) = h_block H (b_data c)"
    and own: "buf_ok (h_block H' (b_data b)) b'"
      "\<And>c. c \<in># B \<Longrightarrow> b_data c = b_data b \<Longrightarrow> buf_ok (h_block H (b_data b)) c \<Longrightarrow> buf_ok (h_block H' (b_data b)) c"
    and ends: "\<And>c. c \<in># B \<Longrightarrow> b_data c = b_data b \<Longrightarrow> b_end b' = d_dirtyEnd (h_block H' (b_data b)) \<Longrightarrow>
        GetInternalEnd c \<le> GetInternalEnd b'"
      "\<And>c. c \<in># B \<Longrightarrow> b_data c = b_data b \<Longrightarrow> b_end c = d_dirtyEnd (h_block H' (b_data b)) \<Longrightarrow>
        b_end c = d_dirtyEnd (h_block H (b_data b)) \<and> GetInternalEnd b' \<le> GetInternalEnd c"
  shows "live_ok H' (add_mset b' B)"
proof -
  have old: "buf_ok (h_block H (b_data c)) c" if "c \<in># B" for c using live that by (simp add: live_ok_def)
  have old_ends: "GetInternalEnd e \<le> GetInternalEnd c" if "c \<in># B" "e \<in># B" "b_data e = b_data c"
    "b_end c = d_dirtyEnd (h_block H (b_data c))" for c e using live that by (simp add: live_ok_def)
  have "buf_ok (h_block H' (b_data c)) c" if "c \<in># B" for c
    using own(2) [OF that] others [OF that] old [OF that] by (cases "b_data c = b_data b") auto
  then have "\<forall>x \<in># add_mset b' B. buf_ok (h_block H' (b_data x)) x" using own(1) k by simp
  moreover have "GetInternalEnd y \<le> GetInternalEnd x" if "x \<in># add_mset b' B" "y \<in># add_mset b' B" "b_data y = b_data x"
    "b_end x = d_dirtyEnd (h_block H' (b_data x))" for x y
  proof (cases "x = b'")
    case True
    then show ?thesis using that ends(1) [of y] k by (cases "y = b'") auto
  next
    case False
    then have x: "x \<in># B" using that(1) by simp
    show ?thesis
    proof (cases "b_data x = b_data b")
      case True
      then show ?thesis
        using that ends(2) [OF x] old_ends [OF x, of y] by (cases "y = b'") auto
    next
      case F: False
      then show ?thesis
        using that others [OF x] old_ends [OF x, of y] k by (cases "y = b'") auto
    qed
  qed
  ultimately show ?thesis unfolding live_ok_def using mem by blast
qed

lemma frame_bytes:
  assumes "\<And>c. c \<in># B \<Longrightarrow> d_bytes (h_block H' (b_data c)) = d_bytes (h_block H (b_data c))"
  shows "frame H H' B"
  using assms by (simp add: frame_def contents_def block_contents_def)

text \<open>A buffer in a block of its own, with the dirty range just set.\<close>

lemma new_block_live:
  assumes live: "live_ok H B0" "set_mset B \<subseteq> set_mset B0" and mem: "mem_ok H1 (uses (add_mset b1 B))"
    and same: "\<forall>c \<in># B. b_data c \<noteq> k \<and> same_data (h_block H (b_data c)) (h_block H1 (b_data c))"
    and data: "b_data b1 = k" "b_data b = k"
    and le: "b_start b \<le> b_zeroAreaStart b" "b_zeroAreaStart b \<le> b_zeroAreaEnd b" "b_zeroAreaEnd b \<le> b_end b"
      "GetInternalEnd b \<le> d_size (h_block H1 k)" "b_end b < 4294967296"
  shows "live_ok (set_dirty k (b_start b) (b_end b) H1) (add_mset b B)"
proof -
  let ?H = "set_dirty k (b_start b) (b_end b) H1"
  have "mem_ok ?H (uses (add_mset b B))"
    unfolding set_dirty_def
    using mem mem_ok_D(2) [OF mem] mem_ok_update [OF mem, of "\<lambda>d. d\<lparr>d_dirtyStart := b_start b, d_dirtyEnd := b_end b\<rparr>" k] data
    by (simp add: uses_add)
  moreover have "\<forall>c \<in># B. same_data (h_block H (b_data c)) (h_block ?H (b_data c))" using same by (simp add: set_dirty_def)
  moreover have "buf_ok (h_block ?H (b_data b)) b" using le data by (simp add: buf_ok_def set_dirty_def)
  moreover have "\<forall>c \<in># B. b_data c \<noteq> b_data b" using same data by simp
  ultimately show ?thesis by (intro live_alone [OF live])
qed

lemma set_add: "set_mset B \<subseteq> set_mset (add_mset b B)"
  by auto

lemma set_dirty_contents [simp]: "contents (set_dirty k a e H) b = contents H b"
  by (simp add: contents_def set_dirty_def block_contents_def)

lemma set_dirty_frame [simp]: "frame H' (set_dirty k a e H) B = frame H' H B"
  by (simp add: frame_def)

lemma AddAtStart_ok:
  assumes live: "live_ok H (add_mset b B)"
  shows "yields (AddAtStart n b H) (\<lambda>(b', H'). live_ok H' (add_mset b' B) \<and> frame H H' B \<and> front_free n b' B \<and>
     stays b b' B \<and> zero_size b' = zero_size b \<and> (\<exists>xs. length xs = n \<and> contents H' b' = xs @ contents H b))"
proof -
  let ?d = "h_block H (b_data b)"
  define isDirty where "isDirty \<longleftrightarrow> 1 < d_count ?d \<and> d_dirtyStart ?d < b_start b"
  define P where "P = (\<lambda>(b', H'). live_ok H' (add_mset b' B) \<and> frame H H' B \<and> front_free n b' B \<and>
     stays b b' B \<and> zero_size b' = zero_size b \<and> (\<exists>xs. length xs = n \<and> contents H' b' = xs @ contents H b))"
  have P_note: "P (note_start b', H')" if "P (b', H')" for b' H'
  proof -
    have "live_ok H' (add_mset b' B)" "within b' b'"
      using that live_D(1) [of H' b' B] by (auto simp: P_def within_def buf_ok_def)
    then have "live_ok H' (add_mset (note_start b') B)" using inside_ok by simp
    then show ?thesis using that by (simp add: P_def front_free_def stays_def)
  qed
  have ok: "buf_ok ?d b" and mem: "mem_ok H (uses (add_mset b B))" and count: "d_count ?d = Suc (uses B (b_data b))"
    and len: "length (d_bytes ?d) = d_size ?d" using live_D [OF live] by blast+
  have le: "b_start b \<le> b_zeroAreaStart b" "b_zeroAreaStart b \<le> b_zeroAreaEnd b" "b_zeroAreaEnd b \<le> b_end b"
    "GetInternalEnd b \<le> d_size ?d" "b_end b < 4294967296" "d_dirtyStart ?d \<le> b_start b" "b_end b \<le> d_dirtyEnd ?d"
    using ok by (simp_all add: buf_ok_def)
  have here: "P (b\<lparr>b_start := b_start b - n\<rparr>, on_block (b_data b) (\<lambda>d. d\<lparr>d_dirtyStart := b_start b - n\<rparr>) H)"
    if n: "n \<le> b_start b" and clean: "\<not> isDirty"
  proof -
    let ?b = "b\<lparr>b_start := b_start b - n\<rparr>" and ?H = "on_block (b_data b) (\<lambda>d. d\<lparr>d_dirtyStart := b_start b - n\<rparr>) H"
    have alone: "b_start b = d_dirtyStart ?d" "b_start b \<le> b_start c" if c: "c \<in># B" "b_data c = b_data b" for c
    proof -
      have "1 < d_count ?d" using count uses_member [OF c(1)] c(2) by simp
      then show "b_start b = d_dirtyStart ?d" using clean le(6) by (simp add: isDirty_def)
      then show "b_start b \<le> b_start c" using live c by (auto simp: live_ok_def buf_ok_def)
    qed
    have i: "GetInternalEnd ?b = GetInternalEnd b" "zero_size ?b = zero_size b" by (simp_all add: GetInternalEnd_def zero_size_def)
    have ends: "GetInternalEnd c \<le> GetInternalEnd b" if "c \<in># B" "b_data c = b_data b" "b_end b = d_dirtyEnd ?d" for c
      using live that by (simp add: live_ok_def)
    have ends': "GetInternalEnd b \<le> GetInternalEnd c" if "c \<in># B" "b_data c = b_data b" "b_end c = d_dirtyEnd ?d" for c
      using live that by (simp add: live_ok_def)
    have "mem_ok ?H (uses (add_mset ?b B))"
      using mem_ok_update [OF mem, of "\<lambda>d. d\<lparr>d_dirtyStart := b_start b - n\<rparr>" "b_data b"] len by (simp add: uses_add)
    then have "live_ok ?H (add_mset ?b B)"
    proof (rule live_same_block [OF live, rotated])
      show "buf_ok (h_block ?H (b_data b)) ?b" using ok i n by (auto simp: buf_ok_def)
      show "buf_ok (h_block ?H (b_data b)) c" if "c \<in># B" "b_data c = b_data b" "buf_ok ?d c" for c
        using alone(2) [OF that(1,2)] that(3) by (simp add: buf_ok_def)
    qed (use i ends ends' in simp_all)
    moreover have "frame H ?H B" by (rule frame_bytes) simp
    moreover have "front_free n ?b B" using alone(2) n le(1) by (simp add: front_free_def)
    moreover have "contents ?H ?b = piece (b_start b - n) (b_start b) (d_bytes ?d) @ contents H b"
      using contents_front [OF n le(1), of "(?d)\<lparr>d_dirtyStart := b_start b - n\<rparr>"]
      by (simp add: contents_def) (simp add: block_contents_def)
    moreover have "length (piece (b_start b - n) (b_start b) (d_bytes ?d)) = n"
      using n le len by (simp add: GetInternalEnd_def zero_size_def)
    ultimately show ?thesis unfolding P_def prod.case stays_def using i(2) by (intro conjI) (blast | simp)+
  qed
  have there: "yields (rbind (reallocate n n b H) (\<lambda>(b1, H1).
      let b2 = b1\<lparr>b_start := 0\<rparr> in
      fits32 (b_end b2) (Inr (b2, set_dirty (b_data b2) (b_start b2) (b_end b2) H1)))) P"
  proof (rule yields_bind [OF reallocate_ok [OF live, of n n]], simp)
    fix x assume "case x of (b1, H1) \<Rightarrow> \<exists>k. b1 = moved_to k n b \<and> mem_ok H1 (uses (add_mset b1 B)) \<and>
       (\<forall>c \<in># B. b_data c \<noteq> k \<and> same_data (h_block H (b_data c)) (h_block H1 (b_data c))) \<and>
       GetInternalSize b + n \<le> d_size (h_block H1 k) \<and>
       piece n (n + GetInternalSize b) (d_bytes (h_block H1 k)) = raw ?d b"
    then obtain k H1 where x: "x = (moved_to k n b, H1)" and mem1: "mem_ok H1 (uses (add_mset (moved_to k n b) B))"
      and same: "\<forall>c \<in># B. b_data c \<noteq> k \<and> same_data (h_block H (b_data c)) (h_block H1 (b_data c))"
      and room: "GetInternalSize b + n \<le> d_size (h_block H1 k)"
      and data: "piece n (n + GetInternalSize b) (d_bytes (h_block H1 k)) = raw ?d b" by auto
    note sel = moved_to_sel [OF le(1-3), of k n]
    let ?b1 = "moved_to k n b"
    let ?b = "?b1\<lparr>b_start := 0\<rparr>"
    let ?H = "set_dirty k 0 (b_end ?b1) H1"
    have i: "GetInternalEnd ?b = n + GetInternalSize b" "zero_size ?b = zero_size b"
      using sel(3,5) by (simp_all add: GetInternalEnd_def zero_size_def)
    have len1: "length (d_bytes (h_block H1 k)) = d_size (h_block H1 k)" by (rule mem_ok_D(2) [OF mem1])
    have "block_contents (h_block H1 k) ?b1 = block_contents ?d b"
      using moved_contents [OF ok len _ data, of k] room len1 by simp
    then have contents: "contents ?H ?b = piece 0 n (d_bytes (h_block H1 k)) @ contents H b"
      using contents_front [of n ?b1 "h_block H1 k"] sel by (simp add: contents_def set_dirty_def block_contents_def)
    have fr: "frame H ?H B" using same frame_same [of B H H1] by simp
    have ff: "front_free n ?b B" "stays b ?b B" using same sel by (simp_all add: front_free_def stays_def)
    have "length (piece 0 n (d_bytes (h_block H1 k))) = n" using room len1 by simp
    with contents have xs: "\<exists>xs. length xs = n \<and> contents ?H ?b = xs @ contents H b" by blast
    have live2: "live_ok ?H (add_mset ?b B)" if "b_end ?b1 < 4294967296"
      using new_block_live [OF live set_add mem1 same, of ?b] that room sel i GetInternalSize_bounds [OF ok] by simp
    show "yields ((\<lambda>(b1, H1). let b2 = b1\<lparr>b_start := 0\<rparr> in
      fits32 (b_end b2) (Inr (b2, set_dirty (b_data b2) (b_start b2) (b_end b2) H1))) x) P"
      unfolding x prod.case Let_def using live2 fr ff xs i(2) sel(1)
      by (intro yields_fits32) (simp add: P_def)
  qed
  have assertion: "d_count ?d = 1 \<or> b_start b = d_dirtyStart ?d" if "\<not> isDirty"
    using that count le(6) by (auto simp: isDirty_def)
  have "yields (AddAtStart n b H) P"
    unfolding AddAtStart_def Let_def isDirty_def [symmetric]
    using here there assertion P_note
    by (intro yields_bind [where P = P]) (auto simp: Let_def rguard_def split del: if_split split: if_split)
  then show ?thesis by (simp add: P_def)
qed

section \<open>Room at the back\<close>

lemma AddAtEnd_ok:
  assumes live: "live_ok H (add_mset b B)"
  shows "yields (AddAtEnd n b H) (\<lambda>(b', H'). live_ok H' (add_mset b' B) \<and> frame H H' B \<and> back_free n b' B \<and>
     stays b b' B \<and> zero_size b' = zero_size b \<and> (\<exists>xs. length xs = n \<and> contents H' b' = contents H b @ xs))"
proof -
  let ?d = "h_block H (b_data b)"
  define isDirty where "isDirty \<longleftrightarrow> 1 < d_count ?d \<and> b_end b < d_dirtyEnd ?d"
  define P where "P = (\<lambda>(b', H'). live_ok H' (add_mset b' B) \<and> frame H H' B \<and> back_free n b' B \<and>
     stays b b' B \<and> zero_size b' = zero_size b \<and> (\<exists>xs. length xs = n \<and> contents H' b' = contents H b @ xs))"
  have P_note: "P (note_start b', H')" if "P (b', H')" for b' H'
  proof -
    have "live_ok H' (add_mset b' B)" "within b' b'"
      using that live_D(1) [of H' b' B] by (auto simp: P_def within_def buf_ok_def)
    then have "live_ok H' (add_mset (note_start b') B)" using inside_ok by simp
    then show ?thesis using that by (simp add: P_def back_free_def stays_def)
  qed
  have ok: "buf_ok ?d b" and mem: "mem_ok H (uses (add_mset b B))" and count: "d_count ?d = Suc (uses B (b_data b))"
    and len: "length (d_bytes ?d) = d_size ?d" using live_D [OF live] by blast+
  have le: "b_start b \<le> b_zeroAreaStart b" "b_zeroAreaStart b \<le> b_zeroAreaEnd b" "b_zeroAreaEnd b \<le> b_end b"
    "GetInternalEnd b \<le> d_size ?d" "b_end b < 4294967296" "d_dirtyStart ?d \<le> b_start b" "b_end b \<le> d_dirtyEnd ?d"
    using ok by (simp_all add: buf_ok_def)
  have here: "P (b\<lparr>b_end := b_end b + n\<rparr>, on_block (b_data b) (\<lambda>d. d\<lparr>d_dirtyEnd := b_end b + n\<rparr>) H)"
    if n: "GetInternalEnd b + n \<le> d_size ?d" and clean: "\<not> isDirty" and fits: "b_end b + n < 4294967296"
  proof -
    let ?b = "b\<lparr>b_end := b_end b + n\<rparr>" and ?H = "on_block (b_data b) (\<lambda>d. d\<lparr>d_dirtyEnd := b_end b + n\<rparr>) H"
    have alone: "b_end b = d_dirtyEnd ?d" "b_end c \<le> b_end b" "GetInternalEnd c \<le> GetInternalEnd b"
      if c: "c \<in># B" "b_data c = b_data b" for c
    proof -
      have "1 < d_count ?d" using count uses_member [OF c(1)] c(2) by simp
      then show e: "b_end b = d_dirtyEnd ?d" using clean le(7) by (simp add: isDirty_def)
      then show "b_end c \<le> b_end b" using live c by (auto simp: live_ok_def buf_ok_def)
      show "GetInternalEnd c \<le> GetInternalEnd b" using live c e by (simp add: live_ok_def)
    qed
    have i: "GetInternalEnd ?b = GetInternalEnd b + n" "zero_size ?b = zero_size b"
      using le by (auto simp: GetInternalEnd_def zero_size_def)
    have least: "GetInternalEnd b \<le> GetInternalEnd c" if "c \<in># B" "b_data c = b_data b" "b_end c = d_dirtyEnd ?d" for c
      using live that by (simp add: live_ok_def)
    have "mem_ok ?H (uses (add_mset ?b B))"
      using mem_ok_update [OF mem, of "\<lambda>d. d\<lparr>d_dirtyEnd := b_end b + n\<rparr>" "b_data b"] len by (simp add: uses_add)
    then have "live_ok ?H (add_mset ?b B)"
    proof (rule live_same_block [OF live, rotated])
      show "buf_ok (h_block ?H (b_data b)) ?b" using ok i n fits by (auto simp: buf_ok_def)
      show "buf_ok (h_block ?H (b_data b)) c" if "c \<in># B" "b_data c = b_data b" "buf_ok ?d c" for c
        using alone(2) [OF that(1,2)] that(3) by (simp add: buf_ok_def)
      show "GetInternalEnd c \<le> GetInternalEnd ?b" if "c \<in># B" "b_data c = b_data b" for c
        using alone(3) [OF that] i(1) by simp
      show "b_end c = d_dirtyEnd ?d \<and> GetInternalEnd ?b \<le> GetInternalEnd c"
        if c: "c \<in># B" "b_data c = b_data b" and e: "b_end c = d_dirtyEnd (h_block ?H (b_data b))" for c
      proof -
        have "b_end c = b_end b + n" using e by simp
        then have "n = 0" "b_end c = d_dirtyEnd ?d" using alone(1,2) [OF c] by simp_all
        then show ?thesis using least [OF c] i(1) by simp
      qed
    qed simp_all
    moreover have "frame H ?H B" by (rule frame_bytes) simp
    moreover have "back_free n ?b B" using alone(3) le(3) i(1) by (simp add: back_free_def)
    moreover have "contents ?H ?b = contents H b @ piece (GetInternalEnd b) (GetInternalEnd b + n) (d_bytes ?d)"
      using contents_back [OF le(2,3), of "(?d)\<lparr>d_dirtyEnd := b_end b + n\<rparr>" n]
      by (simp add: contents_def) (simp add: block_contents_def)
    moreover have "length (piece (GetInternalEnd b) (GetInternalEnd b + n) (d_bytes ?d)) = n"
      using n len by simp
    ultimately show ?thesis unfolding P_def prod.case stays_def using i(2) by (intro conjI) (blast | simp)+
  qed
  have there: "yields (rbind (reallocate n 0 b H) (\<lambda>(b1, H1).
      let b2 = b1\<lparr>b_end := b_end b1 + n\<rparr> in
      fits32 (b_end b2) (Inr (b2, set_dirty (b_data b2) (b_start b2) (b_end b2) H1)))) P"
  proof (rule yields_bind [OF reallocate_ok [OF live, of 0 n]], simp)
    fix x assume "case x of (b1, H1) \<Rightarrow> \<exists>k. b1 = moved_to k 0 b \<and> mem_ok H1 (uses (add_mset b1 B)) \<and>
       (\<forall>c \<in># B. b_data c \<noteq> k \<and> same_data (h_block H (b_data c)) (h_block H1 (b_data c))) \<and>
       GetInternalSize b + n \<le> d_size (h_block H1 k) \<and>
       piece 0 (0 + GetInternalSize b) (d_bytes (h_block H1 k)) = raw ?d b"
    then obtain k H1 where x: "x = (moved_to k 0 b, H1)" and mem1: "mem_ok H1 (uses (add_mset (moved_to k 0 b) B))"
      and same: "\<forall>c \<in># B. b_data c \<noteq> k \<and> same_data (h_block H (b_data c)) (h_block H1 (b_data c))"
      and room: "GetInternalSize b + n \<le> d_size (h_block H1 k)"
      and data: "piece 0 (0 + GetInternalSize b) (d_bytes (h_block H1 k)) = raw ?d b" by auto
    note sel = moved_to_sel [OF le(1-3), of k 0]
    let ?b1 = "moved_to k 0 b"
    let ?b = "?b1\<lparr>b_end := b_end ?b1 + n\<rparr>"
    let ?H = "set_dirty k 0 (b_end ?b1 + n) H1"
    note size = GetInternalSize_bounds [OF ok]
    have z: "b_zeroAreaStart ?b1 \<le> b_zeroAreaEnd ?b1" "b_zeroAreaEnd ?b1 \<le> b_end ?b1" using sel size by simp_all
    have i: "GetInternalEnd ?b = GetInternalSize b + n" "zero_size ?b = zero_size b"
      using sel(3,5) z by (simp_all add: GetInternalEnd_def zero_size_def)
    have len1: "length (d_bytes (h_block H1 k)) = d_size (h_block H1 k)" by (rule mem_ok_D(2) [OF mem1])
    have "block_contents (h_block H1 k) ?b1 = block_contents ?d b"
      using moved_contents [OF ok len _ data, of k] room len1 by simp
    then have contents: "contents ?H ?b =
        contents H b @ piece (GetInternalSize b) (GetInternalSize b + n) (d_bytes (h_block H1 k))"
      using contents_back [OF z, of "h_block H1 k" n] sel by (simp add: contents_def set_dirty_def block_contents_def)
    have fr: "frame H ?H B" using same frame_same [of B H H1] by simp
    have bf: "back_free n ?b B" "stays b ?b B" using same sel z by (simp_all add: back_free_def stays_def)
    have "length (piece (GetInternalSize b) (GetInternalSize b + n) (d_bytes (h_block H1 k))) = n" using room len1 by simp
    with contents have xs: "\<exists>xs. length xs = n \<and> contents ?H ?b = contents H b @ xs" by blast
    have live2: "live_ok ?H (add_mset ?b B)" if "b_end ?b1 + n < 4294967296"
      using new_block_live [OF live set_add mem1 same, of ?b] that room sel i z by simp
    show "yields ((\<lambda>(b1, H1). let b2 = b1\<lparr>b_end := b_end b1 + n\<rparr> in
      fits32 (b_end b2) (Inr (b2, set_dirty (b_data b2) (b_start b2) (b_end b2) H1))) x) P"
      unfolding x prod.case Let_def using live2 fr bf xs i(2) sel(1,2)
      by (intro yields_fits32) (simp add: P_def)
  qed
  have assertion: "d_count ?d = 1 \<or> b_end b = d_dirtyEnd ?d" if "\<not> isDirty"
    using that count le(7) by (auto simp: isDirty_def)
  have "yields (AddAtEnd n b H) P"
    unfolding AddAtEnd_def Let_def isDirty_def [symmetric]
  proof (intro yields_fits32 yields_bind [where P = P], goal_cases)
    case 1
    show ?case
    proof (cases "GetInternalEnd b + n \<le> d_size ?d \<and> \<not> isDirty")
      case True
      then show ?thesis using here assertion by (auto simp: rguard_def fits32_def)
    next
      case False
      show ?thesis unfolding if_not_P [OF False] by (rule there [unfolded Let_def])
    qed
  qed (use P_note in auto)
  then show ?thesis by (simp add: P_def)
qed

end
