(* ===== verification/BufferWrites.thy ===== *)
theory BufferWrites
  imports BufferGrowth
begin

text \<open>
  Iterators: writes into the fresh room at the two ends, reads, and the operations built from them: the
  full copy, the transformation into a buffer without a zero area, and the concatenation.
\<close>

section \<open>Writes into room of one's own\<close>

lemma live_bytes:
  assumes live: "live_ok H B" and len: "length (f (d_bytes (h_block H k))) = length (d_bytes (h_block H k))"
  shows "live_ok (on_block k (\<lambda>d. d\<lparr>d_bytes := f (d_bytes d)\<rparr>) H) B"
proof -
  let ?H = "on_block k (\<lambda>d. d\<lparr>d_bytes := f (d_bytes d)\<rparr>) H"
  have mem: "mem_ok H (uses B)" using live by (simp add: live_ok_def)
  have "mem_ok ?H (uses B)" by (rule mem_ok_update [OF mem]) (simp_all add: len mem_ok_D [OF mem])
  moreover have same: "buf_ok (h_block ?H j) b = buf_ok (h_block H j) b" "d_dirtyEnd (h_block ?H j) = d_dirtyEnd (h_block H j)" for b j
    by (simp_all add: buf_ok_def)
  ultimately show ?thesis using live unfolding live_ok_def same by blast
qed

text \<open>A write that touches no byte of another buffer.\<close>

lemma write_apart:
  assumes live: "live_ok H (add_mset b B)" and room: "a + length xs \<le> d_size (h_block H (b_data b))"
    and apart: "\<And>c. c \<in># B \<Longrightarrow> b_data c = b_data b \<Longrightarrow> a + length xs \<le> b_start c \<or> GetInternalEnd c \<le> a"
  obtains H' where "write_bytes (b_data b) a xs H = Inr H'" "live_ok H' (add_mset b B)" "frame H H' B"
    "d_bytes (h_block H' (b_data b)) = overwrite a xs (d_bytes (h_block H (b_data b)))"
    "d_size (h_block H' (b_data b)) = d_size (h_block H (b_data b))"
proof -
  let ?k = "b_data b"
  define H' where "H' = (if xs = [] then H else on_block ?k (\<lambda>d. d\<lparr>d_bytes := overwrite a xs (d_bytes d)\<rparr>) H)"
  have len: "length (d_bytes (h_block H ?k)) = d_size (h_block H ?k)" by (rule live_D(4) [OF live])
  have bytes: "d_bytes (h_block H' ?k) = overwrite a xs (d_bytes (h_block H ?k))" "d_size (h_block H' ?k) = d_size (h_block H ?k)"
    using room len by (simp_all add: H'_def)
  have run: "write_bytes ?k a xs H = Inr H'"
    unfolding H'_def by (rule mem_ok_write(1) [OF live_D(2) [OF live] room])
  have live': "live_ok H' (add_mset b B)"
    using live live_bytes [OF live, of "overwrite a xs" ?k] room len by (simp add: H'_def)
  have "contents H' c = contents H c" if c: "c \<in># B" for c
  proof (cases "b_data c = ?k")
    case True
    have ok: "buf_ok (h_block H (b_data c)) c" using live c by (simp add: live_ok_def)
    have "b_start c \<le> b_zeroAreaStart c" "b_zeroAreaStart c \<le> GetInternalEnd c"
      using ok by (auto simp: buf_ok_def GetInternalEnd_def zero_size_def)
    moreover have "piece s e (overwrite a xs (d_bytes (h_block H ?k))) = piece s e (d_bytes (h_block H ?k))"
      if "b_start c \<le> s" "e \<le> GetInternalEnd c" for s e
      using that apart [OF c True] len room by (intro piece_overwrite_out) auto
    ultimately show ?thesis using bytes(1) True by (simp add: contents_def block_contents_def)
  next
    case False
    then show ?thesis by (simp add: contents_def H'_def)
  qed
  then have "frame H H' B" by (simp add: frame_def)
  then show ?thesis using run live' bytes by (intro that)
qed

lemma write_front:
  assumes live: "live_ok H (add_mset b B)" and free: "front_free (length xs) b B"
    and ys: "contents H b = ys @ zs" "length ys = length xs"
  obtains H' where "write_bytes (b_data b) (b_start b) xs H = Inr H'" "live_ok H' (add_mset b B)" "frame H H' B"
    "contents H' b = xs @ zs"
proof -
  let ?d = "h_block H (b_data b)"
  have ok: "buf_ok ?d b" and len: "length (d_bytes ?d) = d_size ?d" using live_D [OF live] by blast+
  have le: "b_start b + length xs \<le> b_zeroAreaStart b" "b_zeroAreaStart b \<le> GetInternalEnd b" "GetInternalEnd b \<le> d_size ?d"
    using free ok by (auto simp: front_free_def buf_ok_def GetInternalEnd_def zero_size_def)
  have room: "b_start b + length xs \<le> d_size ?d" using le by linarith
  obtain H' where H': "write_bytes (b_data b) (b_start b) xs H = Inr H'" "live_ok H' (add_mset b B)" "frame H H' B"
    "d_bytes (h_block H' (b_data b)) = overwrite (b_start b) xs (d_bytes ?d)"
  proof (rule write_apart [OF live room])
    show "b_start b + length xs \<le> b_start c \<or> GetInternalEnd c \<le> b_start b" if "c \<in># B" "b_data c = b_data b" for c
      using free that by (simp add: front_free_def)
  qed
  let ?m = "b_start b + length xs"
  have split: "piece (b_start b) (b_zeroAreaStart b) bs = piece (b_start b) ?m bs @ piece ?m (b_zeroAreaStart b) bs" for bs :: "cell list"
    using le(1) by (intro piece_append) simp_all
  have old: "contents H b = piece (b_start b) ?m (d_bytes ?d) @ piece ?m (b_zeroAreaStart b) (d_bytes ?d) @
      replicate (zero_size b) (Some 0) @ piece (b_zeroAreaStart b) (GetInternalEnd b) (d_bytes ?d)"
    by (simp add: contents_def block_contents_def split)
  have "length (piece (b_start b) ?m (d_bytes ?d)) = length xs" using room len by simp
  then have zs: "zs = piece ?m (b_zeroAreaStart b) (d_bytes ?d) @ replicate (zero_size b) (Some 0) @
      piece (b_zeroAreaStart b) (GetInternalEnd b) (d_bytes ?d)" using ys old by simp
  have "contents H' b = xs @ zs"
    unfolding contents_def block_contents_def split H'(4) zs
    using room len le piece_overwrite_at [of "b_start b" xs "d_bytes ?d"]
      piece_overwrite_out [of "b_zeroAreaStart b" "b_start b" xs ?m "d_bytes ?d"]
      piece_overwrite_out [of "GetInternalEnd b" "b_start b" xs "b_zeroAreaStart b" "d_bytes ?d"] by simp
  with H' show ?thesis by (intro that)
qed

lemma write_back:
  assumes live: "live_ok H (add_mset b B)" and free: "back_free n b B"
    and ys: "contents H b = zs @ ys" "length ys = n" and fit: "p + length xs \<le> n"
  obtains H' where "write_bytes (b_data b) (GetInternalEnd b - n + p) xs H = Inr H'" "live_ok H' (add_mset b B)" "frame H H' B"
    "contents H' b = zs @ overwrite p xs ys"
proof -
  let ?d = "h_block H (b_data b)" and ?e = "GetInternalEnd b"
  define f where "f = ?e - n"
  define a where "a = f + p"
  let ?s = "b_start b" and ?z = "b_zeroAreaStart b"
  have ok: "buf_ok ?d b" and len: "length (d_bytes ?d) = d_size ?d" using live_D [OF live] by blast+
  have le: "?s \<le> ?z" "?z \<le> f" "?e = f + n" "?e \<le> d_size ?d"
    using free ok by (auto simp: back_free_def buf_ok_def GetInternalEnd_def zero_size_def f_def)
  have room: "a + length xs \<le> d_size ?d" using le fit a_def by linarith
  obtain H' where H': "write_bytes (b_data b) a xs H = Inr H'" "live_ok H' (add_mset b B)" "frame H H' B"
    "d_bytes (h_block H' (b_data b)) = overwrite a xs (d_bytes ?d)"
  proof (rule write_apart [OF live room])
    show "a + length xs \<le> b_start c \<or> GetInternalEnd c \<le> a" if "c \<in># B" "b_data c = b_data b" for c
      using free that by (fastforce simp: back_free_def le(3) a_def)
  qed
  let ?m = "a + length xs"
  have split: "piece ?z ?e bs = piece ?z (f) bs @ piece (f) ?e bs" for bs :: "cell list"
    using le(2,3) by (intro piece_append) simp_all
  have old: "contents H b = (piece ?s ?z (d_bytes ?d) @ replicate (zero_size b) (Some 0) @ piece ?z (f) (d_bytes ?d)) @
      piece (f) ?e (d_bytes ?d)"
    by (simp add: contents_def block_contents_def split)
  have "length (piece (f) ?e (d_bytes ?d)) = n" using le len by simp
  then have zs: "zs = piece ?s ?z (d_bytes ?d) @ replicate (zero_size b) (Some 0) @ piece ?z (f) (d_bytes ?d)"
    and y: "ys = piece (f) ?e (d_bytes ?d)" using ys old append_eq_append_conv by (metis, metis)
  have three: "piece (f) ?e bs = piece (f) a bs @ piece a ?m bs @ piece ?m ?e bs" for bs :: "cell list"
    using fit le a_def piece_append [of f a ?e bs] piece_append [of a ?m ?e bs] by simp
  have "piece (f) a (d_bytes ?d) = take p ys" "piece ?m ?e (d_bytes ?d) = drop (p + length xs) ys"
    using piece_take [of "f" p ?e "d_bytes ?d"] piece_drop [of "f" "p + length xs" ?e "d_bytes ?d"] fit le y
    by (simp_all add: a_def add.assoc)
  then have "piece (f) ?e (overwrite a xs (d_bytes ?d)) = overwrite p xs ys"
    unfolding three overwrite_def [of p]
    using room len fit le a_def piece_overwrite_at [of a xs "d_bytes ?d"] piece_overwrite_out [of a a xs "f" "d_bytes ?d"]
      piece_overwrite_out [of ?e a xs ?m "d_bytes ?d"] by simp
  then have "contents H' b = zs @ overwrite p xs ys"
    unfolding contents_def block_contents_def split H'(4) zs
    using room len le a_def piece_overwrite_out [of ?z a xs ?s "d_bytes ?d"] piece_overwrite_out [of "f" a xs ?z "d_bytes ?d"] by simp
  with H' show ?thesis by (intro that) (simp_all add: a_def f_def)
qed

section \<open>The iterator\<close>

lemma Construct_sel [simp]:
  "it_zeroStart (Construct b p) = b_zeroAreaStart b" "it_zeroEnd (Construct b p) = b_zeroAreaEnd b"
  "it_dataStart (Construct b p) = b_start b" "it_dataEnd (Construct b p) = b_end b"
  "it_current (Construct b p) = p" "it_data (Construct b p) = b_data b" "it_zero_size (Construct b p) = zero_size b"
  by (simp_all add: Construct_def it_zero_size_def zero_size_def)

lemma it_Prev_End: "n \<le> b_end b \<Longrightarrow> it_Prev n (End b) = Inr (Construct b (b_end b - n))"
  by (simp add: it_Prev_def End_def Construct_def)

lemma front_zone:
  assumes "live_ok H (add_mset b B)" "front_free n b B"
  shows "b_start b + n \<le> b_end b" "CheckNoZero (b_start b) n (Begin b)" "CheckNoZero (b_start b) (b_start b + n) (Begin b)"
  using live_D(1) [OF assms(1)] assms(2) by (auto simp: buf_ok_def front_free_def CheckNoZero_def Begin_def)

lemma it_Write_front:
  assumes live: "live_ok H (add_mset b B)" and free: "front_free (length xs) b B"
    and ys: "contents H b = ys @ zs" "length ys = length xs"
  shows "\<exists>i H'. it_Write xs (Begin b) H = Inr (i, H') \<and> live_ok H' (add_mset b B) \<and> frame H H' B \<and> contents H' b = xs @ zs"
proof -
  obtain H' where H': "write_bytes (b_data b) (b_start b) xs H = Inr H'" "live_ok H' (add_mset b B)" "frame H H' B"
    "contents H' b = xs @ zs" by (rule write_front [OF assms])
  have "b_start b \<le> b_zeroAreaStart b" using free by (simp add: front_free_def)
  then show ?thesis using H' front_zone(2) [OF live free] by (simp add: it_Write_def Begin_def)
qed

lemma it_WriteU8_len_front:
  assumes live: "live_ok H (add_mset b B)" and free: "front_free n b B" and ys: "contents H b = ys @ zs" "length ys = n"
  shows "\<exists>i H'. it_WriteU8_len x n (Begin b) H = Inr (i, H') \<and> live_ok H' (add_mset b B) \<and> frame H H' B \<and>
    contents H' b = replicate n (Some x) @ zs"
proof -
  have ys': "length ys = length (replicate n (Some x))" using ys(2) by simp
  obtain H' where H': "write_bytes (b_data b) (b_start b) (replicate n (Some x)) H = Inr H'" "live_ok H' (add_mset b B)"
    "frame H H' B" "contents H' b = replicate n (Some x) @ zs"
    using write_front [OF live _ ys(1) ys'] free by auto
  have "b_start b \<le> b_zeroAreaStart b" using free by (simp add: front_free_def)
  then show ?thesis using H' front_zone(3) [OF live free] by (simp add: it_WriteU8_len_def Begin_def)
qed

text \<open>The place of the fresh bytes at the back.\<close>

lemma back_zone:
  assumes "live_ok H (add_mset b B)" "back_free n b B"
  shows "n \<le> b_end b" "CheckNoZero (b_end b - n) n (Construct b p)" "CheckNoZero (b_end b - n) (b_end b - n + n) (Construct b p)"
    "(if b_end b - n \<le> b_zeroAreaStart b then b_end b - n else b_end b - n - zero_size b) = GetInternalEnd b - n"
  using live_D(1) [OF assms(1)] assms(2)
  by (auto simp: buf_ok_def back_free_def CheckNoZero_def GetInternalEnd_def zero_size_def)

lemma it_Write_back:
  assumes live: "live_ok H (add_mset b B)" and free: "back_free (length xs) b B"
    and ys: "contents H b = zs @ ys" "length ys = length xs"
  shows "\<exists>i H'. it_Write xs (Construct b (b_end b - length xs)) H = Inr (i, H') \<and> live_ok H' (add_mset b B) \<and> frame H H' B \<and>
    contents H' b = zs @ xs"
proof -
  obtain H' where H': "write_bytes (b_data b) (GetInternalEnd b - length xs + 0) xs H = Inr H'" "live_ok H' (add_mset b B)"
    "frame H H' B" "contents H' b = zs @ overwrite 0 xs ys"
    by (rule write_back [OF live free ys, of 0 xs]) simp_all
  have "overwrite 0 xs ys = xs" using ys(2) by (simp add: overwrite_def)
  then show ?thesis
    using H' back_zone(2) [OF live free] unfolding it_Write_def Construct_sel back_zone(4) [OF live free] by simp
qed

section \<open>Reading a buffer's block\<close>

lemma read_parts:
  assumes live: "live_ok H (add_mset b B)"
  shows "read_bytes (b_data b) (b_start b) (b_zeroAreaStart b - b_start b) H = Inr (take (b_zeroAreaStart b - b_start b) (contents H b))"
    "read_bytes (b_data b) (b_zeroAreaStart b) (b_end b - b_zeroAreaEnd b) H = Inr (drop (b_zeroAreaEnd b - b_start b) (contents H b))"
    "contents H b = take (b_zeroAreaStart b - b_start b) (contents H b) @ replicate (zero_size b) (Some 0) @
       drop (b_zeroAreaEnd b - b_start b) (contents H b)"
proof -
  let ?d = "h_block H (b_data b)"
  have ok: "buf_ok ?d b" and len: "length (d_bytes ?d) = d_size ?d" using live_D [OF live] by blast+
  obtain A C where parts: "block_contents ?d b = A @ replicate (zero_size b) (Some 0) @ C"
    "A = piece (b_start b) (b_zeroAreaStart b) (d_bytes ?d)" "C = piece (b_zeroAreaStart b) (GetInternalEnd b) (d_bytes ?d)"
    "length A = b_zeroAreaStart b - b_start b" "length C = b_end b - b_zeroAreaEnd b"
    by (rule contents_parts [OF ok len])
  have le: "b_start b \<le> b_zeroAreaStart b" "b_zeroAreaStart b \<le> b_zeroAreaEnd b" "b_zeroAreaEnd b \<le> b_end b"
    "GetInternalEnd b \<le> length (d_bytes ?d)" "GetInternalEnd b = b_zeroAreaStart b + (b_end b - b_zeroAreaEnd b)"
    using ok len by (auto simp: buf_ok_def GetInternalEnd_def zero_size_def)
  have A: "take (b_zeroAreaStart b - b_start b) (contents H b) = A" using parts(1,4) by (simp add: contents_def)
  have "b_zeroAreaEnd b - b_start b = length A + zero_size b" using parts(4) le by (simp add: zero_size_def)
  then have C: "drop (b_zeroAreaEnd b - b_start b) (contents H b) = C" using parts(1) by (simp add: contents_def)
  show "read_bytes (b_data b) (b_start b) (b_zeroAreaStart b - b_start b) H = Inr (take (b_zeroAreaStart b - b_start b) (contents H b))"
    unfolding A parts(2) using le by (auto simp: read_bytes_def piece_def Let_def rguard_def)
  show "read_bytes (b_data b) (b_zeroAreaStart b) (b_end b - b_zeroAreaEnd b) H = Inr (drop (b_zeroAreaEnd b - b_start b) (contents H b))"
    unfolding C parts(3) using le by (simp add: read_bytes_def piece_def Let_def)
  show "contents H b = take (b_zeroAreaStart b - b_start b) (contents H b) @ replicate (zero_size b) (Some 0) @
       drop (b_zeroAreaEnd b - b_start b) (contents H b)"
    unfolding A C using parts(1) by (simp add: contents_def)
qed

section \<open>Full copies\<close>

text \<open>The operations inside a sequence.\<close>

lemma AddAtStart_bind:
  assumes "live_ok H (add_mset b B)"
    and "\<And>b' H' xs. live_ok H' (add_mset b' B) \<Longrightarrow> frame H H' B \<Longrightarrow> front_free n b' B \<Longrightarrow> stays b b' B \<Longrightarrow>
      zero_size b' = zero_size b \<Longrightarrow> length xs = n \<Longrightarrow> contents H' b' = xs @ contents H b \<Longrightarrow> yields (f (b', H')) Q"
  shows "yields (rbind (AddAtStart n b H) f) Q"
  using assms(2) by (intro yields_bind [OF AddAtStart_ok [OF assms(1)]]) auto

lemma AddAtEnd_bind:
  assumes "live_ok H (add_mset b B)"
    and "\<And>b' H' xs. live_ok H' (add_mset b' B) \<Longrightarrow> frame H H' B \<Longrightarrow> back_free n b' B \<Longrightarrow> stays b b' B \<Longrightarrow>
      zero_size b' = zero_size b \<Longrightarrow> length xs = n \<Longrightarrow> contents H' b' = contents H b @ xs \<Longrightarrow> yields (f (b', H')) Q"
  shows "yields (rbind (AddAtEnd n b H) f) Q"
  using assms(2) by (intro yields_bind [OF AddAtEnd_ok [OF assms(1)]]) auto

lemma Initialize_bind:
  assumes "live_ok H B"
    and "\<And>b H'. live_ok H' (add_mset b B) \<Longrightarrow> frame H H' B \<Longrightarrow> contents H' b = replicate z (Some 0) \<Longrightarrow>
      zero_size b = z \<Longrightarrow> uses B (b_data b) = 0 \<Longrightarrow> yields (f (b, H')) Q"
  shows "yields (rbind (Initialize z H) f) Q"
  using assms(2) by (intro yields_bind [OF Initialize_ok [OF assms(1)]]) auto

lemma live_swap: "live_ok H (add_mset a (add_mset b B)) = live_ok H (add_mset b (add_mset a B))"
  by (simp add: add_mset_commute)

lemma CreateFullCopy_ok:
  assumes live: "live_ok H (add_mset b B)"
  shows "yields (CreateFullCopy b H) (\<lambda>(t, H'). live_ok H' (add_mset t (add_mset b B)) \<and> frame H H' (add_mset b B) \<and>
     contents H' t = contents H b \<and> zero_size t = 0 \<and>
     (if zero_size b = 0 then b_data t = b_data b else \<forall>c \<in># add_mset b B. b_data c \<noteq> b_data t))"
proof (cases "zero_size b = 0")
  case True
  obtain t H' where t: "Buffer_copy b H = (t, H')" by fastforce
  from copy_ok [OF live t] show ?thesis using True t by (simp add: CreateFullCopy_def)
next
  case False
  let ?B = "add_mset b B"
  let ?A = "take (b_zeroAreaStart b - b_start b) (contents H b)" and ?Z = "replicate (zero_size b) (Some 0) :: cell list"
  let ?C = "drop (b_zeroAreaEnd b - b_start b) (contents H b)"
  note whole = read_parts(3) [OF live]
  have lens: "length ?A = b_zeroAreaStart b - b_start b" "length ?C = b_end b - b_zeroAreaEnd b"
    using live_D(1) [OF live] length_contents [OF live] by (auto simp: buf_ok_def Buffer_GetSize_def)
  define own where "own t \<longleftrightarrow> (\<forall>c \<in># ?B. b_data c \<noteq> b_data t)" for t :: buffer
  have own: "own t" if "own t0" "stays t0 t ?B" for t t0 using that by (auto simp: own_def stays_def)
  have same: "contents H' b = contents H b" if "frame H H' ?B" for H' using that by simp
  note reads = read_parts(1,2) [where b = b, OF live_swap [THEN iffD1]]
  have "yields (CreateFullCopy b H) (\<lambda>(t, H'). live_ok H' (add_mset t ?B) \<and> frame H H' ?B \<and>
     contents H' t = contents H b \<and> zero_size t = 0 \<and> own t)"
    unfolding CreateFullCopy_def Let_def if_P [OF False]
  proof (rule Initialize_bind [OF live, of 0], unfold prod.case, rule AddAtStart_bind, assumption, goal_cases)
    case (1 t H1 t1 H2 xs)
    obtain i3 H3 where H3: "it_WriteU8_len 0 (zero_size b) (Begin t1) H2 = Inr (i3, H3)" "live_ok H3 (add_mset t1 ?B)"
      "frame H2 H3 ?B" "contents H3 t1 = ?Z"
      using it_WriteU8_len_front [OF 1(6,8), of xs "contents H1 t" 0] 1 by auto
    have fr3: "frame H H3 ?B" using 1(2,7) H3(3) by (blast intro: frame_trans)
    have own1: "own t1" "zero_size t1 = 0" using 1 own [of t t1] by (simp_all add: own_def uses_0)
    show ?case
      unfolding prod.case H3(1) rbind_Inr
    proof (rule AddAtStart_bind [OF H3(2)], goal_cases)
      case A: (1 t2 H4 ys)
      have fr4: "frame H H4 ?B" using fr3 A(2) by (rule frame_trans)
      have free: "front_free (length ?A) t2 ?B" using A(3) lens(1) by simp
      obtain i5 H5 where H5: "it_Write ?A (Begin t2) H4 = Inr (i5, H5)" "live_ok H5 (add_mset t2 ?B)" "frame H4 H5 ?B"
        "contents H5 t2 = ?A @ ?Z"
        using it_Write_front [OF A(1) free, of ys ?Z] A(6,7) H3(4) lens(1) by auto
      have fr5: "frame H H5 ?B" using fr4 H5(3) by (rule frame_trans)
      have own2: "own t2" "zero_size t2 = 0" using own [OF own1(1) A(4)] A(5) own1(2) by simp_all
      show ?case
        unfolding prod.case reads(1) [OF A(1)] same [OF fr4] rbind_Inr H5(1)
      proof (rule AddAtEnd_bind [OF H5(2)], goal_cases)
        case C: (1 t3 H6 zs)
        have fr6: "frame H H6 ?B" using fr5 C(2) by (rule frame_trans)
        have free: "back_free (length ?C) t3 ?B" using C(3) lens(2) by simp
        obtain i7 H7 where H7: "it_Write ?C (Construct t3 (b_end t3 - length ?C)) H6 = Inr (i7, H7)"
          "live_ok H7 (add_mset t3 ?B)" "frame H6 H7 ?B" "contents H7 t3 = (?A @ ?Z) @ ?C"
          using it_Write_back [OF C(1) free, of "?A @ ?Z" zs] C(6,7) H5(4) lens(2) by auto
        have fr7: "frame H H7 ?B" using fr6 H7(3) by (rule frame_trans)
        have own3: "own t3" "zero_size t3 = 0" using own [OF own2(1) C(4)] C(5) own2(2) by simp_all
        have prev: "it_Prev (b_end b - b_zeroAreaEnd b) (End t3) = Inr (Construct t3 (b_end t3 - length ?C))"
          using back_zone(1) [OF C(1) free] it_Prev_End lens(2) by simp
        have "contents H7 t3 = contents H b" using H7(4) whole by simp
        then show ?case
          unfolding prod.case prev reads(2) [OF C(1)] same [OF fr6] rbind_Inr H7(1)
          using H7(2) fr7 own3 by simp
      qed
    qed
  qed
  then show ?thesis using False by (auto simp: own_def elim: yields_mono)
qed

lemma TransformIntoRealBuffer_ok:
  assumes live: "live_ok H (add_mset b B)"
  shows "yields (TransformIntoRealBuffer b H) (\<lambda>(b', H'). live_ok H' (add_mset b' B) \<and> frame H H' B \<and>
     contents H' b' = contents H b \<and> zero_size b' = 0 \<and>
     (if zero_size b = 0 then b_data b' = b_data b else \<forall>c \<in># B. b_data c \<noteq> b_data b'))"
  unfolding TransformIntoRealBuffer_def
proof (rule yields_bind [OF CreateFullCopy_ok [OF live]], clarify)
  fix t H1
  assume t: "live_ok H1 (add_mset t (add_mset b B))" "frame H H1 (add_mset b B)" "contents H1 t = contents H b" "zero_size t = 0"
    "if zero_size b = 0 then b_data t = b_data b else \<forall>c \<in># add_mset b B. b_data c \<noteq> b_data t"
  have "live_ok H1 (add_mset b (add_mset t B))" using t(1) by (simp only: live_swap)
  from assign_ok [OF this, of t] obtain H2 where H2: "Buffer_assign b t H1 = Inr (t, H2)"
    "live_ok H2 (add_mset t (add_mset t B))" "frame H1 H2 (add_mset t B)" by auto
  from destroy_ok [OF H2(2)] obtain H3 where H3: "Buffer_destroy t H2 = Inr H3" "live_ok H3 (add_mset t B)"
    "frame H2 H3 (add_mset t B)" by blast
  show "yields (rbind (Buffer_assign b t H1) (\<lambda>(b', H2). rbind (Buffer_destroy t H2) (\<lambda>H3. Inr (b', H3))))
     (\<lambda>(b', H'). live_ok H' (add_mset b' B) \<and> frame H H' B \<and> contents H' b' = contents H b \<and> zero_size b' = 0 \<and>
       (if zero_size b = 0 then b_data b' = b_data b else \<forall>c \<in># B. b_data c \<noteq> b_data b'))"
    using t(2-5) H2(1,3) H3 by (auto simp: frame_def)
qed

section \<open>Concatenation\<close>

text \<open>The whole of another buffer, written into fresh room at the back of a buffer without a zero area.\<close>

lemma it_Write_iter_ok:
  assumes live: "live_ok H (add_mset b B)" and free: "back_free (Buffer_GetSize c) b B" and zero: "zero_size b = 0"
    and c: "c \<in># B" "b_data c \<noteq> b_data b" and ys: "contents H b = zs @ ys" "length ys = Buffer_GetSize c"
  shows "\<exists>i H'. it_Write_iter (Begin c) (End c) (Construct b (b_end b - Buffer_GetSize c)) H = Inr (i, H') \<and>
    live_ok H' (add_mset b B) \<and> frame H H' B \<and> contents H' b = zs @ contents H c"
proof -
  let ?n = "Buffer_GetSize c" and ?p = "GetInternalEnd b - Buffer_GetSize c"
  obtain B' where B: "B = add_mset c B'" using c(1) by (meson mset_add)
  have live_c: "live_ok H1 (add_mset c (add_mset b B'))" if "live_ok H1 (add_mset b B)" for H1
    using that by (simp add: B add_mset_commute)
  let ?A = "take (b_zeroAreaStart c - b_start c) (contents H c)" and ?Z = "replicate (zero_size c) (Some 0) :: cell list"
  let ?C = "drop (b_zeroAreaEnd c - b_start c) (contents H c)"
  have le: "b_start c \<le> b_zeroAreaStart c" "b_zeroAreaStart c \<le> b_zeroAreaEnd c" "b_zeroAreaEnd c \<le> b_end c"
    using live_D(1) [OF live_c [OF live]] by (simp_all add: buf_ok_def)
  have lens: "length ?A = b_zeroAreaStart c - b_start c" "length ?C = b_end c - b_zeroAreaEnd c"
    using le length_contents [OF live_c [OF live]] by (auto simp: Buffer_GetSize_def)
  have sum: "length ?A + (zero_size c + length ?C) = ?n" using le lens by (simp add: zero_size_def Buffer_GetSize_def)
  note zone = back_zone [OF live free]
  have pos: "b_end b - ?n = ?p" using zone(4) zero by (simp split: if_splits)
  have reads: "read_bytes (b_data c) (b_start c) (b_zeroAreaStart c - b_start c) H1 = Inr ?A"
    "read_bytes (b_data c) (b_zeroAreaStart c) (b_end c - b_zeroAreaEnd c) H1 = Inr ?C"
    if "live_ok H1 (add_mset b B)" "contents H1 c = contents H c" for H1
    using read_parts(1,2) [OF live_c [OF that(1)]] that(2) by simp_all
  obtain H1 where H1: "write_bytes (b_data b) (?p + 0) ?A H = Inr H1" "live_ok H1 (add_mset b B)" "frame H H1 B"
    "contents H1 b = zs @ overwrite 0 ?A ys"
    using write_back [OF live free ys, of 0 ?A] sum by auto
  have fit2: "length ?A + length ?Z \<le> ?n" and l1: "length (overwrite 0 ?A ys) = ?n" using sum ys(2) by simp_all
  obtain H2 where H2: "write_bytes (b_data b) (?p + length ?A) ?Z H1 = Inr H2" "live_ok H2 (add_mset b B)" "frame H1 H2 B"
    "contents H2 b = zs @ overwrite (length ?A) ?Z (overwrite 0 ?A ys)"
    using write_back [OF H1(2) free H1(4) l1 fit2] by blast
  have fit3: "length ?A + zero_size c + length ?C \<le> ?n"
    and l2: "length (overwrite (length ?A) ?Z (overwrite 0 ?A ys)) = ?n" using sum l1 by simp_all
  obtain H3 where H3: "write_bytes (b_data b) (?p + (length ?A + zero_size c)) ?C H2 = Inr H3" "live_ok H3 (add_mset b B)"
    "frame H2 H3 B" "contents H3 b = zs @ overwrite (length ?A + zero_size c) ?C (overwrite (length ?A) ?Z (overwrite 0 ?A ys))"
    using write_back [OF H2(2) free H2(4) l2 fit3] by blast
  have fr: "frame H H2 B" "frame H H3 B" using H1(3) H2(3) H3(3) by (blast intro: frame_trans)+
  have "contents H1 c = contents H c" "contents H2 c = contents H c" using H1(3) fr(1) c(1) by (auto simp: frame_def)
  note r1 = reads(1) [OF live refl] and r3 = reads(2) [OF H2(2) this(2)]
  have "overwrite (length ?A + zero_size c) ?C (overwrite (length ?A) ?Z (overwrite 0 ?A ys)) = ?A @ ?Z @ ?C"
    using sum ys(2) lens by (simp add: overwrite_def)
  also have "\<dots> = contents H c" using read_parts(3) [OF live_c [OF live]] by simp
  finally have final: "contents H3 b = zs @ contents H c" using H3(4) by simp
  define nA nC z p where "nA = length ?A" and "nC = length ?C" and "z = zero_size c" and "p = ?p"
  have off: "b_zeroAreaStart c = b_start c + nA" "b_zeroAreaEnd c = b_start c + nA + z" "b_end c = b_start c + nA + z + nC"
    "?n = nA + z + nC" using le lens sum by (simp_all add: nA_def nC_def z_def zero_size_def)
  have guard: "CheckNoZero p (p + (nA + z + nC)) (Construct b p)" and pos': "b_end b - (nA + z + nC) = p"
    using zone(3) [of p] pos off(4) by (simp_all add: p_def)
  note writes = H1(1) H2(1) H3(1) and rd = r1 r3
  have rd: "read_bytes (b_data c) (b_start c) nA H = Inr ?A" "read_bytes (b_data c) (b_start c + nA) nC H2 = Inr ?C"
    using r1 r3 off by simp_all
  have wr: "write_bytes (b_data b) p ?A H = Inr H1" "write_bytes (b_data b) (p + nA) (replicate z (Some 0)) H1 = Inr H2"
    "write_bytes (b_data b) (p + (nA + z)) ?C H2 = Inr H3"
    using H1(1) H2(1) H3(1) by (simp_all add: nA_def z_def p_def)
  have "\<exists>i. it_Write_iter (Begin c) (End c) (Construct b p) H = Inr (i, H3)"
    unfolding it_Write_iter_def Begin_def End_def Construct_sel Let_def off(1-3) z_def [symmetric]
    using c(2) guard rd wr by (simp add: min.absorb1 min.absorb2 add.assoc)
  then show ?thesis using H3(2) fr(2) final pos' off(4) by (simp only:) blast
qed

text \<open>Where the concatenation is right: no data behind a zero area that merges, and two blocks otherwise.\<close>

definition append_safe :: "buffer \<Rightarrow> buffer \<Rightarrow> memory \<Rightarrow> bool" where
  "append_safe b other H \<longleftrightarrow>
     (if adjacent_zeros b other H then b_end other = b_zeroAreaEnd other else b_data b \<noteq> b_data other \<or> zero_size b \<noteq> 0)"

text \<open>The first half of the merging branch: one zero area, and the dirty end behind it.\<close>

definition merged :: "buffer \<Rightarrow> buffer \<Rightarrow> buffer" where
  "merged b other =
     (let b1 = (if b_zeroAreaStart b = b_zeroAreaEnd b then b\<lparr>b_zeroAreaStart := b_end b\<rparr> else b) in
      b1\<lparr>b_zeroAreaEnd := b_end b + zero_size other, b_end := b_end b + zero_size other\<rparr>)"

definition merged_memory :: "buffer \<Rightarrow> buffer \<Rightarrow> memory \<Rightarrow> memory" where
  "merged_memory b other H = on_block (b_data b) (\<lambda>d. d\<lparr>d_dirtyEnd := b_end b + zero_size other\<rparr>) H"

lemma AddAtEnd_Buffer_merge:
  assumes "adjacent_zeros b c H"
  shows "AddAtEnd_Buffer c b H = fits32 (b_end b + zero_size c)
     (rbind (AddAtEnd (b_end c - b_zeroAreaEnd c) (merged b c) (merged_memory b c H)) (\<lambda>(b3, H2).
      rbind (it_Prev (b_end c - b_zeroAreaEnd c) (End b3)) (\<lambda>dst.
      rbind (it_Prev (b_end c - b_zeroAreaEnd c) (End c)) (\<lambda>src.
      rbind (it_Write_iter src (End c) dst H2) (\<lambda>(_, H3). Inr (b3, H3))))))"
  unfolding AddAtEnd_Buffer_def if_P [OF assms] merged_def merged_memory_def Let_def
  by (cases "b_zeroAreaStart b = b_zeroAreaEnd b") simp_all

lemma merged_data [simp]: "b_data (merged b c) = b_data b"
  by (simp add: merged_def Let_def)

lemma merged_ok:
  assumes live: "live_ok H (add_mset b B)" and True: "adjacent_zeros b c H"
  shows "b_end b + zero_size c < 4294967296 \<Longrightarrow> live_ok (merged_memory b c H) (add_mset (merged b c) B)"
    "frame H (merged_memory b c H) B"
    "contents (merged_memory b c H) (merged b c) = contents H b @ replicate (zero_size c) (Some 0)"
    "zero_size c \<le> zero_size (merged b c)"
    "\<And>a. a \<in># B \<Longrightarrow> b_data a \<noteq> b_data b"
proof -
  let ?d = "h_block H (b_data b)"
  define z where "z = zero_size c"
  define e where "e = b_end b + z"
  define b1 where "b1 = (if b_zeroAreaStart b = b_zeroAreaEnd b then b\<lparr>b_zeroAreaStart := b_end b\<rparr> else b)"
  define b2 where "b2 = b1\<lparr>b_zeroAreaEnd := e, b_end := e\<rparr>"
  define H1 where "H1 = on_block (b_data b) (\<lambda>d. d\<lparr>d_dirtyEnd := e\<rparr>) H"
  have m: "merged b c = b2" "merged_memory b c H = H1"
    by (simp_all add: merged_def merged_memory_def b2_def b1_def H1_def e_def z_def Let_def)
  have adj: "d_count ?d = 1" "b_end b = b_zeroAreaEnd b \<or> b_zeroAreaStart b = b_zeroAreaEnd b"
    using True unfolding adjacent_zeros_def by blast+
  have own: "\<And>a. a \<in># B \<Longrightarrow> b_data a \<noteq> b_data b" using alone_if_count_1 [OF live adj(1)] by blast
  have ok: "buf_ok ?d b" and mem: "mem_ok H (uses (add_mset b B))" and len: "length (d_bytes ?d) = d_size ?d"
    using live_D [OF live] by blast+
  have le: "b_start b \<le> b_zeroAreaStart b" "b_zeroAreaStart b \<le> b_zeroAreaEnd b" "b_zeroAreaEnd b \<le> b_end b"
    "GetInternalEnd b \<le> d_size ?d" using ok by (simp_all add: buf_ok_def)
  have data: "b_data b2 = b_data b" by (simp add: b2_def b1_def)
  have grow: "GetInternalEnd b2 = GetInternalEnd b \<and> b_start b2 = b_start b \<and> b_start b2 \<le> b_zeroAreaStart b2 \<and>
      b_zeroAreaStart b2 \<le> b_zeroAreaEnd b2 \<and> b_zeroAreaEnd b2 = e \<and> b_end b2 = e"
    using adj(2) le by (auto simp: b2_def b1_def GetInternalEnd_def zero_size_def e_def)
  have mem1: "mem_ok H1 (uses (add_mset b2 B))"
    unfolding H1_def using mem_ok_update [OF mem, of "\<lambda>d. d\<lparr>d_dirtyEnd := e\<rparr>" "b_data b"] len data by (simp add: uses_add)
  have live1: "live_ok H1 (add_mset b2 B)" if "e < 4294967296"
    by (rule live_same_block [OF live data mem1]) (use own ok grow that in \<open>auto simp: H1_def buf_ok_def\<close>)
  have fr1: "frame H H1 B" by (rule frame_bytes) (simp add: H1_def)
  have contents1: "contents H1 b2 = contents H b @ replicate z (Some 0)"
  proof (cases "b_zeroAreaStart b = b_zeroAreaEnd b")
    case T: True
    have "piece (b_start b) (b_end b) (d_bytes ?d) =
        piece (b_start b) (b_zeroAreaStart b) (d_bytes ?d) @ piece (b_zeroAreaStart b) (b_end b) (d_bytes ?d)"
      using le by (intro piece_append) simp_all
    moreover have "GetInternalEnd b = b_end b" "zero_size b = 0" using T by (simp_all add: GetInternalEnd_def zero_size_def)
    moreover have "b_zeroAreaStart b2 = b_end b" "zero_size b2 = z" using T by (simp_all add: b2_def b1_def zero_size_def e_def)
    ultimately show ?thesis using data grow by (simp add: contents_def block_contents_def H1_def)
  next
    case F: False
    then have "b_end b = b_zeroAreaEnd b" using adj(2) by simp
    then have "GetInternalEnd b = b_zeroAreaStart b" "zero_size b2 = zero_size b + z" "b_zeroAreaStart b2 = b_zeroAreaStart b"
      using F le by (simp_all add: b2_def b1_def GetInternalEnd_def zero_size_def e_def)
    then show ?thesis using data grow by (simp add: contents_def block_contents_def H1_def replicate_add)
  qed
  show "live_ok (merged_memory b c H) (add_mset (merged b c) B)" if "b_end b + zero_size c < 4294967296"
    using live1 that by (simp add: m e_def z_def)
  show "frame H (merged_memory b c H) B" using fr1 by (simp add: m)
  show "contents (merged_memory b c H) (merged b c) = contents H b @ replicate (zero_size c) (Some 0)"
    using contents1 by (simp add: m z_def)
  show "zero_size c \<le> zero_size (merged b c)"
    using adj(2) le by (auto simp: m b2_def b1_def zero_size_def e_def z_def)
  show "b_data a \<noteq> b_data b" if "a \<in># B" for a using own that .
qed

lemma AddAtEnd_Buffer_ok:
  assumes live: "live_ok H (add_mset b B)" and c: "c \<in># B" and safe: "append_safe b c H"
  shows "yields (AddAtEnd_Buffer c b H) (\<lambda>(b', H'). live_ok H' (add_mset b' B) \<and> frame H H' B \<and>
     contents H' b' = contents H b @ contents H c)"
proof (cases "adjacent_zeros b c H")
  case False
  have apart: "b_data b \<noteq> b_data c \<or> zero_size b \<noteq> 0" using safe False by (simp add: append_safe_def)
  let ?n = "Buffer_GetSize c"
  show ?thesis
    unfolding AddAtEnd_Buffer_def if_not_P [OF False]
  proof (rule yields_bind [OF TransformIntoRealBuffer_ok [OF live]], clarify, rule AddAtEnd_bind, assumption, goal_cases)
    case (1 b1 H1 b2 H2 xs)
    have fr: "frame H H2 B" using 1(3,8) by (rule frame_trans)
    have "b_data c \<noteq> b_data b1" using 1(6) apart c by (auto split: if_splits)
    then have other: "b_data c \<noteq> b_data b2" using 1(10) c by (auto simp: stays_def)
    have zero: "zero_size b2 = 0" using 1(5,11) by simp
    obtain i H3 where H3: "it_Write_iter (Begin c) (End c) (Construct b2 (b_end b2 - ?n)) H2 = Inr (i, H3)"
      "live_ok H3 (add_mset b2 B)" "frame H2 H3 B" "contents H3 b2 = contents H1 b1 @ contents H2 c"
      using it_Write_iter_ok [OF 1(7,9) zero c other 1(13,12)] by blast
    have prev: "it_Prev ?n (End b2) = Inr (Construct b2 (b_end b2 - ?n))"
      by (rule it_Prev_End [OF back_zone(1) [OF 1(7,9)]])
    have "contents H2 c = contents H c" using fr c by (simp add: frame_def)
    then have "contents H3 b2 = contents H b @ contents H c" using H3(4) 1(4) by simp
    moreover have "frame H H3 B" using fr H3(3) by (rule frame_trans)
    ultimately show ?case unfolding prod.case prev rbind_Inr H3(1) using H3(2) by simp
  qed
next
  case True
  define z where "z = zero_size c"
  note m = merged_ok [OF live True]
  have adj: "b_start c = b_zeroAreaStart c"
    using True unfolding adjacent_zeros_def by blast
  have tail: "b_end c - b_zeroAreaEnd c = 0" using safe True by (simp add: append_safe_def)
  have "contents H c = replicate z (Some 0)"
  proof -
    obtain B' where B: "B = add_mset c B'" using c by (meson mset_add)
    have "live_ok H (add_mset c (add_mset b B'))" using live by (simp add: B add_mset_commute)
    from read_parts(3) [OF this] length_contents [OF this] show ?thesis
      using adj tail by (simp add: z_def Buffer_GetSize_def)
  qed
  then have whole: "contents (merged_memory b c H) (merged b c) = contents H b @ contents H c"
    using m(3) by (simp add: z_def)
  show ?thesis
    unfolding AddAtEnd_Buffer_merge [OF True] tail
  proof (intro yields_fits32, goal_cases)
    case 1
    show ?case
    proof (rule AddAtEnd_bind [OF m(1) [OF 1]], goal_cases)
      case 2: (1 b3 H2 xs)
      have "b_data b3 \<noteq> b_data c" using 2(4) m(5) [OF c] c by (auto simp: stays_def)
      moreover have "CheckNoZero (b_end b3) (b_end b3) (Construct b3 (b_end b3))"
        using live_D(1) [OF 2(1)] by (simp add: CheckNoZero_def buf_ok_def)
      ultimately have "\<exists>i. it_Write_iter (Construct c (b_end c)) (End c) (Construct b3 (b_end b3)) H2 = Inr (i, H2)"
        by (simp add: it_Write_iter_def End_def Let_def read_bytes_def write_bytes_def)
      then obtain i where wr: "it_Write_iter (Construct c (b_end c)) (End c) (Construct b3 (b_end b3)) H2 = Inr (i, H2)" ..
      have "frame H H2 B" using m(2) 2(2) by (rule frame_trans)
      moreover have "contents H2 b3 = contents H b @ contents H c" using 2(6,7) whole by simp
      ultimately show ?case
        using 2(1) it_Prev_End [of 0 b3] it_Prev_End [of 0 c] wr by simp
    qed
  qed
qed

end
