(* ===== verification/BufferReads.thy ===== *)
theory BufferReads
  imports BufferWrites
begin

text \<open>
  Reads through an iterator: byte by byte they give the bytes of the buffer and fail at its end, and
  the fast cases of \<open>ReadNtohU16\<close> and \<open>ReadNtohU32\<close> agree with the slow loop inside of it.
\<close>

lemma contents_nth:
  assumes live: "live_ok H (add_mset b B)" and p: "b_start b \<le> p" "p < b_end b"
  shows "contents H b ! (p - b_start b) =
    (if p < b_zeroAreaStart b then d_bytes (h_block H (b_data b)) ! p
     else if p < b_zeroAreaEnd b then Some 0
     else d_bytes (h_block H (b_data b)) ! (p - zero_size b))"
proof -
  let ?d = "h_block H (b_data b)"
  have ok: "buf_ok ?d b" and len: "length (d_bytes ?d) = d_size ?d" using live_D [OF live] by blast+
  obtain A C where parts: "contents H b = A @ replicate (zero_size b) (Some 0) @ C"
    "A = piece (b_start b) (b_zeroAreaStart b) (d_bytes ?d)" "C = piece (b_zeroAreaStart b) (GetInternalEnd b) (d_bytes ?d)"
    "length A = b_zeroAreaStart b - b_start b" "length C = b_end b - b_zeroAreaEnd b"
    using contents_parts [OF ok len] unfolding contents_def by metis
  have le: "b_start b \<le> b_zeroAreaStart b" "b_zeroAreaStart b \<le> b_zeroAreaEnd b" "b_zeroAreaEnd b \<le> b_end b"
    "GetInternalEnd b \<le> length (d_bytes ?d)" "GetInternalEnd b = b_zeroAreaStart b + (b_end b - b_zeroAreaEnd b)"
    "zero_size b = b_zeroAreaEnd b - b_zeroAreaStart b"
    using ok len by (auto simp: buf_ok_def GetInternalEnd_def zero_size_def)
  consider "p < b_zeroAreaStart b" | "b_zeroAreaStart b \<le> p" "p < b_zeroAreaEnd b" | "b_zeroAreaEnd b \<le> p" by linarith
  then show ?thesis
  proof cases
    case 1
    have "p - b_start b < length A" using 1 p parts(4) by linarith
    then have "contents H b ! (p - b_start b) = A ! (p - b_start b)" unfolding parts(1) by (simp add: nth_append)
    also have "\<dots> = d_bytes ?d ! p" using 1 p le by (simp add: parts(2) piece_def)
    finally show ?thesis using 1 by simp
  next
    case 2
    define x where "x = p - b_zeroAreaStart b"
    have "p - b_start b = length A + x" "x < zero_size b" using 2 p parts(4) le by (auto simp: x_def)
    then show ?thesis using 2 unfolding parts(1) by (simp add: nth_append)
  next
    case 3
    define x where "x = p - b_zeroAreaEnd b"
    have x: "p - b_start b = length A + (zero_size b + x)" "p - zero_size b = b_zeroAreaStart b + x"
      "x < GetInternalEnd b - b_zeroAreaStart b"
      using 3 p parts(4) le by (auto simp: x_def)
    have "contents H b ! (p - b_start b) = C ! x" unfolding parts(1) x(1) by (simp add: nth_append)
    also have "\<dots> = d_bytes ?d ! (p - zero_size b)" using x le by (simp add: parts(3) piece_def)
    finally show ?thesis using 3 le(2) by simp
  qed
qed

lemma PeekU8_ok:
  assumes live: "live_ok H (add_mset b B)" and p: "b_start b \<le> p" "p < b_end b"
  shows "it_PeekU8 (Construct b p) H = Inr (contents H b ! (p - b_start b))"
proof -
  let ?d = "h_block H (b_data b)"
  have ok: "buf_ok ?d b" and len: "length (d_bytes ?d) = d_size ?d" using live_D [OF live] by blast+
  have le: "b_zeroAreaStart b \<le> b_zeroAreaEnd b" "b_zeroAreaEnd b \<le> b_end b" "b_end b - zero_size b \<le> length (d_bytes ?d)"
    using ok len by (auto simp: buf_ok_def GetInternalEnd_def)
  have read: "read_bytes (b_data b) q 1 H = Inr [d_bytes ?d ! q]" if "q < length (d_bytes ?d)" for q
    using that by (simp add: read_bytes_def Let_def Suc_le_eq take_Suc_conv_app_nth [of 0, simplified] hd_drop_conv_nth)
  have "p < length (d_bytes ?d)" if "p < b_zeroAreaStart b"
    using that le by (simp add: zero_size_def)
  moreover have "p - zero_size b < length (d_bytes ?d)" if "b_zeroAreaEnd b \<le> p"
    using that p(2) le by (simp add: zero_size_def)
  ultimately show ?thesis
    using contents_nth [OF live p] p read by (auto simp: it_PeekU8_def)
qed

lemma it_Read_ok:
  assumes live: "live_ok H (add_mset b B)" and xs: "contents H b = map Some xs" and p: "b_start b \<le> p" "p \<le> b_end b"
  shows "it_Read n (Construct b p) H =
    (if p + n \<le> b_end b then Inr (take n (drop (p - b_start b) xs), Construct b (p + n)) else Inl NsAssert)"
  using p
proof (induction n arbitrary: p)
  case 0
  then show ?case by simp
next
  case (Suc n)
  have len: "length xs = b_end b - b_start b"
    using length_contents [OF live] xs by (simp add: Buffer_GetSize_def)
  show ?case
  proof (cases "p < b_end b")
    case True
    let ?k = "p - b_start b"
    have k: "?k < length xs" using True Suc.prems len by linarith
    have "it_ReadU8 (Construct b p) H = Inr (xs ! ?k, Construct b (Suc p))"
      using PeekU8_ok [OF live Suc.prems(1) True] xs k by (simp add: it_ReadU8_def Construct_def)
    moreover have "take (Suc n) (drop ?k xs) = xs ! ?k # take n (drop (Suc ?k) xs)"
      using k by (simp add: Cons_nth_drop_Suc [symmetric])
    moreover have "Suc p - b_start b = Suc ?k" using Suc.prems by simp
    ultimately show ?thesis using Suc.IH [of "Suc p"] Suc.prems True by simp
  next
    case False
    then show ?thesis using Suc.prems by (simp add: it_ReadU8_def it_PeekU8_def rguard_def)
  qed
qed

lemma read_run:
  assumes live: "live_ok H (add_mset b B)" and xs: "contents H b = map Some xs" and p: "b_start b \<le> p" "p + n \<le> b_end b"
    and run: "p + n \<le> b_zeroAreaStart b \<and> q = p \<or> b_zeroAreaEnd b \<le> p \<and> q = p - zero_size b"
  shows "read_bytes (b_data b) q n H = Inr (map Some (take n (drop (p - b_start b) xs)))"
proof -
  let ?d = "h_block H (b_data b)"
  have ok: "buf_ok ?d b" and len: "length (d_bytes ?d) = d_size ?d" using live_D [OF live] by blast+
  have le: "b_zeroAreaStart b \<le> b_zeroAreaEnd b" "b_zeroAreaEnd b \<le> b_end b" "b_end b - zero_size b \<le> length (d_bytes ?d)"
    using ok len by (auto simp: buf_ok_def GetInternalEnd_def)
  have fit: "q + n \<le> length (d_bytes ?d)" using run p le by (auto simp: zero_size_def)
  have size: "length xs = b_end b - b_start b"
    using length_contents [OF live] xs by (simp add: Buffer_GetSize_def)
  have "take n (drop q (d_bytes ?d)) = map Some (take n (drop (p - b_start b) xs))"
  proof (rule nth_equalityI)
    show "length (take n (drop q (d_bytes ?d))) = length (map Some (take n (drop (p - b_start b) xs)))"
      using fit p size by simp
    fix i assume "i < length (take n (drop q (d_bytes ?d)))"
    then have i: "i < n" "p + i < b_end b" using p fit by auto
    have "contents H b ! (p + i - b_start b) = d_bytes ?d ! (q + i)"
    proof -
      have "q + i = (if p + i < b_zeroAreaStart b then p + i else p + i - zero_size b)"
        "p + i < b_zeroAreaStart b \<or> b_zeroAreaEnd b \<le> p + i" using run i p le by (auto simp: zero_size_def)
      then show ?thesis using contents_nth [OF live, of "p + i"] i p le(1) by auto
    qed
    moreover have "contents H b ! (p + i - b_start b) = Some (xs ! (p - b_start b + i))"
      using xs size i p by (simp add: Nat.add_diff_assoc2)
    ultimately show "take n (drop q (d_bytes ?d)) ! i = map Some (take n (drop (p - b_start b) xs)) ! i"
      using i p fit size by simp
  qed
  then show ?thesis using fit by (simp add: read_bytes_def Let_def)
qed

lemma ReadNtoh_ok:
  assumes live: "live_ok H (add_mset b B)" and xs: "contents H b = map Some xs" and p: "b_start b \<le> p" "p + n \<le> b_end b"
  shows "it_ReadNtoh n (Construct b p) H = it_SlowReadNtoh n (Construct b p) H"
    "it_ReadNtoh n (Construct b p) H = Inr (big_endian (take n (drop (p - b_start b) xs)), Construct b (p + n))"
proof -
  have slow: "it_SlowReadNtoh n (Construct b p) H = Inr (big_endian (take n (drop (p - b_start b) xs)), Construct b (p + n))"
    using it_Read_ok [OF live xs, of p n] p by (simp add: it_SlowReadNtoh_def)
  have move: "Construct b p\<lparr>it_current := p + n\<rparr> = Construct b (p + n)" by (simp add: Construct_def)
  have good: "list_all (\<lambda>c. c \<noteq> None) (map Some ys)" "map the (map Some ys) = ys" for ys :: "u8 list"
    by (simp_all add: list_all_iff)
  show "it_ReadNtoh n (Construct b p) H = Inr (big_endian (take n (drop (p - b_start b) xs)), Construct b (p + n))"
    using slow read_run [OF live xs p] move good by (simp add: it_ReadNtoh_def Let_def)
  then show "it_ReadNtoh n (Construct b p) H = it_SlowReadNtoh n (Construct b p) H" using slow by simp
qed

end
