(* ===== verification/BufferCodec.thy ===== *)
theory BufferCodec
  imports BufferReads
begin

text \<open>
  Bytes out of a buffer and back: \<open>CopyData\<close> into an array and into a stream, and \<open>Serialize\<close> and
  \<open>Deserialize\<close>, which keep the zero area as a number.  Words in an array have the byte order of the
  host, which is taken to be little-endian.
\<close>

section \<open>Copies of the data\<close>

definition g_zeroes_size :: nat where "g_zeroes_size = 1000"

text \<open>The loop over the zero area writes blocks of zeroes.\<close>

function copy_zeroes :: "nat \<Rightarrow> cell list" where
  "copy_zeroes left =
     (if 0 < left then
        (let toWrite = min left g_zeroes_size in replicate toWrite (Some 0) @ copy_zeroes (left - toWrite))
      else [])"
  by pat_completeness auto
termination
  by (relation "measure id") (auto simp: g_zeroes_size_def)

declare copy_zeroes.simps [simp del]

definition CopyData :: "nat \<Rightarrow> buffer \<Rightarrow> memory \<Rightarrow> (cell list \<times> nat) res" where
  "CopyData len b H =
     (if 0 < len then
        (let n1 = min (b_zeroAreaStart b - b_start b) len; size1 = len - n1 in
         rbind (read_bytes (b_data b) (b_start b) n1 H) (\<lambda>xs.
         if 0 < size1 then
           (let n2 = min (zero_size b) size1; zs = copy_zeroes n2; size2 = size1 - n2 in
            if 0 < size2 then
              (let n3 = min (b_end b - b_zeroAreaEnd b) size2 in
               rbind (read_bytes (b_data b) (b_zeroAreaStart b) n3 H) (\<lambda>ys.
               Inr (xs @ zs @ ys, len - (size2 - n3))))
            else Inr (xs @ zs, len - size2))
         else Inr (xs, len - size1)))
      else Inr ([], 0))"

definition CopyData_stream :: "nat \<Rightarrow> buffer \<Rightarrow> memory \<Rightarrow> cell list res" where
  "CopyData_stream len b H =
     (if 0 < len then
        (let n1 = min (b_zeroAreaStart b - b_start b) len in
         rbind (read_bytes (b_data b) (b_start b) n1 H) (\<lambda>xs.
         if n1 < len then
           (let size1 = len - (b_zeroAreaStart b - b_start b); n2 = min (zero_size b) size1; zs = copy_zeroes n2 in
            if n2 < size1 then
              (let size2 = size1 - n2; n3 = min (b_end b - b_zeroAreaEnd b) size2 in
               rbind (read_bytes (b_data b) (b_zeroAreaStart b) n3 H) (\<lambda>ys. Inr (xs @ zs @ ys)))
            else Inr (xs @ zs))
         else Inr xs))
      else Inr [])"

lemma copy_zeroes: "copy_zeroes n = replicate n (Some 0)"
proof (induction n rule: copy_zeroes.induct)
  case (1 left)
  show ?case
  proof (cases "0 < left")
    case True
    let ?w = "min left g_zeroes_size"
    have "copy_zeroes left = replicate ?w (Some 0) @ replicate (left - ?w) (Some 0)"
      using 1 [OF True refl] True by (subst copy_zeroes.simps) (simp add: Let_def)
    also have "\<dots> = replicate left (Some 0)" by (simp add: replicate_add [symmetric])
    finally show ?thesis .
  qed (simp add: copy_zeroes.simps)
qed

lemma read_parts_take:
  assumes live: "live_ok H (add_mset b B)"
  shows "n \<le> b_zeroAreaStart b - b_start b \<Longrightarrow> read_bytes (b_data b) (b_start b) n H = Inr (take n (contents H b))"
    "n \<le> b_end b - b_zeroAreaEnd b \<Longrightarrow>
      read_bytes (b_data b) (b_zeroAreaStart b) n H = Inr (take n (drop (b_zeroAreaEnd b - b_start b) (contents H b)))"
proof -
  have less: "read_bytes k a m H = Inr (take m xs)" if "read_bytes k a n H = Inr xs" "m \<le> n" for k a m n xs
    using that by (auto simp: read_bytes_def Let_def rguard_def min_def split: if_splits)
  show "n \<le> b_zeroAreaStart b - b_start b \<Longrightarrow> read_bytes (b_data b) (b_start b) n H = Inr (take n (contents H b))"
    using less [OF read_parts(1) [OF live]] by (simp add: min_def)
  show "n \<le> b_end b - b_zeroAreaEnd b \<Longrightarrow>
      read_bytes (b_data b) (b_zeroAreaStart b) n H = Inr (take n (drop (b_zeroAreaEnd b - b_start b) (contents H b)))"
    using less [OF read_parts(2) [OF live]] .
qed

lemma copy_parts:
  assumes live: "live_ok H (add_mset b B)"
  obtains A C where "contents H b = A @ replicate (zero_size b) (Some 0) @ C" "length A = b_zeroAreaStart b - b_start b"
    "length C = b_end b - b_zeroAreaEnd b"
    "\<And>n. n \<le> length A \<Longrightarrow> read_bytes (b_data b) (b_start b) n H = Inr (take n A)"
    "\<And>n. n \<le> length C \<Longrightarrow> read_bytes (b_data b) (b_zeroAreaStart b) n H = Inr (take n C)"
    "Buffer_GetSize b = length A + zero_size b + length C"
proof -
  let ?A = "take (b_zeroAreaStart b - b_start b) (contents H b)" and ?C = "drop (b_zeroAreaEnd b - b_start b) (contents H b)"
  have le: "b_start b \<le> b_zeroAreaStart b" "b_zeroAreaStart b \<le> b_zeroAreaEnd b" "b_zeroAreaEnd b \<le> b_end b"
    using live_D(1) [OF live] by (simp_all add: buf_ok_def)
  have lens: "length ?A = b_zeroAreaStart b - b_start b" "length ?C = b_end b - b_zeroAreaEnd b"
    using le length_contents [OF live] by (auto simp: Buffer_GetSize_def)
  show ?thesis
  proof (rule that [OF read_parts(3) [OF live] lens])
    show "read_bytes (b_data b) (b_start b) n H = Inr (take n ?A)" if "n \<le> length ?A" for n
      using read_parts_take(1) [OF live, of n] that lens by (simp add: min_def)
    show "read_bytes (b_data b) (b_zeroAreaStart b) n H = Inr (take n ?C)" if "n \<le> length ?C" for n
      using read_parts_take(2) [OF live, of n] that lens by simp
    show "Buffer_GetSize b = length ?A + zero_size b + length ?C"
      unfolding lens using le by (simp add: Buffer_GetSize_def zero_size_def)
  qed
qed

lemma CopyData_ok:
  assumes live: "live_ok H (add_mset b B)"
  shows "CopyData n b H = Inr (take n (contents H b), min n (Buffer_GetSize b)) \<and>
    CopyData_stream n b H = Inr (take n (contents H b))"
proof (rule copy_parts [OF live])
  fix A C
  assume p: "contents H b = A @ replicate (zero_size b) (Some 0) @ C" "length A = b_zeroAreaStart b - b_start b"
    "length C = b_end b - b_zeroAreaEnd b" "Buffer_GetSize b = length A + zero_size b + length C"
    and rd: "\<And>n. n \<le> length A \<Longrightarrow> read_bytes (b_data b) (b_start b) n H = Inr (take n A)"
    "\<And>n. n \<le> length C \<Longrightarrow> read_bytes (b_data b) (b_zeroAreaStart b) n H = Inr (take n C)"
  consider "n \<le> length A" | "length A < n" "n \<le> length A + zero_size b" | "length A + zero_size b < n" by linarith
  then show ?thesis
  proof cases
    case 1
    then show ?thesis
      unfolding CopyData_def CopyData_stream_def p(2,3) [symmetric] p(1,4) copy_zeroes Let_def
      by (simp add: rd min.absorb1 min.absorb2)
  next
    case 2
    then show ?thesis
      unfolding CopyData_def CopyData_stream_def p(2,3) [symmetric] p(1,4) copy_zeroes Let_def
      by (simp add: rd min.absorb1 min.absorb2 le_diff_conv)
  next
    case 3
    define x where "x = n - (length A + zero_size b)"
    have n: "n = length A + zero_size b + x" "0 < x" using 3 by (simp_all add: x_def)
    show ?thesis
      unfolding CopyData_def CopyData_stream_def p(2,3) [symmetric] p(1,4) copy_zeroes Let_def n(1)
      using n(2) by (simp add: rd min.absorb1 min.absorb2) (cases "x \<le> length C"; simp add: rd min_def)
  qed
qed

section \<open>Serialization\<close>

definition pad4 :: "u32 \<Rightarrow> u32" where
  "pad4 n = (n + 3) AND NOT 3"

definition GetSerializedSize :: "buffer \<Rightarrow> u32" where
  "GetSerializedSize b =
     (let dataStart = pad4 (word_of_nat (b_zeroAreaStart b - b_start b));
          dataEnd = pad4 (word_of_nat (b_end b - b_zeroAreaEnd b)) in
      4 + 4 + dataStart + 4 + dataEnd)"

text \<open>A word in memory, and the bytes of a field of \<open>n\<close> bytes, filled up to a multiple of four.\<close>

definition word_bytes :: "u32 \<Rightarrow> cell list" where
  "word_bytes x = map (\<lambda>i. Some (ucast (drop_bit (8 * i) x))) [0, 1, 2, 3]"

definition field_bytes :: "cell list \<Rightarrow> cell list" where
  "field_bytes xs = xs @ replicate (unat (pad4 (word_of_nat (length xs))) - length xs) None"

text \<open>The bytes written to the array, or \<open>None\<close> where the source returns 0; \<open>len\<close> is the running size.\<close>

definition Buffer_Serialize :: "u32 \<Rightarrow> buffer \<Rightarrow> memory \<Rightarrow> cell list option res" where
  "Buffer_Serialize maxSize b H =
     (if maxSize < 0 + 4 then Inr None else
      let len = 0 + 4; w1 = word_bytes (word_of_nat (zero_size b)); dataStartLength = word_of_nat (b_zeroAreaStart b - b_start b) in
      if maxSize < len + 4 then Inr None else
      let len = len + 4; w2 = word_bytes dataStartLength in
      if maxSize < len + pad4 dataStartLength then Inr None else
      let len = len + pad4 dataStartLength in
      rbind (read_bytes (b_data b) (b_start b) (unat dataStartLength) H) (\<lambda>xs.
      let dataEndLength = word_of_nat (b_end b - b_zeroAreaEnd b) in
      if maxSize < len + 4 then Inr None else
      let len = len + 4; w3 = word_bytes dataEndLength in
      if maxSize < len + pad4 dataEndLength then Inr None else
      rbind (read_bytes (b_data b) (b_zeroAreaStart b) (unat dataEndLength) H) (\<lambda>ys.
      Inr (Some (w1 @ w2 @ field_bytes xs @ w3 @ field_bytes ys)))))"

definition fetch_bytes :: "cell list \<Rightarrow> nat \<Rightarrow> nat \<Rightarrow> cell list res" where
  "fetch_bytes bytes p n = rguard UndefinedBehaviour (p + n \<le> length bytes) (Inr (take n (drop p bytes)))"

definition little_endian :: "u8 list \<Rightarrow> u32" where
  "little_endian xs = foldr (\<lambda>x v. push_bit 8 v OR ucast x) xs 0"

definition fetch_word :: "cell list \<Rightarrow> nat \<Rightarrow> u32 res" where
  "fetch_word bytes p =
     rbind (fetch_bytes bytes p 4) (\<lambda>cs.
       if list_all (\<lambda>c. c \<noteq> None) cs then Inr (little_endian (map the cs)) else Inl UndefinedBehaviour)"

definition Buffer_Deserialize :: "cell list \<Rightarrow> u32 \<Rightarrow> memory \<Rightarrow> (buffer \<times> memory) res" where
  "Buffer_Deserialize bytes len H =
     (let sizeCheck = len - 4 in
      rguard NsAssert (4 \<le> sizeCheck)
      (rbind (fetch_word bytes 0) (\<lambda>zeroDataLength.
       let sizeCheck = sizeCheck - 4 in
       rbind (Initialize (unat zeroDataLength) H) (\<lambda>(b, H1).
       rguard NsAssert (4 \<le> sizeCheck)
       (rbind (fetch_word bytes 4) (\<lambda>dataStartLength.
        let sizeCheck = sizeCheck - 4 in
        rbind (AddAtStart (unat dataStartLength) b H1) (\<lambda>(b1, H2).
        rguard NsAssert (dataStartLength \<le> sizeCheck)
        (rbind (fetch_bytes bytes 8 (unat dataStartLength)) (\<lambda>xs.
         rbind (it_Write xs (Begin b1) H2) (\<lambda>(_, H3).
         let p = 8 + unat (pad4 dataStartLength); sizeCheck = sizeCheck - pad4 dataStartLength in
         rguard NsAssert (4 \<le> sizeCheck)
         (rbind (fetch_word bytes p) (\<lambda>dataEndLength.
          let sizeCheck = sizeCheck - 4 in
          rbind (AddAtEnd (unat dataEndLength) b1 H3) (\<lambda>(b2, H4).
          rguard NsAssert (dataEndLength \<le> sizeCheck)
          (rbind (it_Prev (unat dataEndLength) (End b2)) (\<lambda>i.
           rbind (fetch_bytes bytes (p + 4) (unat dataEndLength)) (\<lambda>ys.
           rbind (it_Write ys i H4) (\<lambda>(_, H5).
           let sizeCheck = sizeCheck - pad4 dataEndLength in
           rguard NsAssert (sizeCheck = 0) (Inr (b2, H5)))))))))))))))))))"

lemma unat_pad4:
  assumes "n + 3 < 2 ^ 32"
  shows "unat (pad4 (word_of_nat n)) = 4 * ((n + 3) div 4)" "n \<le> unat (pad4 (word_of_nat n))"
proof -
  have le: "4 * ((n + 3) div 4) < 2 ^ 32"
    using assms by (metis le_less_trans times_div_less_eq_dividend)
  have n: "unat (word_of_nat n + 3 :: u32) = n + 3"
  proof -
    have "(word_of_nat n + 3 :: u32) = word_of_nat (n + 3)" by simp
    then show ?thesis using assms unat_of_nat_u32 [of "n + 3"] by simp
  qed
  have clear: "y AND NOT (mask 2) = push_bit 2 (drop_bit 2 y)" for y :: u32
    by (rule bit_word_eqI) (auto simp: bit_simps simp del: add_2_eq_Suc add_2_eq_Suc')
  have "(3 :: u32) = mask 2" by (simp add: mask_eq_exp_minus_1)
  then have "pad4 (word_of_nat n) = push_bit 2 (drop_bit 2 (word_of_nat n + 3 :: u32))"
    unfolding pad4_def clear [symmetric] by (simp only:)
  moreover have "push_bit 2 (drop_bit 2 y) = y div 4 * 4" for y :: u32
    by (simp add: drop_bit_eq_div push_bit_eq_mult)
  moreover have "unat (y div 4 * 4) = 4 * (unat y div 4)" if "4 * (unat y div 4) < 2 ^ 32" for y :: u32
    using that by (simp add: unat_word_ariths unat_div_distrib)
  ultimately show "unat (pad4 (word_of_nat n)) = 4 * ((n + 3) div 4)" using n le by metis
  then show "n \<le> unat (pad4 (word_of_nat n))" by simp
qed

lemma little_endian_word: "little_endian (map the (word_bytes x)) = x"
  unfolding word_bytes_def little_endian_def
proof (rule bit_word_eqI)
  fix n assume n: "n < LENGTH(32)"
  consider "n < 8" | "8 \<le> n" "n < 16" | "16 \<le> n" "n < 24" | "24 \<le> n" by linarith
  then show "bit (foldr (\<lambda>(x :: u8) v. push_bit 8 v OR ucast x) (map the (map (\<lambda>i. Some (ucast (drop_bit (8 * i) x))) [0, 1, 2, 3])) 0 :: u32) n = bit x n"
    using n by cases (auto simp: bit_simps)
qed

lemma fetch_bytes_at: "p = length pre \<Longrightarrow> n = length xs \<Longrightarrow> fetch_bytes (pre @ xs @ post) p n = Inr xs"
  by (simp add: fetch_bytes_def)

lemma length_word_bytes [simp]: "length (word_bytes x) = 4"
  by (simp add: word_bytes_def)

lemma fetch_word_at: "p = length pre \<Longrightarrow> fetch_word (pre @ word_bytes x @ post) p = Inr x"
  using little_endian_word [of x] fetch_bytes_at [of p pre 4 "word_bytes x" post]
  by (simp add: fetch_word_def) (simp add: word_bytes_def)

text \<open>The serialized form of a buffer, in numbers.\<close>

definition padded :: "nat \<Rightarrow> nat" where
  "padded n = 4 * ((n + 3) div 4)"

lemma padded_bounds: "n \<le> padded n" "padded n \<le> n + 3"
  by (simp_all add: padded_def)

lemma pad4_nat: "n + 3 < 2 ^ 32 \<Longrightarrow> pad4 (word_of_nat n) = word_of_nat (padded n)"
  using unat_pad4(1) [of n] unat_of_nat_u32 [of "padded n"] padded_bounds(2) [of n] by (simp add: word_unat_eq_iff padded_def)

lemma length_field_bytes: "length xs + 3 < 2 ^ 32 \<Longrightarrow> length (field_bytes xs) = padded (length xs)"
  using unat_pad4 [of "length xs"] padded_bounds [of "length xs"] by (simp add: field_bytes_def padded_def)

lemma word_of_nat_less: "a < 2 ^ 32 \<Longrightarrow> b < 2 ^ 32 \<Longrightarrow> (word_of_nat a < (word_of_nat b :: u32)) = (a < b)"
  using unat_of_nat_u32 [of a] unat_of_nat_u32 [of b] by (simp add: word_less_nat_alt)

lemma word_of_nat_le: "a < 2 ^ 32 \<Longrightarrow> b < 2 ^ 32 \<Longrightarrow> (word_of_nat a \<le> (word_of_nat b :: u32)) = (a \<le> b)"
  using unat_of_nat_u32 [of a] unat_of_nat_u32 [of b] by (simp add: word_le_nat_alt)

definition serial_length :: "buffer \<Rightarrow> nat" where
  "serial_length b = 12 + padded (b_zeroAreaStart b - b_start b) + padded (b_end b - b_zeroAreaEnd b)"

lemma GetSerializedSize_nat:
  assumes "serial_length b < 2 ^ 32"
  shows "GetSerializedSize b = word_of_nat (serial_length b)"
proof -
  have "b_zeroAreaStart b - b_start b + 3 < 2 ^ 32" "b_end b - b_zeroAreaEnd b + 3 < 2 ^ 32"
    using assms padded_bounds [of "b_zeroAreaStart b - b_start b"] padded_bounds [of "b_end b - b_zeroAreaEnd b"]
    by (simp_all add: serial_length_def)
  then show ?thesis by (simp add: GetSerializedSize_def Let_def pad4_nat serial_length_def)
qed

lemma Serialize_ok:
  assumes live: "live_ok H (add_mset b B)" and fits: "serial_length b < 2 ^ 32" and m: "GetSerializedSize b \<le> m"
    and A: "A = take (b_zeroAreaStart b - b_start b) (contents H b)" and C: "C = drop (b_zeroAreaEnd b - b_start b) (contents H b)"
  shows "Buffer_Serialize m b H = Inr (Some (word_bytes (word_of_nat (zero_size b)) @ word_bytes (word_of_nat (length A)) @
    field_bytes A @ word_bytes (word_of_nat (length C)) @ field_bytes C))"
proof -
  have le: "b_start b \<le> b_zeroAreaStart b" "b_zeroAreaStart b \<le> b_zeroAreaEnd b" "b_zeroAreaEnd b \<le> b_end b"
    using live_D(1) [OF live] by (simp_all add: buf_ok_def)
  have len: "b_zeroAreaStart b - b_start b = length A" "b_end b - b_zeroAreaEnd b = length C"
    using le length_contents [OF live] by (auto simp: A C Buffer_GetSize_def)
  define a c where "a = padded (length A)" and "c = padded (length C)"
  have bounds: "length A \<le> a" "length C \<le> c" "12 + a + c < 2 ^ 32" "length A + 3 < 2 ^ 32" "length C + 3 < 2 ^ 32"
    using fits padded_bounds [of "length A"] padded_bounds [of "length C"] by (simp_all add: serial_length_def len a_def c_def)
  have m': "word_of_nat (12 + a + c) \<le> m"
    using m GetSerializedSize_nat [OF fits] by (simp only: serial_length_def len a_def c_def)
  have enough: "\<not> m < word_of_nat k" if "k \<le> 12 + a + c" for k
  proof -
    have "(word_of_nat k :: u32) \<le> word_of_nat (12 + a + c)" using that bounds(3) by (subst word_of_nat_le) simp_all
    then show ?thesis using m' by simp
  qed
  have sizes: "unat (word_of_nat (length A) :: u32) = length A" "unat (word_of_nat (length C) :: u32) = length C"
    using bounds by (simp_all add: unat_of_nat_u32)
  have pads: "pad4 (word_of_nat (length A)) = word_of_nat a" "pad4 (word_of_nat (length C)) = word_of_nat c"
    using bounds by (simp_all add: pad4_nat a_def c_def)
  have "\<not> m < 0 + 4" "\<not> m < 0 + 4 + 4" "\<not> m < 0 + 4 + 4 + word_of_nat a" "\<not> m < 0 + 4 + 4 + word_of_nat a + 4"
    "\<not> m < 0 + 4 + 4 + word_of_nat a + 4 + word_of_nat c"
    using enough [of 4] enough [of 8] enough [of "8 + a"] enough [of "12 + a"] enough [of "12 + a + c"]
    by (simp_all add: add.commute add.left_commute)
  moreover have "take (length A) (contents H b) = A" using A len(1) by simp
  ultimately show ?thesis
    using read_parts(1,2) [OF live] sizes unfolding Buffer_Serialize_def Let_def len pads C [symmetric] by simp
qed

lemma serial_roundtrip:
  assumes live: "live_ok H B" and fits: "16 + padded (length A) + padded (length C) < 2 ^ 32" and z: "z < 2 ^ 32"
  shows "yields (Buffer_Deserialize (word_bytes (word_of_nat z) @ word_bytes (word_of_nat (length A)) @
      field_bytes A @ word_bytes (word_of_nat (length C)) @ field_bytes C)
      (word_of_nat (16 + padded (length A) + padded (length C))) H)
    (\<lambda>(b', H'). live_ok H' (add_mset b' B) \<and> frame H H' B \<and> contents H' b' = A @ replicate z (Some 0) @ C \<and> zero_size b' = z)"
proof -
  define a c where "a = padded (length A)" and "c = padded (length C)"
  let ?w = "word_of_nat :: nat \<Rightarrow> u32"
  have bounds: "length A \<le> a" "length C \<le> c" "16 + a + c < 2 ^ 32" "length A + 3 < 2 ^ 32" "length C + 3 < 2 ^ 32"
    using fits padded_bounds [of "length A"] padded_bounds [of "length C"] by (simp_all add: a_def c_def)
  have pads: "pad4 (?w (length A)) = ?w a" "pad4 (?w (length C)) = ?w c"
    using bounds by (simp_all add: pad4_nat a_def c_def)
  have un: "unat (?w z) = z" "unat (?w (length A)) = length A" "unat (?w (length C)) = length C" "unat (?w a) = a"
    using bounds z by (simp_all add: unat_of_nat_u32)
  let ?s = "word_bytes (?w z) @ word_bytes (?w (length A)) @ field_bytes A @ word_bytes (?w (length C)) @ field_bytes C"
  obtain u v where uv: "field_bytes A = A @ u" "field_bytes C = C @ v" by (simp add: field_bytes_def)
  have lenA: "length (A @ u) = a" using length_field_bytes [OF bounds(4)] uv by (simp add: a_def)
  have fetch: "fetch_word ?s 0 = Inr (?w z)" "fetch_word ?s 4 = Inr (?w (length A))" "fetch_bytes ?s 8 (length A) = Inr A"
    "fetch_word ?s (8 + a) = Inr (?w (length C))" "fetch_bytes ?s (8 + a + 4) (length C) = Inr C"
    using fetch_word_at [of 0 "[]" "?w z"] fetch_word_at [of 4 "word_bytes (?w z)" "?w (length A)"]
      fetch_bytes_at [of 8 "word_bytes (?w z) @ word_bytes (?w (length A))" "length A" A]
      fetch_word_at [of "8 + a" "word_bytes (?w z) @ word_bytes (?w (length A)) @ field_bytes A" "?w (length C)"]
      fetch_bytes_at [of "8 + a + 4" "word_bytes (?w z) @ word_bytes (?w (length A)) @ field_bytes A @ word_bytes (?w (length C))" "length C" C]
      lenA by (simp_all add: uv)
  have sub: "?w (x + y) - ?w y = ?w x" for x y by simp
  have c1: "?w (16 + a + c) - 4 = ?w (12 + a + c)" and c2: "?w (12 + a + c) - 4 = ?w (8 + a + c)"
    and c3: "?w (8 + a + c) - 4 = ?w (4 + a + c)" and c4: "?w (4 + a + c) - ?w a = ?w (4 + c)" and c5: "?w (4 + c) - 4 = ?w c"
    by simp_all
  have g: "4 \<le> ?w (12 + a + c)" "4 \<le> ?w (8 + a + c)" "?w (length A) \<le> ?w (4 + a + c)" "4 \<le> ?w (4 + c)" "?w (length C) \<le> ?w c"
    using word_of_nat_le [of 4 "12 + a + c"] word_of_nat_le [of 4 "8 + a + c"] word_of_nat_le [of "length A" "4 + a + c"]
      word_of_nat_le [of 4 "4 + c"] word_of_nat_le [of "length C" c] bounds by simp_all
  show ?thesis
    unfolding Buffer_Deserialize_def Let_def a_def [symmetric] c_def [symmetric] c1 c2 c3 c4 c5 fetch rbind_Inr pads un
  proof (intro yields_guard [OF g(1)] Initialize_bind [OF live], unfold prod.case un,
      intro yields_guard [OF g(2)] AddAtStart_bind, assumption, unfold prod.case, intro yields_guard [OF g(3)], goal_cases)
    case (1 b H1 b1 H2 xs)
    obtain i3 H3 where H3: "it_Write A (Begin b1) H2 = Inr (i3, H3)" "live_ok H3 (add_mset b1 B)" "frame H2 H3 B"
      "contents H3 b1 = A @ replicate z (Some 0)"
      using it_Write_front [OF 1(6,8), of xs "replicate z (Some 0)"] 1(3,11,12) by auto
    show ?case
      unfolding H3(1) rbind_Inr prod.case
    proof (intro yields_guard [OF g(4)] AddAtEnd_bind [OF H3(2)], unfold prod.case, intro yields_guard [OF g(5)], goal_cases)
      case C: (1 b2 H4 ys)
      obtain i5 H5 where H5: "it_Write C (Construct b2 (b_end b2 - length C)) H4 = Inr (i5, H5)" "live_ok H5 (add_mset b2 B)"
        "frame H4 H5 B" "contents H5 b2 = (A @ replicate z (Some 0)) @ C"
        using it_Write_back [OF C(1,3), of "A @ replicate z (Some 0)" ys] C(6,7) H3(4) by auto
      have prev: "it_Prev (length C) (End b2) = Inr (Construct b2 (b_end b2 - length C))"
        using back_zone(1) [OF C(1,3)] it_Prev_End by simp
      have "frame H H5 B" using 1(2,7) H3(3) C(2) H5(3) by (blast intro: frame_trans)
      then show ?case
        unfolding prev rbind_Inr H5(1) prod.case using H5(2,4) 1(4,10) C(5) by (simp add: rguard_def)
    qed
  qed
qed

end
