(* ===== verification/BufferConcat.thy ===== *)
theory BufferConcat
  imports BufferWrites
begin

text \<open>
  What \<open>AddAtEnd (const Buffer&)\<close> does where it does not concatenate: the data behind a zero area that
  is merged lands behind its place, and a buffer that is written into the block of the other one
  stops at an assertion.
\<close>

section \<open>Data behind a merged zero area\<close>

text \<open>A range of bytes after the same number of bytes was written \<open>z\<close> places further on.\<close>

lemma piece_overwrite_shifted:
  assumes "length xs = n" "f + z + n \<le> length bs"
  shows "piece f (f + n) (overwrite (f + z) xs bs) = take z (piece f (f + n) bs) @ take (n - z) xs"
proof (cases "n \<le> z")
  case True
  then have "piece f (f + n) (overwrite (f + z) xs bs) = piece f (f + n) bs"
    using assms by (intro piece_overwrite_out) simp_all
  moreover have "length (piece f (f + n) bs) = n" using assms(2) by simp
  ultimately show ?thesis using True by simp
next
  case False
  let ?bs = "overwrite (f + z) xs bs"
  have "piece f (f + n) ?bs = piece f (f + z) ?bs @ piece (f + z) (f + n) ?bs"
    using False by (intro piece_append) simp_all
  also have "piece f (f + z) ?bs = piece f (f + z) bs"
    using assms by (intro piece_overwrite_out) simp_all
  also have "piece f (f + z) bs = take (f + z - f) (piece f (f + n) bs)"
    using assms(2) False by (intro piece_split_at) simp_all
  also have "piece (f + z) (f + n) ?bs = take (f + n - (f + z)) (piece (f + z) (f + z + n) ?bs)"
    using assms False by (intro piece_split_at) simp_all
  also have "piece (f + z) (f + z + n) ?bs = xs"
    using assms piece_overwrite_at [of "f + z" xs bs] by simp
  finally show ?thesis by simp
qed

text \<open>Where the last \<open>n\<close> bytes of a buffer are in its block, and where an iterator takes them to be.\<close>

lemma back_room:
  assumes live: "live_ok H (add_mset b B)" and free: "back_free n b B"
  defines "f \<equiv> GetInternalEnd b - n"
  shows "b_start b \<le> b_zeroAreaStart b" "b_zeroAreaStart b \<le> f" "GetInternalEnd b = f + n" "b_end b - n = f + zero_size b"
    "b_end b = f + zero_size b + n" "f + n \<le> length (d_bytes (h_block H (b_data b)))"
  using live_D [OF live] free by (auto simp: back_free_def buf_ok_def GetInternalEnd_def zero_size_def f_def)

lemma contents_of_room:
  assumes "b_zeroAreaStart b \<le> f" "GetInternalEnd b = f + n"
  shows "block_contents d b = (piece (b_start b) (b_zeroAreaStart b) (d_bytes d) @ replicate (zero_size b) (Some 0) @
      piece (b_zeroAreaStart b) f (d_bytes d)) @ piece f (f + n) (d_bytes d)"
  unfolding block_contents_def assms(2) using piece_append [OF assms(1), of "f + n" "d_bytes d"] by simp

lemma contents_shifted:
  assumes live: "live_ok H (add_mset b B)" and free: "back_free n b B"
    and ys: "contents H b = zs @ ys" "length ys = n" and xs: "length xs = n"
    and room: "b_end b \<le> length (d_bytes (h_block H (b_data b)))"
  shows "contents (on_block (b_data b) (\<lambda>d. d\<lparr>d_bytes := overwrite (b_end b - n) xs (d_bytes d)\<rparr>) H) b =
    zs @ take (zero_size b) ys @ take (n - zero_size b) xs"
proof -
  define f z d where "f = GetInternalEnd b - n" and "z = zero_size b" and "d = h_block H (b_data b)"
  note at = back_room [OF live free, folded f_def z_def d_def]
  define d' where "d' = d\<lparr>d_bytes := overwrite (f + z) xs (d_bytes d)\<rparr>"
  have fit: "f + z + length xs \<le> length (d_bytes d)" using room at(5) xs by (simp add: d_def)
  note split = contents_of_room [OF at(2,3), folded z_def]
  have "zs @ ys = (piece (b_start b) (b_zeroAreaStart b) (d_bytes d) @ replicate z (Some 0) @
      piece (b_zeroAreaStart b) f (d_bytes d)) @ piece f (f + n) (d_bytes d)"
    using ys(1) split [of d] by (simp add: contents_def d_def)
  moreover have "length (piece f (f + n) (d_bytes d)) = n" using at(6) by simp
  ultimately have parts: "zs = piece (b_start b) (b_zeroAreaStart b) (d_bytes d) @ replicate z (Some 0) @
      piece (b_zeroAreaStart b) f (d_bytes d)" "ys = piece f (f + n) (d_bytes d)"
    using ys(2) append_eq_append_conv by metis+
  have "piece (b_start b) (b_zeroAreaStart b) (d_bytes d') = piece (b_start b) (b_zeroAreaStart b) (d_bytes d)"
    "piece (b_zeroAreaStart b) f (d_bytes d') = piece (b_zeroAreaStart b) f (d_bytes d)"
    using at(2) fit by (simp_all add: d'_def piece_overwrite_out)
  moreover have "piece f (f + n) (d_bytes d') = take z ys @ take (n - z) xs"
    using piece_overwrite_shifted [OF xs, of f z "d_bytes d"] fit xs by (simp add: d'_def parts(2))
  ultimately have "block_contents d' b = zs @ take z ys @ take (n - z) xs"
    unfolding split [of d'] parts(1) by simp
  then show ?thesis
    by (simp add: contents_def on_block_def d'_def d_def at(4) z_def f_def)
qed

lemma it_Write_iter_shifted:
  assumes live: "live_ok H (add_mset b B)" and free: "back_free n b B" and ys: "contents H b = zs @ ys" "length ys = n"
    and c: "c \<in># B" "b_data c \<noteq> b_data b" "0 < zero_size c" and n: "n = b_end c - b_zeroAreaEnd c" "0 < n"
    and tail: "tail = drop (b_zeroAreaEnd c - b_start c) (contents H c)"
  shows "if b_end b \<le> d_size (h_block H (b_data b))
    then \<exists>i H'. it_Write_iter (Construct c (b_end c - n)) (End c) (Construct b (b_end b - n)) H = Inr (i, H') \<and>
      contents H' b = zs @ take (zero_size b) ys @ take (n - zero_size b) tail
    else it_Write_iter (Construct c (b_end c - n)) (End c) (Construct b (b_end b - n)) H = Inl UndefinedBehaviour"
proof -
  obtain B' where B: "B = add_mset c B'" using c(1) by (meson mset_add)
  have live_c: "live_ok H (add_mset c (add_mset b B'))" using live by (simp add: B add_mset_commute)
  have le: "b_zeroAreaStart c \<le> b_zeroAreaEnd c" "b_zeroAreaEnd c \<le> b_end c" "b_start c \<le> b_zeroAreaStart c"
    using live_D(1) [OF live_c] by (simp_all add: buf_ok_def)
  have len: "length tail = n"
    using length_contents [OF live_c] le n(1) by (simp add: tail Buffer_GetSize_def)
  have size: "length (d_bytes (h_block H (b_data b))) = d_size (h_block H (b_data b))"
    by (rule live_D(4) [OF live])
  define p where "p = b_end b - n"
  have fin: "p + n = b_end b" using back_zone(1) [OF live free] by (simp add: p_def)
  have guard: "CheckNoZero p (p + n) (Construct b p)"
    using back_zone(3) [OF live free] by (simp add: p_def)
  have src: "b_end c - n = b_zeroAreaEnd c" "b_zeroAreaEnd c - zero_size c = b_zeroAreaStart c"
    "\<not> b_zeroAreaEnd c \<le> b_zeroAreaStart c" "b_end c - b_zeroAreaEnd c = n" "b_zeroAreaEnd c \<le> b_end c"
    using le n(1) c(3) by (auto simp: zero_size_def)
  have rd: "read_bytes (b_data c) (b_zeroAreaStart c) n H = Inr tail"
    using read_parts(2) [OF live_c] by (simp add: n(1) tail)
  have "it_Write_iter (Construct c (b_end c - n)) (End c) (Construct b p) H =
    rbind (write_bytes (b_data b) p tail H) (\<lambda>H'. Inr ((Construct b p)\<lparr>it_current := p + n\<rparr>, H'))"
    unfolding it_Write_iter_def End_def Construct_sel Let_def src(1)
    using c(2) guard src(2-5) rd by (simp add: read_bytes_def write_bytes_def)
  moreover have "write_bytes (b_data b) p tail H =
    (if b_end b \<le> d_size (h_block H (b_data b))
     then Inr (on_block (b_data b) (\<lambda>d. d\<lparr>d_bytes := overwrite p tail (d_bytes d)\<rparr>) H) else Inl UndefinedBehaviour)"
    using len n(2) fin size by (auto simp: write_bytes_def rguard_def)
  ultimately show ?thesis
    using contents_shifted [OF live free ys len] size by (simp flip: p_def)
qed

text \<open>
  The merging branch with data behind the zero area of the second buffer.  \<open>AddAtEnd\<close> makes room for
  the data; as many bytes of that room as the merged zero area is long stay what they were.
\<close>

definition tail_outcome :: "buffer \<Rightarrow> buffer \<Rightarrow> memory \<Rightarrow> bool" where
  "tail_outcome b c H \<longleftrightarrow>
     (let n = b_end c - b_zeroAreaEnd c; z = zero_size c; tail = drop z (contents H c);
          room = AddAtEnd n (merged b c) (merged_memory b c H) in
      case AddAtEnd_Buffer c b H of
        Inl e \<Rightarrow> e = SizeOverflow \<or>
          e = UndefinedBehaviour \<and> (\<exists>b' H2. room = Inr (b', H2) \<and> d_size (h_block H2 (b_data b')) < b_end b')
      | Inr (b', H') \<Rightarrow>
          (\<exists>H2 ys. room = Inr (b', H2) \<and> contents H2 b' = contents H b @ replicate z (Some 0) @ ys \<and>
             length ys = n \<and> z \<le> zero_size b' \<and>
             contents H' b' = contents H b @ replicate z (Some 0) @
               take (zero_size b') ys @ take (n - zero_size b') tail))"

lemma merge_with_tail:
  assumes live: "live_ok H (add_mset b B)" and c: "c \<in># B" and adj: "adjacent_zeros b c H"
    and tail: "b_end c \<noteq> b_zeroAreaEnd c"
  shows "tail_outcome b c H"
proof -
  define n z where "n = b_end c - b_zeroAreaEnd c" and "z = zero_size c"
  note m = merged_ok [OF live adj]
  obtain B' where B: "B = add_mset c B'" using c by (meson mset_add)
  have live_c: "live_ok H1 (add_mset c (add_mset b1 B'))" if "live_ok H1 (add_mset b1 B)" for H1 b1
    using that by (simp add: B add_mset_commute)
  have le: "b_zeroAreaEnd c \<le> b_end c" using live_D(1) [OF live_c [OF live]] by (simp add: buf_ok_def)
  have z: "0 < z" "b_start c = b_zeroAreaStart c" using adj by (simp_all add: adjacent_zeros_def z_def)
  have off: "b_zeroAreaEnd c - b_start c = z" using z(2) by (simp add: z_def zero_size_def)
  have n: "0 < n" "n \<le> b_end c" using tail le by (simp_all add: n_def)
  show ?thesis
  proof (cases "b_end b + z < 4294967296")
    case False
    then have "AddAtEnd_Buffer c b H = Inl SizeOverflow"
      unfolding AddAtEnd_Buffer_merge [OF adj] by (simp add: fits32_def z_def)
    then show ?thesis by (simp add: tail_outcome_def)
  next
    case True
    have live1: "live_ok (merged_memory b c H) (add_mset (merged b c) B)" using m(1) True by (simp add: z_def)
    note room = AddAtEnd_ok [OF live1, of n]
    have merge: "AddAtEnd_Buffer c b H =
      rbind (AddAtEnd n (merged b c) (merged_memory b c H)) (\<lambda>(b3, H2).
      rbind (it_Prev n (End b3)) (\<lambda>dst. rbind (it_Prev n (End c)) (\<lambda>src.
      rbind (it_Write_iter src (End c) dst H2) (\<lambda>(_, H3). Inr (b3, H3)))))"
      using True unfolding AddAtEnd_Buffer_merge [OF adj] by (simp add: fits32_def z_def n_def)
    show ?thesis
    proof (cases "AddAtEnd n (merged b c) (merged_memory b c H)")
      case (Inl e)
      then show ?thesis using room merge by (simp add: tail_outcome_def)
    next
      case (Inr x)
      obtain b3 H2 where x: "x = (b3, H2)" by (cases x)
      obtain ys where r: "live_ok H2 (add_mset b3 B)" "frame (merged_memory b c H) H2 B" "back_free n b3 B"
        "stays (merged b c) b3 B" "zero_size b3 = zero_size (merged b c)" "length ys = n"
        "contents H2 b3 = contents (merged_memory b c H) (merged b c) @ ys"
        using room unfolding Inr x by auto
      have same: "contents H2 c = contents H c" using frame_trans [OF m(2) r(2)] c by (simp add: frame_def)
      have apart: "b_data c \<noteq> b_data b3" using r(4) m(5) [OF c] c by (auto simp: stays_def)
      have eq: "contents H2 b3 = (contents H b @ replicate z (Some 0)) @ ys" using r(7) m(3) by (simp add: z_def)
      note w = it_Write_iter_shifted [OF r(1,3) eq r(6) c apart z(1) [unfolded z_def] n_def n(1) refl, unfolded off same]
      have merge': "AddAtEnd_Buffer c b H =
        rbind (it_Write_iter (Construct c (b_end c - n)) (End c) (Construct b3 (b_end b3 - n)) H2) (\<lambda>(_, H3). Inr (b3, H3))"
        using merge back_zone(1) [OF r(1,3)] n(2) by (simp add: Inr x it_Prev_End)
      have z3: "z \<le> zero_size b3" using m(4) r(5) by (simp add: z_def)
      have c3: "contents H2 b3 = contents H b @ replicate z (Some 0) @ ys" using eq by simp
      show ?thesis
      proof (cases "b_end b3 \<le> d_size (h_block H2 (b_data b3))")
        case True
        then obtain i H' where i: "it_Write_iter (Construct c (b_end c - n)) (End c) (Construct b3 (b_end b3 - n)) H2 = Inr (i, H')"
          "contents H' b3 = contents H b @ replicate z (Some 0) @ take (zero_size b3) ys @
            take (n - zero_size b3) (drop z (contents H c))"
          using w by auto
        have "AddAtEnd_Buffer c b H = Inr (b3, H')" using merge' i(1) by simp
        then show ?thesis
          unfolding tail_outcome_def Let_def n_def [symmetric] z_def [symmetric] Inr x
          using i(2) z3 c3 r(6) by simp
      next
        case False
        then have "AddAtEnd_Buffer c b H = Inl UndefinedBehaviour" using w merge' by simp
        then show ?thesis
          unfolding tail_outcome_def Let_def n_def [symmetric] z_def [symmetric] Inr x
          using False by simp
      qed
    qed
  qed
qed

section \<open>A buffer in the block of the other one\<close>

text \<open>Whether \<open>AddAtEnd\<close> finds its room in the block.\<close>

definition has_room :: "nat \<Rightarrow> buffer \<Rightarrow> memory \<Rightarrow> bool" where
  "has_room n b H \<longleftrightarrow> GetInternalEnd b + n \<le> d_size (h_block H (b_data b)) \<and>
     (d_count (h_block H (b_data b)) = 1 \<or> b_end b = d_dirtyEnd (h_block H (b_data b)))"

lemma AddAtEnd_block:
  assumes live: "live_ok H (add_mset b B)"
  shows "yields (AddAtEnd n b H) (\<lambda>(b', H').
    if has_room n b H then b_data b' = b_data b else \<forall>c \<in># B. b_data c \<noteq> b_data b')"
proof -
  let ?d = "h_block H (b_data b)"
  have le: "b_end b \<le> d_dirtyEnd ?d" and count: "d_count ?d = Suc (uses B (b_data b))"
    using live_D [OF live] by (auto simp: buf_ok_def)
  have clean: "\<not> (1 < d_count ?d \<and> b_end b < d_dirtyEnd ?d) \<longleftrightarrow> d_count ?d = 1 \<or> b_end b = d_dirtyEnd ?d"
    using le count by auto
  define P where "P = (\<lambda>(b' :: buffer, H' :: memory). if has_room n b H then b_data b' = b_data b else \<forall>c \<in># B. b_data c \<noteq> b_data b')"
  have there: "yields (rbind (reallocate n 0 b H) (\<lambda>(b1, H1).
      let b2 = b1\<lparr>b_end := b_end b1 + n\<rparr> in
      fits32 (b_end b2) (Inr (b2, set_dirty (b_data b2) (b_start b2) (b_end b2) H1)))) P" if "\<not> has_room n b H"
    using that by (intro yields_bind [OF reallocate_ok [OF live, of 0 n]])
      (auto simp: Let_def P_def moved_to_def intro!: yields_fits32)
  have "yields (AddAtEnd n b H) P"
    unfolding AddAtEnd_def Let_def
  proof (intro yields_fits32 yields_bind [where P = P], goal_cases)
    case 1
    show ?case
    proof (cases "has_room n b H")
      case True
      then show ?thesis using clean by (auto simp: has_room_def rguard_def fits32_def P_def)
    next
      case False
      then have f: "\<not> (GetInternalEnd b + n \<le> d_size ?d \<and> \<not> (1 < d_count ?d \<and> b_end b < d_dirtyEnd ?d))"
        unfolding clean by (simp add: has_room_def)
      show ?thesis unfolding if_not_P [OF f] by (rule there [OF False, unfolded Let_def])
    qed
  qed (auto simp: P_def note_start_def)
  then show ?thesis by (simp add: P_def)
qed

text \<open>A buffer without a zero area is its own real buffer.\<close>

lemma TransformIntoRealBuffer_same:
  assumes live: "live_ok H (add_mset b B)" and zero: "zero_size b = 0"
  shows "yields (TransformIntoRealBuffer b H) (\<lambda>(b1, H1). b_data b1 = b_data b \<and> b_end b1 = b_end b \<and>
    GetInternalEnd b1 = GetInternalEnd b \<and> d_size (h_block H1 (b_data b)) = d_size (h_block H (b_data b)) \<and>
    d_dirtyEnd (h_block H1 (b_data b)) = d_dirtyEnd (h_block H (b_data b)) \<and>
    d_count (h_block H1 (b_data b)) = d_count (h_block H (b_data b)))"
proof -
  have "0 < d_count (h_block H (b_data b))" using live_D(3) [OF live] by simp
  then show ?thesis
    using zero by (simp add: TransformIntoRealBuffer_def CreateFullCopy_def Buffer_copy_def Buffer_assign_def
        Buffer_destroy_def Unref_def recommend_def GetInternalEnd_def zero_size_def Let_def)
qed

definition same_block_outcome :: "buffer \<Rightarrow> buffer \<Rightarrow> memory \<Rightarrow> bool" where
  "same_block_outcome b c H \<longleftrightarrow>
     (case AddAtEnd_Buffer c b H of
        Inl e \<Rightarrow> e = SizeOverflow \<or> e = NsAssert \<and> has_room (Buffer_GetSize c) b H
      | Inr (b', H') \<Rightarrow> \<not> has_room (Buffer_GetSize c) b H \<and> contents H' b' = contents H b @ contents H c)"

lemma append_same_block:
  assumes live: "live_ok H (add_mset b B)" and c: "c \<in># B" "b_data c = b_data b" "zero_size b = 0"
    and adj: "\<not> adjacent_zeros b c H"
  shows "same_block_outcome b c H"
proof -
  define n where "n = Buffer_GetSize c"
  show ?thesis
  proof (cases "TransformIntoRealBuffer b H")
    case (Inl e)
    then have "AddAtEnd_Buffer c b H = Inl SizeOverflow"
      using TransformIntoRealBuffer_ok [OF live]
      unfolding AddAtEnd_Buffer_def if_not_P [OF adj] Inl yields_simps rbind_Inl by simp
    then show ?thesis by (simp add: same_block_outcome_def)
  next
    case (Inr x)
    obtain b1 H1 where x: "x = (b1, H1)" by (cases x)
    have t: "live_ok H1 (add_mset b1 B)" "frame H H1 B" "contents H1 b1 = contents H b" "zero_size b1 = 0"
      using TransformIntoRealBuffer_ok [OF live] unfolding Inr x yields_simps prod.case by blast+
    have "b_data b1 = b_data b \<and> b_end b1 = b_end b \<and>
      GetInternalEnd b1 = GetInternalEnd b \<and> d_size (h_block H1 (b_data b)) = d_size (h_block H (b_data b)) \<and>
      d_dirtyEnd (h_block H1 (b_data b)) = d_dirtyEnd (h_block H (b_data b)) \<and>
      d_count (h_block H1 (b_data b)) = d_count (h_block H (b_data b))"
      using TransformIntoRealBuffer_same [OF live c(3)] unfolding Inr x yields_simps prod.case .
    then have same: "has_room n b1 H1 = has_room n b H" "b_data b1 = b_data b"
      unfolding has_room_def by (elim conjE; simp only:)+
    have run: "AddAtEnd_Buffer c b H = rbind (AddAtEnd n b1 H1) (\<lambda>(b2, H2).
        rbind (it_Prev n (End b2)) (\<lambda>dst.
        rbind (it_Write_iter (Begin c) (End c) dst H2) (\<lambda>(_, H3). Inr (b2, H3))))"
      unfolding AddAtEnd_Buffer_def if_not_P [OF adj] Inr x n_def rbind_Inr prod.case ..
    show ?thesis
    proof (cases "AddAtEnd n b1 H1")
      case (Inl e)
      then show ?thesis using AddAtEnd_ok [OF t(1), of n] by (simp add: run same_block_outcome_def)
    next
      case (Inr y)
      obtain b2 H2 where y: "y = (b2, H2)" by (cases y)
      obtain ys where r: "live_ok H2 (add_mset b2 B)" "frame H1 H2 B" "back_free n b2 B" "zero_size b2 = 0"
        "length ys = n" "contents H2 b2 = contents H b @ ys"
        using AddAtEnd_ok [OF t(1), of n] unfolding Inr y yields_simps prod.case t(3,4) by blast
      have run2: "AddAtEnd_Buffer c b H =
        rbind (it_Write_iter (Begin c) (End c) (Construct b2 (b_end b2 - n)) H2) (\<lambda>(_, H3). Inr (b2, H3))"
        using run back_zone(1) [OF r(1,3)] by (simp add: Inr y it_Prev_End)
      have block: "if has_room n b H then b_data b2 = b_data b else b_data c \<noteq> b_data b2"
      proof (cases "has_room n b H")
        case True
        then show ?thesis
          using AddAtEnd_block [OF t(1), of n] unfolding Inr y yields_simps prod.case same if_P [OF True] by blast
      next
        case False
        have "\<forall>a \<in># B. b_data a \<noteq> b_data b2"
          using AddAtEnd_block [OF t(1), of n] unfolding Inr y yields_simps prod.case same if_not_P [OF False] .
        then have "b_data c \<noteq> b_data b2" using c(1) by (rule bspec)
        then show ?thesis unfolding if_not_P [OF False] .
      qed
      show ?thesis
      proof (cases "has_room n b H")
        case True
        have eq: "b_data b2 = b_data c" using block c(2) unfolding if_P [OF True] by (rule trans [OF _ sym])
        have "it_Write_iter (Begin c) (End c) (Construct b2 p) H2 = Inl NsAssert" for p
          unfolding it_Write_iter_def Begin_def End_def Construct_sel eq rguard_def by simp
        then have "AddAtEnd_Buffer c b H = Inl NsAssert" unfolding run2 by simp
        with True show ?thesis by (simp add: same_block_outcome_def n_def)
      next
        case False
        then have apart: "b_data c \<noteq> b_data b2" using block by (simp only: if_False not_False_eq_True)
        obtain i H3 where "it_Write_iter (Begin c) (End c) (Construct b2 (b_end b2 - n)) H2 = Inr (i, H3)"
          "contents H3 b2 = contents H b @ contents H2 c"
          using it_Write_iter_ok [OF r(1) r(3) [unfolded n_def] r(4) c(1) apart r(6) r(5) [unfolded n_def]]
          unfolding n_def by blast
        moreover have "contents H2 c = contents H c" using frame_trans [OF t(2) r(2)] c(1) by (simp add: frame_def)
        ultimately show ?thesis
          using False run2 by (simp add: same_block_outcome_def n_def)
      qed
    qed
  qed
qed

end
