(* ===== verification/BufferProperties.thy ===== *)
theory BufferProperties
  imports BufferCodec BufferConcat
begin

text \<open>
  Programs that use buffers: a list of live buffers and the shared memory under any sequence of
  operations, against byte lists that share nothing.  The operations on headers and trailers are those
  of \<open>Packet\<close> (\<open>src/src/network/model/packet.cc\<close>), with a serializer that writes the bytes it was
  asked room for.
\<close>

section \<open>Programs over buffers\<close>

definition buffer_AddHeader :: "u8 list \<Rightarrow> buffer \<Rightarrow> memory \<Rightarrow> (buffer \<times> memory) res" where
  "buffer_AddHeader xs b H =
     rbind (AddAtStart (length xs) b H) (\<lambda>(b', H1).
     rbind (it_Write (map Some xs) (Begin b') H1) (\<lambda>(_, H2). Inr (b', H2)))"

definition buffer_AddTrailer :: "u8 list \<Rightarrow> buffer \<Rightarrow> memory \<Rightarrow> (buffer \<times> memory) res" where
  "buffer_AddTrailer xs b H =
     rbind (AddAtEnd (length xs) b H) (\<lambda>(b', H1).
     rbind (it_Prev (length xs) (End b')) (\<lambda>i.
     rbind (it_Write (map Some xs) i H1) (\<lambda>(_, H2). Inr (b', H2))))"

datatype buffer_op =
    New nat
  | Dup nat
  | Assign nat nat
  | Drop nat
  | Header nat "u8 list"
  | Trailer nat "u8 list"
  | CutStart nat nat
  | CutEnd nat nat
  | Append nat nat
  | Frag nat nat nat
  | Real nat

type_synonym buffers = "buffer list \<times> memory"

definition without :: "nat \<Rightarrow> 'a list \<Rightarrow> 'a list" where
  "without i xs = take i xs @ drop (Suc i) xs"

definition put :: "nat \<Rightarrow> buffer list \<Rightarrow> (buffer \<times> memory) res \<Rightarrow> buffers res" where
  "put i bs m = rbind m (\<lambda>(b, H). Inr (bs[i := b], H))"

definition add_new :: "buffer list \<Rightarrow> (buffer \<times> memory) res \<Rightarrow> buffers res" where
  "add_new bs m = rbind m (\<lambda>(b, H). Inr (bs @ [b], H))"

fun buffer_step :: "buffer_op \<Rightarrow> buffers \<Rightarrow> buffers res" where
  "buffer_step (New z) (bs, H) = add_new bs (Initialize z H)"
| "buffer_step (Dup i) (bs, H) = add_new bs (Inr (Buffer_copy (bs ! i) H))"
| "buffer_step (Assign i j) (bs, H) = put i bs (Buffer_assign (bs ! i) (bs ! j) H)"
| "buffer_step (Drop i) (bs, H) = rbind (Buffer_destroy (bs ! i) H) (\<lambda>H'. Inr (without i bs, H'))"
| "buffer_step (Header i xs) (bs, H) = put i bs (buffer_AddHeader xs (bs ! i) H)"
| "buffer_step (Trailer i xs) (bs, H) = put i bs (buffer_AddTrailer xs (bs ! i) H)"
| "buffer_step (CutStart i n) (bs, H) = put i bs (rbind (Buffer_RemoveAtStart n (bs ! i)) (\<lambda>b. Inr (b, H)))"
| "buffer_step (CutEnd i n) (bs, H) = put i bs (Inr (Buffer_RemoveAtEnd n (bs ! i), H))"
| "buffer_step (Append i j) (bs, H) = put i bs (AddAtEnd_Buffer (bs ! j) (bs ! i) H)"
| "buffer_step (Frag i s l) (bs, H) = add_new bs (Buffer_CreateFragment s l (bs ! i) H)"
| "buffer_step (Real i) (bs, H) = put i bs (TransformIntoRealBuffer (bs ! i) H)"

fun buffer_run :: "buffer_op list \<Rightarrow> buffers \<Rightarrow> buffers res" where
  "buffer_run [] st = Inr st"
| "buffer_run (op # ops) st = rbind (buffer_step op st) (buffer_run ops)"

text \<open>The promise: byte lists.\<close>

fun byte_step :: "buffer_op \<Rightarrow> cell list list \<Rightarrow> cell list list" where
  "byte_step (New z) cs = cs @ [replicate z (Some 0)]"
| "byte_step (Dup i) cs = cs @ [cs ! i]"
| "byte_step (Assign i j) cs = cs[i := cs ! j]"
| "byte_step (Drop i) cs = without i cs"
| "byte_step (Header i xs) cs = cs[i := map Some xs @ cs ! i]"
| "byte_step (Trailer i xs) cs = cs[i := cs ! i @ map Some xs]"
| "byte_step (CutStart i n) cs = cs[i := drop n (cs ! i)]"
| "byte_step (CutEnd i n) cs = cs[i := take (length (cs ! i) - n) (cs ! i)]"
| "byte_step (Append i j) cs = cs[i := cs ! i @ cs ! j]"
| "byte_step (Frag i s l) cs = cs @ [fragment s l (cs ! i)]"
| "byte_step (Real i) cs = cs"

text \<open>
  The buffers that an operation names are alive and different, and a concatenation is one of those
  that work (\<open>append_safe\<close>).
\<close>

fun op_ok :: "buffer_op \<Rightarrow> buffers \<Rightarrow> bool" where
  "op_ok (New z) (bs, H) = True"
| "op_ok (Assign i j) (bs, H) = (i < length bs \<and> j < length bs \<and> i \<noteq> j)"
| "op_ok (Append i j) (bs, H) = (i < length bs \<and> j < length bs \<and> i \<noteq> j \<and> append_safe (bs ! i) (bs ! j) H)"
| "op_ok (Dup i) (bs, H) = (i < length bs)"
| "op_ok (Drop i) (bs, H) = (i < length bs)"
| "op_ok (Header i xs) (bs, H) = (i < length bs)"
| "op_ok (Trailer i xs) (bs, H) = (i < length bs)"
| "op_ok (CutStart i n) (bs, H) = (i < length bs)"
| "op_ok (CutEnd i n) (bs, H) = (i < length bs)"
| "op_ok (Frag i s l) (bs, H) = (i < length bs)"
| "op_ok (Real i) (bs, H) = (i < length bs)"

fun run_ok :: "buffer_op list \<Rightarrow> buffers \<Rightarrow> bool" where
  "run_ok [] st = True"
| "run_ok (op # ops) st = (op_ok op st \<and> (case buffer_step op st of Inl e \<Rightarrow> True | Inr st' \<Rightarrow> run_ok ops st'))"

section \<open>One step\<close>

lemma AddHeader_ok:
  assumes "live_ok H (add_mset b B)"
  shows "yields (buffer_AddHeader xs b H) (\<lambda>(b', H'). live_ok H' (add_mset b' B) \<and> frame H H' B \<and>
    contents H' b' = map Some xs @ contents H b)"
  unfolding buffer_AddHeader_def
proof (rule AddAtStart_bind [OF assms], goal_cases)
  case (1 b1 H1 ys)
  have "front_free (length (map Some xs)) b1 B" "length ys = length (map Some xs)" using 1(3,6) by simp_all
  from it_Write_front [OF 1(1) this(1) 1(7) this(2)] 1(2) show ?case by (auto intro: frame_trans)
qed

lemma AddTrailer_ok:
  assumes "live_ok H (add_mset b B)"
  shows "yields (buffer_AddTrailer xs b H) (\<lambda>(b', H'). live_ok H' (add_mset b' B) \<and> frame H H' B \<and>
    contents H' b' = contents H b @ map Some xs)"
  unfolding buffer_AddTrailer_def
proof (rule AddAtEnd_bind [OF assms], goal_cases)
  case (1 b1 H1 ys)
  have free: "back_free (length (map Some xs)) b1 B" "length ys = length (map Some xs)" using 1(3,6) by simp_all
  have prev: "it_Prev (length xs) (End b1) = Inr (Construct b1 (b_end b1 - length xs))"
    by (rule it_Prev_End [OF back_zone(1) [OF 1(1,3)]])
  from it_Write_back [OF 1(1) free(1) 1(7) free(2)] 1(2) prev show ?case by (auto intro: frame_trans)
qed

lemma mset_without: "i < length bs \<Longrightarrow> mset bs = add_mset (bs ! i) (mset (without i bs))"
  by (subst id_take_nth_drop [of i bs]) (simp_all add: without_def)

lemma mset_put: "i < length bs \<Longrightarrow> mset (bs[i := b]) = add_mset b (mset (without i bs))"
  by (simp add: upd_conv_take_nth_drop without_def)

lemma set_without: "i < length bs \<Longrightarrow> j < length bs \<Longrightarrow> j \<noteq> i \<Longrightarrow> bs ! j \<in># mset (without i bs)"
proof (cases "j < i")
  case True
  then show "i < length bs \<Longrightarrow> ?thesis" unfolding without_def by (auto simp: in_set_conv_nth intro!: exI [of _ j])
next
  case False
  assume "i < length bs" "j < length bs" "j \<noteq> i"
  then have "bs ! j = drop (Suc i) bs ! (j - Suc i)" "j - Suc i < length (drop (Suc i) bs)" using False by auto
  then show ?thesis unfolding without_def by (metis Un_iff nth_mem set_append set_mset_mset)
qed

lemma frame_map: "frame H H' (mset bs) \<Longrightarrow> map (contents H') bs = map (contents H) bs"
  by (simp add: frame_def)

lemma map_without: "map f (without i xs) = without i (map f xs)"
  by (simp add: without_def take_map drop_map)

lemma frame_put:
  assumes "i < length bs" "frame H H' (mset (without i bs))"
  shows "map (contents H') (bs[i := b]) = (map (contents H) bs)[i := contents H' b]"
proof (rule nth_equalityI)
  fix k assume "k < length (map (contents H') (bs[i := b]))"
  then show "map (contents H') (bs[i := b]) ! k = (map (contents H) bs)[i := contents H' b] ! k"
    using assms set_without [OF assms(1), of k] by (cases "k = i") (auto simp: frame_def)
qed simp

definition sound :: "cell list list \<Rightarrow> buffers \<Rightarrow> bool" where
  "sound cs = (\<lambda>(bs, H). live_ok H (mset bs) \<and> map (contents H) bs = cs)"

lemma put_sound:
  assumes i: "i < length bs"
    and m: "yields m (\<lambda>(b', H'). live_ok H' (add_mset b' (mset (without i bs))) \<and> frame H H' (mset (without i bs)) \<and> contents H' b' = c)"
  shows "yields (put i bs m) (sound ((map (contents H) bs)[i := c]))"
  unfolding put_def using i frame_put [OF i]
  by (intro yields_bind [OF m]) (auto simp: sound_def mset_put)

lemma add_sound:
  assumes m: "yields m (\<lambda>(b', H'). live_ok H' (add_mset b' (mset bs)) \<and> frame H H' (mset bs) \<and> contents H' b' = c)"
  shows "yields (add_new bs m) (sound (map (contents H) bs @ [c]))"
  unfolding add_new_def using frame_map
  by (intro yields_bind [OF m]) (auto simp: sound_def)

lemma step_sound:
  assumes sound: "sound cs (bs, H)" and ok: "op_ok op (bs, H)"
  shows "yields (buffer_step op (bs, H)) (sound (byte_step op cs))"
proof -
  have live: "live_ok H (mset bs)" and cs: "cs = map (contents H) bs" using sound by (simp_all add: sound_def)
  have at: "live_ok H (add_mset (bs ! i) (mset (without i bs)))" if "i < length bs" for i
    using live mset_without [OF that] by simp
  show ?thesis
  proof (cases op)
    case (New z)
    show ?thesis
      unfolding New cs buffer_step.simps byte_step.simps
      by (rule add_sound) (rule yields_mono [OF Initialize_ok [OF live]], auto)
  next
    case (Dup i)
    then have i: "i < length bs" using ok by simp
    obtain c H' where c: "Buffer_copy (bs ! i) H = (c, H')" by fastforce
    note copy = copy_ok [OF at [OF i] c]
    show ?thesis
      unfolding Dup cs buffer_step.simps byte_step.simps c nth_map [OF i, symmetric]
      by (rule add_sound) (use c copy(1-3) mset_without [OF i] i in simp)
  next
    case (Assign i j)
    then have i: "i < length bs" "j < length bs" "bs ! j \<in># mset (without i bs)" using ok set_without by auto
    obtain H' where H': "Buffer_assign (bs ! i) (bs ! j) H = Inr (bs ! j, H')" "live_ok H' (add_mset (bs ! j) (mset (without i bs)))"
      "frame H H' (mset (without i bs))" using assign_ok [OF at [OF i(1)] i(3)] by blast
    show ?thesis
      unfolding Assign cs buffer_step.simps byte_step.simps H'(1)
      by (rule put_sound [OF i(1)]) (use H' i in \<open>simp add: frame_def\<close>)
  next
    case (Drop i)
    then have i: "i < length bs" using ok by simp
    obtain H' where H': "Buffer_destroy (bs ! i) H = Inr H'" "live_ok H' (mset (without i bs))" "frame H H' (mset (without i bs))"
      using destroy_ok [OF at [OF i]] by blast
    then show ?thesis unfolding Drop cs using frame_map [OF H'(3)] by (simp add: sound_def map_without)
  next
    case (Header i xs)
    then have i: "i < length bs" using ok by simp
    show ?thesis
      unfolding Header cs buffer_step.simps byte_step.simps nth_map [OF i]
      by (rule put_sound [OF i]) (rule AddHeader_ok [OF at [OF i]])
  next
    case (Trailer i xs)
    then have i: "i < length bs" using ok by simp
    show ?thesis
      unfolding Trailer cs buffer_step.simps byte_step.simps nth_map [OF i]
      by (rule put_sound [OF i]) (rule AddTrailer_ok [OF at [OF i]])
  next
    case (CutStart i n)
    then have i: "i < length bs" using ok by simp
    show ?thesis
      unfolding CutStart cs buffer_step.simps byte_step.simps nth_map [OF i]
      by (rule put_sound [OF i]) (rule yields_bind [OF RemoveAtStart_ok [OF at [OF i]]], simp)
  next
    case (CutEnd i n)
    then have i: "i < length bs" using ok by simp
    show ?thesis
      unfolding CutEnd cs buffer_step.simps byte_step.simps nth_map [OF i]
      by (rule put_sound [OF i]) (simp add: RemoveAtEnd_ok [OF at [OF i]])
  next
    case (Append i j)
    then have i: "i < length bs" "j < length bs" "bs ! j \<in># mset (without i bs)" "append_safe (bs ! i) (bs ! j) H"
      using ok set_without by auto
    show ?thesis
      unfolding Append cs buffer_step.simps byte_step.simps nth_map [OF i(1)] nth_map [OF i(2)]
      by (rule put_sound [OF i(1)]) (rule AddAtEnd_Buffer_ok [OF at [OF i(1)] i(3,4)])
  next
    case (Frag i s l)
    then have i: "i < length bs" using ok by simp
    show ?thesis
      unfolding Frag cs buffer_step.simps byte_step.simps nth_map [OF i]
      by (rule add_sound) (use CreateFragment_ok [OF at [OF i], of s l] mset_without [OF i] in simp)
  next
    case (Real i)
    then have i: "i < length bs" using ok by simp
    have "(map (contents H) bs)[i := contents H (bs ! i)] = map (contents H) bs" using i by (metis list_update_id nth_map)
    moreover have "yields (put i bs (TransformIntoRealBuffer (bs ! i) H)) (sound ((map (contents H) bs)[i := contents H (bs ! i)]))"
      by (rule put_sound [OF i]) (rule yields_mono [OF TransformIntoRealBuffer_ok [OF at [OF i]]], auto)
    ultimately show ?thesis unfolding Real cs by simp
  qed
qed

lemma run_sound:
  assumes "sound cs st" "run_ok ops st"
  shows "yields (buffer_run ops st) (sound (foldl (\<lambda>cs op. byte_step op cs) cs ops))"
  using assms
proof (induction ops arbitrary: cs st)
  case (Cons op ops)
  obtain bs H where st: "st = (bs, H)" by fastforce
  have "yields (buffer_step op st) (sound (byte_step op cs))"
    using step_sound [of cs bs H op] Cons.prems st by simp
  then show ?case
    unfolding buffer_run.simps foldl.simps by (rule yields_bind) (use Cons in auto)
qed simp

lemma start_sound: "sound [] ([], start_memory)"
  by (simp add: sound_def live_ok_def mem_ok_def start_memory_def uses_def)

lemma run_result:
  assumes "run_ok ops ([], start_memory)" "buffer_run ops ([], start_memory) = Inr (bs, H)"
  shows "live_ok H (mset bs)" "map (contents H) bs = foldl (\<lambda>cs op. byte_step op cs) [] ops"
  using run_sound [OF start_sound assms(1)] assms(2) by (simp_all add: sound_def)

text \<open>Evaluation on concrete inputs: a continuation is evaluated once its argument is known.\<close>

lemma rbind_weak: "m = m' \<Longrightarrow> rbind m f = rbind m' f"
  by simp

lemma outcome_weak:
  "m = m' \<Longrightarrow> (case m of Inl e \<Rightarrow> f e | Inr x \<Rightarrow> g x) = (case m' of Inl e \<Rightarrow> f e | Inr x \<Rightarrow> g x)"
  by simp

lemmas eval_congs = rbind_weak outcome_weak let_weak_cong

lemmas buffer_eval = put_def add_new_def without_def buffer_AddHeader_def buffer_AddTrailer_def Initialize_def Create_def
  Allocate_def Let_def start_memory_def no_block_def fits32_def set_dirty_def ALLOC_OVER_PROVISION_def AddAtStart_def AddAtEnd_def
  note_start_def GetInternalEnd_def GetInternalSize_def zero_size_def reallocate_def moved_to_def read_bytes_def write_bytes_def
  overwrite_def it_Write_def it_Prev_def Begin_def End_def Construct_def CheckNoZero_def it_zero_size_def Unref_def Recycle_def
  Deallocate_def Buffer_copy_def Buffer_assign_def Buffer_destroy_def recommend_def Buffer_RemoveAtStart_def Buffer_RemoveAtEnd_def
  Buffer_CreateFragment_def Buffer_GetSize_def AddAtEnd_Buffer_def TransformIntoRealBuffer_def CreateFullCopy_def adjacent_zeros_def
  append_safe_def it_Write_iter_def it_WriteU8_len_def on_block_def contents_def block_contents_def piece_def

section \<open>Properties\<close>

text \<open>
  C17. Buffers share memory, and nobody notices: a sequence of operations (new buffers, copies,
  assignments, destruction, headers, trailers, removals, fragments, the transformation, and those
  concatenations that \<open>append_safe\<close> admits) is applied to any number of live buffers, and each has
  at the end the bytes it would have if no two buffers shared anything; or a 32-bit sum of the sizes
  wrapped around.  The other concatenations are the subject of C21: they do not give these bytes.
\<close>

theorem buffers_refine_bytes:
  assumes "run_ok ops ([], start_memory)"
  shows "case buffer_run ops ([], start_memory) of
           Inl e \<Rightarrow> e = SizeOverflow
         | Inr (bs, H) \<Rightarrow> map (contents H) bs = foldl (\<lambda>cs op. byte_step op cs) [] ops"
  using run_sound [OF start_sound assms] run_result(2) [OF assms]
  by (cases "buffer_run ops ([], start_memory)") auto

definition example_run :: "buffer_op list" where
  "example_run = [New 2, Trailer 0 [7], Dup 0, Header 0 [1, 2], Header 1 [3], CutStart 1 2, Frag 0 1 3, New 1, Append 3 0,
     Real 1, CutEnd 0 1, Assign 2 3, Drop 0]"

lemma example_run_ok: "run_ok example_run ([], start_memory)"
  unfolding example_run_def by (simp add: buffer_eval cong: eval_congs)

theorem buffers_refine_bytes_witness:
  "case buffer_run example_run ([], start_memory) of
     Inl e \<Rightarrow> e = SizeOverflow
   | Inr (bs, H) \<Rightarrow> map (contents H) bs = foldl (\<lambda>cs op. byte_step op cs) [] example_run"
  by (rule buffers_refine_bytes [OF example_run_ok])

text \<open>
  C18. The internal check that every operation asserts, and that the source has switched off, would never
  fail: after any such sequence it holds of every live buffer.
\<close>

theorem internal_check_holds:
  assumes "run_ok ops ([], start_memory)" "buffer_run ops ([], start_memory) = Inr (bs, H)" "b \<in> set bs"
  shows "CheckInternalState b H"
  using live_CheckInternalState [OF run_result(1) [OF assms(1,2)]] assms(3) by simp

lemma internal_check_example:
  "run_ok [New 2, Header 0 [1]] ([], start_memory)"
  "map_sum id fst (buffer_run [New 2, Header 0 [1]] ([], start_memory)) =
     Inr [\<lparr>b_data = 1, b_maxZeroAreaStart = 1, b_zeroAreaStart = 1, b_zeroAreaEnd = 3, b_start = 0, b_end = 3\<rparr>]"
  by (simp_all add: buffer_eval cong: eval_congs)

theorem internal_check_holds_witness:
  "\<exists>H. CheckInternalState \<lparr>b_data = 1, b_maxZeroAreaStart = 1, b_zeroAreaStart = 1, b_zeroAreaEnd = 3, b_start = 0, b_end = 3\<rparr> H"
proof -
  obtain H where "buffer_run [New 2, Header 0 [1]] ([], start_memory) =
     Inr ([\<lparr>b_data = 1, b_maxZeroAreaStart = 1, b_zeroAreaStart = 1, b_zeroAreaEnd = 3, b_start = 0, b_end = 3\<rparr>], H)"
    using internal_check_example(2) by (cases "buffer_run [New 2, Header 0 [1]] ([], start_memory)") auto
  from internal_check_holds [OF internal_check_example(1) this] show ?thesis by auto
qed

text \<open>
  C19. Reads agree with the bytes of the buffer, and \<open>ReadNtohU16\<close> and \<open>ReadNtohU32\<close>, with their fast cases
  before and behind the zero area, agree with the byte byte loop wherever the value lies in the buffer.
\<close>

theorem read_ntoh_fast_is_slow:
  assumes "run_ok ops ([], start_memory)" "buffer_run ops ([], start_memory) = Inr (bs, H)" "b \<in> set bs"
    and "contents H b = map Some xs" "b_start b \<le> p" "p + n \<le> b_end b"
  shows "it_ReadNtoh n (Construct b p) H = it_SlowReadNtoh n (Construct b p) H \<and>
    it_ReadNtoh n (Construct b p) H = Inr (big_endian (take n (drop (p - b_start b) xs)), Construct b (p + n))"
proof -
  obtain B where "live_ok H (add_mset b B)"
    using run_result(1) [OF assms(1,2)] assms(3) by (metis mset_add set_mset_mset)
  from ReadNtoh_ok [OF this assms(4-6)] show ?thesis by blast
qed

lemma read_example:
  "run_ok [New 3, Header 0 [1, 2]] ([], start_memory)"
  "buffer_run [New 3, Header 0 [1, 2]] ([], start_memory) = Inr (bs, H) \<Longrightarrow>
     bs = [\<lparr>b_data = 1, b_maxZeroAreaStart = 2, b_zeroAreaStart = 2, b_zeroAreaEnd = 5, b_start = 0, b_end = 5\<rparr>]"
  by (auto simp: buffer_eval cong: eval_congs)

lemma read_example_run:
  "\<exists>H. buffer_run [New 3, Header 0 [1, 2]] ([], start_memory) =
     Inr ([\<lparr>b_data = 1, b_maxZeroAreaStart = 2, b_zeroAreaStart = 2, b_zeroAreaEnd = 5, b_start = 0, b_end = 5\<rparr>], H)"
proof -
  have "buffer_run [New 3, Header 0 [1, 2]] ([], start_memory) \<noteq> Inl e" for e
    by (simp add: buffer_eval cong: eval_congs)
  then obtain bs H where run: "buffer_run [New 3, Header 0 [1, 2]] ([], start_memory) = Inr (bs, H)"
    by (cases "buffer_run [New 3, Header 0 [1, 2]] ([], start_memory)") auto
  then show ?thesis using read_example(2) [OF run] by blast
qed

theorem read_ntoh_fast_is_slow_witness:
  "\<exists>H. it_ReadNtoh 4 (Construct \<lparr>b_data = 1, b_maxZeroAreaStart = 2, b_zeroAreaStart = 2, b_zeroAreaEnd = 5, b_start = 0,
      b_end = 5\<rparr> 1) H =
    Inr (0x2000000, Construct \<lparr>b_data = 1, b_maxZeroAreaStart = 2, b_zeroAreaStart = 2, b_zeroAreaEnd = 5, b_start = 0, b_end = 5\<rparr> 5)"
proof -
  let ?b = "\<lparr>b_data = 1, b_maxZeroAreaStart = 2, b_zeroAreaStart = 2, b_zeroAreaEnd = 5, b_start = 0, b_end = 5\<rparr>"
  obtain H where run: "buffer_run [New 3, Header 0 [1, 2]] ([], start_memory) = Inr ([?b], H)" using read_example_run by blast
  have "contents H ?b = map Some [1, 2, 0, 0, 0]"
    using run_result(2) [OF read_example(1) run] by (simp add: numeral_3_eq_3)
  from read_ntoh_fast_is_slow [OF read_example(1) run _ this, of 1 4] show ?thesis
    by (auto simp: big_endian_def)
qed

text \<open>
  C20. \<open>Serialize\<close> and \<open>Deserialize\<close>: given the room that \<open>GetSerializedSize\<close> asks for, a buffer is serialized
  completely, and the bytes give a buffer with the same contents and the same zero area, while no live
  buffer changes (or a 32-bit size wraps around while it is built: \<open>yields\<close> admits \<open>SizeOverflow\<close>);
  \<open>CopyData\<close> gives as much of the contents as is asked for and there.
\<close>

theorem serialize_roundtrip:
  assumes "run_ok ops ([], start_memory)" "buffer_run ops ([], start_memory) = Inr (bs, H)" "b \<in> set bs"
    and "serial_length b + 4 < 2 ^ 32"
  shows "CopyData n b H = Inr (take n (contents H b), min n (Buffer_GetSize b)) \<and>
    (\<exists>s. Buffer_Serialize (GetSerializedSize b) b H = Inr (Some s) \<and>
      yields (Buffer_Deserialize s (GetSerializedSize b + 4) H) (\<lambda>(b', H').
        contents H' b' = contents H b \<and> zero_size b' = zero_size b \<and> map (contents H') bs = map (contents H) bs))"
proof -
  have all: "live_ok H (mset bs)" by (rule run_result(1) [OF assms(1,2)])
  obtain B where B: "mset bs = add_mset b B" using assms(3) by (metis mset_add set_mset_mset)
  have live: "live_ok H (add_mset b B)" using all by (simp add: B)
  define A C where "A = take (b_zeroAreaStart b - b_start b) (contents H b)" and "C = drop (b_zeroAreaEnd b - b_start b) (contents H b)"
  have ok: "buf_ok (h_block H (b_data b)) b" by (rule live_D(1) [OF live])
  then have "length A = b_zeroAreaStart b - b_start b" "length C = b_end b - b_zeroAreaEnd b" and z: "zero_size b < 2 ^ 32"
    using length_contents [OF live] by (auto simp: A_def C_def buf_ok_def Buffer_GetSize_def zero_size_def)
  then have total: "serial_length b + 4 = 16 + padded (length A) + padded (length C)" by (simp add: serial_length_def)
  have size: "GetSerializedSize b + 4 = word_of_nat (16 + padded (length A) + padded (length C))"
    using GetSerializedSize_nat [of b] assms(4) by (simp add: total [symmetric])
  have ser: "Buffer_Serialize (GetSerializedSize b) b H = Inr (Some (word_bytes (word_of_nat (zero_size b)) @
      word_bytes (word_of_nat (length A)) @ field_bytes A @ word_bytes (word_of_nat (length C)) @ field_bytes C))"
    by (rule Serialize_ok [OF live _ order_refl A_def C_def]) (use assms(4) in simp)
  have "contents H b = A @ replicate (zero_size b) (Some 0) @ C"
    using read_parts(3) [OF live] by (simp only: A_def C_def)
  moreover have "yields (Buffer_Deserialize (word_bytes (word_of_nat (zero_size b)) @ word_bytes (word_of_nat (length A)) @
      field_bytes A @ word_bytes (word_of_nat (length C)) @ field_bytes C)
      (word_of_nat (16 + padded (length A) + padded (length C))) H)
    (\<lambda>(b', H'). live_ok H' (add_mset b' (mset bs)) \<and> frame H H' (mset bs) \<and>
       contents H' b' = A @ replicate (zero_size b) (Some 0) @ C \<and> zero_size b' = zero_size b)"
    using assms(4) by (intro serial_roundtrip [OF all _ z]) (simp only: total [symmetric])
  ultimately show ?thesis
    unfolding ser size using CopyData_ok [OF live, of n] by (auto simp: frame_def elim!: yields_mono)
qed

theorem serialize_roundtrip_witness:
  "\<exists>H. CopyData 3 \<lparr>b_data = 1, b_maxZeroAreaStart = 2, b_zeroAreaStart = 2, b_zeroAreaEnd = 5, b_start = 0, b_end = 5\<rparr> H =
    Inr ([Some 1, Some 2, Some 0], 3)"
proof -
  let ?b = "\<lparr>b_data = 1, b_maxZeroAreaStart = 2, b_zeroAreaStart = 2, b_zeroAreaEnd = 5, b_start = 0, b_end = 5\<rparr>"
  obtain H where run: "buffer_run [New 3, Header 0 [1, 2]] ([], start_memory) = Inr ([?b], H)" using read_example_run by blast
  have "contents H ?b = map Some [1, 2, 0, 0, 0]"
    using run_result(2) [OF read_example(1) run] by (simp add: numeral_3_eq_3)
  moreover have "serial_length ?b + 4 < 2 ^ 32" by (simp add: serial_length_def padded_def)
  ultimately show ?thesis
    using serialize_roundtrip [OF read_example(1) run, of ?b 3] by (auto simp: Buffer_GetSize_def)
qed

text \<open>
  C21. The concatenations that do not work, in every state that can be reached.  When the zero areas
  of the two buffers meet and the second has data behind its own (\<open>tail_outcome\<close>), \<open>AddAtEnd\<close> makes
  room for that data behind the merged zero area, but the data is written as many bytes behind its
  place as the merged area is long: that many bytes of the room (or all) stay what they were, the
  last bytes of the data are lost, and the write may end outside of the block, which is undefined.
  When the buffer has no zero area and shares its block with the second (\<open>same_block_outcome\<close>), the
  concatenation stops at an assertion if the block has room for it, and only works if it has not.
\<close>

theorem unsafe_concatenation:
  assumes "run_ok ops ([], start_memory)" "buffer_run ops ([], start_memory) = Inr (bs, H)"
    and "i < length bs" "j < length bs" "i \<noteq> j" "\<not> append_safe (bs ! i) (bs ! j) H"
  shows "if adjacent_zeros (bs ! i) (bs ! j) H then tail_outcome (bs ! i) (bs ! j) H
    else same_block_outcome (bs ! i) (bs ! j) H"
proof -
  have live: "live_ok H (add_mset (bs ! i) (mset (without i bs)))"
    using run_result(1) [OF assms(1,2)] mset_without [OF assms(3)] by simp
  have c: "bs ! j \<in># mset (without i bs)" using set_without [OF assms(3,4)] assms(5) by simp
  show ?thesis
    using merge_with_tail [OF live c] append_same_block [OF live c] assms(6)
    by (auto simp: append_safe_def)
qed

lemma tail_example:
  "run_ok [New 2, New 3, Trailer 1 [7]] ([], start_memory)"
  "case buffer_run [New 2, New 3, Trailer 1 [7]] ([], start_memory) of
     Inl e \<Rightarrow> False
   | Inr (bs, H) \<Rightarrow> length bs = 2 \<and> adjacent_zeros (bs ! 0) (bs ! 1) H \<and> \<not> append_safe (bs ! 0) (bs ! 1) H"
  by (simp_all add: buffer_eval cong: eval_congs)

theorem unsafe_concatenation_witness:
  "\<exists>bs H. buffer_run [New 2, New 3, Trailer 1 [7]] ([], start_memory) = Inr (bs, H) \<and>
     tail_outcome (bs ! 0) (bs ! 1) H"
proof -
  obtain bs H where run: "buffer_run [New 2, New 3, Trailer 1 [7]] ([], start_memory) = Inr (bs, H)"
    using tail_example(2) by (cases "buffer_run [New 2, New 3, Trailer 1 [7]] ([], start_memory)") auto
  have s: "length bs = 2" "adjacent_zeros (bs ! 0) (bs ! 1) H" "\<not> append_safe (bs ! 0) (bs ! 1) H"
    using tail_example(2) unfolding run by simp_all
  have "tail_outcome (bs ! 0) (bs ! 1) H"
    using unsafe_concatenation [OF tail_example(1) run, of 0 1] s by simp
  with run show ?thesis by blast
qed

text \<open>The bytes of that example, and a copy without a zero area appended to its original.\<close>

lemma append_misplaces_tail:
  "(case buffer_run [New 2, New 3, Trailer 1 [7], Append 0 1] ([], start_memory) of
      Inr (bs, H) \<Rightarrow> map (contents H) bs = [replicate 5 (Some 0) @ [None], replicate 3 (Some 0) @ [Some 7]]
    | Inl e \<Rightarrow> False) \<and>
   (case buffer_run [New 0, Trailer 0 [1], Dup 0, Append 0 1] ([], start_memory) of
      Inl e \<Rightarrow> e = NsAssert
    | Inr st \<Rightarrow> False)"
  by (simp add: buffer_eval cong: eval_congs)

end
