(* ===== verification/Spec2Isabelle.thy ===== *)
theory Spec2Isabelle
  imports SlUeProperties TftProperties RlcProperties SlRrcProperties PdcpProperties SimulatorProperties BufferProperties
begin

text \<open>
  \<^bold>\<open>A verification library for the V2X sidelink simulator (an extension of ns-3).\<close>

  \<^bold>\<open>The program.\<close>  The repository is the ns-3 network simulator with the NR sidelink extension of
  its LTE module (\<open>src/src/lte/model\<close>) and a vehicle-to-everything scenario on top of it
  (\<open>src/scratch/simulator\<close>).  Two parts carry the behaviour of such a simulation and are modelled
  here: the \<^emph>\<open>event core\<close> (\<open>src/src/core/model\<close>), which decides what happens when, and the
  \<^emph>\<open>data path of a UE\<close>, through which every V2X packet goes:

    \<^item> The application hands an IP packet to the NAS (\<open>EpcUeNas::Send\<close>).  The NAS looks for a sidelink
      traffic template (\<open>LteSlTft\<close>) that matches the destination; otherwise, in state ACTIVE, the
      \<open>EpcTftClassifier\<close> chooses an EPS bearer by its \<open>EpcTft\<close> templates.
    \<^item> The RRC (\<open>LteUeRrc\<close> with \<open>NrSlUeRrc\<close>) activates sidelink bearers: it makes a PDCP and an RLC
      entity per destination and hands the packets of a bearer to its PDCP entity.  It also computes
      from the pre-configuration the resource pools that MAC and PHY use
      (\<open>NrSlCommResourcePool\<close>).
    \<^item> The PDCP entity (\<open>LtePdcp\<close>) numbers the packets and puts its header in front; the RLC UM entity
      (\<open>LteRlcUm\<close>) queues them, cuts them into PDUs at the transmission opportunities the MAC
      grants, and on the other side reorders and reassembles them.
    \<^item> Upwards, the reassembled SDUs go through PDCP and RRC to the NAS and to the application.

  Time and timers of all of this are events of \<open>DefaultSimulatorImpl\<close>, kept in one of five schedulers
  (list, map, priority queue, binary heap, calendar queue).

  \<^bold>\<open>The theories.\<close>  Each models the file of its name unless said otherwise; the text at its head says
  what it holds.

  \<^emph>\<open>Shared.\<close>  \<open>Prelude\<close>: word types, results (\<open>error + value\<close>) with \<open>rbind\<close> and \<open>rguard\<close>, the
  remainder of C++, \<open>std::map\<close> as the sorted list of its entries behind the locale
  \<open>ordered_map\<close>.  \<open>Packet\<close> (\<open>network/model/packet.cc\<close>, \<open>byte-tag-list.cc\<close>): packets are bytes, byte
  tags and the RLC status tag; the locale \<open>header_codec\<close> is the contract between \<open>AddHeader\<close>,
  \<open>RemoveHeader\<close> and the headers.

  \<^emph>\<open>The packet buffer.\<close>  \<open>Buffer\<close> (\<open>network/model/buffer.h\<close>, \<open>buffer.cc\<close>: blocks, buffers, iterators and
  their operations), \<open>BufferSharing\<close> (the invariant of the blocks and the buffers that share them),
  \<open>BufferOps\<close>, \<open>BufferGrowth\<close>, \<open>BufferWrites\<close> and \<open>BufferReads\<close> (what each operation does to its buffer,
  and that it does nothing to the others), \<open>BufferConcat\<close> (the outcomes of the concatenations that do
  not work), \<open>BufferCodec\<close> (copying out, serialization); properties in \<open>BufferProperties\<close>.  They justify
  that \<open>Packet\<close> treats packets as byte lists.

  \<^emph>\<open>Headers.\<close>  \<open>IpHeaders\<close> (\<open>internet/model/ipv4-header.cc\<close>, \<open>ipv6-header.cc\<close>, \<open>udp-header.cc\<close>,
  \<open>tcp-header.cc\<close>, network order of \<open>Buffer::Iterator\<close>), \<open>LteRlcHeader\<close>, \<open>LtePdcpHeader\<close> (with
  \<open>lte-sl-pdcp-header.cc\<close>), \<open>SequenceNumber10\<close> (\<open>lte-rlc-sequence-number.h\<close>).

  \<^emph>\<open>Bearers and templates.\<close>  \<open>LteSlTft\<close>, \<open>EpcTft\<close>, \<open>EpcTftClassifier\<close>, \<open>EpcUeNas\<close>; properties in
  \<open>TftProperties\<close> and \<open>SlUeProperties\<close>.

  \<^emph>\<open>RLC UM.\<close>  \<open>LteRlcUm\<close> (state and operations, transmitting side), \<open>LteRlcUmRx\<close> (reception and
  reassembly), \<open>LteRlcUmTx\<close> (the abstract segmentation and that the loop refines it), \<open>LteRlcUmReasm\<close>
  (the abstract reassembly, with the fragments it leaves behind, and that both copies of
  \<open>ReassembleAndDeliver\<close> refine it),
  \<open>LteRlcUmSafety\<close> (the invariant of the reception and that no handler stops), \<open>LteRlcUmLink\<close> (two
  entities and a channel); properties in \<open>RlcProperties\<close>.

  \<^emph>\<open>PDCP.\<close>  \<open>LtePdcp\<close>, \<open>SlStack\<close> (PDCP over RLC over a channel); properties in \<open>PdcpProperties\<close>.

  \<^emph>\<open>Sidelink configuration.\<close>  \<open>LteRrcSap\<close> and \<open>NrSlPreconfig\<close> (\<open>lte-rrc-sap.h\<close>, \<open>.cc\<close>: the
  information elements and the conversions of their enumerations), \<open>NrSlUeRrc\<close>, \<open>NrSlCommResourcePool\<close>,
  \<open>LteUeRrcSl\<close> (the sidelink operations of \<open>lte-ue-rrc.cc\<close>); properties in \<open>SlRrcProperties\<close>,
  \<open>SlPoolProperties\<close> and \<open>SlUeProperties\<close>.

  \<^emph>\<open>The UE.\<close>  \<open>SlUe\<close> joins NAS, RRC, PDCP and RLC as the SAP member classes do (\<open>lte-as-sap.h\<close>,
  \<open>nr-sl-rlc-sap.h\<close>, \<open>nr-sl-pdcp-sap.h\<close>); \<open>SlUeLink\<close> proves the path from NAS to NAS.

  \<^emph>\<open>The event core.\<close>  \<open>Scheduler\<close> (events and keys of \<open>scheduler.h\<close>; the locales \<open>event_queue\<close> and
  \<open>event_list\<close>, the contract of a scheduler, and the abstract queue as a set of events),
  \<open>SimpleSchedulers\<close> (list, map, priority queue), \<open>HeapScheduler\<close> (a refinement without \<open>Remove\<close>, and
  what \<open>Remove\<close> does to the order of the heap), \<open>CalendarScheduler\<close> and
  \<open>CalendarQueue\<close> (model and proof of the contract), \<open>DefaultSimulatorImpl\<close> (with \<open>event-id.cc\<close> and
  \<open>event-impl.cc\<close>), \<open>SimulatorSpec\<close> (the simulator on a set of events: invariant, safety, expiry),
  \<open>SimulatorRefine\<close> (the locale \<open>simulator\<close>: the simulator on any scheduler that meets the contract
  behaves as on the set); properties in \<open>SimulatorProperties\<close>.

  \<^bold>\<open>How the code is modelled.\<close>  Objects are records of their members, in the order of the class;
  integers have the width of the source; every assertion, abort, fatal error, exception, null or empty
  access is an error value, and undefined behaviour is one too.  A call of another object is a value in
  a list of calls (\<open>um_out\<close>, \<open>pd_out\<close>, \<open>ue_out\<close>, \<open>nas_out\<close>), which the theory of the composition
  hands to the other object.  An event is an interaction tree: the calls it makes on the simulator, each
  of which may depend on the answers before.  Shared objects are positions (\<open>ue_objects\<close>) or identities
  (\<open>EpcTft\<close>, \<open>EventImpl\<close>) with a table of what they are.

  \<^bold>\<open>What the theorems show.\<close>
    \<^item> \<^emph>\<open>Delivery\<close>: from NAS to NAS, from PDCP to PDCP and from RLC to RLC, over an in-order channel,
      packets arrive unchanged and in order, what arrives is a prefix of what found room in the queue,
      and all of that arrives once the queue is drained.  Each level rests on the next one: the NAS path
      on the link invariant of RLC, RLC on the refinements of segmentation and reassembly, those on the
      round trips of the headers.
    \<^item> \<^emph>\<open>Choice of the bearer\<close>: which bearer a packet gets, that all fragments of a datagram get the
      same one, which addresses a template matches.
    \<^item> \<^emph>\<open>Reception in any order\<close>: the reception handlers of RLC never stop, keep their invariant,
      discard duplicates, and leave no gap without a timer; the reassembly refines its specification
      for every PDU in every state, the transitions the source calls not possible included.
    \<^item> \<^emph>\<open>Resource pools\<close>: a pool covers exactly the uplink slots its bitmap selects, the same in MAC and
      PHY; the transmission opportunities are exactly the sidelink slots of the selection window; the
      TDD patterns that are accepted are exactly those that spell a list of slots.
    \<^item> \<^emph>\<open>Bearer tables\<close>: invariants of the tables of RRC and NAS over all reachable states.
    \<^item> \<^emph>\<open>Event core\<close>: whatever the events do, a simulation never fails inside the simulator, runs events
      in the order of their times, never runs a removed or cancelled one; an event is expired exactly
      when it has run or was cancelled; all schedulers give the same run (the binary heap as long as
      nothing is removed); the run ends when the events end; changing the scheduler loses no event.
    \<^item> \<^emph>\<open>Packet buffer\<close>: buffers share blocks of memory, are copied lazily and grow in place, and yet any
      number of them under any sequence of operations behaves as independent byte lists; only the
      concatenations that \<open>append_safe\<close> excludes do not, and their outcomes are characterised.
    \<^item> \<^emph>\<open>Deviations\<close>: theorems that pin down where the code does not do what its comments say, each
      listed as a finding: among others the wrap-around of the receive window, the pass over the PDUs
      outside the window, the comparison of templates and of pools, the reception bearers in the table
      of the transmission bearers, \<open>Remove\<close> on the binary heap, the concatenation of buffers.

  \<^bold>\<open>Bounds and fuel.\<close>  Loops whose end depends on the data carry fuel, running out of it is the error
  \<open>Diverges\<close> (\<open>OutOfFuel\<close> in the run loop), and theorems show that it does not happen: 1024 turns for
  the loops over sequence numbers (\<open>sn_fuel\<close>), one more than the length of the reception buffer for the
  scan for \<open>VR(UR)\<close>, pattern length times bitmap length plus one for the physical pool, the number of
  buckets for the scan of the calendar queue, the number of events executed for \<open>Run\<close>.  The loop over
  the slots of the selection window, the deletion of bearers and the two loops of the heap are functions
  with a measure.  The calendar queue is correct for times below \<open>2 ^ 46\<close>, more than 19 simulated hours in
  nanoseconds, because its width is computed as three times a sum of differences without overflow; the
  simulator assumes fewer than \<open>2 ^ 31\<close> scheduled events and times below \<open>2 ^ 63\<close>, which a hypothesis
  on the trace states.  Offsets in a buffer are natural numbers; where a 32-bit sum would wrap around,
  the operation has the outcome \<open>SizeOverflow\<close>, which the properties of the buffer allow.

  \<^bold>\<open>Parameters.\<close>  Code outside the repository, or outside the modelled parts, is an argument: \<open>env\<close>
  (the SAP pointers and the allocation of logical channels by the MAC, the NR module is not in the
  repository), the conversion of milliseconds to slots by floating point in \<open>NrSlCommResourcePool\<close>,
  \<open>lte\<close> (the LTE part of the RRC), \<open>notify\<close> (the code of the events) and \<open>others\<close> (the calls of other
  threads) of the simulator, \<open>tfts\<close> (what the shared templates are).

  \<^bold>\<open>Not modelled.\<close>  The NR MAC and PHY (their directory is empty in the repository); the LTE MAC, PHY,
  eNB and core network, and the LTE part of the UE's RRC; RLC AM; the ASN.1 encoding of RRC messages;
  the other stacks of ns-3 (Wi-Fi, WiMAX, mesh, sensor networks, underwater networks, ad-hoc routing,
  TCP); propagation, mobility and antennas, which compute in floating point; random variables;
  attributes, logging, tracing and callbacks as such; helpers, examples, tests and the scenario's own
  files, which configure the simulation and write its results to files and a database.  Next in the
  plan: RLC AM and the ASN.1 encoding.
\<close>

end
